(* ===== verification/Prelude.thy ===== *)
theory Prelude
  imports Main "HOL-Library.Word" "HOL-Library.Monad_Syntax"
begin

text \<open>
  Shared vocabulary of the development: the machine types of the C++ code, wide strings,
  bounds-checked array access, and the collections of rewrite rules the component theories
  fill and use.

  The code is C++, so an operation either returns normally or has no defined result: a read or
  write outside an array, a call through a null pointer, an uncaught C++ exception. Operations
  that can do that return an \<open>option\<close>; \<open>None\<close> is "no defined result". The error returns the
  code itself makes (\<open>return false\<close>, \<open>return NULL\<close>) are ordinary values of the model.
\<close>

unbundle bit_operations_syntax

section \<open>Machine types\<close>

type_synonym byte = "8 word"
type_synonym u32 = "32 word"
type_synonym u64 = "64 word"

text \<open>A pointer is the 64 bits the code stores for it; the null pointer is 0.\<close>

type_synonym ptr = "64 word"

text \<open>\<open>wchar_t\<close> is 32 bits wide; a \<open>std::wstring\<close> is the list of its characters.\<close>

type_synonym wchar = "32 word"
type_synonym wstring = "32 word list"

definition wstr :: "string \<Rightarrow> wstring" where
  "wstr s = map of_char s"

text \<open>The conversion \<open>int x = (uint64_t) w\<close>: the low 32 bits, read as two's complement.\<close>

definition to_int32 :: "u64 \<Rightarrow> int" where
  "to_int32 w = sint (ucast w :: 32 word)"

section \<open>Collections\<close>

named_theorems vm_defs \<open>definitions of the interpreter's small operations\<close>
named_theorems wf_intros \<open>introduction rules of the well-formedness predicates\<close>

section \<open>Array access with the bounds the C++ code does not check\<close>

definition idx :: "'a list \<Rightarrow> int \<Rightarrow> 'a option" where
  "idx xs i = (if 0 \<le> i \<and> i < int (length xs) then Some (xs ! nat i) else None)"

definition upd :: "'a list \<Rightarrow> int \<Rightarrow> 'a \<Rightarrow> 'a list option" where
  "upd xs i v = (if 0 \<le> i \<and> i < int (length xs) then Some (xs[nat i := v]) else None)"

definition guard :: "bool \<Rightarrow> unit option" where
  "guard b = (if b then Some () else None)"

lemma idx_nat [simp]: "idx xs (int n) = (if n < length xs then Some (xs ! n) else None)"
  by (simp add: idx_def)

lemma upd_nat [simp]: "upd xs (int n) v = (if n < length xs then Some (xs[n := v]) else None)"
  by (simp add: upd_def)

lemma idx_None_iff: "idx xs i = None \<longleftrightarrow> i < 0 \<or> int (length xs) \<le> i"
  by (auto simp: idx_def)

lemma upd_None_iff: "upd xs i v = None \<longleftrightarrow> i < 0 \<or> int (length xs) \<le> i"
  by (auto simp: upd_def)

lemma idx_SomeD: "idx xs i = Some x \<Longrightarrow> 0 \<le> i \<and> i < int (length xs) \<and> x = xs ! nat i"
  by (auto simp: idx_def split: if_splits)

lemma upd_SomeD: "upd xs i v = Some ys \<Longrightarrow> 0 \<le> i \<and> i < int (length xs) \<and> ys = xs[nat i := v]"
  by (auto simp: upd_def split: if_splits)

lemma upd_length: "upd xs i v = Some ys \<Longrightarrow> length ys = length xs"
  by (auto dest: upd_SomeD)

lemma idx_upd_same: "upd xs i v = Some ys \<Longrightarrow> idx ys i = Some v"
  by (auto simp: upd_def idx_def split: if_splits)

lemma idx_upd_other: "upd xs i v = Some ys \<Longrightarrow> j \<noteq> i \<Longrightarrow> idx ys j = idx xs j"
  by (auto simp: upd_def idx_def nth_list_update split: if_splits)

lemma guard_Some [simp]: "guard b = Some u \<longleftrightarrow> b"
  by (simp add: guard_def)

lemma guard_True [simp]: "guard True = Some ()"
  by (simp add: guard_def)

lemma guard_False [simp]: "guard False = None"
  by (simp add: guard_def)

lemma bind_SomeE:
  assumes "Option.bind m f = Some y"
  obtains x where "m = Some x" and "f x = Some y"
  using assms by (cases m) auto

section \<open>Lists\<close>

lemma find_hit:
  assumes "x \<in> set xs" and "P x" and "\<And>y. y \<in> set xs \<Longrightarrow> P y \<Longrightarrow> y = x"
  shows "find P xs = Some x"
proof (cases "find P xs")
  case None
  with assms(1,2) show ?thesis by (auto simp: find_None_iff)
next
  case (Some y)
  then obtain i where "i < length xs" and "P (xs ! i)" and "y = xs ! i"
    by (auto simp: find_Some_iff)
  with assms(3) [of y] Some show ?thesis by auto
qed

lemma map_of_fresh_snoc: "k \<notin> fst ` set ps \<Longrightarrow> map_of (ps @ [(k, v)]) = (map_of ps)(k \<mapsto> v)"
  by (induction ps) (auto simp: fun_eq_iff)

section \<open>Words\<close>

lemma sint_range64: "- (2 ^ 63) \<le> sint (w :: 64 word) \<and> sint w < 2 ^ 63"
  using sint_range_size [of w] by (simp add: word_size)

lemma word_of_int_sint64 [simp]: "word_of_int (sint (w :: 64 word)) = w"
  by simp

lemma sint_of_int64: "sint (word_of_int k :: u64) = signed_take_bit 63 k"
  by (simp only: sint_sbintrunc') simp

lemma sint_of_int64_small: "- (2 ^ 63) \<le> k \<Longrightarrow> k < 2 ^ 63 \<Longrightarrow> sint (word_of_int k :: u64) = k"
  by (simp add: sint_of_int64 signed_take_bit_int_eq_self)

lemma sint_inject64: "sint (a :: u64) = sint b \<longleftrightarrow> a = b"
  by (metis word_of_int_sint64)

lemma to_int32_small:
  assumes "n < 2 ^ 31"
  shows "to_int32 (of_nat n) = int n"
proof -
  have "(ucast (of_nat n :: u64) :: 32 word) = of_nat n"
    using assms by (simp add: unsigned_of_nat take_bit_nat_eq_self)
  with assms show ?thesis
    by (simp add: to_int32_def signed_of_nat signed_take_bit_int_eq_self)
qed

end
