(* ===== verification/Opcodes.thy ===== *)
theory Opcodes
  imports Prelude
begin

text \<open>
  The bytecode (include/b0rk/opcodes.h, src/libb0rk/opcodes.cpp): the opcode numbers, the number
  of inline arguments of each opcode, and which argument, if any, is a code address. Opcodes are
  computed with (\<open>opcode + 0x10\<close> selects the integer variant, \<open>op & 0xf00\<close> the group), so the
  assembler and the interpreter handle the numbers; \<open>opcode\<close> names them.
\<close>

datatype (plugins only: code size) opcode =
    OP_NOP
  | OP_LOAD_VAR | OP_STORE_VAR | OP_LOAD_FIELD | OP_STORE_FIELD | OP_LOAD_FIELD_NAMED
  | OP_STORE_FIELD_NAMED | OP_LOAD_STATIC_FIELD | OP_STORE_STATIC_FIELD | OP_LOAD_ARRAY
  | OP_STORE_ARRAY | OP_INC_VAR | OP_INC_VARD
  | OP_ADD | OP_SUB | OP_MUL | OP_DIV | OP_AND | OP_NOT
  | OP_ADDI | OP_SUBI | OP_MULI | OP_DIVI | OP_ANDI | OP_NOTI
  | OP_ADDD | OP_SUBD | OP_MULD | OP_DIVD
  | OP_PUSHVAR | OP_PUSHOBJ | OP_DUP | OP_POP | OP_SWAP | OP_PUSHI | OP_PUSHD
  | OP_PUSHCE | OP_PUSHCNE | OP_PUSHCL | OP_PUSHCLE | OP_PUSHCG | OP_PUSHCGE
  | OP_CALL | OP_CALL_STATIC | OP_CALL_NAMED | OP_CALL_OBJ | OP_NEW | OP_NEW_FUNCTION | OP_RETURN
  | OP_CMP | OP_CMPI | OP_CMPD
  | OP_JMP | OP_BEQ | OP_BNE | OP_BL | OP_BLE | OP_BG | OP_BGE
  | OP_THROW | OP_PUSHTRY | OP_POPTRY

primrec opcode_num :: "opcode \<Rightarrow> u64" where
  "opcode_num OP_NOP = 0x00"
| "opcode_num OP_LOAD_VAR = 0x101"
| "opcode_num OP_STORE_VAR = 0x102"
| "opcode_num OP_LOAD_FIELD = 0x103"
| "opcode_num OP_STORE_FIELD = 0x104"
| "opcode_num OP_LOAD_FIELD_NAMED = 0x105"
| "opcode_num OP_STORE_FIELD_NAMED = 0x106"
| "opcode_num OP_LOAD_STATIC_FIELD = 0x107"
| "opcode_num OP_STORE_STATIC_FIELD = 0x108"
| "opcode_num OP_LOAD_ARRAY = 0x109"
| "opcode_num OP_STORE_ARRAY = 0x10a"
| "opcode_num OP_INC_VAR = 0x10b"
| "opcode_num OP_INC_VARD = 0x12b"
| "opcode_num OP_ADD = 0x200"
| "opcode_num OP_SUB = 0x201"
| "opcode_num OP_MUL = 0x202"
| "opcode_num OP_DIV = 0x203"
| "opcode_num OP_AND = 0x204"
| "opcode_num OP_NOT = 0x205"
| "opcode_num OP_ADDI = 0x210"
| "opcode_num OP_SUBI = 0x211"
| "opcode_num OP_MULI = 0x212"
| "opcode_num OP_DIVI = 0x213"
| "opcode_num OP_ANDI = 0x214"
| "opcode_num OP_NOTI = 0x215"
| "opcode_num OP_ADDD = 0x220"
| "opcode_num OP_SUBD = 0x221"
| "opcode_num OP_MULD = 0x222"
| "opcode_num OP_DIVD = 0x223"
| "opcode_num OP_PUSHVAR = 0x302"
| "opcode_num OP_PUSHOBJ = 0x303"
| "opcode_num OP_DUP = 0x304"
| "opcode_num OP_POP = 0x305"
| "opcode_num OP_SWAP = 0x306"
| "opcode_num OP_PUSHI = 0x310"
| "opcode_num OP_PUSHD = 0x320"
| "opcode_num OP_PUSHCE = 0x410"
| "opcode_num OP_PUSHCNE = 0x411"
| "opcode_num OP_PUSHCL = 0x412"
| "opcode_num OP_PUSHCLE = 0x413"
| "opcode_num OP_PUSHCG = 0x414"
| "opcode_num OP_PUSHCGE = 0x415"
| "opcode_num OP_CALL = 0x500"
| "opcode_num OP_CALL_STATIC = 0x501"
| "opcode_num OP_CALL_NAMED = 0x502"
| "opcode_num OP_CALL_OBJ = 0x503"
| "opcode_num OP_NEW = 0x504"
| "opcode_num OP_NEW_FUNCTION = 0x506"
| "opcode_num OP_RETURN = 0x507"
| "opcode_num OP_CMP = 0x600"
| "opcode_num OP_CMPI = 0x601"
| "opcode_num OP_CMPD = 0x602"
| "opcode_num OP_JMP = 0x700"
| "opcode_num OP_BEQ = 0x701"
| "opcode_num OP_BNE = 0x702"
| "opcode_num OP_BL = 0x703"
| "opcode_num OP_BLE = 0x704"
| "opcode_num OP_BG = 0x705"
| "opcode_num OP_BGE = 0x706"
| "opcode_num OP_THROW = 0x800"
| "opcode_num OP_PUSHTRY = 0x801"
| "opcode_num OP_POPTRY = 0x802"

definition OPCODE_MAX :: u64 where
  "OPCODE_MAX = 0x803"

definition opcodes :: "opcode list" where
  "opcodes =
    [OP_NOP, OP_LOAD_VAR, OP_STORE_VAR, OP_LOAD_FIELD, OP_STORE_FIELD, OP_LOAD_FIELD_NAMED,
     OP_STORE_FIELD_NAMED, OP_LOAD_STATIC_FIELD, OP_STORE_STATIC_FIELD, OP_LOAD_ARRAY,
     OP_STORE_ARRAY, OP_INC_VAR, OP_INC_VARD,
     OP_ADD, OP_SUB, OP_MUL, OP_DIV, OP_AND, OP_NOT,
     OP_ADDI, OP_SUBI, OP_MULI, OP_DIVI, OP_ANDI, OP_NOTI,
     OP_ADDD, OP_SUBD, OP_MULD, OP_DIVD,
     OP_PUSHVAR, OP_PUSHOBJ, OP_DUP, OP_POP, OP_SWAP, OP_PUSHI, OP_PUSHD,
     OP_PUSHCE, OP_PUSHCNE, OP_PUSHCL, OP_PUSHCLE, OP_PUSHCG, OP_PUSHCGE,
     OP_CALL, OP_CALL_STATIC, OP_CALL_NAMED, OP_CALL_OBJ, OP_NEW, OP_NEW_FUNCTION, OP_RETURN,
     OP_CMP, OP_CMPI, OP_CMPD,
     OP_JMP, OP_BEQ, OP_BNE, OP_BL, OP_BLE, OP_BG, OP_BGE,
     OP_THROW, OP_PUSHTRY, OP_POPTRY]"

definition opcode_dec :: "u64 \<Rightarrow> opcode option" where
  "opcode_dec w = find (\<lambda>c. opcode_num c = w) opcodes"

text \<open>The macros \<open>OPCODE_TYPE\<close>, \<open>OPCODE_IS_VAR\<close>, \<open>OPCODE_IS_ARITHMETIC\<close>, \<open>OPCODE_IS_STACK\<close>.\<close>

definition OPCODE_TYPE :: "u64 \<Rightarrow> u64" where
  "OPCODE_TYPE w = w AND 0xf00"

definition OPCODE_IS_VAR :: "u64 \<Rightarrow> bool" where
  "OPCODE_IS_VAR w \<longleftrightarrow> OPCODE_TYPE w = 0x100"

definition OPCODE_IS_ARITHMETIC :: "u64 \<Rightarrow> bool" where
  "OPCODE_IS_ARITHMETIC w \<longleftrightarrow> OPCODE_TYPE w = 0x200"

definition OPCODE_IS_STACK :: "u64 \<Rightarrow> bool" where
  "OPCODE_IS_STACK w \<longleftrightarrow> OPCODE_TYPE w = 0x300"

section \<open>The opcode information table\<close>

record OpCodeInfo =
  info_name :: string
  info_format :: string
  info_args :: nat
  info_address :: int

text \<open>
  \<open>OpCodeInfo::init\<close> as a table from the opcode to the name, the disassembler's format, the number
  of arguments and the index of the address argument (\<open>-1\<close> where the code leaves the default).
\<close>

definition mk_info :: "string \<Rightarrow> string \<Rightarrow> nat \<Rightarrow> int \<Rightarrow> OpCodeInfo" where
  "mk_info n f a ad = \<lparr>info_name = n, info_format = f, info_args = a, info_address = ad\<rparr>"

primrec opcode_info :: "opcode \<Rightarrow> OpCodeInfo" where
  "opcode_info OP_NOP = mk_info ''NOP'' '''' 0 (-1)"
| "opcode_info OP_LOAD_VAR = mk_info ''LOAD_VAR'' ''v%d'' 1 (-1)"
| "opcode_info OP_STORE_VAR = mk_info ''STORE_VAR'' ''v%d'' 1 (-1)"
| "opcode_info OP_LOAD_FIELD = mk_info ''LOAD_FIELD'' ''f%d'' 1 (-1)"
| "opcode_info OP_STORE_FIELD = mk_info ''STORE_FIELD'' ''f%d'' 1 (-1)"
| "opcode_info OP_LOAD_FIELD_NAMED = mk_info ''LOAD_FIELD_NAMED'' ''<pop>'' 0 (-1)"
| "opcode_info OP_STORE_FIELD_NAMED = mk_info ''STORE_FIELD_NAMED'' ''<pop>'' 0 (-1)"
| "opcode_info OP_LOAD_STATIC_FIELD = mk_info ''LOAD_STATIC_FIELD'' ''class=%C, field=%d'' 2 (-1)"
| "opcode_info OP_STORE_STATIC_FIELD = mk_info ''STORE_STATIC_FIELD'' ''class=%C, field=%d'' 2 (-1)"
| "opcode_info OP_LOAD_ARRAY = mk_info ''LOAD_ARRAY'' '''' 0 (-1)"
| "opcode_info OP_STORE_ARRAY = mk_info ''STORE_ARRAY'' '''' 0 (-1)"
| "opcode_info OP_INC_VAR = mk_info ''INC_VAR'' ''v%d, %d'' 2 (-1)"
| "opcode_info OP_INC_VARD = mk_info ''INC_VARD'' ''v%d, %f'' 2 (-1)"
| "opcode_info OP_ADD = mk_info ''ADD'' '''' 0 (-1)"
| "opcode_info OP_SUB = mk_info ''SUB'' '''' 0 (-1)"
| "opcode_info OP_MUL = mk_info ''MUL'' '''' 0 (-1)"
| "opcode_info OP_DIV = mk_info ''DIV'' '''' 0 (-1)"
| "opcode_info OP_AND = mk_info ''AND'' '''' 0 (-1)"
| "opcode_info OP_NOT = mk_info ''NOT'' '''' 0 (-1)"
| "opcode_info OP_ADDI = mk_info ''ADDI'' '''' 0 (-1)"
| "opcode_info OP_SUBI = mk_info ''SUBI'' '''' 0 (-1)"
| "opcode_info OP_MULI = mk_info ''MULI'' '''' 0 (-1)"
| "opcode_info OP_DIVI = mk_info ''DIVI'' '''' 0 (-1)"
| "opcode_info OP_ANDI = mk_info ''ANDI'' '''' 0 (-1)"
| "opcode_info OP_NOTI = mk_info ''NOTI'' '''' 0 (-1)"
| "opcode_info OP_ADDD = mk_info ''ADDD'' '''' 0 (-1)"
| "opcode_info OP_SUBD = mk_info ''SUBD'' '''' 0 (-1)"
| "opcode_info OP_MULD = mk_info ''MULD'' '''' 0 (-1)"
| "opcode_info OP_DIVD = mk_info ''DIVD'' '''' 0 (-1)"
| "opcode_info OP_PUSHI = mk_info ''PUSHI'' ''%d'' 1 (-1)"
| "opcode_info OP_PUSHD = mk_info ''PUSHD'' ''%f'' 1 (-1)"
| "opcode_info OP_PUSHVAR = mk_info ''PUSHVAR'' ''v%%d'' 1 (-1)"
| "opcode_info OP_PUSHOBJ = mk_info ''PUSHOBJ'' ''object=%O'' 1 (-1)"
| "opcode_info OP_POP = mk_info ''POP'' '''' 0 (-1)"
| "opcode_info OP_DUP = mk_info ''DUP'' '''' 0 (-1)"
| "opcode_info OP_SWAP = mk_info ''SWAP'' '''' 0 (-1)"
| "opcode_info OP_PUSHCE = mk_info ''PUSHCE'' '''' 0 (-1)"
| "opcode_info OP_PUSHCNE = mk_info ''PUSHCNE'' '''' 0 (-1)"
| "opcode_info OP_PUSHCL = mk_info ''PUSHCL'' '''' 0 (-1)"
| "opcode_info OP_PUSHCLE = mk_info ''PUSHCLE'' '''' 0 (-1)"
| "opcode_info OP_PUSHCG = mk_info ''PUSHCG'' '''' 0 (-1)"
| "opcode_info OP_PUSHCGE = mk_info ''PUSHCGE'' '''' 0 (-1)"
| "opcode_info OP_CALL = mk_info ''CALL'' ''function=%F, args=%d'' 2 (-1)"
| "opcode_info OP_CALL_STATIC = mk_info ''CALL_STATIC'' ''function=%F, args=%d'' 2 (-1)"
| "opcode_info OP_CALL_NAMED = mk_info ''CALL_NAMED'' ''(%d args)'' 1 (-1)"
| "opcode_info OP_CALL_OBJ = mk_info ''CALL_OBJ'' ''(%d args)'' 1 (-1)"
| "opcode_info OP_NEW = mk_info ''NEW'' ''class=%C, args=%d'' 2 (-1)"
| "opcode_info OP_NEW_FUNCTION = mk_info ''NEW_FUNCTION'' ''function=%x'' 1 (-1)"
| "opcode_info OP_RETURN = mk_info ''RETURN'' '''' 0 (-1)"
| "opcode_info OP_CMP = mk_info ''CMP'' '''' 0 (-1)"
| "opcode_info OP_CMPI = mk_info ''CMPI'' '''' 0 (-1)"
| "opcode_info OP_CMPD = mk_info ''CMPD'' '''' 0 (-1)"
| "opcode_info OP_JMP = mk_info ''JMP'' ''0x%x'' 1 0"
| "opcode_info OP_BEQ = mk_info ''BEQ'' ''0x%x'' 1 0"
| "opcode_info OP_BNE = mk_info ''BNE'' ''0x%x'' 1 0"
| "opcode_info OP_BL = mk_info ''BL'' ''0x%x'' 1 0"
| "opcode_info OP_BLE = mk_info ''BLE'' ''0x%x'' 1 0"
| "opcode_info OP_BG = mk_info ''BG'' ''0x%x'' 1 0"
| "opcode_info OP_BGE = mk_info ''BGE'' ''0x%x'' 1 0"
| "opcode_info OP_THROW = mk_info ''THROW'' '''' 0 (-1)"
| "opcode_info OP_PUSHTRY = mk_info ''PUSHTRY'' ''v%d, 0x%x'' 2 1"
| "opcode_info OP_POPTRY = mk_info ''POPTRY'' '''' 0 (-1)"

text \<open>
  \<open>getOpcodeInfo\<close>: out of range gives the UNKNOWN entry; a number in range that \<open>init\<close> never
  filled gives the zero-initialised entry of the static array, whose \<open>address\<close> is 0, not \<open>-1\<close>.
\<close>

definition getOpcodeInfo :: "u64 \<Rightarrow> OpCodeInfo" where
  "getOpcodeInfo w =
     (if OPCODE_MAX \<le> w then mk_info ''UNKNOWN'' '''' 0 (-1)
      else case opcode_dec w of Some c \<Rightarrow> opcode_info c | None \<Rightarrow> mk_info '''' '''' 0 0)"

section \<open>Facts\<close>

lemma opcodes_complete [simp]: "c \<in> set opcodes"
  by (cases c) (simp_all add: opcodes_def)

lemma opcode_dec_num [simp]: "opcode_dec (opcode_num c) = Some c"
  by (cases c) (simp_all add: opcode_dec_def opcodes_def)

lemma opcode_num_inject: "opcode_num a = opcode_num b \<longleftrightarrow> a = b"
  by (metis opcode_dec_num option.inject)

lemma opcode_dec_SomeD: "opcode_dec w = Some c \<Longrightarrow> opcode_num c = w"
  by (auto simp: opcode_dec_def find_Some_iff)

lemma opcode_num_less_max [simp]: "opcode_num c < OPCODE_MAX"
  by (cases c) (simp_all add: OPCODE_MAX_def)

lemma getOpcodeInfo_num [simp]: "getOpcodeInfo (opcode_num c) = opcode_info c"
  using opcode_num_less_max [of c] by (auto simp: getOpcodeInfo_def not_le [symmetric])

lemma mk_info_sel [simp]:
  "info_args (mk_info n f a ad) = a" "info_address (mk_info n f a ad) = ad"
  "info_name (mk_info n f a ad) = n" "info_format (mk_info n f a ad) = f"
  by (simp_all add: mk_info_def)

text \<open>The address argument, where there is one, is one of the arguments.\<close>

lemma info_address_bound: "info_address (opcode_info c) < int (info_args (opcode_info c))
    \<or> info_address (opcode_info c) = - 1"
  by (cases c) simp_all

end
