(* ===== verification/Tokens.thy ===== *)
theory Tokens
  imports Prelude
begin

text \<open>
  The vocabulary of the lexer (include/b0rk/token.h): character classes, token types and the
  tokens the lexer hands to the parser.
\<close>

datatype CharType = ALPHA | DIGIT | SYMBOL | WHITESPACE | OTHER

datatype (plugins only: code size) TokenType =
    TOK_DOT | TOK_COMMA | TOK_SEMICOLON | TOK_COLON | TOK_EQUALS | TOK_ASSIGN | TOK_ASTERISK
  | TOK_NOT | TOK_SLASH_FORWARD | TOK_LOGICAL_AND | TOK_NOT_EQUAL | TOK_LESS_THAN
  | TOK_LESS_THAN_EQUAL | TOK_GREATER_THAN | TOK_GREATER_THAN_EQUAL | TOK_DECREMENT
  | TOK_INCREMENT | TOK_ADD_ASSIGN | TOK_SUB_ASSIGN | TOK_PLUS | TOK_MINUS | TOK_BRACE_LEFT
  | TOK_BRACE_RIGHT | TOK_BRACKET_LEFT | TOK_BRACKET_RIGHT | TOK_SQUARE_BRACKET_LEFT
  | TOK_SQUARE_BRACKET_RIGHT | TOK_DOUBLE_QUOTE | TOK_QUOTE | TOK_IMPORT | TOK_CLASS
  | TOK_EXTENDS | TOK_VAR | TOK_FUNCTION | TOK_STATIC | TOK_NEW | TOK_IF | TOK_ELSE | TOK_FOR
  | TOK_WHILE | TOK_RETURN | TOK_IDENTIFIER | TOK_LITERAL | TOK_STRING | TOK_INTEGER
  | TOK_DOUBLE | TOK_EXPRESSION | TOK_TRY | TOK_THROW | TOK_CATCH | TOK_ANY

text \<open>
  \<open>struct Token\<close>: the lexer sets only the members that go with the token's type; the others are
  left uninitialised by the code and are 0 (the empty string) here. \<open>i\<close> is a C++ \<open>int\<close>.
\<close>

record Token =
  tok_type :: TokenType
  tok_line :: int
  tok_string :: wstring
  tok_i :: int
  tok_d :: u64

definition blank_token :: "TokenType \<Rightarrow> int \<Rightarrow> Token" where
  "blank_token t line = \<lparr>tok_type = t, tok_line = line, tok_string = [], tok_i = 0, tok_d = 0\<rparr>"

end
