(* ===== verification/Doubles.thy ===== *)
theory Doubles
  imports Prelude
begin

text \<open>
  The C++ type \<open>double\<close>: IEEE 754 binary64, kept as its 64 bits, which is how the bytecode
  (\<open>PUSHD\<close>), the union in \<open>Value\<close> and the optimiser's \<open>double_to_int64\<close> store it. The
  operations are computed exactly on integers and rounded once, to nearest, ties to even (the
  default rounding mode; the program never changes it). A NaN result is the one quiet NaN
  \<open>nan_bits\<close>: the standard leaves its payload and sign open, and nothing in the program reads
  them.
\<close>

section \<open>Decoding\<close>

datatype dclass = DNaN | DInf bool | DFin bool int int
  \<comment> \<open>\<open>DFin s m e\<close> is \<open>(-1)^s * m * 2^e\<close>; the sign of zero is kept\<close>

definition d_sign :: "u64 \<Rightarrow> bool" where
  "d_sign w = bit w 63"

definition d_expo :: "u64 \<Rightarrow> int" where
  "d_expo w = uint (drop_bit 52 w AND 0x7FF)"

definition d_frac :: "u64 \<Rightarrow> int" where
  "d_frac w = uint (w AND 0xFFFFFFFFFFFFF)"

definition d_decode :: "u64 \<Rightarrow> dclass" where
  "d_decode w =
     (if d_expo w = 2047 then (if d_frac w = 0 then DInf (d_sign w) else DNaN)
      else if d_expo w = 0 then DFin (d_sign w) (d_frac w) (- 1074)
      else DFin (d_sign w) (d_frac w + 2 ^ 52) (d_expo w - 1075))"

section \<open>Rounding and encoding\<close>

fun bitlen :: "int \<Rightarrow> int" where
  "bitlen n = (if n \<le> 0 then 0 else 1 + bitlen (n div 2))"

declare bitlen.simps [simp del]

definition nan_bits :: u64 where
  "nan_bits = 0x7FF8000000000000"

definition inf_bits :: "bool \<Rightarrow> u64" where
  "inf_bits s = (if s then 0xFFF0000000000000 else 0x7FF0000000000000)"

definition sign_bits :: "bool \<Rightarrow> int" where
  "sign_bits s = (if s then 2 ^ 63 else 0)"

text \<open>Drop the low \<open>k\<close> bits of \<open>m\<close>, rounding to nearest, ties to even.\<close>

definition round_shift :: "int \<Rightarrow> nat \<Rightarrow> int" where
  "round_shift m k =
     (if k = 0 then m
      else let q = m div 2 ^ k; r = m mod 2 ^ k; h = 2 ^ (k - 1)
           in if h < r \<or> (r = h \<and> odd q) then q + 1 else q)"

text \<open>The double nearest to \<open>(-1)^s * m * 2^e\<close>.\<close>

definition d_round :: "bool \<Rightarrow> int \<Rightarrow> int \<Rightarrow> u64" where
  "d_round s m e =
     (let t = max (e + bitlen m - 53) (- 1074);
          q = (if t \<le> e then m * 2 ^ nat (e - t) else round_shift m (nat (t - e)));
          b = (t + 1074) * 2 ^ 52 + q
      in if m = 0 then word_of_int (sign_bits s)
         else if 2047 * 2 ^ 52 \<le> b then inf_bits s
         else word_of_int (sign_bits s + b))"

section \<open>Arithmetic\<close>

definition signed_mant :: "bool \<Rightarrow> int \<Rightarrow> int" where
  "signed_mant s m = (if s then - m else m)"

definition d_neg :: "u64 \<Rightarrow> u64" where
  "d_neg w = w XOR 0x8000000000000000"

definition d_add :: "u64 \<Rightarrow> u64 \<Rightarrow> u64" where
  "d_add a b =
     (case (d_decode a, d_decode b) of
        (DNaN, _) \<Rightarrow> nan_bits
      | (_, DNaN) \<Rightarrow> nan_bits
      | (DInf s, DInf t) \<Rightarrow> if s = t then inf_bits s else nan_bits
      | (DInf s, DFin _ _ _) \<Rightarrow> inf_bits s
      | (DFin _ _ _, DInf t) \<Rightarrow> inf_bits t
      | (DFin s m e, DFin t n f) \<Rightarrow>
          let g = min e f;
              v = signed_mant s m * 2 ^ nat (e - g) + signed_mant t n * 2 ^ nat (f - g)
          in if v = 0 then d_round (s \<and> t) 0 0 else d_round (v < 0) \<bar>v\<bar> g)"

definition d_sub :: "u64 \<Rightarrow> u64 \<Rightarrow> u64" where
  "d_sub a b = d_add a (d_neg b)"

definition d_mul :: "u64 \<Rightarrow> u64 \<Rightarrow> u64" where
  "d_mul a b =
     (case (d_decode a, d_decode b) of
        (DNaN, _) \<Rightarrow> nan_bits
      | (_, DNaN) \<Rightarrow> nan_bits
      | (DInf s, DInf t) \<Rightarrow> inf_bits (s \<noteq> t)
      | (DInf s, DFin t n _) \<Rightarrow> if n = 0 then nan_bits else inf_bits (s \<noteq> t)
      | (DFin s m _, DInf t) \<Rightarrow> if m = 0 then nan_bits else inf_bits (s \<noteq> t)
      | (DFin s m e, DFin t n f) \<Rightarrow> d_round (s \<noteq> t) (m * n) (e + f))"

text \<open>
  The quotient is taken to more than 55 bits with a sticky bit for the remainder, so the one
  rounding of \<open>d_round\<close> is the rounding of the exact quotient.
\<close>

definition d_div :: "u64 \<Rightarrow> u64 \<Rightarrow> u64" where
  "d_div a b =
     (case (d_decode a, d_decode b) of
        (DNaN, _) \<Rightarrow> nan_bits
      | (_, DNaN) \<Rightarrow> nan_bits
      | (DInf s, DInf t) \<Rightarrow> nan_bits
      | (DInf s, DFin t _ _) \<Rightarrow> inf_bits (s \<noteq> t)
      | (DFin s _ _, DInf t) \<Rightarrow> word_of_int (sign_bits (s \<noteq> t))
      | (DFin s m e, DFin t n f) \<Rightarrow>
          if n = 0 then (if m = 0 then nan_bits else inf_bits (s \<noteq> t))
          else let q = m * 2 ^ 120 div n;
                   sticky = (if m * 2 ^ 120 mod n = 0 then 0 else 1)
               in d_round (s \<noteq> t) (2 * q + sticky) (e - f - 121))"

text \<open>The integer square root, two bits at a time, and the square root of a double from it.\<close>

function isqrt :: "int \<Rightarrow> int" where
  "isqrt n = (if n \<le> 0 then 0
     else let r = 2 * isqrt (n div 4) in if (r + 1) * (r + 1) \<le> n then r + 1 else r)"
  by pat_completeness auto
termination
  by (relation "measure nat") auto

declare isqrt.simps [simp del]

definition d_sqrt :: "u64 \<Rightarrow> u64" where
  "d_sqrt a =
     (case d_decode a of
        DNaN \<Rightarrow> nan_bits
      | DInf s \<Rightarrow> if s then nan_bits else inf_bits False
      | DFin s m e \<Rightarrow>
          if m = 0 then a
          else if s then nan_bits
          else let k = (if even e then m else 2 * m) * 2 ^ 120;
                   f = (if even e then e else e - 1);
                   r = isqrt k;
                   sticky = (if r * r = k then 0 else 1)
               in d_round False (2 * r + sticky) (f div 2 - 61))"

section \<open>Comparison and conversion\<close>

text \<open>\<open>a < b\<close>: false as soon as one side is a NaN.\<close>

definition d_less :: "u64 \<Rightarrow> u64 \<Rightarrow> bool" where
  "d_less a b =
     (case (d_decode a, d_decode b) of
        (DNaN, _) \<Rightarrow> False
      | (_, DNaN) \<Rightarrow> False
      | (DInf s, DInf t) \<Rightarrow> s \<and> \<not> t
      | (DInf s, DFin _ _ _) \<Rightarrow> s
      | (DFin _ _ _, DInf t) \<Rightarrow> \<not> t
      | (DFin s m e, DFin t n f) \<Rightarrow>
          let g = min e f
          in signed_mant s m * 2 ^ nat (e - g) < signed_mant t n * 2 ^ nat (f - g))"

text \<open>\<open>(double) i\<close> of an \<open>int64_t\<close>.\<close>

definition d_of_int :: "int \<Rightarrow> u64" where
  "d_of_int i = d_round (i < 0) \<bar>i\<bar> 0"

text \<open>
  \<open>(int64_t) d\<close>: truncation towards zero; \<open>None\<close> where the conversion is undefined (NaN, infinity,
  out of range).
\<close>

definition d_to_int64 :: "u64 \<Rightarrow> int option" where
  "d_to_int64 w =
     (case d_decode w of
        DNaN \<Rightarrow> None
      | DInf _ \<Rightarrow> None
      | DFin s m e \<Rightarrow>
          let v = (if 0 \<le> e then m * 2 ^ nat e else m div 2 ^ nat (- e)); i = signed_mant s v
          in if - (2 ^ 63) \<le> i \<and> i < 2 ^ 63 then Some i else None)"

text \<open>\<open>lround\<close>: to nearest, ties away from zero.\<close>

definition d_lround :: "u64 \<Rightarrow> int option" where
  "d_lround w =
     (case d_decode w of
        DNaN \<Rightarrow> None
      | DInf _ \<Rightarrow> None
      | DFin s m e \<Rightarrow>
          let v = (if 0 \<le> e then m * 2 ^ nat e
                   else (m + 2 ^ (nat (- e) - 1)) div 2 ^ nat (- e)); i = signed_mant s v
          in if - (2 ^ 63) \<le> i \<and> i < 2 ^ 63 then Some i else None)"

definition DBL_EPSILON :: u64 where
  "DBL_EPSILON = 0x3CB0000000000000"

section \<open>Facts\<close>

lemma isqrt_bounds: "0 \<le> n \<Longrightarrow> 0 \<le> isqrt n \<and> isqrt n * isqrt n \<le> n \<and> n < (isqrt n + 1) * (isqrt n + 1)"
proof (induction n rule: isqrt.induct)
  case (1 n)
  show ?case
  proof (cases "n \<le> 0")
    case True
    with 1 show ?thesis by (simp add: isqrt.simps)
  next
    case False
    let ?q = "isqrt (n div 4)"
    from False 1 have q: "0 \<le> ?q" "?q * ?q \<le> n div 4" "n div 4 < (?q + 1) * (?q + 1)" by auto
    from q(2) have "4 * (?q * ?q) \<le> n" by linarith
    moreover from q(3) have "n < 4 * ((?q + 1) * (?q + 1))" by linarith
    ultimately show ?thesis using False q(1)
      by (subst (1 2 3 4 5) isqrt.simps) (auto simp: Let_def algebra_simps)
  qed
qed

lemma d_decode_neg_zero: "d_decode 0x8000000000000000 = DFin True 0 (- 1074)"
  by (simp add: d_decode_def d_expo_def d_frac_def d_sign_def)

lemma d_less_nan [simp]:
  "d_decode a = DNaN \<Longrightarrow> \<not> d_less a b"
  "d_decode b = DNaN \<Longrightarrow> \<not> d_less a b"
  by (auto simp: d_less_def split: dclass.splits)

lemma d_decode_nan_bits: "d_decode nan_bits = DNaN"
  by (simp add: d_decode_def d_expo_def d_frac_def nan_bits_def)

lemma d_add_nan:
  "d_decode a = DNaN \<Longrightarrow> d_add a b = nan_bits"
  "d_decode b = DNaN \<Longrightarrow> d_add a b = nan_bits"
  by (auto simp: d_add_def split: dclass.splits)

lemma flip_top_bit:
  fixes t w :: u64
  assumes "\<And>i. bit t i \<longleftrightarrow> i = 63"
  shows "drop_bit 52 (w XOR t) AND mask 11 = drop_bit 52 w AND mask 11"
    and "(w XOR t) AND mask 52 = w AND mask 52"
  by (rule bit_word_eqI; auto simp: bit_simps assms)+

lemma bit_top: "bit (push_bit 63 (1 :: u64)) i \<longleftrightarrow> i = 63"
  by (simp only: bit_push_bit_iff bit_1_iff possible_bit_def) auto

lemma d_decode_neg_nan: "d_decode w = DNaN \<Longrightarrow> d_decode (d_neg w) = DNaN"
proof -
  have m: "(0x7FF :: u64) = mask 11" "(0xFFFFFFFFFFFFF :: u64) = mask 52"
    "(0x8000000000000000 :: u64) = push_bit 63 1"
    by (simp_all add: mask_eq_exp_minus_1)
  have "d_expo (d_neg w) = d_expo w" "d_frac (d_neg w) = d_frac w"
    unfolding d_expo_def d_frac_def d_neg_def m flip_top_bit [OF bit_top] by (rule refl)+
  then show "d_decode w = DNaN \<Longrightarrow> d_decode (d_neg w) = DNaN"
    by (auto simp: d_decode_def split: if_splits)
qed

end
