(* ===== verification/Values.thy ===== *)
theory Values
  imports Doubles
begin

text \<open>
  \<open>Value\<close> (include/b0rk/value.h, src/libb0rk/value.cpp): a type tag and a 64-bit union. The
  interpreter reads union members without looking at the tag (\<open>popInt\<close>, \<open>INC_VAR\<close>, \<open>AND\<close>), so
  the union is kept as its bits and each member is a reading of them.
\<close>

section \<open>The tagged union\<close>

datatype ValueType =
    VALUE_UNKNOWN | VALUE_VOID | VALUE_OBJECT | VALUE_INTEGER | VALUE_DOUBLE
  | VALUE_POINTER | VALUE_FRAME

record Value =
  v_type :: ValueType
  v_bits :: u64

definition v_int :: "Value \<Rightarrow> int" where
  "v_int v = sint (v_bits v)"

abbreviation v_object :: "Value \<Rightarrow> ptr" where
  "v_object v \<equiv> v_bits v"

abbreviation v_double :: "Value \<Rightarrow> u64" where
  "v_double v \<equiv> v_bits v"

text \<open>A value whose memory was cleared with \<open>memset\<close>: type 0 is \<open>VALUE_UNKNOWN\<close>.\<close>

definition zero_value :: Value where
  "zero_value = \<lparr>v_type = VALUE_UNKNOWN, v_bits = 0\<rparr>"

text \<open>
  A \<open>Value\<close> declared without initialiser. Its content is indeterminate in C++; the model uses
  the zero value, and no theorem depends on the choice.
\<close>

definition indeterminate :: Value where
  "indeterminate = zero_value"

definition mk_int :: "u64 \<Rightarrow> Value" where
  "mk_int i = \<lparr>v_type = VALUE_INTEGER, v_bits = i\<rparr>"

definition mk_double :: "u64 \<Rightarrow> Value" where
  "mk_double d = \<lparr>v_type = VALUE_DOUBLE, v_bits = d\<rparr>"

definition mk_object :: "ptr \<Rightarrow> Value" where
  "mk_object p = \<lparr>v_type = VALUE_OBJECT, v_bits = p\<rparr>"

definition mk_pointer :: "ptr \<Rightarrow> Value" where
  "mk_pointer p = \<lparr>v_type = VALUE_POINTER, v_bits = p\<rparr>"

text \<open>\<open>DOUBLE_VALUE\<close> of executor.cpp: any tag but \<open>VALUE_DOUBLE\<close> is read as an integer.\<close>

definition DOUBLE_VALUE :: "Value \<Rightarrow> u64" where
  "DOUBLE_VALUE v = (if v_type v = VALUE_DOUBLE then v_double v else d_of_int (v_int v))"

lemma mk_sel [simp]:
  "v_type (mk_int i) = VALUE_INTEGER" "v_bits (mk_int i) = i"
  "v_type (mk_double d) = VALUE_DOUBLE" "v_bits (mk_double d) = d"
  "v_type (mk_object p) = VALUE_OBJECT" "v_bits (mk_object p) = p"
  "v_type (mk_pointer p) = VALUE_POINTER" "v_bits (mk_pointer p) = p"
  by (simp_all add: mk_int_def mk_double_def mk_object_def mk_pointer_def)

lemma mk_int_inject [simp]: "mk_int i = mk_int j \<longleftrightarrow> i = j"
  by (simp add: mk_int_def)

section \<open>Printing integers\<close>

text \<open>
  \<open>int642wstr\<close>: the digits of \<open>v\<close> are produced least significant first into \<open>s1\<close> and then
  copied out in reverse. \<open>v = -v\<close> is computed on the \<open>int64_t\<close> itself; the negation of the least
  value overflows and is taken to wrap, as on the two's complement machines the program targets.
\<close>

definition digit_char :: "int \<Rightarrow> wchar" where
  "digit_char d = (if d < 10 then word_of_int (d + 48) else word_of_int (d - 10 + 97))"

function digits_rev :: "int \<Rightarrow> int \<Rightarrow> wstring" where
  "digits_rev base v =
     (if v > 0 \<and> base > 1 then digit_char (v mod base) # digits_rev base (v div base) else [])"
  by pat_completeness auto
termination
  by (relation "measure (\<lambda>(base, v). nat v)") (auto simp: int_div_less_self)

declare digits_rev.simps [simp del]

definition int642wstr :: "u64 \<Rightarrow> int \<Rightarrow> wstring" where
  "int642wstr w base =
     (if w = 0 then [48]
      else if sint w < 0 then 45 # rev (digits_rev base (sint (- w)))
      else rev (digits_rev base (sint w)))"

text \<open>Reading a decimal numeral back, the specification of what is printed.\<close>

fun read_digits :: "int \<Rightarrow> wstring \<Rightarrow> int" where
  "read_digits acc [] = acc"
| "read_digits acc (c # cs) = read_digits (10 * acc + (uint c - 48)) cs"

fun read_decimal :: "wstring \<Rightarrow> int" where
  "read_decimal [] = 0"
| "read_decimal (c # cs) = (if c = 45 then - read_digits 0 cs else read_digits 0 (c # cs))"

lemma read_digits_append: "read_digits acc (xs @ ys) = read_digits (read_digits acc xs) ys"
  by (induction xs arbitrary: acc) auto

lemma uint_digit_char: "0 \<le> d \<Longrightarrow> d < 10 \<Longrightarrow> uint (digit_char d) = d + 48"
proof -
  assume d: "0 \<le> d" "d < 10"
  then have "digit_char d = word_of_int (d + 48)" by (simp add: digit_char_def)
  moreover have "uint (word_of_int (d + 48) :: wchar) = (d + 48) mod 2 ^ 32"
    by (simp only: uint_word_of_int) simp
  ultimately show ?thesis using d by simp
qed

lemma read_rev_digits: "0 \<le> v \<Longrightarrow> read_digits 0 (rev (digits_rev 10 v)) = v"
proof (induction "10 :: int" v rule: digits_rev.induct)
  case (1 v)
  show ?case
  proof (cases "v > 0")
    case True
    with 1 have "read_digits 0 (rev (digits_rev 10 (v div 10))) = v div 10" by simp
    with True show ?thesis
      by (subst digits_rev.simps) (simp add: read_digits_append uint_digit_char)
  next
    case False
    with 1 show ?thesis by (subst digits_rev.simps) simp
  qed
qed

lemma digits_rev_nonempty: "v > 0 \<Longrightarrow> digits_rev 10 v \<noteq> []"
  by (subst digits_rev.simps) simp

lemma digits_rev_no_minus: "c \<in> set (digits_rev 10 v) \<Longrightarrow> c \<noteq> 45"
proof (induction "10 :: int" v arbitrary: c rule: digits_rev.induct)
  case (1 v)
  have "uint (digit_char (v mod 10)) = v mod 10 + 48" by (simp add: uint_digit_char)
  then have "uint (digit_char (v mod 10)) \<noteq> uint (45 :: wchar)" by simp
  then have "digit_char (v mod 10) \<noteq> 45" by metis
  with 1 show ?case by (auto simp: digits_rev.simps [of 10 v] split: if_splits)
qed

text \<open>
  C-level property: every \<open>int64_t\<close> but the least one prints as its decimal numeral.
\<close>

lemma sint_uminus64: "sint (w :: u64) \<noteq> - (2 ^ 63) \<Longrightarrow> sint (- w) = - sint w"
proof -
  assume ne: "sint w \<noteq> - (2 ^ 63)"
  have "- w = word_of_int (- sint w)" by simp
  with ne sint_range64 [of w] show ?thesis
    by (metis sint_of_int64_small neg_le_iff_le minus_less_iff order_less_le)
qed

lemma read_print_nonneg:
  assumes "0 < v"
  shows "read_decimal (rev (digits_rev 10 v)) = v"
proof (cases "rev (digits_rev 10 v)")
  case Nil
  with digits_rev_nonempty [OF assms] show ?thesis by simp
next
  case (Cons c cs)
  then have "c \<in> set (digits_rev 10 v)" by (metis list.set_intros(1) set_rev)
  then have "c \<noteq> 45" by (rule digits_rev_no_minus)
  with Cons read_rev_digits [of v] assms show ?thesis by simp
qed

end
