(* ===== verification/Exprs.thy ===== *)
theory Exprs
  imports Tokens Values
begin

text \<open>
  Expressions and code blocks (include/b0rk/expression.h, include/b0rk/codeblock.h,
  src/libb0rk/expression.cpp, src/libb0rk/codeblock.cpp): the tree the parser builds and the
  assembler reads, and the numbering of local variables.
\<close>

section \<open>Operators\<close>

text \<open>
  The enumeration order of \<open>OpType\<close> is the operator precedence the parser compares with
  \<open>\<le>\<close>, so the type is ordered by its enumerators.
\<close>

datatype (plugins only: code size) OpType =
    OPR_NONE | OPR_SET | OPR_LOGICAL_AND | OPR_EQUALS | OPR_NOT_EQUAL | OPR_LESS_THAN
  | OPR_LESS_THAN_EQUAL | OPR_GREATER_THAN | OPR_GREATER_THAN_EQUAL | OPR_ADD | OPR_SUB
  | OPR_MULTIPLY | OPR_DIVIDE | OPR_INCREMENT | OPR_DECREMENT | OPR_NOT | OPR_REFERENCE | OPR_ARRAY

primrec op_rank :: "OpType \<Rightarrow> nat" where
  "op_rank OPR_NONE = 0" | "op_rank OPR_SET = 1" | "op_rank OPR_LOGICAL_AND = 2"
| "op_rank OPR_EQUALS = 3" | "op_rank OPR_NOT_EQUAL = 4" | "op_rank OPR_LESS_THAN = 5"
| "op_rank OPR_LESS_THAN_EQUAL = 6" | "op_rank OPR_GREATER_THAN = 7"
| "op_rank OPR_GREATER_THAN_EQUAL = 8" | "op_rank OPR_ADD = 9" | "op_rank OPR_SUB = 10"
| "op_rank OPR_MULTIPLY = 11" | "op_rank OPR_DIVIDE = 12" | "op_rank OPR_INCREMENT = 13"
| "op_rank OPR_DECREMENT = 14" | "op_rank OPR_NOT = 15" | "op_rank OPR_REFERENCE = 16"
| "op_rank OPR_ARRAY = 17"

lemma op_rank_inject: "op_rank a = op_rank b \<Longrightarrow> a = b"
  by (cases a; simp; cases b; simp)

instantiation OpType :: linorder
begin

definition less_eq_OpType :: "OpType \<Rightarrow> OpType \<Rightarrow> bool" where
  "less_eq_OpType a b \<longleftrightarrow> op_rank a \<le> op_rank b"

definition less_OpType :: "OpType \<Rightarrow> OpType \<Rightarrow> bool" where
  "less_OpType a b \<longleftrightarrow> op_rank a < op_rank b"

instance
  by standard (auto simp: less_eq_OpType_def less_OpType_def dest: op_rank_inject)

end

record OpDesc =
  od_token :: TokenType
  od_oper :: OpType
  od_hasLeft :: bool
  od_hasRight :: bool

section \<open>The tree\<close>

text \<open>
  One constructor per subclass of \<open>Expression\<close>. Members the assembler never reads
  (\<open>resultOnStack\<close>, which only debug output looks at; \<open>block\<close>, which the assembler receives as a
  parameter) are dropped. Of \<open>parent\<close> the assembler asks one thing, for calls only: whether the
  parent is a reference operation; that is the first field of \<open>CallExpression\<close>. \<open>valueType\<close> is kept
  where it is variable. A \<open>CodeBlock\<close> holds \<open>m_startingVarId\<close>, \<open>m_maxVarId\<close>, \<open>m_vars\<close> and
  \<open>m_code\<close>. \<open>m_childBlocks\<close> is the list of the blocks the parser pushed there, which are the
  blocks of the \<open>if\<close>, \<open>for\<close> and \<open>while\<close> statements of \<open>m_code\<close>, but not those of \<open>try\<close>.
\<close>

datatype (plugins only: code size) expr =
    CallExpression bool ptr wstring "expr list"
  | NewExpression "wstring list" "expr list"
  | OperationExpression OpType OpDesc ValueType "expr option" "expr option"
  | IfExpression expr codeblock "codeblock option"
  | ForExpression "expr option" expr "expr option" codeblock
  | ReturnExpression "expr option"
  | VarExpression ptr wstring ValueType
  | ArrayExpression ptr wstring expr
  | StringExpression wstring
  | IntegerExpression u64
  | DoubleExpression u64
  | FunctionExpression ptr
  | ThrowExpression expr
  | TryExpression codeblock wstring codeblock
and codeblock = CodeBlock int int "wstring list" "expr list"

fun m_startingVarId :: "codeblock \<Rightarrow> int" where
  "m_startingVarId (CodeBlock s m vs code) = s"

fun m_maxVarId :: "codeblock \<Rightarrow> int" where
  "m_maxVarId (CodeBlock s m vs code) = m"

fun m_vars :: "codeblock \<Rightarrow> wstring list" where
  "m_vars (CodeBlock s m vs code) = vs"

fun m_code :: "codeblock \<Rightarrow> expr list" where
  "m_code (CodeBlock s m vs code) = code"

lemma block_size: "size b = Suc (size_list size (m_code b))"
  by (cases b) simp

fun stmt_blocks :: "expr \<Rightarrow> codeblock list" where
  "stmt_blocks (IfExpression t tb (Some fb)) = [tb, fb]"
| "stmt_blocks (IfExpression t tb None) = [tb]"
| "stmt_blocks (ForExpression i t n body) = [body]"
| "stmt_blocks e = []"

definition m_childBlocks :: "codeblock \<Rightarrow> codeblock list" where
  "m_childBlocks b = concat (map stmt_blocks (m_code b))"

section \<open>Numbering the local variables\<close>

text \<open>
  \<open>CodeBlock::setStartingVarId\<close>: a block's own variables come first; every child block starts
  after them, so sibling blocks share slots. \<open>m_maxVarId\<close> is one past the last slot used.
\<close>

function (sequential) setStartingVarId :: "int \<Rightarrow> codeblock \<Rightarrow> codeblock"
  and set_stmt_ids :: "int \<Rightarrow> expr \<Rightarrow> expr" where
  "setStartingVarId i (CodeBlock s m vs code) =
     (let j = i + int (length vs);
          code' = map (set_stmt_ids j) code;
          kids = concat (map stmt_blocks code')
      in CodeBlock i (foldl (\<lambda>mx c. if m_maxVarId c > mx then m_maxVarId c else mx) j kids) vs code')"
| "set_stmt_ids j (IfExpression t tb fb) =
     IfExpression t (setStartingVarId j tb) (map_option (setStartingVarId j) fb)"
| "set_stmt_ids j (ForExpression a t n body) = ForExpression a t n (setStartingVarId j body)"
| "set_stmt_ids j e = e"
  by pat_completeness auto
termination
  by (relation "measure (\<lambda>p. case p of Inl (i, b) \<Rightarrow> size b | Inr (j, e) \<Rightarrow> size e)")
     (auto simp: less_Suc_eq_le dest: size_list_estimation' [OF _ order_refl] split: option.splits)

text \<open>\<open>Function::getArgId\<close>: arguments are numbered from 1; slot 0 is \<open>this\<close>.\<close>

fun var_index :: "wstring list \<Rightarrow> wstring \<Rightarrow> nat option" where
  "var_index [] x = None"
| "var_index (v # vs) x = (if v = x then Some 0 else map_option Suc (var_index vs x))"

definition getArgId :: "wstring list \<Rightarrow> wstring \<Rightarrow> int" where
  "getArgId args x = (case var_index args x of Some i \<Rightarrow> int i + 1 | None \<Rightarrow> - 1)"

text \<open>
  \<open>CodeBlock::getVarId\<close>: the block, then its parents; at the outermost block the arguments of the
  function. The chain of \<open>m_parent\<close> pointers is the list of blocks, innermost first; \<open>None\<close> for the
  arguments is a null \<open>m_function\<close>.
\<close>

fun getVarId :: "codeblock list \<Rightarrow> wstring list option \<Rightarrow> wstring \<Rightarrow> int" where
  "getVarId [] args x = (case args of Some as \<Rightarrow> getArgId as x | None \<Rightarrow> - 1)"
| "getVarId (b # bs) args x =
     (case var_index (m_vars b) x of
        Some i \<Rightarrow> int i + m_startingVarId b
      | None \<Rightarrow> getVarId bs args x)"

end
