(* ===== verification/State.thy ===== *)
theory State
  imports Opcodes Exprs
begin

text \<open>
  The state of the interpreter: classes, functions, heap objects, the runtime, the execution
  context and the frames of running functions (include/b0rk/class.h, function.h, object.h,
  runtime.h, context.h, assembler.h, executor.h).

  A pointer to a class, function, native object or heap object is a \<open>ptr\<close>; the store for each
  kind is a partial map, and following a pointer the store does not hold (the null pointer in
  particular) has no defined result.
\<close>

section \<open>Classes and functions\<close>

datatype ClassState = INIT | PARSING | COMPLETE

record Class =
  cl_name :: wstring
  cl_state :: ClassState
  cl_super :: ptr
  cl_methods :: "wstring \<Rightarrow> ptr option"
  cl_fieldStartId :: int
  cl_fieldCount :: int
  cl_fields :: "wstring \<Rightarrow> int option"
  cl_staticFieldStartId :: int
  cl_staticFieldCount :: int
  cl_staticFields :: "wstring \<Rightarrow> int option"
  cl_staticValues :: "Value list"

record AssembledCode =
  ac_function :: ptr
  ac_code :: "u64 list"
  ac_localVars :: int

text \<open>\<open>size\<close> of the assembled code is the length of its array.\<close>

definition ac_size :: "AssembledCode \<Rightarrow> int" where
  "ac_size c = int (length (ac_code c))"

text \<open>The native methods of the built-in classes, by the member function they point to.\<close>

datatype native_method =
    Object_toString | Array_constructor | Function_constructor | String_constructor
  | Exception_printStackTrace | Maths_randomInt | Maths_round | Maths_sqrt
  | Runtime_exit | Time_now | File_init | File_write | File_writeln

datatype native_object_method = Str_addOperator | Str_eqOperator | Str_length | Str_at

datatype function_kind =
    NativeFunction native_method
  | NativeObjectFunction native_object_method
  | ScriptFunction codeblock "AssembledCode option"

record Function =
  fn_name :: wstring
  fn_static :: bool
  fn_class :: ptr
  fn_args :: "wstring list"
  fn_kind :: function_kind

section \<open>Heap objects\<close>

text \<open>
  A block of the arena: header (24 bytes: class pointer, size, mark) followed by the values
  (16 bytes each). A free block has the null class. The list of values is as long as the block
  has room for.
\<close>

record Object =
  o_class :: ptr
  o_size :: nat
  o_gcMark :: u64
  o_values :: "Value list"

definition sizeof_Object :: nat where
  "sizeof_Object = 24"

definition sizeof_Value :: nat where
  "sizeof_Value = 16"

definition B0RK_GC_EXTERNAL :: u64 where
  "B0RK_GC_EXTERNAL = - 1"

datatype native_object =
    StringNative wstring
  | StackTrace "wstring list"

section \<open>Contexts, frames and the runtime\<close>

record Context =
  stackPos :: int
  stackSize :: int
  stack :: "Value list"
  has_exception :: bool
  exceptionValue :: Value

record ExceptionHandler =
  excepVar :: u64
  handlerPC :: u64

text \<open>\<open>handlerStack\<close> is kept with its back element first.\<close>

record Frame =
  fr_code :: AssembledCode
  fr_running :: bool
  fr_pc :: int
  fr_zero :: bool
  fr_sign :: bool
  fr_overflow :: bool
  fr_localVars :: "Value list"
  handlerStack :: "ExceptionHandler list"

record Instruction =
  ins_op :: u64
  ins_args :: "u64 list"

record Runtime =
  rt_classes :: "(wstring \<times> ptr) list"
  rt_class :: "ptr \<Rightarrow> Class option"
  rt_func :: "ptr \<Rightarrow> Function option"
  rt_native :: "ptr \<Rightarrow> native_object option"
  rt_nextNative :: nat
  objectClass :: ptr
  stringClass :: ptr
  exceptionClass :: ptr
  arrayClass :: ptr
  arrayDataClass :: ptr
  rt_stringTable :: "wstring \<Rightarrow> ptr option"
  rt_heap :: "nat \<Rightarrow> Object option"
  arena_start :: nat
  arena_size :: nat
  freeList :: "nat list"
  newObjects :: int
  newBytes :: int
  currentObjects :: int
  currentBytes :: int
  collectedObjects :: int
  arenaTotal :: int
  gcEnabled :: bool
  gcLastAlloc :: int
  gcTime :: u64
  rt_clock :: "nat \<Rightarrow> u64"
  rt_ticks :: nat
  rt_output :: "byte list"

text \<open>
  \<open>vm\<close> is what an opcode handler can reach: the context, the frame being run, the frames of the
  functions that called it (innermost first) and the runtime. \<open>otherContexts\<close> are the contexts of
  \<open>m_contexts\<close> that are not the running one; \<open>registered\<close> says that the running one is in
  \<open>m_contexts\<close> (the one the runtime's constructor uses is not). \<open>asm_code\<close> is the assembler's
  instruction buffer, which belongs to the context and outlives a call.
\<close>

record vm =
  ctx :: Context
  cur :: Frame
  callers :: "Frame list"
  rt :: Runtime
  otherContexts :: "(Context \<times> Frame list) list"
  registered :: bool
  asm_code :: "Instruction list"

section \<open>The operand stack\<close>

definition B0RK_STACK_MARGIN :: int where
  "B0RK_STACK_MARGIN = 4"

text \<open>\<open>Context::Context\<close>: the stack starts at the margin, with a margin above its size.\<close>

definition new_context :: Context where
  "new_context =
     \<lparr>stackPos = B0RK_STACK_MARGIN, stackSize = 1024,
      stack = replicate (nat (1024 + B0RK_STACK_MARGIN * 2)) indeterminate,
      has_exception = False, exceptionValue = indeterminate\<rparr>"

definition checkStack :: "Context \<Rightarrow> bool" where
  "checkStack c \<longleftrightarrow> stackPos c \<ge> 0 \<and> stackPos c < stackSize c"

definition ctx_push :: "Value \<Rightarrow> Context \<Rightarrow> Context option" where
  "ctx_push v c = do {
     st \<leftarrow> upd (stack c) (stackPos c) v;
     Some (c\<lparr>stack := st, stackPos := stackPos c + 1\<rparr>)}"

definition ctx_pushVoid :: "Context \<Rightarrow> Context option" where
  "ctx_pushVoid c = do {
     old \<leftarrow> idx (stack c) (stackPos c);
     st \<leftarrow> upd (stack c) (stackPos c) (old\<lparr>v_type := VALUE_VOID\<rparr>);
     Some (c\<lparr>stack := st, stackPos := stackPos c + 1\<rparr>)}"

definition ctx_pushInt :: "u64 \<Rightarrow> Context \<Rightarrow> Context option" where
  "ctx_pushInt i c = ctx_push (mk_int i) c"

definition ctx_pushDouble :: "u64 \<Rightarrow> Context \<Rightarrow> Context option" where
  "ctx_pushDouble d c = ctx_push (mk_double d) c"

definition ctx_pop :: "Context \<Rightarrow> (Value \<times> Context) option" where
  "ctx_pop c = do {
     v \<leftarrow> idx (stack c) (stackPos c - 1);
     Some (v, c\<lparr>stackPos := stackPos c - 1\<rparr>)}"


definition ctx_peek :: "Context \<Rightarrow> Value option" where
  "ctx_peek c = idx (stack c) (stackPos c - 1)"

definition throwException :: "Value \<Rightarrow> Context \<Rightarrow> Context" where
  "throwException e c = c\<lparr>has_exception := True, exceptionValue := e\<rparr>"

definition clearException :: "Context \<Rightarrow> Context" where
  "clearException c = c\<lparr>has_exception := False\<rparr>"

text \<open>What a context holds, top first: the slots below \<open>stackPos\<close>.\<close>

definition operands :: "Context \<Rightarrow> Value list" where
  "operands c = rev (take (nat (stackPos c)) (stack c))"

definition ctx_ok :: "Context \<Rightarrow> bool" where
  "ctx_ok c \<longleftrightarrow> 0 \<le> stackPos c \<and> stackPos c \<le> int (length (stack c))"

definition ctx_room :: "Context \<Rightarrow> int" where
  "ctx_room c = int (length (stack c)) - stackPos c"

end
