(* ===== verification/Classes.thy ===== *)
theory Classes
  imports State
begin

text \<open>
  Classes (include/b0rk/class.h, src/libb0rk/class.cpp): construction, field, static field and
  method tables, and lookup along the superclass chain. The lookups recurse through \<open>m_superClass\<close>,
  so they are partial functions: \<open>None\<close> for a dangling class pointer (or a cyclic chain), and
  \<open>Some (-1)\<close>, \<open>Some 0\<close> for the code's own "not found" results.
\<close>

type_synonym class_store = "ptr \<Rightarrow> Class option"

section \<open>Operations\<close>

text \<open>
  \<open>Class::Class\<close>; the argument is the superclass's pointer and object, if any. \<open>m_state\<close> is not
  initialised by the constructor; the model uses \<open>INIT\<close>.
\<close>

definition new_class :: "(ptr \<times> Class) option \<Rightarrow> wstring \<Rightarrow> Class" where
  "new_class super name =
     \<lparr>cl_name = name, cl_state = INIT,
      cl_super = (case super of Some (p, _) \<Rightarrow> p | None \<Rightarrow> 0),
      cl_methods = Map.empty,
      cl_fieldStartId = (case super of Some (_, c) \<Rightarrow> cl_fieldCount c | None \<Rightarrow> 0),
      cl_fieldCount = (case super of Some (_, c) \<Rightarrow> cl_fieldCount c + 1 | None \<Rightarrow> 1),
      cl_fields = Map.empty,
      cl_staticFieldStartId = (case super of Some (_, c) \<Rightarrow> cl_staticFieldCount c | None \<Rightarrow> 0),
      cl_staticFieldCount = (case super of Some (_, c) \<Rightarrow> cl_staticFieldCount c | None \<Rightarrow> 0),
      cl_staticFields = Map.empty, cl_staticValues = []\<rparr>"

definition setSuperClass :: "ptr \<Rightarrow> Class \<Rightarrow> Class" where
  "setSuperClass sc c = c\<lparr>cl_super := sc\<rparr>"

text \<open>\<open>std::map::insert\<close> keeps an existing entry.\<close>

definition map_insert :: "'k \<Rightarrow> 'v \<Rightarrow> ('k \<Rightarrow> 'v option) \<Rightarrow> ('k \<Rightarrow> 'v option)" where
  "map_insert k v m = (case m k of None \<Rightarrow> m(k \<mapsto> v) | Some _ \<Rightarrow> m)"

definition addField :: "wstring \<Rightarrow> Class \<Rightarrow> Class" where
  "addField name c =
     c\<lparr>cl_fields := map_insert name (cl_fieldCount c) (cl_fields c),
       cl_fieldCount := cl_fieldCount c + 1\<rparr>"

partial_function (option) getFieldId :: "class_store \<Rightarrow> ptr \<Rightarrow> wstring \<Rightarrow> int option" where
  "getFieldId cs p name =
     (case cs p of
        None \<Rightarrow> None
      | Some c \<Rightarrow>
          (case cl_fields c name of
             Some i \<Rightarrow> Some i
           | None \<Rightarrow> if cl_super c \<noteq> 0 then getFieldId cs (cl_super c) name else Some (- 1)))"

definition addStaticField :: "wstring \<Rightarrow> Class \<Rightarrow> int \<times> Class" where
  "addStaticField name c =
     (cl_staticFieldCount c,
      c\<lparr>cl_staticFields := map_insert name (cl_staticFieldCount c) (cl_staticFields c),
        cl_staticFieldCount := cl_staticFieldCount c + 1,
        cl_staticValues := cl_staticValues c @ [\<lparr>v_type = VALUE_VOID, v_bits = 0\<rparr>]\<rparr>)"

partial_function (option) getStaticFieldId :: "class_store \<Rightarrow> ptr \<Rightarrow> wstring \<Rightarrow> int option" where
  "getStaticFieldId cs p name =
     (case cs p of
        None \<Rightarrow> None
      | Some c \<Rightarrow>
          (case cl_staticFields c name of
             Some i \<Rightarrow> Some i
           | None \<Rightarrow> if cl_super c \<noteq> 0 then getStaticFieldId cs (cl_super c) name else Some (- 1)))"

text \<open>\<open>m_staticValues[slot - m_staticFieldStartId]\<close>, unchecked.\<close>

definition getStaticField :: "int \<Rightarrow> Class \<Rightarrow> Value option" where
  "getStaticField slot c = idx (cl_staticValues c) (slot - cl_staticFieldStartId c)"

definition setStaticField :: "int \<Rightarrow> Value \<Rightarrow> Class \<Rightarrow> Class option" where
  "setStaticField slot v c = do {
     vs \<leftarrow> upd (cl_staticValues c) (slot - cl_staticFieldStartId c) v;
     Some (c\<lparr>cl_staticValues := vs\<rparr>) }"

text \<open>\<open>addMethod\<close> also names the function; the class's table keeps the first method of a name.\<close>

definition addMethod :: "wstring \<Rightarrow> ptr \<Rightarrow> Class \<Rightarrow> Class" where
  "addMethod name f c = c\<lparr>cl_methods := map_insert name f (cl_methods c)\<rparr>"

definition setName :: "wstring \<Rightarrow> Function \<Rightarrow> Function" where
  "setName name f = f\<lparr>fn_name := name\<rparr>"

partial_function (option) findMethod :: "class_store \<Rightarrow> ptr \<Rightarrow> wstring \<Rightarrow> ptr option" where
  "findMethod cs p name =
     (case cs p of
        None \<Rightarrow> None
      | Some c \<Rightarrow>
          (case cl_methods c name of
             Some f \<Rightarrow> Some f
           | None \<Rightarrow> if cl_super c \<noteq> 0 then findMethod cs (cl_super c) name else Some 0))"

text \<open>\<open>Function::getFullName\<close>.\<close>

definition getFullName :: "class_store \<Rightarrow> Function \<Rightarrow> wstring option" where
  "getFullName cs f =
     (if fn_class f = 0 then Some (fn_name f)
      else map_option (\<lambda>c. cl_name c @ wstr ''::'' @ fn_name f) (cs (fn_class f)))"

section \<open>The slot-table interface\<close>

text \<open>
  Fields and static fields follow one contract: adding a name gives it the next number, numbers
  once given stay, and the count grows by one. From it: numbers are in range and no two names of
  a table share one.
\<close>

locale slot_table =
  fixes add :: "'n \<Rightarrow> 't \<Rightarrow> 't"
    and lookup :: "'t \<Rightarrow> 'n \<Rightarrow> int option"
    and count :: "'t \<Rightarrow> int"
  assumes count_add: "count (add n t) = count t + 1"
    and lookup_new: "lookup t n = None \<Longrightarrow> lookup (add n t) n = Some (count t)"
    and lookup_old: "lookup t n = Some i \<Longrightarrow> lookup (add m t) n = Some i"
    and lookup_other: "m \<noteq> n \<Longrightarrow> lookup (add m t) n = lookup t n"
begin

definition slots_ok :: "int \<Rightarrow> 't \<Rightarrow> bool" where
  "slots_ok base t \<longleftrightarrow>
     (\<forall>n i. lookup t n = Some i \<longrightarrow> base \<le> i \<and> i < count t) \<and>
     (\<forall>n m i. lookup t n = Some i \<longrightarrow> lookup t m = Some i \<longrightarrow> n = m)"

lemma slots_ok_empty: "(\<And>n. lookup t n = None) \<Longrightarrow> slots_ok base t"
  by (simp add: slots_ok_def)

lemma slots_ok_range: "slots_ok base t \<Longrightarrow> lookup t n = Some i \<Longrightarrow> base \<le> i \<and> i < count t"
  by (simp add: slots_ok_def)

lemma slots_ok_inj: "slots_ok base t \<Longrightarrow> lookup t n = Some i \<Longrightarrow> lookup t m = Some i \<Longrightarrow> n = m"
  by (simp add: slots_ok_def)

lemma lookup_add_cases:
  assumes "lookup (add m t) n = Some i"
  shows "lookup t n = Some i \<or> (n = m \<and> lookup t n = None \<and> i = count t)"
proof (cases "lookup t n")
  case None
  show ?thesis
  proof (cases "n = m")
    case True
    with None lookup_new [of t n] assms show ?thesis by auto
  next
    case False
    with lookup_other [of m n t] assms show ?thesis by auto
  qed
next
  case (Some j)
  with lookup_old [of t n j m] assms show ?thesis by auto
qed

lemma slots_ok_add:
  assumes ok: "slots_ok base t" and base: "base \<le> count t"
  shows "slots_ok base (add m t)"
proof -
  have range: "base \<le> i \<and> i < count (add m t)" if "lookup (add m t) n = Some i" for n i
    using lookup_add_cases [OF that] slots_ok_range [OF ok, of n i] base by (auto simp: count_add)
  have inj: "n = k" if n: "lookup (add m t) n = Some i" and k: "lookup (add m t) k = Some i" for n k i
    using lookup_add_cases [OF n] lookup_add_cases [OF k] slots_ok_inj [OF ok]
      slots_ok_range [OF ok, of n i] slots_ok_range [OF ok, of k i]
    by auto
  from range inj show ?thesis by (auto simp: slots_ok_def)
qed

lemma slots_ok_adds:
  "slots_ok base t \<Longrightarrow> base \<le> count t \<Longrightarrow> slots_ok base (fold add ns t)"
  by (induction ns arbitrary: t) (auto simp: slots_ok_add count_add)

lemma count_adds: "count (fold add ns t) = count t + int (length ns)"
  by (induction ns arbitrary: t) (auto simp: count_add)

lemma lookup_adds_old: "lookup t n = Some i \<Longrightarrow> lookup (fold add ns t) n = Some i"
  by (induction ns arbitrary: t) (auto simp: lookup_old)

lemma lookup_adds_declared: "n \<in> set ns \<Longrightarrow> \<exists>i. lookup (fold add ns t) n = Some i"
proof (induction ns arbitrary: t)
  case Nil
  then show ?case by simp
next
  case (Cons m ns)
  show ?case
  proof (cases "n = m")
    case True
    have "\<exists>i. lookup (add n t) n = Some i"
      using lookup_new [of t n] lookup_old [of t n] by (cases "lookup t n") auto
    with True show ?thesis by (auto intro: lookup_adds_old)
  next
    case False
    with Cons show ?thesis by auto
  qed
qed

end

definition addStatic :: "wstring \<Rightarrow> Class \<Rightarrow> Class" where
  "addStatic name c = snd (addStaticField name c)"

interpretation fields: slot_table addField cl_fields cl_fieldCount
  by unfold_locales (auto simp: addField_def map_insert_def split: option.splits)

interpretation statics: slot_table addStatic cl_staticFields cl_staticFieldCount
  by unfold_locales (auto simp: addStatic_def addStaticField_def map_insert_def split: option.splits)

declare getFieldId.simps [code] getStaticFieldId.simps [code] findMethod.simps [code]

section \<open>Hierarchies\<close>

text \<open>
  A class's own fields are numbered above everything its superclass numbered. It holds for a
  class the constructor made over a superclass that gets no further fields.
\<close>

definition own_fields_ok :: "Class \<Rightarrow> bool" where
  "own_fields_ok c \<longleftrightarrow> fields.slots_ok (cl_fieldStartId c + 1) c \<and> cl_fieldStartId c < cl_fieldCount c"

definition hierarchy_ok :: "class_store \<Rightarrow> bool" where
  "hierarchy_ok cs \<longleftrightarrow> (\<forall>p c. cs p = Some c \<longrightarrow> own_fields_ok c \<and> 0 \<le> cl_fieldStartId c \<and>
     (cl_super c \<noteq> 0 \<longrightarrow> (\<exists>d. cs (cl_super c) = Some d \<and> cl_fieldCount d \<le> cl_fieldStartId c)))"

lemma hierarchy_okD:
  assumes "hierarchy_ok cs" and "cs p = Some c"
  shows "own_fields_ok c" and "0 \<le> cl_fieldStartId c"
    and "cl_super c \<noteq> 0 \<Longrightarrow> \<exists>d. cs (cl_super c) = Some d \<and> cl_fieldCount d \<le> cl_fieldStartId c"
  using assms by (auto simp: hierarchy_ok_def)

lemma own_fields_ok_new: "own_fields_ok (new_class super name)"
  by (auto simp: own_fields_ok_def new_class_def fields.slots_ok_def split: option.splits)

lemma own_fields_ok_add: "own_fields_ok c \<Longrightarrow> own_fields_ok (addField n c)"
  using fields.slots_ok_add [of "cl_fieldStartId c + 1" c n]
  by (auto simp: own_fields_ok_def addField_def)

text \<open>
  Induction along the superclass chain of a well-formed hierarchy: the field count strictly
  decreases towards the root.
\<close>

lemma chain_induct:
  assumes "hierarchy_ok cs" and "cs p = Some c"
    and step: "\<And>p c. cs p = Some c \<Longrightarrow>
      (\<And>d. cl_super c \<noteq> 0 \<Longrightarrow> cs (cl_super c) = Some d \<Longrightarrow> P (cl_super c) d) \<Longrightarrow> P p c"
  shows "P p c"
  using assms(2)
proof (induction "nat (cl_fieldCount c)" arbitrary: p c rule: less_induct)
  case less
  show ?case
  proof (rule step [OF less.prems])
    fix d assume "cl_super c \<noteq> 0" and d: "cs (cl_super c) = Some d"
    with hierarchy_okD [OF assms(1) less.prems] have "cl_fieldCount d < cl_fieldCount c"
      by (auto simp: own_fields_ok_def)
    moreover have "0 < cl_fieldCount c"
      using hierarchy_okD [OF assms(1) less.prems] by (auto simp: own_fields_ok_def)
    ultimately show "P (cl_super c) d" using less.hyps d by auto
  qed
qed

lemma getFieldId_own: "cs p = Some c \<Longrightarrow> cl_fields c n = Some i \<Longrightarrow> getFieldId cs p n = Some i"
  by (simp add: getFieldId.simps)

lemma getFieldId_root:
  "cs p = Some c \<Longrightarrow> cl_fields c n = None \<Longrightarrow> cl_super c = 0 \<Longrightarrow> getFieldId cs p n = Some (- 1)"
  by (simp add: getFieldId.simps)

lemma getFieldId_super:
  "cs p = Some c \<Longrightarrow> cl_fields c n = None \<Longrightarrow> cl_super c \<noteq> 0 \<Longrightarrow>
     getFieldId cs p n = getFieldId cs (cl_super c) n"
  by (simp add: getFieldId.simps [of cs p n])

lemma getFieldId_total:
  assumes "hierarchy_ok cs" and "cs p = Some c"
  shows "\<exists>i. getFieldId cs p n = Some i \<and> (i = - 1 \<or> (0 < i \<and> i < cl_fieldCount c))"
proof (rule chain_induct [OF assms(1,2)])
  fix p c
  assume c: "cs p = Some c"
    and IH: "\<And>d. cl_super c \<noteq> 0 \<Longrightarrow> cs (cl_super c) = Some d \<Longrightarrow>
      \<exists>i. getFieldId cs (cl_super c) n = Some i \<and> (i = - 1 \<or> (0 < i \<and> i < cl_fieldCount d))"
  note h = hierarchy_okD [OF assms(1) c]
  show "\<exists>i. getFieldId cs p n = Some i \<and> (i = - 1 \<or> (0 < i \<and> i < cl_fieldCount c))"
  proof (cases "cl_fields c n")
    case (Some i)
    with h(1,2) fields.slots_ok_range [of "cl_fieldStartId c + 1" c n i] getFieldId_own [of cs p c n i] c
    show ?thesis by (auto simp: own_fields_ok_def)
  next
    case None
    show ?thesis
    proof (cases "cl_super c = 0")
      case True
      with getFieldId_root [of cs p c n] c None show ?thesis by simp
    next
      case False
      with h obtain d where d: "cs (cl_super c) = Some d" "cl_fieldCount d \<le> cl_fieldStartId c" by blast
      from IH [OF False d(1)] d(2) h(1) getFieldId_super [of cs p c n] c None False
      show ?thesis by (fastforce simp: own_fields_ok_def)
    qed
  qed
qed

lemma getFieldId_inj:
  assumes "hierarchy_ok cs" and "cs p = Some c"
  shows "getFieldId cs p n = Some i \<longrightarrow> getFieldId cs p m = Some i \<longrightarrow> i \<noteq> - 1 \<longrightarrow> n = m"
proof (rule chain_induct [OF assms(1,2)])
  fix p c
  assume c: "cs p = Some c"
    and IH: "\<And>d. cl_super c \<noteq> 0 \<Longrightarrow> cs (cl_super c) = Some d \<Longrightarrow>
      getFieldId cs (cl_super c) n = Some i \<longrightarrow> getFieldId cs (cl_super c) m = Some i \<longrightarrow> i \<noteq> - 1 \<longrightarrow> n = m"
  note h = hierarchy_okD [OF assms(1) c]
  have own_slots: "fields.slots_ok (cl_fieldStartId c + 1) c" using h(1) by (simp add: own_fields_ok_def)
  have inherited: "cl_super c \<noteq> 0 \<and> i < cl_fieldStartId c"
    if "cl_fields c k = None" "getFieldId cs p k = Some i" "i \<noteq> - 1" for k
  proof -
    from that have s: "cl_super c \<noteq> 0" using getFieldId_root [of cs p c k] c by auto
    with h obtain d where d: "cs (cl_super c) = Some d" "cl_fieldCount d \<le> cl_fieldStartId c" by blast
    from getFieldId_total [OF assms(1) d(1), of k] getFieldId_super [of cs p c k] that c d(2) s
    show ?thesis by auto
  qed
  show "getFieldId cs p n = Some i \<longrightarrow> getFieldId cs p m = Some i \<longrightarrow> i \<noteq> - 1 \<longrightarrow> n = m"
  proof (intro impI)
    assume n: "getFieldId cs p n = Some i" and m: "getFieldId cs p m = Some i" and i: "i \<noteq> - 1"
    consider (both) a b where "cl_fields c n = Some a" "cl_fields c m = Some b"
      | (one) a where "(cl_fields c n = Some a \<and> cl_fields c m = None)
          \<or> (cl_fields c n = None \<and> cl_fields c m = Some a)"
      | (none) "cl_fields c n = None" "cl_fields c m = None"
      by (cases "cl_fields c n"; cases "cl_fields c m") auto
    then show "n = m"
    proof cases
      case both
      with n m getFieldId_own [of cs p c] c fields.slots_ok_inj [OF own_slots] show ?thesis by auto
    next
      case one
      then show ?thesis
        using inherited [of n] inherited [of m] n m i c getFieldId_own [of cs p c]
          fields.slots_ok_range [OF own_slots] by fastforce
    next
      case none
      with inherited [OF none(1) n i] obtain d where "cs (cl_super c) = Some d" using h(3) by blast
      with IH inherited [OF none(1) n i] getFieldId_super [of cs p c n] getFieldId_super [of cs p c m]
        c none n m i show ?thesis by auto
    qed
  qed
qed

end
