(* ===== verification/Heap.thy ===== *)
theory Heap
  imports Classes
begin

text \<open>
  The object heap (src/libb0rk/runtime.cpp): the arena, allocation from its free list, and the
  mark and sweep collector.

  The arena is a map from addresses to the blocks that start there. \<open>gcMarkObject\<close> is recursive;
  its first argument is the depth of C stack it may still use, and running out of it (which ends
  the process) is \<open>None\<close>. The mark of a free block and the order in which \<open>std::map\<close> hands out
  the classes are not modelled: the collector reads neither.
\<close>

type_synonym heap = "nat \<Rightarrow> Object option"

section \<open>Objects\<close>

definition deref :: "Runtime \<Rightarrow> ptr \<Rightarrow> Object option" where
  "deref r p = rt_heap r (unat p)"

definition obj_getValue :: "int \<Rightarrow> Object \<Rightarrow> Value option" where
  "obj_getValue slot ob = idx (o_values ob) slot"

definition obj_setValue :: "int \<Rightarrow> Value \<Rightarrow> Object \<Rightarrow> Object option" where
  "obj_setValue slot v ob = do { vs \<leftarrow> upd (o_values ob) slot v; Some (ob\<lparr>o_values := vs\<rparr>) }"

definition getValue :: "Runtime \<Rightarrow> ptr \<Rightarrow> int \<Rightarrow> Value option" where
  "getValue r p slot = do { ob \<leftarrow> deref r p; obj_getValue slot ob }"

definition setValue :: "ptr \<Rightarrow> int \<Rightarrow> Value \<Rightarrow> Runtime \<Rightarrow> Runtime option" where
  "setValue p slot v r = do {
     ob \<leftarrow> deref r p;
     ob' \<leftarrow> obj_setValue slot v ob;
     Some (r\<lparr>rt_heap := (rt_heap r)(unat p \<mapsto> ob')\<rparr>) }"

text \<open>
  \<open>setNativeObject\<close> and \<open>getNativeObject\<close> use the class's last slot, and leave the type tag of
  that slot alone.
\<close>

definition setNativeObject :: "ptr \<Rightarrow> Class \<Rightarrow> ptr \<Rightarrow> Runtime \<Rightarrow> Runtime option" where
  "setNativeObject p c no r = do {
     v \<leftarrow> getValue r p (cl_fieldCount c - 1);
     setValue p (cl_fieldCount c - 1) (v\<lparr>v_bits := no\<rparr>) r }"

definition getNativeObject :: "Runtime \<Rightarrow> ptr \<Rightarrow> Class \<Rightarrow> ptr option" where
  "getNativeObject r p c = do { v \<leftarrow> getValue r p (cl_fieldCount c - 1); Some (v_bits v) }"

definition setExternalGC :: "ptr \<Rightarrow> Runtime \<Rightarrow> Runtime option" where
  "setExternalGC p r = do {
     ob \<leftarrow> deref r p;
     Some (r\<lparr>rt_heap := (rt_heap r)(unat p \<mapsto> ob\<lparr>o_gcMark := B0RK_GC_EXTERNAL\<rparr>)\<rparr>) }"

definition isObjectValid :: "Runtime \<Rightarrow> ptr \<Rightarrow> bool" where
  "isObjectValid r p \<longleftrightarrow> arena_start r \<le> unat p \<and> unat p < arena_start r + arena_size r"

definition getTimestamp :: "Runtime \<Rightarrow> u64 \<times> Runtime" where
  "getTimestamp r = (rt_clock r (rt_ticks r), r\<lparr>rt_ticks := rt_ticks r + 1\<rparr>)"

section \<open>Marking\<close>

definition gc_values :: "Object \<Rightarrow> Value list" where
  "gc_values ob = take ((o_size ob - sizeof_Object) div sizeof_Value) (o_values ob)"

definition set_mark :: "u64 \<Rightarrow> Object \<Rightarrow> Object" where
  "set_mark mark ob = (if o_gcMark ob \<noteq> B0RK_GC_EXTERNAL then ob\<lparr>o_gcMark := mark\<rparr> else ob)"

definition mark_at :: "u64 \<Rightarrow> nat \<Rightarrow> Object \<Rightarrow> heap \<Rightarrow> heap" where
  "mark_at mark a ob h = h(a \<mapsto> set_mark mark ob)"

function (sequential) gcMarkObject :: "nat \<Rightarrow> (ptr \<Rightarrow> bool) \<Rightarrow> u64 \<Rightarrow> nat \<Rightarrow> heap \<Rightarrow> heap option"
  and gcMarkValues :: "nat \<Rightarrow> (ptr \<Rightarrow> bool) \<Rightarrow> u64 \<Rightarrow> Value list \<Rightarrow> heap \<Rightarrow> heap option" where
  "gcMarkObject 0 valid mark a h = None"
| "gcMarkObject (Suc d) valid mark a h =
     (case h a of
        None \<Rightarrow> None
      | Some ob \<Rightarrow>
          if o_class ob = 0 then Some (mark_at mark a ob h)
          else gcMarkValues d valid mark (gc_values ob) (mark_at mark a ob h))"
| "gcMarkValues d valid mark [] h = Some h"
| "gcMarkValues d valid mark (v # vs) h =
     (if v_type v = VALUE_OBJECT \<and> valid (v_object v)
      then (case gcMarkObject d valid mark (unat (v_object v)) h of
              None \<Rightarrow> None
            | Some h' \<Rightarrow> gcMarkValues d valid mark vs h')
      else gcMarkValues d valid mark vs h)"
  by pat_completeness auto
termination
  by (relation "measures [\<lambda>p. case p of Inl (d, _) \<Rightarrow> d | Inr (d, _) \<Rightarrow> d,
        \<lambda>p. case p of Inl _ \<Rightarrow> 0 | Inr (_, _, _, vs, _) \<Rightarrow> Suc (length vs)]") auto

text \<open>
  The roots. Static fields of every loaded class are read with index 0 up to the class's static
  field count; then, for every context, the stack below its position and the local variables of
  the frames found on it. A frame's address is its depth on the C stack.
\<close>

fun static_roots :: "Class \<Rightarrow> nat \<Rightarrow> Value list option" where
  "static_roots c 0 = Some []"
| "static_roots c (Suc n) = do {
     vs \<leftarrow> static_roots c n;
     v \<leftarrow> getStaticField (int n) c;
     Some (vs @ [v]) }"

fun class_roots :: "Runtime \<Rightarrow> ptr list \<Rightarrow> Value list option" where
  "class_roots r [] = Some []"
| "class_roots r (p # ps) = do {
     c \<leftarrow> rt_class r p;
     vs \<leftarrow> static_roots c (nat (cl_staticFieldCount c));
     ws \<leftarrow> class_roots r ps;
     Some (vs @ ws) }"

definition frame_at :: "Frame list \<Rightarrow> ptr \<Rightarrow> Frame option" where
  "frame_at fs p = idx (rev fs) (int (unat p))"

fun stack_roots :: "Frame list \<Rightarrow> Value list \<Rightarrow> Value list option" where
  "stack_roots fs [] = Some []"
| "stack_roots fs (v # vs) = do {
     ws \<leftarrow> stack_roots fs vs;
     if v_type v = VALUE_FRAME \<and> v_bits v \<noteq> 0
     then do { f \<leftarrow> frame_at fs (v_bits v); Some (fr_localVars f @ ws) }
     else Some (v # ws) }"

definition context_roots :: "Frame list \<Rightarrow> Context \<Rightarrow> Value list option" where
  "context_roots fs c = stack_roots fs (take (nat (stackPos c)) (stack c))"

fun contexts_roots :: "(Context \<times> Frame list) list \<Rightarrow> Value list option" where
  "contexts_roots [] = Some []"
| "contexts_roots ((c, fs) # cs) = do {
     vs \<leftarrow> context_roots fs c; ws \<leftarrow> contexts_roots cs; Some (vs @ ws) }"

definition m_contexts :: "vm \<Rightarrow> (Context \<times> Frame list) list" where
  "m_contexts s = (if registered s then [(ctx s, cur s # callers s)] else []) @ otherContexts s"

section \<open>Sweeping\<close>

text \<open>
  The walk over the arena. A block of size 0 would keep the walk where it is for ever; that is
  \<open>None\<close>, too.
\<close>

definition free_block :: "Object \<Rightarrow> Object" where
  "free_block ob = ob\<lparr>o_class := 0, o_gcMark := - 1\<rparr>"

text \<open>\<open>freed\<close> is an \<open>int\<close>: the sum with a \<open>size_t\<close> is cut back to its 32 bits.\<close>

definition add_int32 :: "int \<Rightarrow> nat \<Rightarrow> int" where
  "add_int32 freed n = to_int32 (word_of_int freed + of_nat n)"

function sweep :: "u64 \<Rightarrow> nat \<Rightarrow> nat \<Rightarrow> Runtime \<times> int \<Rightarrow> (Runtime \<times> int) option" where
  "sweep mark e pos (r, freed) =
     (if pos < e then
        (case rt_heap r pos of
           None \<Rightarrow> None
         | Some ob \<Rightarrow>
             if o_size ob = 0 then None
             else if o_class ob = 0 then sweep mark e (pos + o_size ob) (r, freed)
             else if o_gcMark ob = mark \<or> o_gcMark ob = B0RK_GC_EXTERNAL
             then sweep mark e (pos + o_size ob)
                    (r\<lparr>currentObjects := currentObjects r + 1,
                       currentBytes := currentBytes r + int (o_size ob)\<rparr>, freed)
             else sweep mark e (pos + o_size ob)
                    (r\<lparr>collectedObjects := collectedObjects r + 1,
                       rt_heap := (rt_heap r)(pos \<mapsto> free_block ob),
                       freeList := freeList r @ [pos]\<rparr>, add_int32 freed (o_size ob)))
      else Some (r, freed))"
  by pat_completeness auto
termination
  by (relation "measure (\<lambda>(mark, e, pos, _). e - pos)") auto

declare sweep.simps [simp del]

text \<open>
  One run of the coalescing loop's body: the first free block that starts where the previous one
  ends is merged into it and leaves the list (its address no longer starts a block). \<open>None\<close> in
  the inner option is "nothing to merge".
\<close>

fun coalesce_once :: "heap \<Rightarrow> nat option \<Rightarrow> nat \<Rightarrow> nat list \<Rightarrow> (heap \<times> nat list) option option" where
  "coalesce_once h prev prevEnd [] = Some None"
| "coalesce_once h prev prevEnd (a # as) =
     (case h a of
        None \<Rightarrow> None
      | Some ob \<Rightarrow>
          if a = prevEnd
          then (case prev of
                  None \<Rightarrow> None
                | Some p \<Rightarrow>
                    (case h p of
                       None \<Rightarrow> None
                     | Some pb \<Rightarrow> Some (Some ((h(a := None))(p \<mapsto> pb\<lparr>o_size := o_size pb + o_size ob\<rparr>), as))))
          else (case coalesce_once h (Some a) (a + o_size ob) as of
                  None \<Rightarrow> None
                | Some None \<Rightarrow> Some None
                | Some (Some (h', as')) \<Rightarrow> Some (Some (h', a # as'))))"

lemma coalesce_once_shorter:
  "coalesce_once h prev pe as = Some (Some (h', as')) \<Longrightarrow> length as' < length as"
  by (induction h prev pe as arbitrary: h' as' rule: coalesce_once.induct)
     (fastforce split: option.splits if_splits)+

function coalesce :: "heap \<Rightarrow> nat list \<Rightarrow> (heap \<times> nat list) option" where
  "coalesce h as =
     (case coalesce_once h None 0 as of
        None \<Rightarrow> None
      | Some None \<Rightarrow> Some (h, as)
      | Some (Some (h', as')) \<Rightarrow> coalesce h' as')"
  by pat_completeness auto
termination
  by (relation "measure (\<lambda>(h, as). length as)") (auto dest: coalesce_once_shorter)

declare coalesce.simps [simp del]

definition gcArena :: "nat \<Rightarrow> u64 \<Rightarrow> vm \<Rightarrow> (int \<times> vm) option" where
  "gcArena d mark s = do {
     let r = rt s;
     vs \<leftarrow> contexts_roots (m_contexts s);
     h \<leftarrow> gcMarkValues d (isObjectValid r) mark vs (rt_heap r);
     (r1, freed) \<leftarrow> sweep mark (arena_start r + arena_size r) (arena_start r)
        (r\<lparr>rt_heap := h, currentObjects := 0, currentBytes := 0\<rparr>, 0);
     if freed > 0
     then do {
       (h', fl) \<leftarrow> coalesce (rt_heap r1) (sort (freeList r1));
       Some (freed, s\<lparr>rt := r1\<lparr>rt_heap := h', freeList := fl\<rparr>\<rparr>) }
     else Some (freed, s\<lparr>rt := r1\<rparr>) }"

definition gc :: "nat \<Rightarrow> bool \<Rightarrow> vm \<Rightarrow> vm option" where
  "gc d force s =
     (if \<not> gcEnabled (rt s) then Some s
      else do {
        let (now, r) = getTimestamp (rt s);
        s1 \<leftarrow> (if force \<or> newObjects r > gcLastAlloc r
               then do {
                 vs \<leftarrow> class_roots r (map snd (rt_classes r));
                 h \<leftarrow> gcMarkValues d (isObjectValid r) now vs (rt_heap r);
                 (freed, s') \<leftarrow> gcArena d now (s\<lparr>rt := r\<lparr>rt_heap := h\<rparr>\<rparr>);
                 Some (s'\<lparr>rt := (rt s')\<lparr>gcLastAlloc := newObjects (rt s')\<rparr>\<rparr>) }
               else Some (s\<lparr>rt := r\<rparr>));
        let (endTime, r2) = getTimestamp (rt s1);
        Some (s1\<lparr>rt := r2\<lparr>gcTime := gcTime r2 + (endTime - now)\<rparr>\<rparr>) })"

section \<open>Allocation\<close>

fun first_fit :: "heap \<Rightarrow> nat \<Rightarrow> nat list \<Rightarrow> (nat \<times> nat list) option" where
  "first_fit h n [] = None"
| "first_fit h n (a # as) =
     (case h a of
        None \<Rightarrow> None
      | Some ob \<Rightarrow>
          if n \<le> o_size ob then Some (a, as)
          else map_option (\<lambda>(b, bs). (b, a # bs)) (first_fit h n as))"

text \<open>
  The size computation: \<open>valueCount\<close> is an \<open>int\<close> to which an \<open>unsigned int\<close> is added, and
  \<open>objSize\<close> is an \<open>unsigned\<close>: the byte count is reduced modulo \<open>2 ^ 32\<close>. When it comes out smaller
  than a header, the new header lies over the next block's, and there is no defined result.
\<close>

definition object_size :: "int \<Rightarrow> u32 \<Rightarrow> nat" where
  "object_size fieldCount extra =
     (let valueCount = sint (word_of_int fieldCount + extra)
      in nat ((int sizeof_Object + valueCount * int sizeof_Value) mod 2 ^ 32))"

definition carve :: "ptr \<Rightarrow> nat \<Rightarrow> nat \<Rightarrow> nat list \<Rightarrow> Runtime \<Rightarrow> Runtime option" where
  "carve cp objSize a fl r = do {
     fb \<leftarrow> rt_heap r a;
     guard (sizeof_Object \<le> objSize);
     let freeSize = o_size fb - objSize;
     let size = (if freeSize > sizeof_Object then objSize else objSize + freeSize);
     let h = (if freeSize > sizeof_Object
              then (rt_heap r)(a + objSize \<mapsto>
                \<lparr>o_class = 0, o_size = freeSize, o_gcMark = 0,
                 o_values = replicate ((freeSize - sizeof_Object) div sizeof_Value) zero_value\<rparr>)
              else rt_heap r);
     let fl' = (if freeSize > sizeof_Object then fl @ [a + objSize] else fl);
     Some (r\<lparr>rt_heap := h(a \<mapsto>
               \<lparr>o_class = cp, o_size = size, o_gcMark = 0,
                o_values = replicate ((size - sizeof_Object) div sizeof_Value) zero_value\<rparr>),
             freeList := fl',
             newObjects := newObjects r + 1, newBytes := newBytes r + int size,
             currentObjects := currentObjects r + 1, currentBytes := currentBytes r + int size\<rparr>) }"

text \<open>
  \<open>allocateObject\<close>. When no free block is large enough the code exits the process: \<open>None\<close>.
\<close>

definition allocateObject :: "nat \<Rightarrow> ptr \<Rightarrow> u32 \<Rightarrow> vm \<Rightarrow> (ptr \<times> vm) option" where
  "allocateObject d cp extra s = do {
     s1 \<leftarrow> (if currentBytes (rt s) \<ge> (arenaTotal (rt s) div 4) * 3 \<and> gcEnabled (rt s)
            then gc d True s else Some s);
     c \<leftarrow> rt_class (rt s1) cp;
     let objSize = object_size (cl_fieldCount c) extra;
     (a, fl) \<leftarrow> first_fit (rt_heap (rt s1)) objSize (freeList (rt s1));
     r \<leftarrow> carve cp objSize a fl (rt s1);
     Some (of_nat a, s1\<lparr>rt := r\<rparr>) }"

end
