(* ===== verification/Utf8.thy ===== *)
theory Utf8
  imports Tokens
begin

text \<open>
  The UTF-8 routines the lexer and the file class call (include/b0rk/utf8.h). A buffer is a list
  of bytes and an iterator an index into it. The C++ exceptions are values (\<open>utf8_exn\<close>);
  \<open>BadRead\<close> is a read outside the buffer, which the code does not check.
\<close>

section \<open>Results\<close>

datatype utf_error =
    UTF8_OK | NOT_ENOUGH_ROOM | INVALID_LEAD | INCOMPLETE_SEQUENCE | OVERLONG_SEQUENCE
  | INVALID_CODE_POINT

datatype utf8_exn =
    not_enough_room
  | invalid_utf8 byte
  | invalid_code_point u32
  | BadRead

type_synonym 'a res = "utf8_exn + 'a"

definition rbind :: "'a res \<Rightarrow> ('a \<Rightarrow> 'b res) \<Rightarrow> 'b res" where
  "rbind m f = (case m of Inl e \<Rightarrow> Inl e | Inr x \<Rightarrow> f x)"

lemma rbind_simps [simp]: "rbind (Inl e) f = Inl e" "rbind (Inr x) f = f x"
  by (simp_all add: rbind_def)

lemma rbind_InrE:
  assumes "rbind m f = Inr y"
  obtains x where "m = Inr x" and "f x = Inr y"
  using assms by (cases m) auto

definition rd :: "byte list \<Rightarrow> nat \<Rightarrow> byte res" where
  "rd buf i = (if i < length buf then Inr (buf ! i) else Inl BadRead)"

section \<open>Classification of bytes and code points\<close>

definition is_trail :: "byte \<Rightarrow> bool" where
  "is_trail oc \<longleftrightarrow> drop_bit 6 oc = 2"

definition is_surrogate :: "u32 \<Rightarrow> bool" where
  "is_surrogate cp \<longleftrightarrow> 0xd800 \<le> cp \<and> cp \<le> 0xdfff"

definition is_code_point_valid :: "u32 \<Rightarrow> bool" where
  "is_code_point_valid cp \<longleftrightarrow> cp \<le> 0x10ffff \<and> \<not> is_surrogate cp"

definition sequence_length :: "byte \<Rightarrow> nat" where
  "sequence_length lead =
     (if lead < 0x80 then 1
      else if drop_bit 5 lead = 0x6 then 2
      else if drop_bit 4 lead = 0xe then 3
      else if drop_bit 3 lead = 0x1e then 4
      else 0)"

definition is_overlong_sequence :: "u32 \<Rightarrow> nat \<Rightarrow> bool" where
  "is_overlong_sequence cp n =
     (if cp < 0x80 then n \<noteq> 1
      else if cp < 0x800 then n \<noteq> 2
      else if cp < 0x10000 then n \<noteq> 3
      else False)"

section \<open>Decoding\<close>

definition increase_safely :: "byte list \<Rightarrow> nat \<Rightarrow> nat \<Rightarrow> (utf_error \<times> nat \<times> byte) res" where
  "increase_safely buf e it =
     (let it' = it + 1 in
      if it' = e then Inr (NOT_ENOUGH_ROOM, it', 0)
      else rbind (rd buf it') (\<lambda>b.
        Inr (if \<not> is_trail b then INCOMPLETE_SEQUENCE else UTF8_OK, it', b)))"

text \<open>
  \<open>UTF8_CPP_INCREASE_AND_RETURN_ON_ERROR\<close>: advance, leave the function on an error, else go on
  with the byte read.
\<close>

definition increase_or_return ::
    "byte list \<Rightarrow> nat \<Rightarrow> nat \<Rightarrow> u32 \<Rightarrow> (nat \<Rightarrow> u32 \<Rightarrow> (utf_error \<times> nat \<times> u32) res) \<Rightarrow> (utf_error \<times> nat \<times> u32) res" where
  "increase_or_return buf e it cp k =
     rbind (increase_safely buf e it) (\<lambda>(err, it', b).
       if err \<noteq> UTF8_OK then Inr (err, it', cp) else k it' (ucast b))"

definition get_sequence_1 :: "byte list \<Rightarrow> nat \<Rightarrow> nat \<Rightarrow> (utf_error \<times> nat \<times> u32) res" where
  "get_sequence_1 buf e it =
     (if it = e then Inr (NOT_ENOUGH_ROOM, it, 0)
      else rbind (rd buf it) (\<lambda>b. Inr (UTF8_OK, it, ucast b)))"

definition get_sequence_2 :: "byte list \<Rightarrow> nat \<Rightarrow> nat \<Rightarrow> (utf_error \<times> nat \<times> u32) res" where
  "get_sequence_2 buf e it =
     (if it = e then Inr (NOT_ENOUGH_ROOM, it, 0)
      else rbind (rd buf it) (\<lambda>b.
        let cp = ucast b in
        increase_or_return buf e it cp (\<lambda>it1 b1.
          Inr (UTF8_OK, it1, (push_bit 6 cp AND 0x7ff) + (b1 AND 0x3f)))))"

definition get_sequence_3 :: "byte list \<Rightarrow> nat \<Rightarrow> nat \<Rightarrow> (utf_error \<times> nat \<times> u32) res" where
  "get_sequence_3 buf e it =
     (if it = e then Inr (NOT_ENOUGH_ROOM, it, 0)
      else rbind (rd buf it) (\<lambda>b.
        let cp = ucast b in
        increase_or_return buf e it cp (\<lambda>it1 b1.
          let cp1 = (push_bit 12 cp AND 0xffff) + (push_bit 6 b1 AND 0xfff) in
          increase_or_return buf e it1 cp1 (\<lambda>it2 b2.
            Inr (UTF8_OK, it2, cp1 + (b2 AND 0x3f))))))"

definition get_sequence_4 :: "byte list \<Rightarrow> nat \<Rightarrow> nat \<Rightarrow> (utf_error \<times> nat \<times> u32) res" where
  "get_sequence_4 buf e it =
     (if it = e then Inr (NOT_ENOUGH_ROOM, it, 0)
      else rbind (rd buf it) (\<lambda>b.
        let cp = ucast b in
        increase_or_return buf e it cp (\<lambda>it1 b1.
          let cp1 = (push_bit 18 cp AND 0x1fffff) + (push_bit 12 b1 AND 0x3ffff) in
          increase_or_return buf e it1 cp1 (\<lambda>it2 b2.
            let cp2 = cp1 + (push_bit 6 b2 AND 0xfff) in
            increase_or_return buf e it2 cp2 (\<lambda>it3 b3.
              Inr (UTF8_OK, it3, cp2 + (b3 AND 0x3f)))))))"

definition get_sequence :: "nat \<Rightarrow> byte list \<Rightarrow> nat \<Rightarrow> nat \<Rightarrow> (utf_error \<times> nat \<times> u32) res" where
  "get_sequence n buf e it =
     (if n = 1 then get_sequence_1 buf e it
      else if n = 2 then get_sequence_2 buf e it
      else if n = 3 then get_sequence_3 buf e it
      else get_sequence_4 buf e it)"

definition validate_next :: "byte list \<Rightarrow> nat \<Rightarrow> nat \<Rightarrow> (utf_error \<times> nat \<times> u32) res" where
  "validate_next buf e it =
     rbind (rd buf it) (\<lambda>lead.
       let n = sequence_length lead in
       if n = 0 then Inr (INVALID_LEAD, it, 0)
       else rbind (get_sequence n buf e it) (\<lambda>(err, it', cp).
         if err = UTF8_OK
         then (if is_code_point_valid cp
               then (if \<not> is_overlong_sequence cp n then Inr (UTF8_OK, it' + 1, cp)
                     else Inr (OVERLONG_SEQUENCE, it, 0))
               else Inr (INVALID_CODE_POINT, it, 0))
         else Inr (err, it, 0)))"

text \<open>\<open>utf8::next\<close>: the code point and the iterator behind it.\<close>

definition utf8_next :: "byte list \<Rightarrow> nat \<Rightarrow> nat \<Rightarrow> (u32 \<times> nat) res" where
  "utf8_next buf e it =
     rbind (validate_next buf e it) (\<lambda>(err, it', cp).
       case err of
         UTF8_OK \<Rightarrow> Inr (cp, it')
       | NOT_ENOUGH_ROOM \<Rightarrow> Inl not_enough_room
       | INVALID_CODE_POINT \<Rightarrow> Inl (invalid_code_point cp)
       | _ \<Rightarrow> rbind (rd buf it') (\<lambda>b. Inl (invalid_utf8 b)))"

definition peek_next :: "byte list \<Rightarrow> nat \<Rightarrow> nat \<Rightarrow> u32 res" where
  "peek_next buf e it = rbind (utf8_next buf e it) (\<lambda>(cp, _). Inr cp)"

text \<open>
  \<open>utf8::prior\<close>: step back to the lead byte. The loop ends at the beginning of the buffer at the
  latest, where one more step would read in front of it.
\<close>

fun prior_loop :: "byte list \<Rightarrow> nat \<Rightarrow> nat \<Rightarrow> nat res" where
  "prior_loop buf start 0 = Inl BadRead"
| "prior_loop buf start (Suc it) =
     rbind (rd buf it) (\<lambda>b.
       if is_trail b
       then (if it = start then Inl (invalid_utf8 b) else prior_loop buf start it)
       else Inr it)"

definition prior :: "byte list \<Rightarrow> nat \<Rightarrow> nat \<Rightarrow> (u32 \<times> nat) res" where
  "prior buf start it =
     (if it = start then Inl not_enough_room
      else rbind (prior_loop buf start it) (\<lambda>it'.
        rbind (peek_next buf it it') (\<lambda>cp. Inr (cp, it'))))"

section \<open>Encoding\<close>

definition append_utf8 :: "u32 \<Rightarrow> byte list res" where
  "append_utf8 cp =
     (if \<not> is_code_point_valid cp then Inl (invalid_code_point cp)
      else if cp < 0x80 then Inr [ucast cp]
      else if cp < 0x800
      then Inr [ucast (drop_bit 6 cp OR 0xc0), ucast ((cp AND 0x3f) OR 0x80)]
      else if cp < 0x10000
      then Inr [ucast (drop_bit 12 cp OR 0xe0), ucast ((drop_bit 6 cp AND 0x3f) OR 0x80),
                ucast ((cp AND 0x3f) OR 0x80)]
      else Inr [ucast (drop_bit 18 cp OR 0xf0), ucast ((drop_bit 12 cp AND 0x3f) OR 0x80),
                ucast ((drop_bit 6 cp AND 0x3f) OR 0x80), ucast ((cp AND 0x3f) OR 0x80)])"

section \<open>Words as numbers\<close>

lemma uint_push: "uint (push_bit n (x :: u32)) = (uint x * 2 ^ n) mod 2 ^ 32"
  unfolding unsigned_push_bit_eq by (simp add: push_bit_eq_mult take_bit_eq_mod)

lemma uint_drop: "uint (drop_bit n (x :: 'a :: len word)) = uint x div 2 ^ n"
proof -
  have "take_bit LENGTH('a) (uint x) = uint x" by (metis unsigned_take_bit_eq take_bit_length_eq)
  then show ?thesis unfolding unsigned_drop_bit_eq by (simp add: drop_bit_eq_div)
qed

lemma uint_and_mask: "uint ((x :: 'a :: len word) AND mask n) = uint x mod 2 ^ n"
  unfolding take_bit_eq_mask [symmetric] unsigned_take_bit_eq by (simp add: take_bit_eq_mod)

lemma uint_ucast_up: "uint (ucast (b :: byte) :: u32) = uint b"
  by (rule uint_up_ucast) (simp add: is_up)

lemma uint_ucast_down: "uint (ucast (w :: u32) :: byte) = uint w mod 256"
  by (simp add: unsigned_ucast_eq take_bit_eq_mod)

lemma masks:
  "(0x3f :: u32) = mask 6" "(0x7ff :: u32) = mask 11" "(0xfff :: u32) = mask 12"
  "(0xffff :: u32) = mask 16" "(0x3ffff :: u32) = mask 18" "(0x1fffff :: u32) = mask 21"
  by (simp_all add: mask_eq_exp_minus_1)

lemma uint_and_masks:
  "uint ((x :: u32) AND 0x3f) = uint x mod 64" "uint (x AND 0x7ff) = uint x mod 2048"
  "uint (x AND 0xfff) = uint x mod 4096" "uint (x AND 0xffff) = uint x mod 65536"
  "uint (x AND 0x3ffff) = uint x mod 262144" "uint (x AND 0x1fffff) = uint x mod 2097152"
  unfolding masks uint_and_mask by simp_all

lemma byte_range: "0 \<le> uint (b :: byte) \<and> uint b < 256"
  using uint_lt2p [of b] by simp

lemma or_tables:
  "\<forall>x \<in> set [0..31]. x OR 192 = x + (192 :: int)"
  "\<forall>x \<in> set [0..15]. x OR 224 = x + (224 :: int)"
  "\<forall>x \<in> set [0..7]. x OR 240 = x + (240 :: int)"
  "\<forall>x \<in> set [0..63]. x OR 128 = x + (128 :: int)"
  by code_simp+

lemma or_lead:
  "0 \<le> x \<Longrightarrow> x < 32 \<Longrightarrow> x OR 192 = x + (192 :: int)"
  "0 \<le> x \<Longrightarrow> x < 16 \<Longrightarrow> x OR 224 = x + (224 :: int)"
  "0 \<le> x \<Longrightarrow> x < 8 \<Longrightarrow> x OR 240 = x + (240 :: int)"
  "0 \<le> x \<Longrightarrow> x < 64 \<Longrightarrow> x OR 128 = x + (128 :: int)"
  using or_tables by auto

lemma is_trail_uint: "is_trail b \<longleftrightarrow> 128 \<le> uint b \<and> uint b < 192"
proof -
  have "is_trail b \<longleftrightarrow> uint (drop_bit 6 b) = 2" by (simp add: is_trail_def word_uint_eq_iff)
  then show ?thesis unfolding uint_drop by auto
qed

lemma sequence_length_uint:
  "sequence_length b =
     (if uint b < 128 then 1 else if uint b < 192 then 0 else if uint b < 224 then 2
      else if uint b < 240 then 3 else if uint b < 248 then 4 else 0)"
proof -
  have d: "drop_bit 5 b = 0x6 \<longleftrightarrow> uint (drop_bit 5 b) = 6" "drop_bit 4 b = 0xe \<longleftrightarrow> uint (drop_bit 4 b) = 14"
    "drop_bit 3 b = 0x1e \<longleftrightarrow> uint (drop_bit 3 b) = 30" by (simp_all add: word_uint_eq_iff)
  have l: "b < 0x80 \<longleftrightarrow> uint b < 128" by (simp add: word_less_def)
  from byte_range [of b] show ?thesis
    unfolding sequence_length_def d l uint_drop by auto
qed

lemma valid_uint:
  "is_code_point_valid cp \<longleftrightarrow> uint cp \<le> 0x10ffff \<and> \<not> (0xd800 \<le> uint cp \<and> uint cp \<le> 0xdfff)"
  by (simp add: is_code_point_valid_def is_surrogate_def word_le_def)

lemma overlong_uint:
  "is_overlong_sequence cp n =
     (if uint cp < 128 then n \<noteq> 1 else if uint cp < 2048 then n \<noteq> 2
      else if uint cp < 65536 then n \<noteq> 3 else False)"
  by (simp add: is_overlong_sequence_def word_less_def)

section \<open>The encoding as numbers\<close>

definition enc :: "int \<Rightarrow> int list" where
  "enc c =
     (if c < 128 then [c]
      else if c < 2048 then [192 + c div 64, 128 + c mod 64]
      else if c < 65536 then [224 + c div 4096, 128 + c div 64 mod 64, 128 + c mod 64]
      else [240 + c div 262144, 128 + c div 4096 mod 64, 128 + c div 64 mod 64, 128 + c mod 64])"

lemma append_utf8_enc:
  assumes "append_utf8 cp = Inr bs"
  shows "is_code_point_valid cp \<and> map uint bs = enc (uint cp)"
proof -
  from assms have v: "is_code_point_valid cp" by (auto simp: append_utf8_def split: if_splits)
  then have r: "0 \<le> uint cp" "uint cp \<le> 0x10ffff" by (auto simp: valid_uint)
  have l: "cp < 0x80 \<longleftrightarrow> uint cp < 128" "cp < 0x800 \<longleftrightarrow> uint cp < 2048" "cp < 0x10000 \<longleftrightarrow> uint cp < 65536"
    by (simp_all add: word_less_def)
  from assms v r show ?thesis
    unfolding append_utf8_def enc_def l
    by (auto simp: uint_ucast_down uint_or uint_drop uint_and_masks or_lead split: if_splits)
qed

lemma append_utf8_total: "is_code_point_valid cp \<Longrightarrow> \<exists>bs. append_utf8 cp = Inr bs"
  by (auto simp: append_utf8_def)

section \<open>What decoding accepts\<close>

lemma rd_Inr: "rd buf i = Inr b \<longleftrightarrow> i < length buf \<and> b = buf ! i"
  by (auto simp: rd_def)

lemma increase_or_return_OK:
  "increase_or_return buf e it cp k = Inr (UTF8_OK, it', c) \<longleftrightarrow>
     it + 1 \<noteq> e \<and> it + 1 < length buf \<and> is_trail (buf ! (it + 1)) \<and>
     k (it + 1) (ucast (buf ! (it + 1))) = Inr (UTF8_OK, it', c)"
  by (auto simp: increase_or_return_def increase_safely_def rd_def Let_def split: if_splits)

lemma trail_low: "is_trail b \<Longrightarrow> uint b mod 64 = uint b - 128"
  unfolding is_trail_uint by presburger

lemma uint_add: "uint (a :: u32) + uint b < 2 ^ 32 \<Longrightarrow> uint (a + b) = uint a + uint b"
  using uint_add_lem [of a b] by simp

lemma shifted_mod:
  fixes x lo k m :: int
  assumes "lo \<le> x" "x < lo + n" "lo * k = q * m" "n * k \<le> m" "0 \<le> x" "x < 256" "0 < k" "k \<le> 2 ^ 20"
  shows "x * k mod 2 ^ 32 mod m = (x - lo) * k"
proof -
  have "x * k \<le> 255 * 2 ^ 20" using assms by (intro mult_mono) auto
  then have "x * k mod 2 ^ 32 = x * k" using assms by simp
  also have "x * k = q * m + (x - lo) * k" using assms(3) by (simp add: algebra_simps)
  also have "\<dots> mod m = (x - lo) * k"
  proof -
    have "(x - lo) * k < n * k" using assms by simp
    then have "(x - lo) * k < m" using assms(4) by (rule order_less_le_trans)
    moreover have "0 \<le> (x - lo) * k" using assms by simp
    ultimately show ?thesis by simp
  qed
  finally show ?thesis .
qed

text \<open>The contribution of each byte to the code point.\<close>

lemma lead_part:
  "192 \<le> uint b \<Longrightarrow> uint b < 224 \<Longrightarrow>
     uint (push_bit 6 (ucast (b :: byte) :: u32) AND 0x7ff) = (uint b - 192) * 64"
  "224 \<le> uint b \<Longrightarrow> uint b < 240 \<Longrightarrow>
     uint (push_bit 12 (ucast b :: u32) AND 0xffff) = (uint b - 224) * 4096"
  "240 \<le> uint b \<Longrightarrow> uint b < 248 \<Longrightarrow>
     uint (push_bit 18 (ucast b :: u32) AND 0x1fffff) = (uint b - 240) * 262144"
  using byte_range [of b] shifted_mod [of 192 "uint b" 32 64 6 2048]
    shifted_mod [of 224 "uint b" 16 4096 14 65536] shifted_mod [of 240 "uint b" 8 262144 30 2097152]
  unfolding uint_and_masks uint_push uint_ucast_up by simp_all

lemma trail_part:
  assumes "is_trail b"
  shows "uint (ucast (b :: byte) AND (0x3f :: u32)) = uint b - 128"
    and "uint (push_bit 6 (ucast b :: u32) AND 0xfff) = (uint b - 128) * 64"
    and "uint (push_bit 12 (ucast b :: u32) AND 0x3ffff) = (uint b - 128) * 4096"
    and "128 \<le> uint b" and "uint b < 192"
  using assms trail_low [OF assms] shifted_mod [of 128 "uint b" 64 64 2 4096]
    shifted_mod [of 128 "uint b" 64 4096 2 262144]
  unfolding uint_and_masks uint_push uint_ucast_up is_trail_uint by simp_all

lemma cp2:
  assumes "192 \<le> uint b0" "uint b0 < 224" "is_trail b1"
  shows "uint ((push_bit 6 (ucast (b0 :: byte) :: u32) AND 0x7ff) + (ucast b1 AND 0x3f)) =
    (uint b0 - 192) * 64 + (uint b1 - 128)"
proof -
  note p = lead_part(1) [OF assms(1,2)] and t = trail_part [OF assms(3)]
  from assms t(4,5) show ?thesis by (subst uint_add) (unfold p t, simp_all)
qed

lemma cp3:
  assumes "224 \<le> uint b0" "uint b0 < 240" "is_trail b1" "is_trail b2"
  shows "uint ((push_bit 12 (ucast (b0 :: byte) :: u32) AND 0xffff) + (push_bit 6 (ucast b1) AND 0xfff)
      + (ucast b2 AND 0x3f)) = (uint b0 - 224) * 4096 + (uint b1 - 128) * 64 + (uint b2 - 128)"
proof -
  note p = lead_part(2) [OF assms(1,2)] and t = trail_part [OF assms(3)] and u = trail_part [OF assms(4)]
  have a: "uint ((push_bit 12 (ucast b0 :: u32) AND 0xffff) + (push_bit 6 (ucast b1) AND 0xfff)) =
    (uint b0 - 224) * 4096 + (uint b1 - 128) * 64"
    using assms t(4,5) by (subst uint_add) (unfold p t, simp_all)
  from assms t(4,5) u(4,5) show ?thesis by (subst uint_add) (unfold a u, simp_all)
qed

lemma cp4:
  assumes "240 \<le> uint b0" "uint b0 < 248" "is_trail b1" "is_trail b2" "is_trail b3"
  shows "uint ((push_bit 18 (ucast (b0 :: byte) :: u32) AND 0x1fffff) + (push_bit 12 (ucast b1) AND 0x3ffff)
      + (push_bit 6 (ucast b2) AND 0xfff) + (ucast b3 AND 0x3f)) =
    (uint b0 - 240) * 262144 + (uint b1 - 128) * 4096 + (uint b2 - 128) * 64 + (uint b3 - 128)"
proof -
  note p = lead_part(3) [OF assms(1,2)] and t = trail_part [OF assms(3)] and u = trail_part [OF assms(4)]
    and w = trail_part [OF assms(5)]
  have a: "uint ((push_bit 18 (ucast b0 :: u32) AND 0x1fffff) + (push_bit 12 (ucast b1) AND 0x3ffff)) =
    (uint b0 - 240) * 262144 + (uint b1 - 128) * 4096"
    using assms t(4,5) by (subst uint_add) (unfold p t, simp_all)
  have b: "uint ((push_bit 18 (ucast b0 :: u32) AND 0x1fffff) + (push_bit 12 (ucast b1) AND 0x3ffff)
      + (push_bit 6 (ucast b2) AND 0xfff)) =
    (uint b0 - 240) * 262144 + (uint b1 - 128) * 4096 + (uint b2 - 128) * 64"
    using assms t(4,5) u(4,5) by (subst uint_add) (unfold a u, simp_all)
  from assms t(4,5) u(4,5) w(4,5) show ?thesis by (subst uint_add) (unfold b w, simp_all)
qed

lemma base64:
  assumes "0 \<le> (z :: int)" "z < 64"
  shows "(y * 64 + z) div 64 = y" "(y * 64 + z) mod 64 = z"
  using assms by simp_all

lemma div_64_64: "(c :: int) div 4096 = c div 64 div 64" "c div 262144 = c div 64 div 64 div 64"
  by (simp_all add: zdiv_zmult2_eq [symmetric])

lemma enc_build:
  "0 \<le> z \<Longrightarrow> z < 64 \<Longrightarrow> 128 \<le> x * 64 + z \<Longrightarrow> x * 64 + z < 2048 \<Longrightarrow>
     enc (x * 64 + z) = [192 + x, 128 + z]"
  by (simp add: enc_def base64)

lemma enc_build3:
  assumes "0 \<le> z" "z < 64" "0 \<le> y" "y < 64" "2048 \<le> x * 4096 + y * 64 + z" "x * 4096 + y * 64 + z < 65536"
  shows "enc (x * 4096 + y * 64 + z) = [224 + x, 128 + y, 128 + z]"
proof -
  have e: "x * 4096 + y * 64 + z = (x * 64 + y) * 64 + z" by simp
  show ?thesis using assms unfolding e
    by (simp add: enc_def div_64_64 base64 del: distrib_right_numeral)
qed

lemma enc_build4:
  assumes "0 \<le> z" "z < 64" "0 \<le> y" "y < 64" "0 \<le> w" "w < 64" "65536 \<le> x * 262144 + w * 4096 + y * 64 + z"
  shows "enc (x * 262144 + w * 4096 + y * 64 + z) = [240 + x, 128 + w, 128 + y, 128 + z]"
proof -
  have e: "x * 262144 + w * 4096 + y * 64 + z = ((x * 64 + w) * 64 + y) * 64 + z" by simp
  show ?thesis using assms unfolding e
    by (simp add: enc_def div_64_64 base64 del: distrib_right_numeral)
qed

lemma plus3: "it + 3 = Suc (Suc (Suc it))"
  by simp

definition slice :: "'a list \<Rightarrow> nat \<Rightarrow> nat \<Rightarrow> 'a list" where
  "slice buf i n = take n (drop i buf)"

lemma slice_step: "i < length buf \<Longrightarrow> slice buf i (Suc n) = buf ! i # slice buf (Suc i) n"
  by (simp add: slice_def Cons_nth_drop_Suc [symmetric])

lemma slice_0 [simp]: "slice buf i 0 = []"
  by (simp add: slice_def)

lemmas slice_simps = slice_step slice_0 numeral_2_eq_2 numeral_3_eq_3

text \<open>
  A run of \<open>get_sequence\<close> that succeeds: all bytes lie in front of the end, the trailing ones are
  trail bytes, and \<open>cp\<close> is their sum.
\<close>

lemma get_sequence_OK:
  assumes "get_sequence n buf e it = Inr (UTF8_OK, it', cp)" and "it \<le> e"
    and "n = sequence_length (buf ! it)" and "n \<noteq> 0"
  shows "it' + 1 = it + n \<and> it + n \<le> e \<and> it + n \<le> length buf \<and>
    (\<not> is_overlong_sequence cp n \<longrightarrow> is_code_point_valid cp \<longrightarrow> map uint (slice buf it n) = enc (uint cp))"
proof -
  let ?b = "\<lambda>k. buf ! (it + k)"
  from assms(3,4) have n: "n = 1 \<and> uint (?b 0) < 128 \<or> n = 2 \<and> 192 \<le> uint (?b 0) \<and> uint (?b 0) < 224
    \<or> n = 3 \<and> 224 \<le> uint (?b 0) \<and> uint (?b 0) < 240 \<or> n = 4 \<and> 240 \<le> uint (?b 0) \<and> uint (?b 0) < 248"
    by (auto simp: sequence_length_uint split: if_splits)
  have four: "(4 :: nat) = Suc 3" by simp
  from n show ?thesis
  proof (elim disjE conjE)
    assume "n = 1" "uint (?b 0) < 128"
    with assms(1,2) show ?thesis
      by (auto simp: get_sequence_def get_sequence_1_def rd_Inr enc_def uint_ucast_up slice_simps
          elim!: rbind_InrE split: if_splits)
  next
    assume n: "n = 2" "192 \<le> uint (?b 0)" "uint (?b 0) < 224"
    with assms(1,2) have t: "is_trail (?b 1)" "it + 2 \<le> e" "it + 2 \<le> length buf" "it' = it + 1"
      and cp: "cp = (push_bit 6 (ucast (?b 0)) AND 0x7ff) + (ucast (?b 1) AND 0x3f)"
      by (auto simp: get_sequence_def get_sequence_2_def rd_Inr increase_or_return_OK Let_def
          elim!: rbind_InrE split: if_splits)
    note c = cp2 [OF n(2,3) t(1), folded cp]
    have sl: "map uint (slice buf it n) = [uint (?b 0), uint (?b 1)]"
      using t n by (simp add: slice_simps)
    from trail_part(4,5) [OF t(1)] n c enc_build [of "uint (?b 1) - 128" "uint (?b 0) - 192"] have "\<not> is_overlong_sequence cp n \<longrightarrow>
        [uint (?b 0), uint (?b 1)] = enc (uint cp)"
      by (simp add: overlong_uint)
    with t n sl show ?thesis by simp
  next
    assume n: "n = 3" "224 \<le> uint (?b 0)" "uint (?b 0) < 240"
    with assms(1,2) have t: "is_trail (?b 1)" "is_trail (?b 2)" "it + 3 \<le> e" "it + 3 \<le> length buf" "it' = it + 2"
      and cp: "cp = (push_bit 12 (ucast (?b 0)) AND 0xffff) + (push_bit 6 (ucast (?b 1)) AND 0xfff)
        + (ucast (?b 2) AND 0x3f)"
      by (auto simp: get_sequence_def get_sequence_3_def rd_Inr increase_or_return_OK Let_def
          elim!: rbind_InrE split: if_splits)
    note c = cp3 [OF n(2,3) t(1,2), folded cp]
    have sl: "map uint (slice buf it n) = [uint (?b 0), uint (?b 1), uint (?b 2)]"
      using t n by (simp add: slice_simps)
    from trail_part(4,5) [OF t(1)] trail_part(4,5) [OF t(2)] n c
      enc_build3 [of "uint (?b 2) - 128" "uint (?b 1) - 128" "uint (?b 0) - 224"] have "\<not> is_overlong_sequence cp n \<longrightarrow>
        [uint (?b 0), uint (?b 1), uint (?b 2)] = enc (uint cp)"
      by (simp add: overlong_uint)
    with t n sl show ?thesis by simp
  next
    assume n: "n = 4" "240 \<le> uint (?b 0)" "uint (?b 0) < 248"
    with assms(1,2) have t: "is_trail (?b 1)" "is_trail (?b 2)" "is_trail (?b 3)" "it + 4 \<le> e"
      "it + 4 \<le> length buf" "it' = it + 3"
      and cp: "cp = (push_bit 18 (ucast (?b 0)) AND 0x1fffff) + (push_bit 12 (ucast (?b 1)) AND 0x3ffff)
        + (push_bit 6 (ucast (?b 2)) AND 0xfff) + (ucast (?b 3) AND 0x3f)"
      by (auto simp: get_sequence_def get_sequence_4_def rd_Inr increase_or_return_OK Let_def plus3
          elim!: rbind_InrE split: if_splits)
    note c = cp4 [OF n(2,3) t(1,2,3), folded cp]
    have sl: "map uint (slice buf it n) = [uint (?b 0), uint (?b 1), uint (?b 2), uint (?b 3)]"
      using t n by (simp add: slice_simps four)
    from trail_part(4,5) [OF t(1)] trail_part(4,5) [OF t(2)] trail_part(4,5) [OF t(3)] n c
      enc_build4 [of "uint (?b 3) - 128" "uint (?b 2) - 128" "uint (?b 1) - 128" "uint (?b 0) - 240"]
    have "\<not> is_overlong_sequence cp n \<longrightarrow>
        [uint (?b 0), uint (?b 1), uint (?b 2), uint (?b 3)] = enc (uint cp)"
      by (simp add: overlong_uint)
    with t n sl show ?thesis by simp
  qed
qed

lemma next_sound:
  assumes "utf8_next buf e it = Inr (cp, it')" and "it \<le> e"
  shows "it < it' \<and> it' \<le> e \<and> it' \<le> length buf \<and> is_code_point_valid cp \<and>
    map uint (slice buf it (it' - it)) = enc (uint cp)"
proof -
  from assms(1) have v: "validate_next buf e it = Inr (UTF8_OK, it', cp)"
    by (auto simp: utf8_next_def rd_Inr elim!: rbind_InrE split: utf_error.splits prod.splits)
  let ?n = "sequence_length (buf ! it)"
  from v obtain j where n: "?n \<noteq> 0" and g: "get_sequence ?n buf e it = Inr (UTF8_OK, j, cp)"
    and ok: "is_code_point_valid cp" "\<not> is_overlong_sequence cp ?n" "it' = j + 1"
    by (auto simp: validate_next_def rd_Inr Let_def elim!: rbind_InrE split: if_splits prod.splits)
  from get_sequence_OK [OF g assms(2) refl n] ok n show ?thesis by auto
qed

lemma digits64:
  fixes c :: int
  shows "c div 4096 * 4096 + c div 64 mod 64 * 64 + c mod 64 = c"
    and "c div 262144 * 262144 + c div 4096 mod 64 * 4096 + c div 64 mod 64 * 64 + c mod 64 = c"
proof -
  have "c div 64 * 64 + c mod 64 = c" "c div 64 div 64 * 64 + c div 64 mod 64 = c div 64"
    "c div 64 div 64 div 64 * 64 + c div 64 div 64 mod 64 = c div 64 div 64"
    by (simp_all only: div_mult_mod_eq)
  then show "c div 4096 * 4096 + c div 64 mod 64 * 64 + c mod 64 = c"
    and "c div 262144 * 262144 + c div 4096 mod 64 * 4096 + c div 64 mod 64 * 64 + c mod 64 = c"
    unfolding div_64_64 by linarith+
qed

lemma div_range: "0 \<le> c \<Longrightarrow> c < k * m \<Longrightarrow> 0 < k \<Longrightarrow> 0 \<le> c div k \<and> c div k < (m :: int)"
proof -
  assume c: "0 \<le> c" "c < k * m" "0 < k"
  have "c div k * k + c mod k = c" by (rule div_mult_mod_eq)
  moreover have "0 \<le> c mod k" using c by simp
  ultimately have "c div k * k < m * k" using c(2) mult.commute [of k m] by linarith
  with c show ?thesis by (simp add: pos_imp_zdiv_nonneg_iff)
qed

lemma next_accepts:
  assumes ok: "is_code_point_valid cp" and sl: "map uint (slice buf it (length (enc (uint cp)))) = enc (uint cp)"
    and e: "it + length (enc (uint cp)) \<le> e" "e \<le> length buf"
  shows "utf8_next buf e it = Inr (cp, it + length (enc (uint cp)))"
proof -
  let ?c = "uint cp" and ?b = "\<lambda>k. buf ! (it + k)"
  have r: "0 \<le> ?c" "?c \<le> 0x10ffff" using ok by (auto simp: valid_uint)
  let ?n = "length (enc ?c)"
  have four: "(4 :: nat) = Suc 3" by simp
  have "sequence_length (?b 0) = ?n \<and> ?n \<noteq> 0 \<and> get_sequence ?n buf e it = Inr (UTF8_OK, it + ?n - 1, cp)"
  proof -
    consider (1) "?c < 128" | (2) "128 \<le> ?c" "?c < 2048" | (3) "2048 \<le> ?c" "?c < 65536" | (4) "65536 \<le> ?c"
      by linarith
    then show ?thesis
    proof cases
      case 1
      then have en: "enc ?c = [?c]" by (simp add: enc_def)
      with sl e have b: "uint (?b 0) = ?c" by (simp add: slice_simps)
      then have "ucast (?b 0) = cp" by (simp add: word_uint_eq_iff uint_ucast_up)
      with 1 en b e show ?thesis
        by (simp add: sequence_length_uint get_sequence_def get_sequence_1_def rd_def)
    next
      case 2
      then have en: "enc ?c = [192 + ?c div 64, 128 + ?c mod 64]" by (simp add: enc_def)
      with sl e have b: "uint (?b 0) = 192 + ?c div 64" "uint (?b 1) = 128 + ?c mod 64"
        by (simp_all add: slice_simps)
      then have t: "is_trail (?b 1)" by (simp add: is_trail_uint)
      have rng: "0 \<le> ?c div 64" "?c div 64 < 32" using div_range [of ?c 64 32] 2 by auto
      with b(1) have lead: "192 \<le> uint (?b 0)" "uint (?b 0) < 224" by simp_all
      have "uint ((push_bit 6 (ucast (?b 0) :: u32) AND 0x7ff) + (ucast (?b 1) AND 0x3f)) = ?c"
        unfolding cp2 [OF lead t] unfolding b by (simp only: add_diff_cancel_left' div_mult_mod_eq)
      then have "(push_bit 6 (ucast (?b 0) :: u32) AND 0x7ff) + (ucast (?b 1) AND 0x3f) = cp"
        by (simp only: word_uint_eq_iff)
      moreover have "?n = 2" by (simp add: en)
      moreover have "sequence_length (?b 0) = 2" using lead by (simp add: sequence_length_uint)
      ultimately show ?thesis using t e
        by (simp add: get_sequence_def get_sequence_2_def rd_def
            increase_or_return_def increase_safely_def del: push_bit_numeral)
    next
      case 3
      then have en: "enc ?c = [224 + ?c div 4096, 128 + ?c div 64 mod 64, 128 + ?c mod 64]"
        by (simp add: enc_def)
      with sl e have b: "uint (?b 0) = 224 + ?c div 4096" "uint (?b 1) = 128 + ?c div 64 mod 64"
        "uint (?b 2) = 128 + ?c mod 64" by (simp_all add: slice_simps)
      then have t: "is_trail (?b 1)" "is_trail (?b 2)" by (simp_all add: is_trail_uint)
      have rng: "0 \<le> ?c div 4096" "?c div 4096 < 16" using div_range [of ?c 4096 16] 3 by auto
      with b(1) have lead: "224 \<le> uint (?b 0)" "uint (?b 0) < 240" by simp_all
      have "uint ((push_bit 12 (ucast (?b 0) :: u32) AND 0xffff) + (push_bit 6 (ucast (?b 1)) AND 0xfff)
          + (ucast (?b 2) AND 0x3f)) = ?c"
        unfolding cp3 [OF lead t] unfolding b by (simp only: add_diff_cancel_left' digits64)
      then have "(push_bit 12 (ucast (?b 0) :: u32) AND 0xffff) + (push_bit 6 (ucast (?b 1)) AND 0xfff)
          + (ucast (?b 2) AND 0x3f) = cp"
        by (simp only: word_uint_eq_iff)
      moreover have "?n = 3" by (simp add: en)
      moreover have "sequence_length (?b 0) = 3" using lead by (simp add: sequence_length_uint)
      ultimately show ?thesis using t e
        by (simp add: get_sequence_def get_sequence_3_def rd_def
            increase_or_return_def increase_safely_def del: push_bit_numeral)
    next
      case 4
      then have en: "enc ?c = [240 + ?c div 262144, 128 + ?c div 4096 mod 64, 128 + ?c div 64 mod 64, 128 + ?c mod 64]"
        by (simp add: enc_def)
      with sl e have b: "uint (?b 0) = 240 + ?c div 262144" "uint (?b 1) = 128 + ?c div 4096 mod 64"
        "uint (?b 2) = 128 + ?c div 64 mod 64" "uint (?b 3) = 128 + ?c mod 64"
        by (simp_all add: slice_simps four)
      then have t: "is_trail (?b 1)" "is_trail (?b 2)" "is_trail (?b 3)" by (simp_all add: is_trail_uint)
      have rng: "0 \<le> ?c div 262144" "?c div 262144 < 8" using div_range [of ?c 262144 8] 4 r by auto
      with b(1) have lead: "240 \<le> uint (?b 0)" "uint (?b 0) < 248" by simp_all
      have "uint ((push_bit 18 (ucast (?b 0) :: u32) AND 0x1fffff) + (push_bit 12 (ucast (?b 1)) AND 0x3ffff)
          + (push_bit 6 (ucast (?b 2)) AND 0xfff) + (ucast (?b 3) AND 0x3f)) = ?c"
        unfolding cp4 [OF lead t] unfolding b by (simp only: add_diff_cancel_left' digits64)
      then have "(push_bit 18 (ucast (?b 0) :: u32) AND 0x1fffff) + (push_bit 12 (ucast (?b 1)) AND 0x3ffff)
          + (push_bit 6 (ucast (?b 2)) AND 0xfff) + (ucast (?b 3) AND 0x3f) = cp"
        by (simp only: word_uint_eq_iff)
      moreover have "?n = 4" by (simp add: en)
      moreover have "sequence_length (?b 0) = 4" using lead by (simp add: sequence_length_uint)
      ultimately show ?thesis using t e
        by (simp add: get_sequence_def get_sequence_4_def rd_def plus3
            increase_or_return_def increase_safely_def del: push_bit_numeral)
    qed
  qed
  moreover have "\<not> is_overlong_sequence cp ?n" by (simp add: overlong_uint enc_def)
  moreover have "it < length buf"
  proof -
    have "1 \<le> ?n" by (simp add: enc_def)
    with e show ?thesis by linarith
  qed
  ultimately show ?thesis using ok e
    by (simp add: utf8_next_def validate_next_def rd_def)
qed

section \<open>Stepping back\<close>

lemma enc_shape:
  assumes "is_code_point_valid cp"
  shows "\<exists>l ts. enc (uint cp) = l # ts \<and> \<not> (128 \<le> l \<and> l < 192) \<and> (\<forall>t \<in> set ts. 128 \<le> t \<and> t < 192)"
proof -
  have r: "0 \<le> uint cp" "uint cp \<le> 0x10ffff" using assms by (auto simp: valid_uint)
  then have "0 \<le> uint cp div 64" "0 \<le> uint cp div 4096" "0 \<le> uint cp div 262144"
    by (simp_all only: pos_imp_zdiv_nonneg_iff zero_less_numeral)
  then show ?thesis by (auto simp: enc_def)
qed

lemma prior_loop_stops:
  assumes "\<And>j. it < j \<Longrightarrow> j \<le> it + k \<Longrightarrow> is_trail (buf ! j) \<and> j \<noteq> start" and "\<not> is_trail (buf ! it)"
    and "it + k < length buf"
  shows "prior_loop buf start (Suc (it + k)) = Inr it"
  using assms by (induction k) (simp_all add: rd_def)

text \<open>What \<open>utf8_next\<close> read, \<open>prior\<close> steps back over.\<close>

lemma prior_next:
  assumes nx: "utf8_next buf e it = Inr (cp, it')" and "it \<le> e" and start: "start \<le> it \<or> it' < start"
  shows "prior buf start it' = Inr (cp, it)"
proof -
  note s = next_sound [OF assms(1,2)]
  then have v: "is_code_point_valid cp" by simp
  from enc_shape [OF v] obtain l ts where enc: "enc (uint cp) = l # ts" "\<not> (128 \<le> l \<and> l < 192)"
    "\<forall>t \<in> set ts. 128 \<le> t \<and> t < 192" by auto
  define k where "k = it' - it - 1"
  have it': "it' = Suc (it + k)" using s by (simp add: k_def)
  with s have "slice buf it (it' - it) = buf ! it # slice buf (Suc it) k" by (simp add: slice_step)
  with s enc have b: "uint (buf ! it) = l" "map uint (slice buf (Suc it) k) = ts" by simp_all
  have lead: "\<not> is_trail (buf ! it)" using enc b by (simp add: is_trail_uint)
  have trail: "is_trail (buf ! j)" if "it < j" "j \<le> it + k" for j
  proof -
    have "slice buf (Suc it) k ! (j - Suc it) = buf ! j" using that s it' by (simp add: slice_def)
    moreover have "j - Suc it < length (slice buf (Suc it) k)"
      using that s it' by (simp add: slice_def) arith
    ultimately have "uint (buf ! j) \<in> set ts" using b(2) by (metis length_map nth_map nth_mem)
    with enc show ?thesis by (simp add: is_trail_uint)
  qed
  have "prior_loop buf start it' = Inr it" unfolding it'
    by (rule prior_loop_stops) (use trail lead s it' start in auto)
  moreover have "length (slice buf it (it' - it)) = it' - it" using s by (simp add: slice_def) arith
  then have "length (enc (uint cp)) = it' - it" using s by (metis length_map)
  then have "utf8_next buf it' it = Inr (cp, it')"
    using next_accepts [OF v, of buf it it'] s by simp
  ultimately show ?thesis using s start by (auto simp: prior_def peek_next_def)
qed

section \<open>Properties\<close>

text \<open>C14: encoding and decoding are inverse. Whatever \<open>utf8::append\<close> writes for a code point,
  \<open>utf8::next\<close> reads back as that code point, wherever the bytes stand in the buffer, and it moves
  the iterator exactly behind them.\<close>

theorem utf8_next_append:
  assumes "append_utf8 cp = Inr bs"
  shows "utf8_next (pre @ bs @ post) (length pre + length bs) (length pre) = Inr (cp, length pre + length bs)"
proof -
  note a = append_utf8_enc [OF assms]
  then have n: "length (enc (uint cp)) = length bs" by (metis length_map)
  from a n show ?thesis
    using next_accepts [of cp "pre @ bs @ post" "length pre" "length pre + length bs"]
    by (simp add: slice_def)
qed

lemma utf8_next_append_witness:
  "utf8_next [0x41, 0xe2, 0x82, 0xac, 0x42] 4 1 = Inr (0x20ac, 4)"
proof -
  have "append_utf8 0x20ac = Inr [0xe2, 0x82, 0xac]" by code_simp
  from utf8_next_append [OF this, of "[0x41]" "[0x42]"] show ?thesis by (simp add: numeral_eq_Suc)
qed

text \<open>C15: the decoder accepts nothing but encodings. A successful \<open>utf8::next\<close> moves forward,
  stays inside the buffer, and the bytes it passed are exactly what \<open>utf8::append\<close> writes for the
  code point it returned: no overlong form, surrogate or value above 10FFFF is ever returned.\<close>

theorem utf8_next_sound:
  assumes "utf8_next buf e it = Inr (cp, it')" and "it \<le> e"
  shows "it < it' \<and> it' \<le> e \<and> append_utf8 cp = Inr (slice buf it (it' - it))"
proof -
  note s = next_sound [OF assms]
  then obtain bs where bs: "append_utf8 cp = Inr bs" using append_utf8_total by blast
  from append_utf8_enc [OF bs] s have "map uint bs = map uint (slice buf it (it' - it))" by simp
  then have "bs = slice buf it (it' - it)" by (rule map_injective) (simp add: inj_def word_uint_eq_iff)
  with bs s show ?thesis by simp
qed

lemma utf8_next_sound_witness:
  "append_utf8 0xe9 = Inr (slice [0x61, 0xc3, 0xa9] 1 2)"
proof -
  have "utf8_next [0x61, 0xc3, 0xa9] 3 1 = Inr (0xe9, 3)" by code_simp
  from utf8_next_sound [OF this] show ?thesis by (simp add: numeral_2_eq_2)
qed

end
