(* ===== verification/Printing.thy ===== *)
theory Printing
  imports Heap Utf8
begin

text \<open>
  \<open>Value::toString\<close> (src/libb0rk/value.cpp), with the formats of the C library it uses: \<open>%p\<close> as
  glibc prints it and \<open>%0.2f\<close> as the exact value of the double rounded to two decimals, ties to
  even. \<open>swprintf\<close> leaves the buffer without a defined content when the text and its terminator
  do not fit the 128 characters; that is \<open>None\<close>.
\<close>

definition hex_digits :: "u64 \<Rightarrow> wstring" where
  "hex_digits p = rev (digits_rev 16 (uint p))"

definition fmt_pointer :: "u64 \<Rightarrow> wstring" where
  "fmt_pointer p = (if p = 0 then wstr ''(nil)'' else wstr ''0x'' @ hex_digits p)"

definition dec_digits :: "int \<Rightarrow> wstring" where
  "dec_digits n = (if n \<le> 0 then [48] else rev (digits_rev 10 n))"

text \<open>\<open>m * 2 ^ e * 100\<close>, rounded to an integer.\<close>

definition hundredths :: "int \<Rightarrow> int \<Rightarrow> int" where
  "hundredths m e = (if 0 \<le> e then m * 100 * 2 ^ nat e else round_shift (m * 100) (nat (- e)))"

definition fmt_2f :: "u64 \<Rightarrow> wstring" where
  "fmt_2f w =
     (case d_decode w of
        DNaN \<Rightarrow> (if d_sign w then wstr ''-nan'' else wstr ''nan'')
      | DInf s \<Rightarrow> (if s then wstr ''-inf'' else wstr ''inf'')
      | DFin s m e \<Rightarrow>
          let h = hundredths m e
          in (if s then [45] else []) @ dec_digits (h div 100) @ [46]
             @ [digit_char (h mod 100 div 10), digit_char (h mod 10)])"

definition c_str :: "wstring \<Rightarrow> wstring" where
  "c_str = takeWhile (\<lambda>c. c \<noteq> 0)"

definition in_buffer :: "wstring \<Rightarrow> wstring option" where
  "in_buffer s = (if length s < 128 then Some s else None)"

definition toString :: "Runtime \<Rightarrow> Value \<Rightarrow> wstring option" where
  "toString r v =
     (case v_type v of
        VALUE_OBJECT \<Rightarrow>
          (if v_object v \<noteq> 0
           then do {
             ob \<leftarrow> deref r (v_object v);
             if o_class ob \<noteq> 0
             then do {
               c \<leftarrow> rt_class r (o_class ob);
               in_buffer (wstr ''{OBJECT:'' @ c_str (cl_name c) @ wstr '':'' @ fmt_pointer (v_object v) @ wstr ''}'') }
             else in_buffer (wstr ''{OBJECT:UNKNOWN CLASS?:'' @ fmt_pointer (v_object v) @ wstr ''}'') }
           else Some (wstr ''{OBJECT:NULL}''))
      | VALUE_POINTER \<Rightarrow> Some (wstr ''{POINTER:'' @ fmt_pointer (v_bits v) @ wstr ''}'')
      | VALUE_INTEGER \<Rightarrow> Some (int642wstr (v_bits v) 10)
      | VALUE_DOUBLE \<Rightarrow> in_buffer (fmt_2f (v_double v))
      | VALUE_FRAME \<Rightarrow> Some (wstr ''{FRAME:'' @ fmt_pointer (v_bits v) @ wstr ''}'')
      | VALUE_VOID \<Rightarrow> Some (wstr ''{VOID}'')
      | VALUE_UNKNOWN \<Rightarrow> Some (wstr ''{UNKNOWN}''))"

text \<open>\<open>wcscmp\<close>: characters compare as the signed \<open>wchar_t\<close>; the C library returns -1, 0 or 1.\<close>

fun wcscmp :: "wstring \<Rightarrow> wstring \<Rightarrow> int" where
  "wcscmp [] [] = 0"
| "wcscmp [] (y # ys) = (if sint y < 0 then 1 else - 1)"
| "wcscmp (x # xs) [] = (if sint x < 0 then - 1 else 1)"
| "wcscmp (x # xs) (y # ys) =
     (if sint x < sint y then - 1 else if sint y < sint x then 1 else wcscmp xs ys)"

lemma wcscmp_eq:
  "(\<forall>c \<in> set xs. c \<noteq> 0) \<Longrightarrow> (\<forall>c \<in> set ys. c \<noteq> 0) \<Longrightarrow> wcscmp xs ys = 0 \<longleftrightarrow> xs = ys"
proof (induction xs ys rule: wcscmp.induct)
  case (4 x xs y ys)
  have "word_of_int (sint x) = x" "word_of_int (sint y) = y" by simp_all
  then have "sint x = sint y \<longleftrightarrow> x = y" by metis
  with 4 show ?case by auto
qed auto

lemma c_str_no_zero: "c \<in> set (c_str s) \<Longrightarrow> c \<noteq> 0"
  by (auto simp: c_str_def dest: set_takeWhileD)

text \<open>Comparing two C strings: zero exactly for equal text up to the first zero character.\<close>

lemma wcscmp_c_str: "wcscmp (c_str a) (c_str b) = 0 \<longleftrightarrow> c_str a = c_str b"
  using c_str_no_zero by (intro wcscmp_eq) blast+

section \<open>Properties\<close>

text \<open>C35: integers print as their decimal numeral: reading the text back gives the value, for every
  64-bit integer except the least one.\<close>

theorem int642wstr_roundtrip:
  assumes "sint w \<noteq> - (2 ^ 63)"
  shows "read_decimal (int642wstr w 10) = sint w"
proof -
  consider "w = 0" | "sint w < 0" | "0 < sint w" by (metis linorder_neqE sint_inject64 sint_0)
  then show ?thesis
  proof cases
    case 1
    then show ?thesis by (simp add: int642wstr_def)
  next
    case 2
    with sint_uminus64 [OF assms] have "sint (- w) = - sint w" "0 < - sint w" by simp_all
    with 2 show ?thesis by (auto simp: int642wstr_def read_rev_digits)
  next
    case 3
    then show ?thesis by (auto simp: int642wstr_def read_print_nonneg)
  qed
qed

lemma int642wstr_roundtrip_witness:
  "read_decimal (int642wstr (- 1234) 10) = - 1234"
proof -
  have "sint (- 1234 :: u64) = - 1234" by simp
  then show ?thesis using int642wstr_roundtrip [of "- 1234"] by simp
qed

text \<open>The least integer prints as a lone minus sign: \<open>v = -v\<close> overflows, the digit loop does
  not run and no digit is written.\<close>

theorem int642wstr_min: "int642wstr (word_of_int (- (2 ^ 63))) 10 = wstr ''-''"
proof -
  have "digits_rev 10 (- 9223372036854775808) = []" by (subst digits_rev.simps) simp
  then show ?thesis by (simp add: int642wstr_def wstr_def)
qed

end
