(* ===== verification/OperandStack.thy ===== *)
theory OperandStack
  imports State
begin

text \<open>
  The operand stack of a context as the opcode handlers use it, and the interface they rely on:
  \<open>push\<close> and \<open>pop\<close> behave as a stack as long as the position stays inside the array. The
  interface is a locale over an abstract list (\<open>view\<close>), interpreted on the context's array and
  on the whole machine.
\<close>

section \<open>Machine operations\<close>

definition push :: "Value \<Rightarrow> vm \<Rightarrow> vm option" where
  "push v s = do { c \<leftarrow> ctx_push v (ctx s); Some (s\<lparr>ctx := c\<rparr>) }"

definition pop :: "vm \<Rightarrow> (Value \<times> vm) option" where
  "pop s = do { (v, c) \<leftarrow> ctx_pop (ctx s); Some (v, s\<lparr>ctx := c\<rparr>) }"

definition peek :: "vm \<Rightarrow> Value option" where
  "peek s = ctx_peek (ctx s)"

definition pushInt :: "u64 \<Rightarrow> vm \<Rightarrow> vm option" where
  "pushInt i s = do { c \<leftarrow> ctx_pushInt i (ctx s); Some (s\<lparr>ctx := c\<rparr>) }"

definition pushDouble :: "u64 \<Rightarrow> vm \<Rightarrow> vm option" where
  "pushDouble d s = do { c \<leftarrow> ctx_pushDouble d (ctx s); Some (s\<lparr>ctx := c\<rparr>) }"

definition popInt :: "vm \<Rightarrow> (u64 \<times> vm) option" where
  "popInt s = do { (v, t) \<leftarrow> pop s; Some (v_bits v, t) }"

definition popDouble :: "vm \<Rightarrow> (u64 \<times> vm) option" where
  "popDouble s = do { (v, t) \<leftarrow> pop s; Some (v_bits v, t) }"

text \<open>\<open>Frame::fetch\<close>: the next code word; reading past the code has no defined result.\<close>

definition fetch :: "vm \<Rightarrow> (u64 \<times> vm) option" where
  "fetch s = do {
     w \<leftarrow> idx (ac_code (fr_code (cur s))) (fr_pc (cur s));
     Some (w, s\<lparr>cur := (cur s)\<lparr>fr_pc := fr_pc (cur s) + 1\<rparr>\<rparr>) }"

definition getLocal :: "int \<Rightarrow> vm \<Rightarrow> Value option" where
  "getLocal i s = idx (fr_localVars (cur s)) i"

definition setLocal :: "int \<Rightarrow> Value \<Rightarrow> vm \<Rightarrow> vm option" where
  "setLocal i v s = do {
     ls \<leftarrow> upd (fr_localVars (cur s)) i v;
     Some (s\<lparr>cur := (cur s)\<lparr>fr_localVars := ls\<rparr>\<rparr>) }"

lemmas vm_stack_defs [vm_defs] =
  push_def pop_def peek_def pushInt_def pushDouble_def popInt_def popDouble_def fetch_def
  getLocal_def setLocal_def ctx_push_def ctx_pop_def ctx_peek_def ctx_pushInt_def
  ctx_pushDouble_def

section \<open>The stack interface\<close>

locale operand_stack =
  fixes push_op :: "'v \<Rightarrow> 's \<Rightarrow> 's option"
    and pop_op :: "'s \<Rightarrow> ('v \<times> 's) option"
    and view :: "'s \<Rightarrow> 'v list"
    and ok :: "'s \<Rightarrow> bool"
    and room :: "'s \<Rightarrow> int"
    and rest :: "'s \<Rightarrow> 'r"
  assumes push_law: "ok s \<Longrightarrow> 0 < room s \<Longrightarrow>
      \<exists>t. push_op v s = Some t \<and> ok t \<and> view t = v # view s \<and> room t = room s - 1 \<and> rest t = rest s"
    and pop_law: "ok s \<Longrightarrow> view s = v # vs \<Longrightarrow>
      \<exists>t. pop_op s = Some (v, t) \<and> ok t \<and> view t = vs \<and> room t = room s + 1 \<and> rest t = rest s"
    and room_nonneg: "ok s \<Longrightarrow> 0 \<le> room s"
begin

lemma pop_push:
  assumes "ok s" and "0 < room s"
  shows "\<exists>t u. push_op v s = Some t \<and> pop_op t = Some (v, u) \<and> view u = view s
    \<and> room u = room s \<and> rest u = rest s \<and> ok u"
proof -
  from push_law [OF assms] obtain t where t: "push_op v s = Some t" "ok t" "view t = v # view s"
    "room t = room s - 1" "rest t = rest s" by blast
  from pop_law [OF t(2,3)] obtain u where "pop_op t = Some (v, u)" "ok u" "view u = view s"
    "room u = room t + 1" "rest u = rest t" by blast
  with t show ?thesis by auto
qed

text \<open>Replace the top.\<close>

lemma unary:
  assumes "ok s" and "view s = a # vs"
  shows "\<exists>u. do { (x, t) \<leftarrow> pop_op s; push_op (f x) t } = Some u
    \<and> ok u \<and> view u = f a # vs \<and> room u = room s \<and> rest u = rest s"
proof -
  from pop_law [OF assms] obtain t where t: "pop_op s = Some (a, t)" "ok t" "view t = vs"
    "room t = room s + 1" "rest t = rest s" by blast
  from room_nonneg [OF assms(1)] t(4) have "0 < room t" by simp
  from push_law [OF t(2) this, of "f a"] t show ?thesis by auto
qed

text \<open>Pop two, push the result: the shape of every arithmetic instruction.\<close>

lemma binary:
  assumes "ok s" and "view s = a # b # vs"
  shows "\<exists>u. do { (x, t) \<leftarrow> pop_op s; (y, t') \<leftarrow> pop_op t; push_op (f x y) t' } = Some u
    \<and> ok u \<and> view u = f a b # vs \<and> room u = room s + 1 \<and> rest u = rest s"
proof -
  from pop_law [OF assms] obtain t where t: "pop_op s = Some (a, t)" "ok t" "view t = b # vs"
    "room t = room s + 1" "rest t = rest s" by blast
  from unary [OF t(2,3), of "f a"] t show ?thesis by auto
qed

text \<open>Pop two and push both back, exchanged.\<close>

lemma swap_top:
  assumes "ok s" and "view s = a # b # vs"
  shows "\<exists>u. do { (x, t) \<leftarrow> pop_op s; (y, t') \<leftarrow> pop_op t; w \<leftarrow> push_op x t'; push_op y w } = Some u
    \<and> ok u \<and> view u = b # a # vs \<and> room u = room s \<and> rest u = rest s"
proof -
  from pop_law [OF assms] obtain t where t: "pop_op s = Some (a, t)" "ok t" "view t = b # vs"
    "room t = room s + 1" "rest t = rest s" by blast
  from pop_law [OF t(2,3)] obtain t' where t': "pop_op t = Some (b, t')" "ok t'" "view t' = vs"
    "room t' = room t + 1" "rest t' = rest t" by blast
  from room_nonneg [OF assms(1)] t(4) t'(4) have "0 < room t'" by simp
  from push_law [OF t'(2) this, of a] obtain w where w: "push_op a t' = Some w" "ok w"
    "view w = a # vs" "room w = room t' - 1" "rest w = rest t'" using t'(3) by auto
  from room_nonneg [OF assms(1)] t(4) t'(4) w(4) have "0 < room w" by simp
  from push_law [OF w(2) this, of b] t t' w show ?thesis by auto
qed

end

section \<open>The context's array implements the interface\<close>

lemma take_Suc_upd:
  assumes "0 \<le> p" and "p < int (length xs)"
  shows "take (nat (p + 1)) (xs[nat p := v]) = take (nat p) xs @ [v]"
proof -
  from assms have "nat (p + 1) = Suc (nat p)" "nat p < length xs" by linarith+
  then show ?thesis by (simp add: take_Suc_conv_app_nth)
qed

lemma operands_pop:
  assumes "0 \<le> p" and "p \<le> int (length xs)" and "rev (take (nat p) xs) = v # vs"
  shows "0 < p \<and> xs ! nat (p - 1) = v \<and> rev (take (nat (p - 1)) xs) = vs"
proof -
  from assms(3) have "0 < p" by (cases "p \<le> 0") auto
  then have "nat p = Suc (nat (p - 1))" "nat (p - 1) < length xs" using assms(2) by linarith+
  with assms(3) \<open>0 < p\<close> show ?thesis by (simp add: take_Suc_conv_app_nth)
qed

definition ctx_rest :: "Context \<Rightarrow> Context \<times> nat" where
  "ctx_rest c = (c\<lparr>stack := [], stackPos := 0\<rparr>, length (stack c))"

interpretation cs: operand_stack ctx_push ctx_pop operands ctx_ok ctx_room ctx_rest
proof unfold_locales
  fix s v assume "ctx_ok s" and "0 < ctx_room s"
  then show "\<exists>t. ctx_push v s = Some t \<and> ctx_ok t \<and> operands t = v # operands s
      \<and> ctx_room t = ctx_room s - 1 \<and> ctx_rest t = ctx_rest s"
    by (simp add: ctx_push_def ctx_ok_def ctx_room_def upd_def operands_def take_Suc_upd ctx_rest_def)
next
  fix s v vs assume ok: "ctx_ok s" and v: "operands s = v # vs"
  from ok v have "0 < stackPos s \<and> stack s ! nat (stackPos s - 1) = v
      \<and> rev (take (nat (stackPos s - 1)) (stack s)) = vs"
    by (intro operands_pop) (auto simp: ctx_ok_def operands_def)
  with ok show "\<exists>t. ctx_pop s = Some (v, t) \<and> ctx_ok t \<and> operands t = vs
      \<and> ctx_room t = ctx_room s + 1 \<and> ctx_rest t = ctx_rest s"
    by (simp add: ctx_pop_def ctx_ok_def ctx_room_def idx_def operands_def ctx_rest_def)
next
  fix s assume "ctx_ok s"
  then show "0 \<le> ctx_room s" by (simp add: ctx_ok_def ctx_room_def)
qed

text \<open>The machine's stack is its context's; nothing else of the machine changes.\<close>

definition opstack :: "vm \<Rightarrow> Value list" where
  "opstack s = operands (ctx s)"

definition vm_ok :: "vm \<Rightarrow> bool" where
  "vm_ok s \<longleftrightarrow> ctx_ok (ctx s)"

definition vm_room :: "vm \<Rightarrow> int" where
  "vm_room s = ctx_room (ctx s)"

definition vm_rest :: "vm \<Rightarrow> vm \<times> nat" where
  "vm_rest s = (s\<lparr>ctx := fst (ctx_rest (ctx s))\<rparr>, snd (ctx_rest (ctx s)))"

lemma vm_rest_cong:
  assumes "ctx_rest c = ctx_rest (ctx s)"
  shows "vm_rest (s\<lparr>ctx := c\<rparr>) = vm_rest s"
  using assms by (simp add: vm_rest_def)

interpretation ms: operand_stack push pop opstack vm_ok vm_room vm_rest
proof unfold_locales
  fix s v assume "vm_ok s" and "0 < vm_room s"
  then obtain c where "ctx_push v (ctx s) = Some c" "ctx_ok c" "operands c = v # operands (ctx s)"
    "ctx_room c = ctx_room (ctx s) - 1" "ctx_rest c = ctx_rest (ctx s)"
    using cs.push_law [of "ctx s" v] by (auto simp: vm_ok_def vm_room_def)
  then show "\<exists>t. push v s = Some t \<and> vm_ok t \<and> opstack t = v # opstack s
      \<and> vm_room t = vm_room s - 1 \<and> vm_rest t = vm_rest s"
    by (simp add: push_def vm_ok_def opstack_def vm_room_def vm_rest_cong)
next
  fix s v vs assume "vm_ok s" and "opstack s = v # vs"
  then obtain c where "ctx_pop (ctx s) = Some (v, c)" "ctx_ok c" "operands c = vs"
    "ctx_room c = ctx_room (ctx s) + 1" "ctx_rest c = ctx_rest (ctx s)"
    using cs.pop_law [of "ctx s" v vs] by (auto simp: vm_ok_def opstack_def)
  then show "\<exists>t. pop s = Some (v, t) \<and> vm_ok t \<and> opstack t = vs
      \<and> vm_room t = vm_room s + 1 \<and> vm_rest t = vm_rest s"
    by (simp add: pop_def vm_ok_def opstack_def vm_room_def vm_rest_cong)
next
  fix s assume "vm_ok s"
  then show "0 \<le> vm_room s" by (simp add: vm_ok_def vm_room_def cs.room_nonneg)
qed

end
