(* ===== verification/Services.thy ===== *)
theory Services
  imports Printing OperandStack
begin

text \<open>
  What the interpreter calls: strings, exceptions, object creation and constructors
  (src/libb0rk/runtime.cpp), the native classes (packages/system/lang/*.cpp,
  packages/system/io/File.cpp) and the calling convention of native functions
  (src/libb0rk/function.cpp).

  Everything that may call back into the interpreter takes an \<open>env\<close>: the virtual
  \<open>Function::execute\<close>, the assembler, the C stack left for the collector, and the random number
  generator, which comes from a library outside the repository. \<open>NULL\<close> results are the pointer 0.
  A call of \<open>exit\<close> is \<open>None\<close>.
\<close>

record env =
  ev_call :: "ptr \<Rightarrow> ptr \<Rightarrow> int \<Rightarrow> vm \<Rightarrow> (bool \<times> vm) option"
  ev_assemble :: "ptr \<Rightarrow> vm \<Rightarrow> (bool \<times> vm) option"
  ev_stack :: nat
  ev_steps :: nat
  ev_random :: "nat \<Rightarrow> int \<Rightarrow> int \<Rightarrow> u64"

section \<open>Small access functions\<close>

definition vm_rt :: "(Runtime \<Rightarrow> Runtime option) \<Rightarrow> vm \<Rightarrow> vm option" where
  "vm_rt f s = do { r \<leftarrow> f (rt s); Some (s\<lparr>rt := r\<rparr>) }"

definition vm_setValue :: "ptr \<Rightarrow> int \<Rightarrow> Value \<Rightarrow> vm \<Rightarrow> vm option" where
  "vm_setValue p slot v = vm_rt (setValue p slot v)"

definition objClass :: "Runtime \<Rightarrow> ptr \<Rightarrow> ptr option" where
  "objClass r p = do { ob \<leftarrow> deref r p; Some (o_class ob) }"

definition throw_exception :: "Value \<Rightarrow> vm \<Rightarrow> vm" where
  "throw_exception v s = s\<lparr>ctx := throwException v (ctx s)\<rparr>"

text \<open>\<open>new\<close> of a C++ object of the native classes: the next unused address.\<close>

definition new_native :: "native_object \<Rightarrow> Runtime \<Rightarrow> ptr \<times> Runtime" where
  "new_native no r =
     (let p = of_nat (rt_nextNative r)
      in (p, r\<lparr>rt_native := (rt_native r)(p \<mapsto> no), rt_nextNative := rt_nextNative r + 1\<rparr>))"

text \<open>\<open>findClass (name, false)\<close>: the table only.\<close>

definition findClass_loaded :: "wstring \<Rightarrow> Runtime \<Rightarrow> ptr" where
  "findClass_loaded name r = (case map_of (rt_classes r) name of Some p \<Rightarrow> p | None \<Rightarrow> 0)"

section \<open>Strings\<close>

definition createString :: "env \<Rightarrow> wstring \<Rightarrow> vm \<Rightarrow> (ptr \<times> vm) option" where
  "createString e str s = do {
     (p, s1) \<leftarrow> allocateObject (ev_stack e) (stringClass (rt s)) 0 s;
     c \<leftarrow> rt_class (rt s1) (stringClass (rt s1));
     let (no, r) = new_native (StringNative str) (rt s1);
     s2 \<leftarrow> vm_rt (setNativeObject p c no) (s1\<lparr>rt := r\<rparr>);
     Some (p, s2) }"

definition getString :: "Runtime \<Rightarrow> ptr \<Rightarrow> wstring option" where
  "getString r p =
     (if p = 0 then Some (wstr ''null'')
      else do {
        ob \<leftarrow> deref r p;
        if o_class ob \<noteq> stringClass r then Some (wstr ''NOTASTRING'')
        else do {
          c \<leftarrow> rt_class r (o_class ob);
          no \<leftarrow> getNativeObject r p c;
          case rt_native r no of Some (StringNative str) \<Rightarrow> Some str | _ \<Rightarrow> None } })"

definition getStringV :: "Runtime \<Rightarrow> Value \<Rightarrow> wstring option" where
  "getStringV r v = (if v_type v = VALUE_OBJECT then getString r (v_object v) else toString r v)"

text \<open>The text of an operand: a string object's own text, anything else through \<open>toString\<close>.\<close>

definition operandString :: "Runtime \<Rightarrow> Value \<Rightarrow> wstring option" where
  "operandString r v =
     (if v_type v = VALUE_OBJECT \<and> v_object v \<noteq> 0
      then do {
        cp \<leftarrow> objClass r (v_object v);
        if cp = stringClass r then getString r (v_object v) else toString r v }
      else toString r v)"

definition newString :: "env \<Rightarrow> wstring \<Rightarrow> vm \<Rightarrow> (ptr \<times> vm) option" where
  "newString e str s =
     (case rt_stringTable (rt s) str of
        Some p \<Rightarrow> Some (p, s)
      | None \<Rightarrow> do {
          (p, s1) \<leftarrow> createString e str s;
          s2 \<leftarrow> vm_rt (setExternalGC p) (s1\<lparr>rt := (rt s1)\<lparr>rt_stringTable := (rt_stringTable (rt s1))(str \<mapsto> p)\<rparr>\<rparr>);
          Some (p, s2) })"

section \<open>Objects and constructors\<close>

text \<open>The last part of a dotted name.\<close>

definition simple_name :: "wstring \<Rightarrow> wstring" where
  "simple_name n = rev (takeWhile (\<lambda>c. c \<noteq> 46) (rev n))"

partial_function (option) callConstructor ::
    "env \<Rightarrow> ptr \<Rightarrow> ptr \<Rightarrow> int \<Rightarrow> vm \<Rightarrow> (bool \<times> vm) option" where
  "callConstructor e obj cp argCount s = do {
     c \<leftarrow> rt_class (rt s) cp;
     (ok, s1) \<leftarrow> (if cl_super c \<noteq> 0 then callConstructor e obj (cl_super c) 0 s else Some (True, s));
     if \<not> ok then Some (False, s1)
     else do {
       ctor \<leftarrow> findMethod (rt_class (rt s1)) cp (simple_name (cl_name c));
       if ctor \<noteq> 0
       then do {
         (res, s2) \<leftarrow> ev_call e ctor obj argCount s1;
         if \<not> res then Some (False, s2)
         else do { (_, s3) \<leftarrow> pop s2; Some (True, s3) } }
       else Some (True, s1) } }"

definition newObject :: "env \<Rightarrow> ptr \<Rightarrow> int \<Rightarrow> vm \<Rightarrow> (ptr \<times> vm) option" where
  "newObject e cp argCount s = do {
     (p, s1) \<leftarrow> allocateObject (ev_stack e) cp 0 s;
     (res, s2) \<leftarrow> callConstructor e p cp argCount s1;
     if \<not> res then Some (0, s2) else Some (p, s2) }"

fun push_all :: "Value list \<Rightarrow> vm \<Rightarrow> vm option" where
  "push_all [] s = Some s"
| "push_all (v # vs) s = do { t \<leftarrow> push v s; push_all vs t }"

definition newObject_args :: "env \<Rightarrow> ptr \<Rightarrow> Value list \<Rightarrow> vm \<Rightarrow> (ptr \<times> vm) option" where
  "newObject_args e cp args s = do { t \<leftarrow> push_all args s; newObject e cp (int (length args)) t }"

definition newArray :: "env \<Rightarrow> int \<Rightarrow> vm \<Rightarrow> (ptr \<times> vm) option" where
  "newArray e n s = do { t \<leftarrow> push (mk_int (word_of_int n)) s; newObject e (arrayClass (rt t)) 1 t }"

section \<open>Exceptions\<close>

text \<open>\<open>getStackTrace\<close>: the names of the functions whose frames are on the stack, innermost first.\<close>

fun trace_entries :: "Runtime \<Rightarrow> Frame list \<Rightarrow> Value list \<Rightarrow> wstring list option" where
  "trace_entries r fs [] = Some []"
| "trace_entries r fs (v # vs) =
     (if v_type v = VALUE_FRAME
      then do {
        n \<leftarrow> (if v_bits v \<noteq> 0
             then do {
               f \<leftarrow> frame_at fs (v_bits v);
               fn \<leftarrow> rt_func r (ac_function (fr_code f));
               getFullName (rt_class r) fn }
             else Some (wstr ''<unknown>''));
        ns \<leftarrow> trace_entries r fs vs;
        Some (n # ns) }
      else trace_entries r fs vs)"

definition getStackTrace :: "vm \<Rightarrow> wstring list option" where
  "getStackTrace s = trace_entries (rt s) (cur s # callers s) (operands (ctx s))"

definition createException :: "env \<Rightarrow> Value \<Rightarrow> vm \<Rightarrow> (ptr \<times> vm) option" where
  "createException e v s = do {
     let ec = exceptionClass (rt s);
     (p, s1) \<leftarrow> newObject e ec 0 s;
     messageId \<leftarrow> getFieldId (rt_class (rt s1)) ec (wstr ''message'');
     s2 \<leftarrow> vm_setValue p messageId v s1;
     stackTraceId \<leftarrow> getFieldId (rt_class (rt s2)) ec (wstr ''stacktrace'');
     tr \<leftarrow> getStackTrace s2;
     let (no, r) = new_native (StackTrace tr) (rt s2);
     s3 \<leftarrow> vm_setValue p stackTraceId (mk_pointer no) (s2\<lparr>rt := r\<rparr>);
     Some (p, s3) }"

definition throw_message :: "env \<Rightarrow> string \<Rightarrow> vm \<Rightarrow> vm option" where
  "throw_message e msg s = do {
     (str, s1) \<leftarrow> createString e (wstr msg) s;
     (ex, s2) \<leftarrow> createException e (mk_object str) s1;
     Some (throw_exception (mk_object ex) s2) }"

definition getExceptionValue :: "Runtime \<Rightarrow> ptr \<Rightarrow> ptr option" where
  "getExceptionValue r p = do {
     messageId \<leftarrow> getFieldId (rt_class r) (exceptionClass r) (wstr ''message'');
     v \<leftarrow> getValue r p messageId;
     Some (if v_type v \<noteq> VALUE_OBJECT then 0 else v_object v) }"

definition getExceptionString :: "Runtime \<Rightarrow> ptr \<Rightarrow> wstring option" where
  "getExceptionString r p = do {
     m \<leftarrow> getExceptionValue r p;
     if m = 0 then Some [] else getString r m }"

section \<open>Arrays\<close>

definition array_constructor :: "env \<Rightarrow> ptr \<Rightarrow> Value list \<Rightarrow> vm \<Rightarrow> vm option" where
  "array_constructor e inst args s =
     (if length args \<noteq> 1 then throw_message e ''Wrong number of arguments'' s
      else do {
        sizeVal \<leftarrow> idx args 0;
        (d, s1) \<leftarrow> allocateObject (ev_stack e) (arrayDataClass (rt s)) (ucast (v_bits sizeVal)) s;
        s2 \<leftarrow> vm_setValue inst 1 sizeVal s1;
        vm_setValue inst 2 (mk_object d) s2 })"

text \<open>\<open>size\<close> is an \<open>int\<close>: the low 32 bits of the length field. A negative index passes the test.\<close>

definition array_load :: "env \<Rightarrow> ptr \<Rightarrow> Value \<Rightarrow> vm \<Rightarrow> (bool \<times> Value \<times> vm) option" where
  "array_load e array index s = do {
     szv \<leftarrow> getValue (rt s) array 1;
     if v_type index \<noteq> VALUE_INTEGER
     then do { t \<leftarrow> throw_message e ''Integer index required'' s; Some (True, indeterminate, t) }
     else if v_int index \<ge> to_int32 (v_bits szv)
     then do { t \<leftarrow> throw_message e ''Index out of bounds'' s; Some (True, indeterminate, t) }
     else do {
       d \<leftarrow> getValue (rt s) array 2;
       v \<leftarrow> getValue (rt s) (v_object d) (v_int index);
       Some (True, v, s) } }"

definition array_store :: "env \<Rightarrow> ptr \<Rightarrow> Value \<Rightarrow> Value \<Rightarrow> vm \<Rightarrow> (bool \<times> vm) option" where
  "array_store e array index value s = do {
     szv \<leftarrow> getValue (rt s) array 1;
     if v_type index \<noteq> VALUE_INTEGER
     then do { t \<leftarrow> throw_message e ''Integer index required'' s; Some (True, t) }
     else if v_int index \<ge> to_int32 (v_bits szv)
     then do { t \<leftarrow> throw_message e ''Index out of bounds'' s; Some (True, t) }
     else do {
       d \<leftarrow> getValue (rt s) array 2;
       t \<leftarrow> vm_setValue (v_object d) (v_int index) value s;
       Some (True, t) } }"

section \<open>The file class\<close>

text \<open>\<open>stdout\<close>, the one stream the program ever opens; its address is any non-null pointer.\<close>

definition stdout_ptr :: ptr where
  "stdout_ptr = 8"

definition BUFFER_SIZE :: nat where
  "BUFFER_SIZE = 1024"

text \<open>
  The character loop of \<open>File::doWrite\<close>: \<open>buf\<close> is what lies in \<open>outbuffer\<close> up to \<open>outpos\<close>; it is
  written out at the last character and when fewer than four bytes are left. A write behind the
  buffer has no defined result.
\<close>

fun write_chars :: "wstring \<Rightarrow> byte list \<Rightarrow> byte list \<Rightarrow> byte list option" where
  "write_chars [] buf out = Some out"
| "write_chars (c # cs) buf out =
     (case append_utf8 c of
        Inl _ \<Rightarrow> None
      | Inr bs \<Rightarrow>
          if BUFFER_SIZE < length (buf @ bs) then None
          else if cs = [] \<or> BUFFER_SIZE - 4 < length (buf @ bs)
          then write_chars cs [] (out @ buf @ bs)
          else write_chars cs (buf @ bs) out)"

definition doWrite_string :: "wstring \<Rightarrow> Runtime \<Rightarrow> Runtime option" where
  "doWrite_string str r = do {
     out \<leftarrow> write_chars str [] [];
     Some (r\<lparr>rt_output := rt_output r @ out\<rparr>) }"

fun doWrite :: "Value list \<Rightarrow> Runtime \<Rightarrow> Runtime option" where
  "doWrite [] r = Some r"
| "doWrite (v # vs) r = do {
     str \<leftarrow> operandString r v;
     r1 \<leftarrow> doWrite_string str r;
     doWrite vs r1 }"

text \<open>\<open>getDescriptor\<close>; writing to anything but \<open>stdout\<close>, the one stream there is, has no defined
  result.\<close>

definition getDescriptor :: "ptr \<Rightarrow> ptr \<Rightarrow> Runtime \<Rightarrow> ptr option" where
  "getDescriptor cp inst r =
     (if inst \<noteq> 0
      then do {
        fdId \<leftarrow> getFieldId (rt_class r) cp (wstr ''fileDescriptor'');
        v \<leftarrow> getValue r inst fdId;
        Some (v_bits v) }
      else Some stdout_ptr)"

definition file_write :: "bool \<Rightarrow> ptr \<Rightarrow> ptr \<Rightarrow> Value list \<Rightarrow> vm \<Rightarrow> vm option" where
  "file_write newline cp inst args s = do {
     fd \<leftarrow> getDescriptor cp inst (rt s);
     r \<leftarrow> doWrite args (rt s);
     let r' = (if newline then r\<lparr>rt_output := rt_output r @ [10]\<rparr> else r);
     guard (fd = stdout_ptr \<or> rt_output r' = rt_output (rt s));
     Some (s\<lparr>rt := r'\<rparr>) }"

definition file_init :: "env \<Rightarrow> ptr \<Rightarrow> vm \<Rightarrow> vm option" where
  "file_init e cp s = do {
     let fileClass = findClass_loaded (wstr ''system.io.File'') (rt s);
     (outFile, s1) \<leftarrow> allocateObject (ev_stack e) fileClass 0 s;
     fdFieldId \<leftarrow> getFieldId (rt_class (rt s1)) cp (wstr ''fileDescriptor'');
     s2 \<leftarrow> vm_setValue outFile fdFieldId (mk_pointer stdout_ptr) s1;
     outId \<leftarrow> getStaticFieldId (rt_class (rt s2)) cp (wstr ''out'');
     c \<leftarrow> rt_class (rt s2) fileClass;
     c' \<leftarrow> setStaticField outId (mk_object outFile) c;
     Some (s2\<lparr>rt := (rt s2)\<lparr>rt_class := (rt_class (rt s2))(fileClass \<mapsto> c')\<rparr>\<rparr>) }"

section \<open>Native functions\<close>

text \<open>The \<open>result\<close> a native method starts from.\<close>

definition void_result :: Value where
  "void_result = \<lparr>v_type = VALUE_VOID, v_bits = 0\<rparr>"

definition with_result :: "Value \<Rightarrow> vm option \<Rightarrow> (bool \<times> Value \<times> vm) option" where
  "with_result v m = do { s \<leftarrow> m; Some (True, v, s) }"

text \<open>
  The program never calls \<open>setlocale\<close>, so \<open>printf\<close> runs in the C locale, where \<open>%ls\<close> converts the 7-bit
  characters to themselves and fails on any other. What a failed \<open>printf\<close> leaves on the stream is up to
  the library: such a line has no result.
\<close>

fun print_lines :: "wstring list \<Rightarrow> byte list \<Rightarrow> byte list option" where
  "print_lines [] out = Some out"
| "print_lines (l # ls) out =
     (if list_all (\<lambda>c. c < 128) (c_str l)
      then print_lines ls (out @ map ucast (wstr ''Exception::printStackTrace: '' @ c_str l @ [10]))
      else None)"

definition maths_randomInt :: "env \<Rightarrow> Value list \<Rightarrow> vm \<Rightarrow> (bool \<times> Value \<times> vm) option" where
  "maths_randomInt e args s =
     (if length args \<noteq> 2 then with_result void_result (throw_message e ''Incorrect number of arguments'' s)
      else let r = rt s
           in Some (True, mk_int (ev_random e (rt_ticks r) (to_int32 (v_bits (args ! 0))) (to_int32 (v_bits (args ! 1)))),
                s\<lparr>rt := r\<lparr>rt_ticks := rt_ticks r + 1\<rparr>\<rparr>))"

definition maths_round :: "env \<Rightarrow> Value list \<Rightarrow> vm \<Rightarrow> (bool \<times> Value \<times> vm) option" where
  "maths_round e args s =
     (if length args \<noteq> 1 then with_result void_result (throw_message e ''Incorrect number of arguments'' s)
      else do {
        i \<leftarrow> d_lround (v_double (args ! 0));
        Some (True, mk_int (word_of_int i), s) })"

text \<open>
  The integer branch goes through \<open>sqrtl\<close>, whose 64-bit mantissa makes the truncated root exact for
  every non-negative 64-bit argument; the conversion of the NaN it gives for a negative one is
  undefined.
\<close>

definition maths_sqrt :: "env \<Rightarrow> Value list \<Rightarrow> vm \<Rightarrow> (bool \<times> Value \<times> vm) option" where
  "maths_sqrt e args s =
     (if length args \<noteq> 1 then with_result void_result (throw_message e ''Incorrect number of arguments'' s)
      else if v_type (args ! 0) = VALUE_INTEGER
      then do {
        guard (0 \<le> v_int (args ! 0));
        Some (True, mk_int (word_of_int (isqrt (v_int (args ! 0)))), s) }
      else if v_type (args ! 0) = VALUE_DOUBLE
      then Some (True, mk_double (d_sqrt (v_double (args ! 0))), s)
      else with_result void_result (throw_message e ''Invalid argument'' s))"

text \<open>\<open>String::String (args)\<close>.\<close>

definition string_constructor :: "ptr \<Rightarrow> ptr \<Rightarrow> Value list \<Rightarrow> vm \<Rightarrow> (bool \<times> Value \<times> vm) option" where
  "string_constructor cp inst args s =
     (if 1 < length args then Some (False, void_result, s)
      else do {
        str \<leftarrow> (case args of
                 [] \<Rightarrow> Some []
               | v # _ \<Rightarrow>
                   if v_type v = VALUE_OBJECT \<and> v_object v \<noteq> 0
                   then do {
                     oc \<leftarrow> objClass (rt s) (v_object v);
                     if oc = cp
                     then do {
                       c \<leftarrow> rt_class (rt s) cp;
                       no \<leftarrow> getNativeObject (rt s) (v_object v) c;
                       case rt_native (rt s) no of Some (StringNative str) \<Rightarrow> Some str | _ \<Rightarrow> None }
                     else toString (rt s) v }
                   else toString (rt s) v);
        c \<leftarrow> rt_class (rt s) cp;
        let (no, r) = new_native (StringNative str) (rt s);
        with_result void_result (vm_rt (setNativeObject inst c no) (s\<lparr>rt := r\<rparr>)) })"

definition exception_printStackTrace :: "ptr \<Rightarrow> ptr \<Rightarrow> vm \<Rightarrow> (bool \<times> Value \<times> vm) option" where
  "exception_printStackTrace cp inst s = do {
     i \<leftarrow> getFieldId (rt_class (rt s)) cp (wstr ''stacktrace'');
     v \<leftarrow> getValue (rt s) inst i;
     (case rt_native (rt s) (v_bits v) of
        Some (StackTrace ls) \<Rightarrow> do {
          out \<leftarrow> print_lines ls (rt_output (rt s));
          Some (True, void_result, s\<lparr>rt := (rt s)\<lparr>rt_output := out\<rparr>\<rparr>) }
      | _ \<Rightarrow> None) }"

primrec run_native :: "native_method \<Rightarrow> env \<Rightarrow> ptr \<Rightarrow> ptr \<Rightarrow> Value list \<Rightarrow> vm \<Rightarrow> (bool \<times> Value \<times> vm) option" where
  "run_native Object_toString e cp inst args s = Some (True, void_result, s)"
| "run_native Array_constructor e cp inst args s = with_result void_result (array_constructor e inst args s)"
| "run_native Function_constructor e cp inst args s = do {
     v \<leftarrow> idx args 0;
     with_result void_result (vm_setValue inst 0 v s) }"
| "run_native String_constructor e cp inst args s = string_constructor cp inst args s"
| "run_native Exception_printStackTrace e cp inst args s = exception_printStackTrace cp inst s"
| "run_native Maths_randomInt e cp inst args s = maths_randomInt e args s"
| "run_native Maths_round e cp inst args s = maths_round e args s"
| "run_native Maths_sqrt e cp inst args s = maths_sqrt e args s"
| "run_native Runtime_exit e cp inst args s = (if length args \<noteq> 1 then Some (False, void_result, s) else None)"
| "run_native Time_now e cp inst args s =
     (let (now, r) = getTimestamp (rt s) in Some (True, mk_int (now div 1000), s\<lparr>rt := r\<rparr>))"
| "run_native File_init e cp inst args s = with_result void_result (file_init e cp s)"
| "run_native File_write e cp inst args s = with_result void_result (file_write False cp inst args s)"
| "run_native File_writeln e cp inst args s = with_result void_result (file_write True cp inst args s)"

text \<open>The methods of \<open>StringNative\<close>; \<open>m_string\<close> is the receiver's text.\<close>

primrec run_native_object :: "native_object_method \<Rightarrow> env \<Rightarrow> wstring \<Rightarrow> Value list \<Rightarrow> vm \<Rightarrow> (bool \<times> Value \<times> vm) option" where
  "run_native_object Str_addOperator e m_string args s = do {
     rhs \<leftarrow> idx args 0;
     rhsStr \<leftarrow> operandString (rt s) rhs;
     (p, t) \<leftarrow> createString e (m_string @ rhsStr) s;
     Some (True, mk_object p, t) }"
| "run_native_object Str_eqOperator e m_string args s = do {
     rhs \<leftarrow> idx args 0;
     rhsStr \<leftarrow> operandString (rt s) rhs;
     Some (True, mk_int (word_of_int (wcscmp (c_str m_string) (c_str rhsStr))), s) }"
| "run_native_object Str_length e m_string args s = Some (True, mk_int (of_nat (length m_string)), s)"
| "run_native_object Str_at e m_string args s =
     (if length args \<noteq> 1 then Some (False, void_result, s)
      else do {
        guard (unat (v_bits (args ! 0)) < length m_string);
        Some (True, mk_int (scast (m_string ! unat (v_bits (args ! 0)))), s) })"

section \<open>Calling native functions\<close>

text \<open>The first \<open>n\<close> operands, the one pushed first in front.\<close>

fun pop_args :: "nat \<Rightarrow> Value list \<Rightarrow> vm \<Rightarrow> (Value list \<times> vm) option" where
  "pop_args 0 acc s = Some (acc, s)"
| "pop_args (Suc n) acc s = do { (v, t) \<leftarrow> pop s; pop_args n (v # acc) t }"

definition push_result :: "(bool \<times> Value \<times> vm) option \<Rightarrow> (bool \<times> vm) option" where
  "push_result m = do {
     (res, result, s) \<leftarrow> m;
     if \<not> res then Some (False, s)
     else if \<not> has_exception (ctx s) then do { t \<leftarrow> push result s; Some (True, t) }
     else Some (True, s) }"

definition native_execute :: "env \<Rightarrow> native_method \<Rightarrow> ptr \<Rightarrow> ptr \<Rightarrow> int \<Rightarrow> vm \<Rightarrow> (bool \<times> vm) option" where
  "native_execute e m cp inst argCount s = do {
     guard (0 \<le> argCount);
     (args, t) \<leftarrow> pop_args (nat argCount) [] s;
     push_result (run_native m e cp inst args t) }"

definition native_object_execute ::
    "env \<Rightarrow> native_object_method \<Rightarrow> ptr \<Rightarrow> ptr \<Rightarrow> int \<Rightarrow> vm \<Rightarrow> (bool \<times> vm) option" where
  "native_object_execute e m cp inst argCount s = do {
     guard (0 \<le> argCount);
     (args, t) \<leftarrow> pop_args (nat argCount) [] s;
     c \<leftarrow> rt_class (rt t) cp;
     no \<leftarrow> getNativeObject (rt t) inst c;
     (case rt_native (rt t) no of
        Some (StringNative str) \<Rightarrow> push_result (run_native_object m e str args t)
      | _ \<Rightarrow> None) }"

declare callConstructor.simps [code]

text \<open>
  \<open>Function::execute\<close> with an argument vector: push, call, and turn an exception nobody caught
  into a failure.
\<close>

definition execute_argv :: "env \<Rightarrow> ptr \<Rightarrow> ptr \<Rightarrow> Value list \<Rightarrow> vm \<Rightarrow> (bool \<times> Value \<times> vm) option" where
  "execute_argv e f inst argv s = do {
     s1 \<leftarrow> push_all argv s;
     (res, s2) \<leftarrow> ev_call e f inst (int (length argv)) s1;
     if \<not> res then Some (False, indeterminate, s2)
     else if has_exception (ctx s2)
     then do {
       _ \<leftarrow> getExceptionString (rt s2) (v_object (exceptionValue (ctx s2)));
       Some (False, indeterminate, s2) }
     else do { (v, s3) \<leftarrow> pop s2; Some (True, v, s3) } }"

end
