(* ===== verification/Executor.thy ===== *)
theory Executor
  imports Services
begin

text \<open>
  The interpreter (src/libb0rk/executor.cpp): one definition per opcode handler, the dispatch
  table, the run loop and the delivery of exceptions to handlers.

  A handler returns \<open>Some (b, s)\<close>, \<open>b\<close> being what the C++ handler returns, or \<open>None\<close> where it has
  no defined result. Integers wrap at 64 bits; division truncates towards zero and has no result
  for a zero divisor or for the least value divided by -1.
\<close>

section \<open>Variables, fields and arrays\<close>

definition opcodeLoadVar :: "vm \<Rightarrow> (bool \<times> vm) option" where
  "opcodeLoadVar s = do {
     (w, s1) \<leftarrow> fetch s;
     v \<leftarrow> getLocal (to_int32 w) s1;
     s2 \<leftarrow> push v s1;
     Some (True, s2) }"

definition opcodeStoreVar :: "vm \<Rightarrow> (bool \<times> vm) option" where
  "opcodeStoreVar s = do {
     (w, s1) \<leftarrow> fetch s;
     (v, s2) \<leftarrow> pop s1;
     s3 \<leftarrow> setLocal (to_int32 w) v s2;
     Some (True, s3) }"

definition opcodeLoadField :: "vm \<Rightarrow> (bool \<times> vm) option" where
  "opcodeLoadField s = do {
     (objValue, s1) \<leftarrow> pop s;
     (w, s2) \<leftarrow> fetch s1;
     result \<leftarrow> getValue (rt s2) (v_object objValue) (to_int32 w);
     s3 \<leftarrow> push result s2;
     Some (True, s3) }"

definition opcodeLoadFieldNamed :: "vm \<Rightarrow> (bool \<times> vm) option" where
  "opcodeLoadFieldNamed s = do {
     (nameValue, s1) \<leftarrow> pop s;
     (objValue, s2) \<leftarrow> pop s1;
     varName \<leftarrow> getString (rt s2) (v_object nameValue);
     if v_type objValue = VALUE_OBJECT \<and> v_object objValue \<noteq> 0
     then do {
       cp \<leftarrow> objClass (rt s2) (v_object objValue);
       i \<leftarrow> getFieldId (rt_class (rt s2)) cp varName;
       if i \<noteq> - 1
       then do { v \<leftarrow> getValue (rt s2) (v_object objValue) i; s3 \<leftarrow> push v s2; Some (True, s3) }
       else Some (False, s2) }
     else Some (False, s2) }"

definition opcodeStoreFieldNamed :: "vm \<Rightarrow> (bool \<times> vm) option" where
  "opcodeStoreFieldNamed s = do {
     (nameValue, s1) \<leftarrow> pop s;
     (objValue, s2) \<leftarrow> pop s1;
     (value, s3) \<leftarrow> pop s2;
     varName \<leftarrow> getStringV (rt s3) nameValue;
     if v_type objValue = VALUE_OBJECT \<and> v_object objValue \<noteq> 0
     then do {
       cp \<leftarrow> objClass (rt s3) (v_object objValue);
       i \<leftarrow> getFieldId (rt_class (rt s3)) cp varName;
       if i \<noteq> - 1
       then do { s4 \<leftarrow> vm_setValue (v_object objValue) i value s3; Some (True, s4) }
       else Some (False, s3) }
     else Some (False, s3) }"

definition opcodeLoadStaticField :: "vm \<Rightarrow> (bool \<times> vm) option" where
  "opcodeLoadStaticField s = do {
     (cp, s1) \<leftarrow> fetch s;
     (w, s2) \<leftarrow> fetch s1;
     c \<leftarrow> rt_class (rt s2) cp;
     v \<leftarrow> getStaticField (to_int32 w) c;
     s3 \<leftarrow> push v s2;
     Some (True, s3) }"

definition opcodeStoreStaticField :: "vm \<Rightarrow> (bool \<times> vm) option" where
  "opcodeStoreStaticField s = do {
     (cp, s1) \<leftarrow> fetch s;
     (w, s2) \<leftarrow> fetch s1;
     (v, s3) \<leftarrow> pop s2;
     c \<leftarrow> rt_class (rt s3) cp;
     c' \<leftarrow> setStaticField (to_int32 w) v c;
     Some (True, s3\<lparr>rt := (rt s3)\<lparr>rt_class := (rt_class (rt s3))(cp \<mapsto> c')\<rparr>\<rparr>) }"

definition opcodeStoreField :: "vm \<Rightarrow> (bool \<times> vm) option" where
  "opcodeStoreField s = do {
     (objValue, s1) \<leftarrow> pop s;
     (value, s2) \<leftarrow> pop s1;
     (w, s3) \<leftarrow> fetch s2;
     if v_object objValue = 0 then Some (False, s3)
     else do { s4 \<leftarrow> vm_setValue (v_object objValue) (to_int32 w) value s3; Some (True, s4) } }"

text \<open>
  The array handlers cast the object's class to \<open>Array\<close> without looking at it, and call a member function
  through it. The one instance of \<open>Array\<close> is the class the runtime keeps in \<open>m_arrayClass\<close>; for an object
  of any other class the call is undefined, and so is the result here.
\<close>

definition array_cast :: "Runtime \<Rightarrow> ptr \<Rightarrow> ptr option" where
  "array_cast r p = do { ob \<leftarrow> deref r p; guard (o_class ob = arrayClass r); Some p }"

definition opcodeLoadArray :: "env \<Rightarrow> vm \<Rightarrow> (bool \<times> vm) option" where
  "opcodeLoadArray e s = do {
     (indexValue, s1) \<leftarrow> pop s;
     (arrayValue, s2) \<leftarrow> pop s1;
     if v_type arrayValue = VALUE_OBJECT \<and> v_object arrayValue \<noteq> 0
     then do {
       array \<leftarrow> array_cast (rt s2) (v_object arrayValue);
       (res, v, s3) \<leftarrow> array_load e array indexValue s2;
       s4 \<leftarrow> push v s3;
       Some (res, s4) }
     else Some (False, s2) }"

definition opcodeStoreArray :: "env \<Rightarrow> vm \<Rightarrow> (bool \<times> vm) option" where
  "opcodeStoreArray e s = do {
     (indexValue, s1) \<leftarrow> pop s;
     (arrayValue, s2) \<leftarrow> pop s1;
     (valueValue, s3) \<leftarrow> pop s2;
     if v_type arrayValue = VALUE_OBJECT \<and> v_object arrayValue \<noteq> 0
     then do {
       array \<leftarrow> array_cast (rt s3) (v_object arrayValue);
       array_store e array indexValue valueValue s3 }
     else Some (False, s3) }"

definition opcodeIncVar :: "vm \<Rightarrow> (bool \<times> vm) option" where
  "opcodeIncVar s = do {
     (w, s1) \<leftarrow> fetch s;
     (amount, s2) \<leftarrow> fetch s1;
     v \<leftarrow> getLocal (to_int32 w) s2;
     s3 \<leftarrow> setLocal (to_int32 w) (v\<lparr>v_bits := v_bits v + amount\<rparr>) s2;
     Some (True, s3) }"

definition opcodeIncVarD :: "vm \<Rightarrow> (bool \<times> vm) option" where
  "opcodeIncVarD s = do {
     (w, s1) \<leftarrow> fetch s;
     (amount, s2) \<leftarrow> fetch s1;
     v \<leftarrow> getLocal (to_int32 w) s2;
     s3 \<leftarrow> setLocal (to_int32 w) (v\<lparr>v_bits := d_add (v_double v) amount\<rparr>) s2;
     Some (True, s3) }"

section \<open>The operand stack\<close>

definition push_fetched :: "(u64 \<Rightarrow> Value) \<Rightarrow> vm \<Rightarrow> (bool \<times> vm) option" where
  "push_fetched mk s = do { (w, s1) \<leftarrow> fetch s; s2 \<leftarrow> push (mk w) s1; Some (True, s2) }"

definition opcodePushI :: "vm \<Rightarrow> (bool \<times> vm) option" where
  "opcodePushI s = push_fetched mk_int s"

definition opcodePushD :: "vm \<Rightarrow> (bool \<times> vm) option" where
  "opcodePushD s = push_fetched mk_double s"

definition opcodePushObj :: "vm \<Rightarrow> (bool \<times> vm) option" where
  "opcodePushObj s = push_fetched mk_object s"

definition opcodeDup :: "vm \<Rightarrow> (bool \<times> vm) option" where
  "opcodeDup s = do { v \<leftarrow> peek s; s1 \<leftarrow> push v s; Some (True, s1) }"

definition opcodeSwap :: "vm \<Rightarrow> (bool \<times> vm) option" where
  "opcodeSwap s = do {
     (v1, s1) \<leftarrow> pop s;
     (v2, s2) \<leftarrow> pop s1;
     s3 \<leftarrow> push v1 s2;
     s4 \<leftarrow> push v2 s3;
     Some (True, s4) }"

definition opcodePop :: "vm \<Rightarrow> (bool \<times> vm) option" where
  "opcodePop s = do { (_, s1) \<leftarrow> pop s; Some (True, s1) }"

section \<open>Arithmetic\<close>

text \<open>C++ division of \<open>int64_t\<close>.\<close>

definition c_div :: "int \<Rightarrow> int \<Rightarrow> int" where
  "c_div a b = (if (a < 0) = (b < 0) then \<bar>a\<bar> div \<bar>b\<bar> else - (\<bar>a\<bar> div \<bar>b\<bar>))"

definition int_div :: "u64 \<Rightarrow> u64 \<Rightarrow> u64 option" where
  "int_div a b =
     (if b = 0 \<or> (sint a = - (2 ^ 63) \<and> sint b = - 1) then None
      else Some (word_of_int (c_div (sint a) (sint b))))"

text \<open>
  The shape of \<open>ADD\<close>, \<open>SUB\<close>, \<open>MUL\<close> and \<open>DIV\<close>: an object on top dispatches to its operator
  method with one argument; else both operands are combined as doubles when one of them is a
  double, and as integers otherwise.
\<close>

definition arith :: "(u64 \<Rightarrow> u64 \<Rightarrow> u64) \<Rightarrow> (u64 \<Rightarrow> u64 \<Rightarrow> u64 option) \<Rightarrow> Value \<Rightarrow> Value \<Rightarrow> Value option" where
  "arith dop iop v1 v2 =
     (if v_type v1 = VALUE_DOUBLE \<or> v_type v2 = VALUE_DOUBLE
      then Some (mk_double (dop (DOUBLE_VALUE v1) (DOUBLE_VALUE v2)))
      else do { i \<leftarrow> iop (v_bits v1) (v_bits v2); Some (mk_int i) })"

definition object_operator :: "env \<Rightarrow> string \<Rightarrow> ptr \<Rightarrow> vm \<Rightarrow> (bool \<times> vm) option" where
  "object_operator e name obj s = do {
     cp \<leftarrow> objClass (rt s) obj;
     f \<leftarrow> findMethod (rt_class (rt s)) cp (wstr name);
     ev_call e f obj 1 s }"

definition arith_handler ::
    "env \<Rightarrow> string \<Rightarrow> (u64 \<Rightarrow> u64 \<Rightarrow> u64) \<Rightarrow> (u64 \<Rightarrow> u64 \<Rightarrow> u64 option) \<Rightarrow> vm \<Rightarrow> (bool \<times> vm) option" where
  "arith_handler e name dop iop s = do {
     (v1, s1) \<leftarrow> pop s;
     if v_type v1 = VALUE_OBJECT then object_operator e name (v_object v1) s1
     else do {
       (v2, s2) \<leftarrow> pop s1;
       result \<leftarrow> arith dop iop v1 v2;
       s3 \<leftarrow> push result s2;
       Some (True, s3) } }"

definition opcodeAdd :: "env \<Rightarrow> vm \<Rightarrow> (bool \<times> vm) option" where
  "opcodeAdd e s = arith_handler e ''operator+'' d_add (\<lambda>a b. Some (a + b)) s"

definition opcodeSub :: "env \<Rightarrow> vm \<Rightarrow> (bool \<times> vm) option" where
  "opcodeSub e s = arith_handler e ''operator-'' d_sub (\<lambda>a b. Some (a - b)) s"

definition opcodeMul :: "env \<Rightarrow> vm \<Rightarrow> (bool \<times> vm) option" where
  "opcodeMul e s = arith_handler e ''operator*'' d_mul (\<lambda>a b. Some (a * b)) s"

definition opcodeDiv :: "env \<Rightarrow> vm \<Rightarrow> (bool \<times> vm) option" where
  "opcodeDiv e s = arith_handler e ''operator/'' d_div int_div s"

definition opcodeAnd :: "vm \<Rightarrow> (bool \<times> vm) option" where
  "opcodeAnd s = do {
     (v1, s1) \<leftarrow> pop s;
     (v2, s2) \<leftarrow> pop s1;
     s3 \<leftarrow> push (mk_int (if v_bits v1 \<noteq> 0 \<and> v_bits v2 \<noteq> 0 then 1 else 0)) s2;
     Some (True, s3) }"

definition opcodeNot :: "vm \<Rightarrow> (bool \<times> vm) option" where
  "opcodeNot s = do {
     (v1, s1) \<leftarrow> pop s;
     s2 \<leftarrow> push (mk_int (if v_bits v1 = 0 then 1 else 0)) s1;
     Some (True, s2) }"

text \<open>The typed variants take the operands' bits without looking at their tags.\<close>

definition int_handler :: "(u64 \<Rightarrow> u64 \<Rightarrow> u64 option) \<Rightarrow> vm \<Rightarrow> (bool \<times> vm) option" where
  "int_handler iop s = do {
     (v1, s1) \<leftarrow> popInt s;
     (v2, s2) \<leftarrow> popInt s1;
     result \<leftarrow> iop v1 v2;
     s3 \<leftarrow> pushInt result s2;
     Some (True, s3) }"

definition double_handler :: "(u64 \<Rightarrow> u64 \<Rightarrow> u64) \<Rightarrow> vm \<Rightarrow> (bool \<times> vm) option" where
  "double_handler dop s = do {
     (v1, s1) \<leftarrow> popDouble s;
     (v2, s2) \<leftarrow> popDouble s1;
     s3 \<leftarrow> pushDouble (dop v1 v2) s2;
     Some (True, s3) }"

definition opcodeAddI :: "vm \<Rightarrow> (bool \<times> vm) option" where
  "opcodeAddI s = int_handler (\<lambda>a b. Some (a + b)) s"

definition opcodeSubI :: "vm \<Rightarrow> (bool \<times> vm) option" where
  "opcodeSubI s = int_handler (\<lambda>a b. Some (a - b)) s"

definition opcodeMulI :: "vm \<Rightarrow> (bool \<times> vm) option" where
  "opcodeMulI s = int_handler (\<lambda>a b. Some (a * b)) s"

definition opcodeDivI :: "vm \<Rightarrow> (bool \<times> vm) option" where
  "opcodeDivI s = int_handler int_div s"

definition opcodeAddD :: "vm \<Rightarrow> (bool \<times> vm) option" where
  "opcodeAddD s = double_handler d_add s"

definition opcodeSubD :: "vm \<Rightarrow> (bool \<times> vm) option" where
  "opcodeSubD s = double_handler d_sub s"

definition opcodeMulD :: "vm \<Rightarrow> (bool \<times> vm) option" where
  "opcodeMulD s = double_handler d_mul s"

definition opcodeDivD :: "vm \<Rightarrow> (bool \<times> vm) option" where
  "opcodeDivD s = double_handler d_div s"

section \<open>Comparison\<close>

definition set_flags :: "bool \<Rightarrow> bool \<Rightarrow> vm \<Rightarrow> vm" where
  "set_flags z sg s =
     s\<lparr>cur := (cur s)\<lparr>fr_zero := z, fr_sign := sg, fr_overflow := \<not> z \<or> sg\<rparr>\<rparr>"

text \<open>The macros \<open>CMP_INTEGER\<close> and \<open>CMP_DOUBLE\<close>; \<open>left\<close> is the operand popped first.\<close>

definition CMP_INTEGER :: "Value \<Rightarrow> Value \<Rightarrow> vm \<Rightarrow> vm" where
  "CMP_INTEGER left right s =
     (let result = v_bits right - v_bits left in set_flags (result = 0) (sint result < 0) s)"

definition cmp_doubles :: "u64 \<Rightarrow> u64 \<Rightarrow> vm \<Rightarrow> vm" where
  "cmp_doubles left right s =
     (let result = d_sub right left;
          zero = (d_less (d_neg DBL_EPSILON) result \<and> d_less result DBL_EPSILON)
      in set_flags zero (d_less result 0 \<and> \<not> zero) s)"

definition CMP_DOUBLE :: "Value \<Rightarrow> Value \<Rightarrow> vm \<Rightarrow> vm" where
  "CMP_DOUBLE left right s = cmp_doubles (v_double left) (v_double right) s"

definition opcodeCmp :: "env \<Rightarrow> vm \<Rightarrow> (bool \<times> vm) option" where
  "opcodeCmp e s = do {
     (left, s1) \<leftarrow> pop s;
     if v_type left = VALUE_INTEGER \<or> v_type left = VALUE_DOUBLE
     then do {
       (right, s2) \<leftarrow> pop s1;
       if v_type left = VALUE_INTEGER \<and> v_type right = VALUE_INTEGER
       then Some (True, CMP_INTEGER left right s2)
       else if v_type left = VALUE_DOUBLE \<and> v_type right = VALUE_DOUBLE
       then Some (True, CMP_DOUBLE left right s2)
       else if v_type left = VALUE_DOUBLE \<or> v_type right = VALUE_DOUBLE
       then Some (True, cmp_doubles (DOUBLE_VALUE left) (DOUBLE_VALUE right) s2)
       else Some (True, set_flags False True s2) }
     else if v_type left = VALUE_OBJECT
     then do {
       (res, s2) \<leftarrow> object_operator e ''operator=='' (v_object left) s1;
       if \<not> res then Some (False, s2)
       else do {
         (result, s3) \<leftarrow> pop s2;
         Some (True, set_flags (v_bits result = 0) (v_int result < 0) s3) } }
     else Some (False, s1) }"

definition opcodeCmpI :: "vm \<Rightarrow> (bool \<times> vm) option" where
  "opcodeCmpI s = do {
     (left, s1) \<leftarrow> pop s;
     (right, s2) \<leftarrow> pop s1;
     Some (True, CMP_INTEGER left right s2) }"

definition opcodeCmpD :: "vm \<Rightarrow> (bool \<times> vm) option" where
  "opcodeCmpD s = do {
     (left, s1) \<leftarrow> pop s;
     (right, s2) \<leftarrow> pop s1;
     Some (True, CMP_DOUBLE left right s2) }"

text \<open>The conditions of the \<open>PUSHC\<close> instructions on the flags.\<close>

definition cond_E :: "Frame \<Rightarrow> bool" where
  "cond_E f = fr_zero f"

definition cond_NE :: "Frame \<Rightarrow> bool" where
  "cond_NE f = (\<not> fr_zero f)"

definition cond_L :: "Frame \<Rightarrow> bool" where
  "cond_L f = (fr_sign f \<noteq> fr_overflow f)"

definition cond_LE :: "Frame \<Rightarrow> bool" where
  "cond_LE f = (fr_zero f \<or> fr_sign f \<noteq> fr_overflow f)"

definition cond_G :: "Frame \<Rightarrow> bool" where
  "cond_G f = (\<not> fr_zero f \<and> fr_sign f = fr_overflow f)"

definition cond_GE :: "Frame \<Rightarrow> bool" where
  "cond_GE f = (fr_sign f = fr_overflow f)"

definition push_cond :: "(Frame \<Rightarrow> bool) \<Rightarrow> vm \<Rightarrow> (bool \<times> vm) option" where
  "push_cond c s = do { t \<leftarrow> push (mk_int (if c (cur s) then 1 else 0)) s; Some (True, t) }"

definition opcodePushCE :: "vm \<Rightarrow> (bool \<times> vm) option" where
  "opcodePushCE s = push_cond cond_E s"

definition opcodePushCNE :: "vm \<Rightarrow> (bool \<times> vm) option" where
  "opcodePushCNE s = push_cond cond_NE s"

definition opcodePushCL :: "vm \<Rightarrow> (bool \<times> vm) option" where
  "opcodePushCL s = push_cond cond_L s"

definition opcodePushCLE :: "vm \<Rightarrow> (bool \<times> vm) option" where
  "opcodePushCLE s = push_cond cond_LE s"

definition opcodePushCG :: "vm \<Rightarrow> (bool \<times> vm) option" where
  "opcodePushCG s = push_cond cond_G s"

definition opcodePushCGE :: "vm \<Rightarrow> (bool \<times> vm) option" where
  "opcodePushCGE s = push_cond cond_GE s"

section \<open>Jumps\<close>

text \<open>\<open>pc\<close> is an \<open>int\<close>.\<close>

definition set_pc :: "u64 \<Rightarrow> vm \<Rightarrow> vm" where
  "set_pc dest s = s\<lparr>cur := (cur s)\<lparr>fr_pc := to_int32 dest\<rparr>\<rparr>"

definition branch :: "(Frame \<Rightarrow> bool) \<Rightarrow> vm \<Rightarrow> (bool \<times> vm) option" where
  "branch c s = do {
     (dest, s1) \<leftarrow> fetch s;
     Some (True, if c (cur s1) then set_pc dest s1 else s1) }"

definition opcodeJmp :: "vm \<Rightarrow> (bool \<times> vm) option" where
  "opcodeJmp s = branch (\<lambda>_. True) s"

definition opcodeBEq :: "vm \<Rightarrow> (bool \<times> vm) option" where
  "opcodeBEq s = branch cond_E s"

definition opcodeBNE :: "vm \<Rightarrow> (bool \<times> vm) option" where
  "opcodeBNE s = branch cond_NE s"

definition opcodeBL :: "vm \<Rightarrow> (bool \<times> vm) option" where
  "opcodeBL s = branch cond_L s"

definition opcodeBLE :: "vm \<Rightarrow> (bool \<times> vm) option" where
  "opcodeBLE s = branch (\<lambda>f. \<not> fr_zero f \<or> fr_sign f = fr_overflow f) s"

definition opcodeBG :: "vm \<Rightarrow> (bool \<times> vm) option" where
  "opcodeBG s = branch cond_G s"

definition opcodeBGE :: "vm \<Rightarrow> (bool \<times> vm) option" where
  "opcodeBGE s = branch cond_GE s"

section \<open>Calls and objects\<close>

text \<open>\<open>int count = frame->fetch ()\<close>.\<close>

definition fetch_int :: "vm \<Rightarrow> (int \<times> vm) option" where
  "fetch_int s = do { (w, t) \<leftarrow> fetch s; Some (to_int32 w, t) }"

definition opcodeCall :: "env \<Rightarrow> vm \<Rightarrow> (bool \<times> vm) option" where
  "opcodeCall e s = do {
     (objValue, s1) \<leftarrow> pop s;
     (f, s2) \<leftarrow> fetch s1;
     (count, s3) \<leftarrow> fetch_int s2;
     ev_call e f (v_object objValue) count s3 }"

definition opcodeCallStatic :: "env \<Rightarrow> vm \<Rightarrow> (bool \<times> vm) option" where
  "opcodeCallStatic e s = do {
     (f, s1) \<leftarrow> fetch s;
     (count, s2) \<leftarrow> fetch_int s1;
     ev_call e f 0 count s2 }"

text \<open>
  A field of the receiver's class with the name wins over its methods; the function is the first
  value of the function object the field holds. A null receiver fails; an object without a class
  cannot occur among valid objects, and the code fails for it, too.
\<close>

definition opcodeCallNamed :: "env \<Rightarrow> vm \<Rightarrow> (bool \<times> vm) option" where
  "opcodeCallNamed e s = do {
     (count, s1) \<leftarrow> fetch_int s;
     (nameValue, s2) \<leftarrow> pop s1;
     (objValue, s3) \<leftarrow> pop s2;
     funcName \<leftarrow> getString (rt s3) (v_object nameValue);
     if v_object objValue = 0 then Some (False, s3)
     else do {
       cp \<leftarrow> objClass (rt s3) (v_object objValue);
       if cp = 0 then Some (False, s3)
       else do {
         i \<leftarrow> getFieldId (rt_class (rt s3)) cp funcName;
         f \<leftarrow> (if i \<noteq> - 1
              then do {
                fv \<leftarrow> getValue (rt s3) (v_object objValue) i;
                v \<leftarrow> getValue (rt s3) (v_object fv) 0;
                Some (v_bits v) }
              else findMethod (rt_class (rt s3)) cp funcName);
         if f = 0 then Some (False, s3)
         else ev_call e f (v_object objValue) count s3 } } }"

definition opcodeCallObj :: "env \<Rightarrow> vm \<Rightarrow> (bool \<times> vm) option" where
  "opcodeCallObj e s = do {
     (count, s1) \<leftarrow> fetch_int s;
     (fv, s2) \<leftarrow> pop s1;
     if v_type fv = VALUE_OBJECT \<and> v_object fv \<noteq> 0
     then do {
       v \<leftarrow> getValue (rt s2) (v_object fv) 0;
       if v_bits v \<noteq> 0 then ev_call e (v_bits v) 0 count s2 else Some (False, s2) }
     else Some (False, s2) }"

definition opcodeNew :: "env \<Rightarrow> vm \<Rightarrow> (bool \<times> vm) option" where
  "opcodeNew e s = do {
     (cp, s1) \<leftarrow> fetch s;
     (count, s2) \<leftarrow> fetch_int s1;
     (obj, s3) \<leftarrow> newObject e cp count s2;
     if obj \<noteq> 0 then do { s4 \<leftarrow> push (mk_object obj) s3; Some (True, s4) }
     else Some (False, s3) }"

text \<open>The function pointer is handed to the constructor with the tag of an object.\<close>

definition opcodeNewFunction :: "env \<Rightarrow> vm \<Rightarrow> (bool \<times> vm) option" where
  "opcodeNewFunction e s = do {
     (f, s1) \<leftarrow> fetch s;
     let cp = findClass_loaded (wstr ''system.lang.Function'') (rt s1);
     s2 \<leftarrow> push (mk_object f) s1;
     (obj, s3) \<leftarrow> newObject e cp 1 s2;
     s4 \<leftarrow> push (mk_object obj) s3;
     Some (True, s4) }"

text \<open>A frame's address is its depth among the frames.\<close>

definition frame_ptr :: "vm \<Rightarrow> ptr" where
  "frame_ptr s = of_nat (length (callers s))"

definition opcodeReturn :: "vm \<Rightarrow> (bool \<times> vm) option" where
  "opcodeReturn s = do {
     (result, s1) \<leftarrow> pop s;
     (frameCheck, s2) \<leftarrow> pop s1;
     if v_type frameCheck \<noteq> VALUE_FRAME \<or> v_bits frameCheck \<noteq> frame_ptr s2
     then Some (False, s2)
     else do {
       s3 \<leftarrow> push result s2;
       Some (True, s3\<lparr>cur := (cur s3)\<lparr>fr_running := False\<rparr>\<rparr>) } }"

section \<open>Exceptions\<close>

definition opcodeThrow :: "env \<Rightarrow> vm \<Rightarrow> (bool \<times> vm) option" where
  "opcodeThrow e s = do {
     (value, s1) \<leftarrow> pop s;
     (ex, s2) \<leftarrow> createException e value s1;
     Some (True, throw_exception (mk_object ex) s2) }"

definition opcodePushHandler :: "vm \<Rightarrow> (bool \<times> vm) option" where
  "opcodePushHandler s = do {
     (v, s1) \<leftarrow> fetch s;
     (h, s2) \<leftarrow> fetch s1;
     Some (True, s2\<lparr>cur := (cur s2)\<lparr>handlerStack :=
       \<lparr>excepVar = v, handlerPC = h\<rparr> # handlerStack (cur s2)\<rparr>\<rparr>) }"

text \<open>\<open>pop_back\<close> of an empty vector has no defined result.\<close>

definition opcodePopHandler :: "vm \<Rightarrow> (bool \<times> vm) option" where
  "opcodePopHandler s =
     (case handlerStack (cur s) of
        [] \<Rightarrow> None
      | _ # hs \<Rightarrow> Some (True, s\<lparr>cur := (cur s)\<lparr>handlerStack := hs\<rparr>\<rparr>))"

definition opcodeInvalid :: "vm \<Rightarrow> (bool \<times> vm) option" where
  "opcodeInvalid s = Some (False, s)"

section \<open>Dispatch\<close>

text \<open>\<open>g_opcodeTable\<close>: \<open>NOP\<close> and \<open>PUSHVAR\<close> have no handler; \<open>ANDI\<close> and \<open>NOTI\<close> share the generic ones.\<close>

primrec opcodeTable :: "opcode \<Rightarrow> env \<Rightarrow> vm \<Rightarrow> (bool \<times> vm) option" where
  "opcodeTable OP_NOP e s = opcodeInvalid s"
| "opcodeTable OP_LOAD_VAR e s = opcodeLoadVar s"
| "opcodeTable OP_STORE_VAR e s = opcodeStoreVar s"
| "opcodeTable OP_LOAD_FIELD e s = opcodeLoadField s"
| "opcodeTable OP_STORE_FIELD e s = opcodeStoreField s"
| "opcodeTable OP_LOAD_FIELD_NAMED e s = opcodeLoadFieldNamed s"
| "opcodeTable OP_STORE_FIELD_NAMED e s = opcodeStoreFieldNamed s"
| "opcodeTable OP_LOAD_STATIC_FIELD e s = opcodeLoadStaticField s"
| "opcodeTable OP_STORE_STATIC_FIELD e s = opcodeStoreStaticField s"
| "opcodeTable OP_LOAD_ARRAY e s = opcodeLoadArray e s"
| "opcodeTable OP_STORE_ARRAY e s = opcodeStoreArray e s"
| "opcodeTable OP_INC_VAR e s = opcodeIncVar s"
| "opcodeTable OP_INC_VARD e s = opcodeIncVarD s"
| "opcodeTable OP_ADD e s = opcodeAdd e s"
| "opcodeTable OP_SUB e s = opcodeSub e s"
| "opcodeTable OP_MUL e s = opcodeMul e s"
| "opcodeTable OP_DIV e s = opcodeDiv e s"
| "opcodeTable OP_AND e s = opcodeAnd s"
| "opcodeTable OP_NOT e s = opcodeNot s"
| "opcodeTable OP_ADDI e s = opcodeAddI s"
| "opcodeTable OP_SUBI e s = opcodeSubI s"
| "opcodeTable OP_MULI e s = opcodeMulI s"
| "opcodeTable OP_DIVI e s = opcodeDivI s"
| "opcodeTable OP_ANDI e s = opcodeAnd s"
| "opcodeTable OP_NOTI e s = opcodeNot s"
| "opcodeTable OP_ADDD e s = opcodeAddD s"
| "opcodeTable OP_SUBD e s = opcodeSubD s"
| "opcodeTable OP_MULD e s = opcodeMulD s"
| "opcodeTable OP_DIVD e s = opcodeDivD s"
| "opcodeTable OP_PUSHVAR e s = opcodeInvalid s"
| "opcodeTable OP_PUSHOBJ e s = opcodePushObj s"
| "opcodeTable OP_DUP e s = opcodeDup s"
| "opcodeTable OP_POP e s = opcodePop s"
| "opcodeTable OP_SWAP e s = opcodeSwap s"
| "opcodeTable OP_PUSHI e s = opcodePushI s"
| "opcodeTable OP_PUSHD e s = opcodePushD s"
| "opcodeTable OP_PUSHCE e s = opcodePushCE s"
| "opcodeTable OP_PUSHCNE e s = opcodePushCNE s"
| "opcodeTable OP_PUSHCL e s = opcodePushCL s"
| "opcodeTable OP_PUSHCLE e s = opcodePushCLE s"
| "opcodeTable OP_PUSHCG e s = opcodePushCG s"
| "opcodeTable OP_PUSHCGE e s = opcodePushCGE s"
| "opcodeTable OP_CALL e s = opcodeCall e s"
| "opcodeTable OP_CALL_STATIC e s = opcodeCallStatic e s"
| "opcodeTable OP_CALL_NAMED e s = opcodeCallNamed e s"
| "opcodeTable OP_CALL_OBJ e s = opcodeCallObj e s"
| "opcodeTable OP_NEW e s = opcodeNew e s"
| "opcodeTable OP_NEW_FUNCTION e s = opcodeNewFunction e s"
| "opcodeTable OP_RETURN e s = opcodeReturn s"
| "opcodeTable OP_CMP e s = opcodeCmp e s"
| "opcodeTable OP_CMPI e s = opcodeCmpI s"
| "opcodeTable OP_CMPD e s = opcodeCmpD s"
| "opcodeTable OP_JMP e s = opcodeJmp s"
| "opcodeTable OP_BEQ e s = opcodeBEq s"
| "opcodeTable OP_BNE e s = opcodeBNE s"
| "opcodeTable OP_BL e s = opcodeBL s"
| "opcodeTable OP_BLE e s = opcodeBLE s"
| "opcodeTable OP_BG e s = opcodeBG s"
| "opcodeTable OP_BGE e s = opcodeBGE s"
| "opcodeTable OP_THROW e s = opcodeThrow e s"
| "opcodeTable OP_PUSHTRY e s = opcodePushHandler s"
| "opcodeTable OP_POPTRY e s = opcodePopHandler s"

definition dispatch :: "env \<Rightarrow> u64 \<Rightarrow> vm \<Rightarrow> (bool \<times> vm) option" where
  "dispatch e w s =
     (case opcode_dec w of Some c \<Rightarrow> opcodeTable c e s | None \<Rightarrow> opcodeInvalid s)"

text \<open>
  \<open>handleException\<close>. Without a handler the operands are popped up to and including the next frame
  entry, which is not checked to be the current one; with a handler the innermost is taken off,
  the exception cleared, and the handler's code entered, the operands staying as they are.
\<close>

fun pop_to_frame :: "nat \<Rightarrow> vm \<Rightarrow> vm option" where
  "pop_to_frame 0 s = None"
| "pop_to_frame (Suc n) s = do {
     (v, t) \<leftarrow> pop s;
     if v_type v = VALUE_FRAME then Some t else pop_to_frame n t }"

definition stop_running :: "vm \<Rightarrow> vm" where
  "stop_running s = s\<lparr>cur := (cur s)\<lparr>fr_running := False\<rparr>\<rparr>"

definition handleException :: "vm \<Rightarrow> (bool \<times> vm) option" where
  "handleException s =
     (case handlerStack (cur s) of
        [] \<Rightarrow> do {
          t \<leftarrow> pop_to_frame (nat (stackPos (ctx s))) (stop_running s);
          Some (True, t) }
      | h # hs \<Rightarrow> do {
          let s1 = s\<lparr>ctx := clearException (ctx s),
                     cur := (cur s)\<lparr>handlerStack := hs, fr_pc := to_int32 (handlerPC h)\<rparr>\<rparr>;
          s2 \<leftarrow> setLocal (int (unat (excepVar h))) (exceptionValue (ctx s1)) s1;
          Some (True, s2) })"

section \<open>The run loop\<close>

definition loop_condition :: "vm \<Rightarrow> bool" where
  "loop_condition s \<longleftrightarrow> fr_running (cur s) \<and> fr_pc (cur s) < ac_size (fr_code (cur s))"

text \<open>
  One iteration: \<open>Inl b\<close> leaves \<open>run\<close> at once with \<open>b\<close> (the stack check), \<open>Inr b\<close> goes on with
  \<open>success = b\<close>.
\<close>

definition step :: "env \<Rightarrow> vm \<Rightarrow> ((bool + bool) \<times> vm) option" where
  "step e s = do {
     (opcode, s1) \<leftarrow> fetch s;
     if \<not> checkStack (ctx s1) then Some (Inl False, s1)
     else do {
       (success, s2) \<leftarrow> dispatch e opcode s1;
       let s3 = (if \<not> success then stop_running s2 else s2);
       if has_exception (ctx s3)
       then do { (b, s4) \<leftarrow> handleException s3; Some (Inr b, s4) }
       else Some (Inr success, s3) } }"

fun run_loop :: "env \<Rightarrow> nat \<Rightarrow> bool \<Rightarrow> vm \<Rightarrow> (bool \<times> vm) option" where
  "run_loop e 0 success s = (if loop_condition s then None else Some (success, s))"
| "run_loop e (Suc n) success s =
     (if loop_condition s
      then (case step e s of
              None \<Rightarrow> None
            | Some (Inl b, t) \<Rightarrow> Some (b, t)
            | Some (Inr b, t) \<Rightarrow> run_loop e n b t)
      else Some (success, s))"

text \<open>The arguments: the operand popped first is the last one.\<close>

fun store_args :: "nat \<Rightarrow> vm \<Rightarrow> vm option" where
  "store_args 0 s = Some s"
| "store_args (Suc n) s = do {
     (v, t) \<leftarrow> pop s;
     u \<leftarrow> setLocal (int (Suc n)) v t;
     store_args n u }"

definition new_frame :: "AssembledCode \<Rightarrow> ptr \<Rightarrow> Frame option" where
  "new_frame code thisObj = do {
     ls \<leftarrow> upd (replicate (nat (ac_localVars code)) zero_value) 0 (mk_object thisObj);
     Some \<lparr>fr_code = code, fr_running = True, fr_pc = 0, fr_zero = False, fr_sign = False,
           fr_overflow = False, fr_localVars = ls, handlerStack = []\<rparr> }"

definition run :: "env \<Rightarrow> ptr \<Rightarrow> AssembledCode \<Rightarrow> int \<Rightarrow> vm \<Rightarrow> (bool \<times> vm) option" where
  "run e thisObj code argCount s = do {
     f \<leftarrow> new_frame code thisObj;
     s1 \<leftarrow> store_args (nat argCount) (s\<lparr>cur := f, callers := cur s # callers s\<rparr>);
     s2 \<leftarrow> push \<lparr>v_type = VALUE_FRAME, v_bits = frame_ptr s1\<rparr> s1;
     (success, s3) \<leftarrow> run_loop e (ev_steps e) True s2;
     Some (success, s3\<lparr>cur := cur s, callers := callers s\<rparr>) }"

section \<open>Function calls\<close>

text \<open>\<open>ScriptFunction::execute\<close> assembles on the first call.\<close>

definition script_execute :: "env \<Rightarrow> ptr \<Rightarrow> ptr \<Rightarrow> int \<Rightarrow> vm \<Rightarrow> (bool \<times> vm) option" where
  "script_execute e f inst argCount s = do {
     fn \<leftarrow> rt_func (rt s) f;
     (ok, s1) \<leftarrow> (case fn_kind fn of
                   ScriptFunction _ (Some _) \<Rightarrow> Some (True, s)
                 | _ \<Rightarrow> ev_assemble e f s);
     if \<not> ok then Some (False, s1)
     else do {
       fn1 \<leftarrow> rt_func (rt s1) f;
       (case fn_kind fn1 of
          ScriptFunction _ (Some code) \<Rightarrow> run e inst code argCount s1
        | _ \<Rightarrow> None) } }"

definition function_execute :: "env \<Rightarrow> ptr \<Rightarrow> ptr \<Rightarrow> int \<Rightarrow> vm \<Rightarrow> (bool \<times> vm) option" where
  "function_execute e f inst argCount s = do {
     fn \<leftarrow> rt_func (rt s) f;
     (case fn_kind fn of
        NativeFunction m \<Rightarrow> native_execute e m (fn_class fn) inst argCount s
      | NativeObjectFunction m \<Rightarrow> native_object_execute e m (fn_class fn) inst argCount s
      | ScriptFunction _ _ \<Rightarrow> script_execute e f inst argCount s) }"

text \<open>
  The virtual call, closed over itself. The first argument bounds the nesting of calls, which is
  C stack depth: at 0 there is none left.
\<close>

fun interp :: "env \<Rightarrow> nat \<Rightarrow> ptr \<Rightarrow> ptr \<Rightarrow> int \<Rightarrow> vm \<Rightarrow> (bool \<times> vm) option" where
  "interp e 0 f inst argCount s = None"
| "interp e (Suc n) f inst argCount s =
     function_execute (e\<lparr>ev_call := interp e n, ev_stack := n\<rparr>) f inst argCount s"

end
