(* ===== verification/Optimiser.thy ===== *)
theory Optimiser
  imports Executor
begin

text \<open>
  The optimiser (src/libb0rk/assembler.cpp, from \<open>optimise\<close> to \<open>removeInstruction\<close>) on the list of
  instructions \<open>m_code\<close>: type inference for arithmetic opcodes, doubled loads, propagation of
  variables stored once, removal of dead stores, folding of constant arithmetic and of
  \<open>v = v + d\<close>. An access outside a vector and a division by zero while folding are \<open>None\<close>.
\<close>

type_synonym icode = "Instruction list"

abbreviation ins :: "opcode \<Rightarrow> u64 list \<Rightarrow> Instruction" where
  "ins i as \<equiv> \<lparr>ins_op = opcode_num i, ins_args = as\<rparr>"

section \<open>Removing an instruction\<close>

definition set_arg :: "nat \<Rightarrow> u64 \<Rightarrow> Instruction \<Rightarrow> Instruction option" where
  "set_arg k v i = do { as \<leftarrow> upd (ins_args i) (int k) v; Some (i\<lparr>ins_args := as\<rparr>) }"

definition get_arg :: "nat \<Rightarrow> Instruction \<Rightarrow> u64 option" where
  "get_arg k i = idx (ins_args i) (int k)"

definition shift_address :: "nat \<Rightarrow> Instruction \<Rightarrow> Instruction option" where
  "shift_address pos i =
     (let info = getOpcodeInfo (ins_op i) in
      if info_address info \<noteq> - 1
      then do {
        addr \<leftarrow> get_arg (nat (info_address info)) i;
        set_arg (nat (info_address info)) (if of_nat pos < addr then addr - 1 else addr) i }
      else Some i)"

fun map_option_list :: "('a \<Rightarrow> 'b option) \<Rightarrow> 'a list \<Rightarrow> 'b list option" where
  "map_option_list f [] = Some []"
| "map_option_list f (x # xs) = do { y \<leftarrow> f x; ys \<leftarrow> map_option_list f xs; Some (y # ys) }"

definition removeInstruction :: "nat \<Rightarrow> icode \<Rightarrow> icode option" where
  "removeInstruction pos code = map_option_list (shift_address pos) (take pos code @ drop (Suc pos) code)"

text \<open>The removal loop: the \<open>k\<close>-th position of the (sorted) set is \<open>k\<close> too large by then.\<close>

fun remove_all :: "nat \<Rightarrow> nat list \<Rightarrow> icode \<Rightarrow> icode option" where
  "remove_all k [] code = Some code"
| "remove_all k (p # ps) code = do {
     code' \<leftarrow> removeInstruction (p - k) code;
     remove_all (Suc k) ps code' }"

definition remove_set :: "nat list \<Rightarrow> icode \<Rightarrow> icode option" where
  "remove_set ps code = remove_all 0 (sort (remdups ps)) code"

section \<open>Variables\<close>

record VarInfo =
  vi_type :: int
  vi_loaded :: int
  vi_stored :: int
  vi_last :: Value

record vars_state =
  vs_prevType :: int
  vs_lastValue :: Value
  vs_vars :: "VarInfo list"

definition init_vars :: "int \<Rightarrow> int \<Rightarrow> VarInfo list" where
  "init_vars localVars argCount =
     map (\<lambda>i. \<lparr>vi_type = 0, vi_loaded = 0, vi_stored = (if i \<le> argCount then 1 else 0), vi_last = zero_value\<rparr>)
       [0..localVars - 1]"

definition op_type :: "u64 \<Rightarrow> int" where
  "op_type op = uint (drop_bit 4 (op AND 0xf0))"

definition var_arg :: "Instruction \<Rightarrow> int option" where
  "var_arg i = do { w \<leftarrow> get_arg 0 i; Some (to_int32 w) }"

definition update_var :: "int \<Rightarrow> (VarInfo \<Rightarrow> VarInfo) \<Rightarrow> VarInfo list \<Rightarrow> VarInfo list option" where
  "update_var v f vars = do { x \<leftarrow> idx vars v; upd vars v (f x) }"

text \<open>Pass 1 on one instruction.\<close>

definition infer_visit :: "Instruction \<Rightarrow> vars_state \<Rightarrow> (Instruction \<times> vars_state) option" where
  "infer_visit i st =
     (let op = ins_op i; type = op_type op in
      if op = opcode_num OP_LOAD_VAR
      then do {
        v \<leftarrow> var_arg i;
        x \<leftarrow> idx (vs_vars st) v;
        vars \<leftarrow> update_var v (\<lambda>x. x\<lparr>vi_loaded := vi_loaded x + 1\<rparr>) (vs_vars st);
        Some (i, \<lparr>vs_prevType = vi_type x, vs_lastValue = vi_last x, vs_vars = vars\<rparr>) }
      else if op = opcode_num OP_STORE_VAR
      then do {
        v \<leftarrow> var_arg i;
        vars \<leftarrow> update_var v (\<lambda>x. x\<lparr>vi_stored := vi_stored x + 1, vi_type := vs_prevType st,
                   vi_last := vs_lastValue st\<rparr>) (vs_vars st);
        Some (i, st\<lparr>vs_vars := vars\<rparr>) }
      else if op = opcode_num OP_INC_VAR \<or> op = opcode_num OP_INC_VARD
      then do {
        v \<leftarrow> var_arg i;
        vars \<leftarrow> update_var v (\<lambda>x. x\<lparr>vi_type := 0, vi_loaded := vi_loaded x + 1,
                   vi_stored := vi_stored x + 1\<rparr>) (vs_vars st);
        Some (i, st\<lparr>vs_vars := vars\<rparr>) }
      else do {
        let typed = (vs_prevType st \<noteq> 0 \<and> type = 0 \<and> OPCODE_IS_ARITHMETIC op);
        let i' = (if typed then i\<lparr>ins_op := op OR push_bit 4 (word_of_int (vs_prevType st))\<rparr> else i);
        let prevType = (if typed \<or> op = opcode_num OP_DUP then vs_prevType st else type);
        last \<leftarrow> (if op = opcode_num OP_PUSHI then map_option mk_int (get_arg 0 i)
                else if op = opcode_num OP_PUSHD then map_option mk_double (get_arg 0 i)
                else Some zero_value);
        Some (i', st\<lparr>vs_prevType := prevType, vs_lastValue := last\<rparr>) })"

text \<open>Two loads of one variable: the second becomes \<open>DUP\<close>.\<close>

definition merge_loads :: "Instruction \<Rightarrow> icode \<Rightarrow> icode option" where
  "merge_loads i rest =
     (case rest of
        [] \<Rightarrow> Some []
      | j # js \<Rightarrow>
          if ins_op i = opcode_num OP_LOAD_VAR \<and> ins_op j = opcode_num OP_LOAD_VAR
          then do {
            a \<leftarrow> get_arg 0 i;
            b \<leftarrow> get_arg 0 j;
            Some (if a = b then \<lparr>ins_op = opcode_num OP_DUP, ins_args = []\<rparr> # js else j # js) }
          else Some (j # js))"

lemma merge_loads_length: "merge_loads i rest = Some rest' \<Longrightarrow> length rest' = length rest"
  by (auto simp: merge_loads_def split: list.splits if_splits bind_splits)

function infer_pass :: "icode \<Rightarrow> vars_state \<Rightarrow> (icode \<times> vars_state) option" where
  "infer_pass [] st = Some ([], st)"
| "infer_pass (i # rest) st =
     (case infer_visit i st of
        None \<Rightarrow> None
      | Some (i', st') \<Rightarrow>
          (case merge_loads i' rest of
             None \<Rightarrow> None
           | Some rest' \<Rightarrow> map_option (\<lambda>(out, st''). (i' # out, st'')) (infer_pass rest' st')))"
  by pat_completeness auto
termination
  by (relation "measure (\<lambda>(code, st). length code)") (auto dest: merge_loads_length)

text \<open>Pass 2: loads of a variable stored once with a known value become pushes.\<close>

definition known_once :: "VarInfo \<Rightarrow> bool" where
  "known_once x \<longleftrightarrow> vi_stored x = 1 \<and> v_type (vi_last x) \<noteq> VALUE_UNKNOWN"

definition replace_visit :: "Instruction \<Rightarrow> VarInfo list \<Rightarrow> (Instruction \<times> VarInfo list) option" where
  "replace_visit i vars =
     (if ins_op i = opcode_num OP_LOAD_VAR
      then do {
        v \<leftarrow> var_arg i;
        x \<leftarrow> idx vars v;
        if known_once x \<and> (vi_type x = 1 \<or> vi_type x = 2)
        then do {
          i' \<leftarrow> set_arg 0 (v_bits (vi_last x)) i;
          vars' \<leftarrow> update_var v (\<lambda>x. x\<lparr>vi_loaded := vi_loaded x - 1\<rparr>) vars;
          Some (i'\<lparr>ins_op := opcode_num (if vi_type x = 1 then OP_PUSHI else OP_PUSHD)\<rparr>, vars') }
        else Some (i, vars) }
      else Some (i, vars))"

fun replace_pass :: "icode \<Rightarrow> VarInfo list \<Rightarrow> (icode \<times> VarInfo list) option" where
  "replace_pass [] vars = Some ([], vars)"
| "replace_pass (i # rest) vars = do {
     (i', vars') \<leftarrow> replace_visit i vars;
     (rest', vars'') \<leftarrow> replace_pass rest vars';
     Some (i' # rest', vars'') }"

text \<open>Pass 3: a push stored in a variable that is never loaded.\<close>

fun dead_stores :: "nat \<Rightarrow> u64 \<Rightarrow> VarInfo list \<Rightarrow> icode \<Rightarrow> nat list option" where
  "dead_stores pos prevOp vars [] = Some []"
| "dead_stores pos prevOp vars (i # rest) = do {
     hit \<leftarrow> (if ins_op i = opcode_num OP_STORE_VAR
            then do {
              v \<leftarrow> var_arg i;
              x \<leftarrow> idx vars v;
              Some (vi_loaded x = 0 \<and> (prevOp = opcode_num OP_PUSHI \<or> prevOp = opcode_num OP_PUSHD)) }
            else Some False);
     ps \<leftarrow> dead_stores (Suc pos) (ins_op i) vars rest;
     Some (if hit then (pos - 1) # pos # ps else ps) }"

definition optimiseVars :: "int \<Rightarrow> int \<Rightarrow> icode \<Rightarrow> (icode \<times> bool) option" where
  "optimiseVars localVars argCount code = do {
     (code1, st) \<leftarrow> infer_pass code
        \<lparr>vs_prevType = 0, vs_lastValue = zero_value, vs_vars = init_vars localVars argCount\<rparr>;
     let vars1 = vs_vars st;
     let varPass = list_ex (\<lambda>x. known_once x \<or> vi_loaded x = 0) vars1;
     (code2, vars2) \<leftarrow> (if varPass then replace_pass code1 vars1 else Some (code1, vars1));
     if list_ex (\<lambda>x. vi_loaded x = 0) vars2
     then do {
       ps \<leftarrow> dead_stores 0 (opcode_num OP_NOP) vars2 code2;
       code3 \<leftarrow> remove_set ps code2;
       Some (code3, ps \<noteq> []) }
     else Some (code2, False) }"

section \<open>Arithmetic\<close>

text \<open>
  The folding switches. The outer \<open>None\<close> is a division with no result, the inner one an opcode
  that is not folded.
\<close>

definition fold_int :: "u64 \<Rightarrow> u64 \<Rightarrow> u64 \<Rightarrow> u64 option option" where
  "fold_int op i1 i2 =
     (if op = opcode_num OP_ADDI then Some (Some (i1 + i2))
      else if op = opcode_num OP_SUBI then Some (Some (i1 - i2))
      else if op = opcode_num OP_MULI then Some (Some (i1 * i2))
      else if op = opcode_num OP_DIVI then map_option Some (int_div i1 i2)
      else if op = opcode_num OP_ANDI then Some (Some (i1 AND i2))
      else Some None)"

definition fold_double :: "u64 \<Rightarrow> u64 \<Rightarrow> u64 \<Rightarrow> u64 option" where
  "fold_double op d1 d2 =
     (if op = opcode_num OP_ADDD then Some (d_add d1 d2)
      else if op = opcode_num OP_SUBD then Some (d_sub d1 d2)
      else if op = opcode_num OP_MULD then Some (d_mul d1 d2)
      else if op = opcode_num OP_DIVD then Some (d_div d1 d2)
      else None)"

record arith_scan =
  sc_code :: icode
  sc_prev1 :: u64
  sc_prev2 :: u64
  sc_prev3 :: u64
  sc_remove :: "nat list"

definition arg0_at :: "icode \<Rightarrow> int \<Rightarrow> u64 option" where
  "arg0_at code p = do { i \<leftarrow> idx code p; get_arg 0 i }"

text \<open>Replace the operation at \<open>pos\<close> by a push of the result; both operands' pushes go.\<close>

definition fold_at :: "opcode \<Rightarrow> nat \<Rightarrow> u64 \<Rightarrow> arith_scan \<Rightarrow> arith_scan option" where
  "fold_at pushOp pos result st = do {
     i \<leftarrow> idx (sc_code st) (int pos);
     c \<leftarrow> upd (sc_code st) (int pos) \<lparr>ins_op = opcode_num pushOp, ins_args = ins_args i @ [result]\<rparr>;
     Some (st\<lparr>sc_code := c, sc_remove := sc_remove st @ [pos - 1, pos - 2]\<rparr>) }"

definition fold_visit :: "nat \<Rightarrow> u64 \<Rightarrow> arith_scan \<Rightarrow> arith_scan option" where
  "fold_visit pos op st =
     (let opt = op AND 0xf0; op1 = sc_prev1 st AND 0xf0; op2 = sc_prev2 st AND 0xf0 in
      if opt = op1 \<and> opt = op2 \<and> opt = 0x10
      then do {
        i1 \<leftarrow> arg0_at (sc_code st) (int pos - 1);
        i2 \<leftarrow> arg0_at (sc_code st) (int pos - 2);
        r \<leftarrow> fold_int op i1 i2;
        (case r of None \<Rightarrow> Some st | Some result \<Rightarrow> fold_at OP_PUSHI pos result st) }
      else if opt = op1 \<and> opt = op2 \<and> opt = 0x20
      then do {
        d1 \<leftarrow> arg0_at (sc_code st) (int pos - 1);
        d2 \<leftarrow> arg0_at (sc_code st) (int pos - 2);
        (case fold_double op d1 d2 of None \<Rightarrow> Some st | Some result \<Rightarrow> fold_at OP_PUSHD pos result st) }
      else Some st)"

text \<open>
  \<open>PUSHD d; LOAD_VAR v; ADDD; STORE_VAR w\<close> becomes \<open>INC_VARD v, d\<close>: the variable is taken from the
  load, and \<open>w\<close> is not compared with it.
\<close>

definition inc_visit :: "nat \<Rightarrow> arith_scan \<Rightarrow> arith_scan option" where
  "inc_visit pos st = do {
     var \<leftarrow> (if sc_prev2 st = opcode_num OP_LOAD_VAR then arg0_at (sc_code st) (int pos - 2)
            else arg0_at (sc_code st) (int pos - 3));
     if sc_prev1 st = opcode_num OP_ADDD \<and> sc_prev1 st AND 0xf0 = 0x20 \<and> sc_prev3 st AND 0xf0 = 0x20
     then do {
       d \<leftarrow> (if sc_prev3 st = opcode_num OP_PUSHD then arg0_at (sc_code st) (int pos - 3)
            else arg0_at (sc_code st) (int pos - 2));
       i \<leftarrow> idx (sc_code st) (int pos);
       as \<leftarrow> upd (ins_args i) 0 var;
       c \<leftarrow> upd (sc_code st) (int pos) \<lparr>ins_op = opcode_num OP_INC_VARD, ins_args = as @ [d]\<rparr>;
       Some (st\<lparr>sc_code := c, sc_remove := sc_remove st @ [pos - 1, pos - 2, pos - 3]\<rparr>) }
     else Some st }"

definition arith_visit :: "nat \<Rightarrow> arith_scan \<Rightarrow> arith_scan option" where
  "arith_visit pos st = do {
     i \<leftarrow> idx (sc_code st) (int pos);
     let op = ins_op i;
     st' \<leftarrow> (if OPCODE_IS_ARITHMETIC op \<and> OPCODE_IS_STACK (sc_prev1 st) \<and> OPCODE_IS_STACK (sc_prev2 st)
            then fold_visit pos op st
            else if op = opcode_num OP_STORE_VAR \<and> OPCODE_IS_ARITHMETIC (sc_prev1 st) \<and>
              ((sc_prev2 st = opcode_num OP_LOAD_VAR \<and> OPCODE_IS_STACK (sc_prev3 st)) \<or>
               (OPCODE_IS_STACK (sc_prev2 st) \<and> sc_prev3 st = opcode_num OP_LOAD_VAR))
            then inc_visit pos st
            else Some st);
     Some (st'\<lparr>sc_prev3 := sc_prev2 st, sc_prev2 := sc_prev1 st, sc_prev1 := op\<rparr>) }"

fun arith_scan_all :: "nat list \<Rightarrow> arith_scan \<Rightarrow> arith_scan option" where
  "arith_scan_all [] st = Some st"
| "arith_scan_all (p # ps) st = do { st' \<leftarrow> arith_visit p st; arith_scan_all ps st' }"

text \<open>One iteration of the loop; the flag is \<open>changed\<close>: something was marked for removal.\<close>

definition arith_once :: "icode \<Rightarrow> (icode \<times> bool) option" where
  "arith_once code = do {
     st \<leftarrow> arith_scan_all [0..<length code]
        \<lparr>sc_code = code, sc_prev1 = opcode_num OP_NOP, sc_prev2 = opcode_num OP_NOP,
         sc_prev3 = opcode_num OP_NOP, sc_remove = []\<rparr>;
     code' \<leftarrow> remove_set (sc_remove st) (sc_code st);
     Some (code', sc_remove st \<noteq> []) }"

section \<open>Every round shrinks the code\<close>

lemma map_option_list_length: "map_option_list f xs = Some ys \<Longrightarrow> length ys = length xs"
  by (induction xs arbitrary: ys) (auto split: bind_splits)

lemma removeInstruction_length:
  assumes "removeInstruction pos code = Some code'"
  shows "length code' = (if pos < length code then length code - 1 else length code)"
  using map_option_list_length [OF assms [unfolded removeInstruction_def]] by auto

lemma remove_all_length: "remove_all k ps code = Some code' \<Longrightarrow> length code' \<le> length code"
proof (induction k ps code arbitrary: code' rule: remove_all.induct)
  case (1 k code)
  then show ?case by simp
next
  case (2 k p ps code)
  then obtain c where c: "removeInstruction (p - k) code = Some c" "remove_all (Suc k) ps c = Some code'"
    by (auto split: bind_splits)
  from 2(1) [OF c] removeInstruction_length [OF c(1)] show ?case by (simp split: if_splits)
qed

lemma remove_set_length:
  assumes "remove_set ps code = Some code'"
  shows "length code' \<le> length code"
    and "ps \<noteq> [] \<Longrightarrow> \<forall>p \<in> set ps. p < length code \<Longrightarrow> length code' < length code"
proof -
  note r = assms [unfolded remove_set_def]
  show "length code' \<le> length code" using remove_all_length [OF r] .
  assume ne: "ps \<noteq> []" and range: "\<forall>p \<in> set ps. p < length code"
  then have "sort (remdups ps) \<noteq> []" by (metis remdups_eq_nil_iff set_empty set_sort)
  then obtain q qs where q: "sort (remdups ps) = q # qs" by (cases "sort (remdups ps)") auto
  then have "q \<in> set ps" by (metis list.set_intros(1) set_remdups set_sort)
  with range have "q < length code" by blast
  moreover from r q obtain c where c: "removeInstruction q code = Some c" "remove_all (Suc 0) qs c = Some code'"
    by (auto split: bind_splits)
  ultimately show "length code' < length code"
    using removeInstruction_length [OF c(1)] remove_all_length [OF c(2)] by simp
qed

lemma infer_pass_length: "infer_pass code st = Some (code', st') \<Longrightarrow> length code' = length code"
  by (induction code st arbitrary: code' st' rule: infer_pass.induct)
     (auto split: option.splits prod.splits dest: merge_loads_length)

lemma replace_pass_length: "replace_pass code vars = Some (code', vars') \<Longrightarrow> length code' = length code"
  by (induction code arbitrary: vars code' vars') (auto split: bind_splits)

lemma dead_stores_range: "dead_stores pos op vars code = Some ps \<Longrightarrow> p \<in> set ps \<Longrightarrow> p < pos + length code"
  by (induction code arbitrary: pos op ps) (fastforce split: bind_splits if_splits)+

lemma optimiseVars_length:
  assumes "optimiseVars lv ac code = Some (code', b)"
  shows "length code' \<le> length code" and "b \<Longrightarrow> length code' < length code"
proof -
  from assms obtain code1 st code2 vars2 where
    c1: "infer_pass code \<lparr>vs_prevType = 0, vs_lastValue = zero_value, vs_vars = init_vars lv ac\<rparr> = Some (code1, st)"
    and c2: "(if list_ex (\<lambda>x. known_once x \<or> vi_loaded x = 0) (vs_vars st) then replace_pass code1 (vs_vars st)
      else Some (code1, vs_vars st)) = Some (code2, vars2)"
    and c3: "(if list_ex (\<lambda>x. vi_loaded x = 0) vars2
      then do { ps \<leftarrow> dead_stores 0 (opcode_num OP_NOP) vars2 code2; code3 \<leftarrow> remove_set ps code2; Some (code3, ps \<noteq> []) }
      else Some (code2, False)) = Some (code', b)"
    unfolding optimiseVars_def Let_def by (fastforce split: bind_splits prod.splits)
  from infer_pass_length [OF c1] c2 have l: "length code2 = length code"
    by (auto split: if_splits dest: replace_pass_length)
  have "length code' \<le> length code \<and> (b \<longrightarrow> length code' < length code)"
  proof (cases "list_ex (\<lambda>x. vi_loaded x = 0) vars2")
    case True
    with c3 obtain ps where ps: "dead_stores 0 (opcode_num OP_NOP) vars2 code2 = Some ps"
      "remove_set ps code2 = Some code'" "b = (ps \<noteq> [])" by (auto split: bind_splits)
    have "\<forall>p \<in> set ps. p < length code2" using dead_stores_range [OF ps(1)] by auto
    with remove_set_length [OF ps(2)] ps(3) l show ?thesis by auto
  next
    case False
    with c3 l show ?thesis by simp
  qed
  then show "length code' \<le> length code" "b \<Longrightarrow> length code' < length code" by auto
qed

definition scan_ok :: "nat \<Rightarrow> arith_scan \<Rightarrow> bool" where
  "scan_ok n st \<longleftrightarrow> length (sc_code st) = n \<and> (\<forall>p \<in> set (sc_remove st). p < n)"

lemma fold_at_ok: "fold_at c pos r st = Some st' \<Longrightarrow> scan_ok n st \<Longrightarrow> pos < n \<Longrightarrow> scan_ok n st'"
  by (auto simp: fold_at_def scan_ok_def split: bind_splits dest: upd_length)

lemma fold_visit_ok: "fold_visit pos op st = Some st' \<Longrightarrow> scan_ok n st \<Longrightarrow> pos < n \<Longrightarrow> scan_ok n st'"
  by (auto simp: fold_visit_def Let_def split: if_splits bind_splits option.splits intro: fold_at_ok)

lemma inc_visit_ok: "inc_visit pos st = Some st' \<Longrightarrow> scan_ok n st \<Longrightarrow> pos < n \<Longrightarrow> scan_ok n st'"
  by (auto simp: inc_visit_def scan_ok_def split: if_splits bind_splits dest: upd_length)

lemma scan_ok_prev: "scan_ok n (st\<lparr>sc_prev3 := a, sc_prev2 := b, sc_prev1 := c\<rparr>) = scan_ok n st"
  by (simp add: scan_ok_def)

lemma arith_visit_ok: "arith_visit pos st = Some st' \<Longrightarrow> scan_ok n st \<Longrightarrow> pos < n \<Longrightarrow> scan_ok n st'"
  by (auto simp: arith_visit_def scan_ok_prev Let_def split: if_splits bind_splits intro: fold_visit_ok inc_visit_ok)

lemma arith_scan_all_ok:
  "arith_scan_all ps st = Some st' \<Longrightarrow> scan_ok n st \<Longrightarrow> \<forall>p \<in> set ps. p < n \<Longrightarrow> scan_ok n st'"
  by (induction ps arbitrary: st) (auto split: bind_splits intro: arith_visit_ok)

lemma arith_once_length:
  assumes "arith_once code = Some (code', b)"
  shows "length code' \<le> length code" and "b \<Longrightarrow> length code' < length code"
proof -
  from assms obtain st where st: "arith_scan_all [0..<length code]
        \<lparr>sc_code = code, sc_prev1 = opcode_num OP_NOP, sc_prev2 = opcode_num OP_NOP,
         sc_prev3 = opcode_num OP_NOP, sc_remove = []\<rparr> = Some st"
    and r: "remove_set (sc_remove st) (sc_code st) = Some code'" and b: "b = (sc_remove st \<noteq> [])"
    by (auto simp: arith_once_def split: bind_splits)
  have "scan_ok (length code) st" by (rule arith_scan_all_ok [OF st]) (simp_all add: scan_ok_def)
  with remove_set_length [OF r] b show "length code' \<le> length code" "b \<Longrightarrow> length code' < length code"
    by (auto simp: scan_ok_def)
qed

section \<open>The loops\<close>

function optimiseArithmetic :: "icode \<Rightarrow> (icode \<times> bool) option" where
  "optimiseArithmetic code =
     (case arith_once code of
        None \<Rightarrow> None
      | Some (code', changed) \<Rightarrow>
          if changed then map_option (\<lambda>(c, _). (c, True)) (optimiseArithmetic code')
          else Some (code', False))"
  by pat_completeness auto
termination
  by (relation "measure length") (auto dest: arith_once_length)

declare optimiseArithmetic.simps [simp del]

lemma optimiseArithmetic_length:
  "optimiseArithmetic code = Some (code', b) \<Longrightarrow> length code' \<le> length code \<and> (b \<longrightarrow> length code' < length code)"
proof (induction code arbitrary: code' b rule: optimiseArithmetic.induct)
  case (1 code)
  then obtain c ch where c: "arith_once code = Some (c, ch)"
    by (subst (asm) (2) optimiseArithmetic.simps) (auto split: option.splits)
  show ?case
  proof (cases ch)
    case True
    with 1(2) c obtain b' where r: "optimiseArithmetic c = Some (code', b')" and b: b
      by (subst (asm) optimiseArithmetic.simps) (auto split: option.splits)
    from 1(1) [OF c refl True r] arith_once_length [OF c] True show ?thesis by auto
  next
    case False
    with 1(2) c have "code' = c \<and> \<not> b" by (subst (asm) optimiseArithmetic.simps) auto
    with arith_once_length [OF c] show ?thesis by simp
  qed
qed

function optimise :: "int \<Rightarrow> int \<Rightarrow> icode \<Rightarrow> icode option" where
  "optimise localVars argCount code =
     (case optimiseVars localVars argCount code of
        None \<Rightarrow> None
      | Some (code1, ch1) \<Rightarrow>
          (case optimiseArithmetic code1 of
             None \<Rightarrow> None
           | Some (code2, ch2) \<Rightarrow>
               if ch1 \<or> ch2 then optimise localVars argCount code2 else Some code2))"
  by pat_completeness auto
termination
proof (relation "measure (\<lambda>(lv, ac, code). length code)")
  fix lv ac code x code1 ch1 y code2 ch2
  assume o1: "optimiseVars lv ac code = Some x" "(code1, ch1) = x"
    and o2: "optimiseArithmetic code1 = Some y" "(code2, ch2) = y" and "ch1 \<or> ch2"
  with optimiseVars_length [of lv ac code code1 ch1] optimiseArithmetic_length [of code1 code2 ch2]
  show "((lv, ac, code2), lv, ac, code) \<in> measure (\<lambda>(lv, ac, code). length code)" by auto
qed simp

declare optimise.simps [simp del]

end
