(* ===== verification/Assembler.thy ===== *)
theory Assembler
  imports Optimiser
begin

text \<open>
  The assembler (src/libb0rk/assembler.cpp, up to \<open>pushInstruction\<close>): from the expression tree to
  instructions, and from instructions to the code array.

  An \<open>act\<close> is what one of the \<open>assemble\<close> functions does to the state: \<open>Some (b, s)\<close> with the
  function's result \<open>b\<close>, or \<open>None\<close> where it has no defined result (a null \<open>Expression*\<close> that is
  followed, \<open>m_code\<close> indexed outside its range). The instruction buffer is \<open>asm_code\<close>; instructions
  emitted before a failure stay in it, as \<open>m_code\<close> does.
\<close>

type_synonym act = "vm \<Rightarrow> (bool \<times> vm) option"

record aenv =
  ae_env :: env
  ae_findClass :: "wstring \<Rightarrow> vm \<Rightarrow> (ptr \<times> vm) option"
  ae_function :: ptr

text \<open>The block being assembled with its parents, innermost first, and the function's arguments.\<close>

type_synonym scope = "codeblock list \<times> wstring list option"

section \<open>Actions\<close>

definition ok :: act where
  "ok s = Some (True, s)"

definition fail :: act where
  "fail s = Some (False, s)"

definition crash :: act where
  "crash s = None"

text \<open>\<open>a; if (!res) return false; b\<close>, and \<open>a\<close> with its result ignored.\<close>

definition andThen :: "act \<Rightarrow> act \<Rightarrow> act" where
  "andThen a b s =
     (case a s of None \<Rightarrow> None | Some (False, t) \<Rightarrow> Some (False, t) | Some (True, t) \<Rightarrow> b t)"

definition ignoring :: "act \<Rightarrow> act \<Rightarrow> act" where
  "ignoring a b s = (case a s of None \<Rightarrow> None | Some (_, t) \<Rightarrow> b t)"

definition reading :: "(vm \<Rightarrow> act) \<Rightarrow> act" where
  "reading k s = k s s"

fun runAll :: "act list \<Rightarrow> act" where
  "runAll [] = ok"
| "runAll (a # as) = andThen a (runAll as)"

definition whenSome :: "'a option \<Rightarrow> ('a \<Rightarrow> act) \<Rightarrow> act" where
  "whenSome x k = (case x of None \<Rightarrow> crash | Some y \<Rightarrow> k y)"

definition pushInstruction :: "opcode \<Rightarrow> u64 list \<Rightarrow> act" where
  "pushInstruction c args s =
     Some (True, s\<lparr>asm_code := asm_code s @ [\<lparr>ins_op = opcode_num c, ins_args = args\<rparr>]\<rparr>)"

definition push_raw :: "u64 \<Rightarrow> act" where
  "push_raw op s = Some (True, s\<lparr>asm_code := asm_code s @ [\<lparr>ins_op = op, ins_args = []\<rparr>]\<rparr>)"

definition pushOperator :: "opcode \<Rightarrow> ValueType \<Rightarrow> act" where
  "pushOperator c t =
     (case t of
        VALUE_INTEGER \<Rightarrow> push_raw (opcode_num c + 0x10)
      | VALUE_DOUBLE \<Rightarrow> push_raw (opcode_num c + 0x20)
      | _ \<Rightarrow> push_raw (opcode_num c))"

definition pushCMP :: "ValueType \<Rightarrow> act" where
  "pushCMP t =
     (case t of
        VALUE_INTEGER \<Rightarrow> pushInstruction OP_CMPI []
      | VALUE_DOUBLE \<Rightarrow> pushInstruction OP_CMPD []
      | _ \<Rightarrow> pushInstruction OP_CMP [])"

text \<open>\<open>m_code[pos].args[k] = m_code.size ()\<close>.\<close>

definition patch_size :: "int \<Rightarrow> nat \<Rightarrow> act" where
  "patch_size pos k s = do {
     i \<leftarrow> idx (asm_code s) pos;
     i' \<leftarrow> set_arg k (of_nat (length (asm_code s))) i;
     c \<leftarrow> upd (asm_code s) pos i';
     Some (True, s\<lparr>asm_code := c\<rparr>) }"

definition code_size :: "vm \<Rightarrow> int" where
  "code_size s = int (length (asm_code s))"

section \<open>Names\<close>

definition fun_class :: "aenv \<Rightarrow> vm \<Rightarrow> ptr option" where
  "fun_class ae s = do { fn \<leftarrow> rt_func (rt s) (ae_function ae); Some (fn_class fn) }"

definition scope_var :: "scope \<Rightarrow> wstring \<Rightarrow> int" where
  "scope_var sc x = getVarId (fst sc) (snd sc) x"

definition isVariable :: "aenv \<Rightarrow> scope \<Rightarrow> wstring \<Rightarrow> vm \<Rightarrow> bool option" where
  "isVariable ae sc name s =
     (if scope_var sc name \<noteq> - 1 then Some True
      else do {
        cp \<leftarrow> fun_class ae s;
        i \<leftarrow> getFieldId (rt_class (rt s)) cp name;
        Some (i \<noteq> - 1) })"

text \<open>\<open>newString\<close>, pinned, and a push of it.\<close>

definition push_string :: "aenv \<Rightarrow> wstring \<Rightarrow> act" where
  "push_string ae str s = do {
     (p, s1) \<leftarrow> newString (ae_env ae) str s;
     s2 \<leftarrow> vm_rt (setExternalGC p) s1;
     pushInstruction OP_PUSHOBJ [p] s2 }"

definition word_id :: "int \<Rightarrow> u64" where
  "word_id i = word_of_int i"

section \<open>Loading and storing variables\<close>

text \<open>
  The \<open>reference\<close> parameter arrives as the action that assembles it, if there is one. Through a
  reference the access is by name; else a class-qualified name is a static field, and a plain name
  is, in this order, a local variable, a field of \<open>this\<close>, a static field of the function's class.
\<close>

definition load_plain :: "aenv \<Rightarrow> scope \<Rightarrow> wstring \<Rightarrow> act" where
  "load_plain ae sc var =
     (let i = (if var = wstr ''this'' then 0 else scope_var sc var) in
      if i \<noteq> - 1 then pushInstruction OP_LOAD_VAR [word_id i]
      else reading (\<lambda>s. whenSome (fun_class ae s) (\<lambda>cp.
        whenSome (if cp \<noteq> 0 then getFieldId (rt_class (rt s)) cp var else Some (- 1)) (\<lambda>f.
          if f \<noteq> - 1
          then andThen (pushInstruction OP_LOAD_VAR [0]) (pushInstruction OP_LOAD_FIELD [word_id f])
          else whenSome (getStaticFieldId (rt_class (rt s)) cp var) (\<lambda>g.
            if g \<noteq> - 1 then pushInstruction OP_LOAD_STATIC_FIELD [cp, word_id g] else fail)))))"

definition load :: "aenv \<Rightarrow> scope \<Rightarrow> ptr \<Rightarrow> wstring \<Rightarrow> act option \<Rightarrow> act" where
  "load ae sc clazz var reference =
     (case reference of
        Some ref \<Rightarrow> andThen ref (andThen (push_string ae var) (pushInstruction OP_LOAD_FIELD_NAMED []))
      | None \<Rightarrow>
          if clazz \<noteq> 0
          then reading (\<lambda>s. whenSome (getStaticFieldId (rt_class (rt s)) clazz var) (\<lambda>i.
                 if i \<noteq> - 1 then pushInstruction OP_LOAD_STATIC_FIELD [clazz, word_id i] else fail))
          else load_plain ae sc var)"

definition store :: "aenv \<Rightarrow> scope \<Rightarrow> wstring \<Rightarrow> act option \<Rightarrow> act" where
  "store ae sc var reference =
     (case reference of
        Some ref \<Rightarrow> andThen ref (andThen (push_string ae var) (pushInstruction OP_STORE_FIELD_NAMED []))
      | None \<Rightarrow>
          let i = (if var = wstr ''this'' then 0 else scope_var sc var) in
          if i \<noteq> - 1 then pushInstruction OP_STORE_VAR [word_id i]
          else reading (\<lambda>s. whenSome (fun_class ae s) (\<lambda>cp.
            whenSome (getFieldId (rt_class (rt s)) cp var) (\<lambda>f.
              if f \<noteq> - 1
              then andThen (pushInstruction OP_LOAD_VAR [0]) (pushInstruction OP_STORE_FIELD [word_id f])
              else whenSome (getStaticFieldId (rt_class (rt s)) cp var) (\<lambda>g.
                if g \<noteq> - 1 then pushInstruction OP_STORE_STATIC_FIELD [cp, word_id g] else fail)))))"

section \<open>One construct at a time\<close>

text \<open>
  The code each construct emits around the code of its parts, which arrive as actions. A call:
  arguments, then the reference, then one of the call instructions.
\<close>

definition call_target :: "aenv \<Rightarrow> scope \<Rightarrow> bool \<Rightarrow> ptr \<Rightarrow> wstring \<Rightarrow> u64 \<Rightarrow> act option \<Rightarrow> act" where
  "call_target ae sc inRef clazz name count reference =
     (if clazz \<noteq> 0
      then reading (\<lambda>s. whenSome (findMethod (rt_class (rt s)) clazz name) (\<lambda>f.
             pushInstruction OP_CALL_STATIC [f, count]))
      else if inRef
      then andThen (push_string ae name) (pushInstruction OP_CALL_NAMED [count])
      else reading (\<lambda>s. whenSome (isVariable ae sc name s) (\<lambda>isVar.
        if isVar
        then ignoring (load ae sc 0 name reference) (pushInstruction OP_CALL_OBJ [count])
        else whenSome (fun_class ae s) (\<lambda>cp. whenSome (findMethod (rt_class (rt s)) cp name) (\<lambda>f.
          if f = 0 then fail
          else whenSome (rt_func (rt s) f) (\<lambda>fn.
            if fn_static fn then pushInstruction OP_CALL_STATIC [f, count]
            else andThen (pushInstruction OP_LOAD_VAR [0]) (pushInstruction OP_CALL [f, count])))))))"

definition assembleCall ::
    "aenv \<Rightarrow> scope \<Rightarrow> bool \<Rightarrow> ptr \<Rightarrow> wstring \<Rightarrow> act list \<Rightarrow> act option \<Rightarrow> bool \<Rightarrow> act" where
  "assembleCall ae sc inRef clazz name params reference needResult =
     andThen (runAll params)
       (andThen (case reference of Some ref \<Rightarrow> ref | None \<Rightarrow> ok)
         (andThen (call_target ae sc inRef clazz name (of_nat (length params)) reference)
           (if needResult then ok else pushInstruction OP_POP [])))"

definition binary_oper :: "OpType \<Rightarrow> ValueType \<Rightarrow> act option" where
  "binary_oper ot vt =
     (case ot of
        OPR_ADD \<Rightarrow> Some (pushOperator OP_ADD vt)
      | OPR_SUB \<Rightarrow> Some (pushOperator OP_SUB vt)
      | OPR_MULTIPLY \<Rightarrow> Some (pushOperator OP_MUL vt)
      | OPR_DIVIDE \<Rightarrow> Some (pushOperator OP_DIV vt)
      | OPR_NOT \<Rightarrow> Some (pushOperator OP_NOT vt)
      | OPR_LOGICAL_AND \<Rightarrow> Some (pushOperator OP_AND vt)
      | OPR_EQUALS \<Rightarrow> Some (andThen (pushCMP vt) (pushInstruction OP_PUSHCE []))
      | OPR_NOT_EQUAL \<Rightarrow> Some (andThen (pushCMP vt) (pushInstruction OP_PUSHCNE []))
      | OPR_LESS_THAN \<Rightarrow> Some (andThen (pushCMP vt) (pushInstruction OP_PUSHCL []))
      | OPR_LESS_THAN_EQUAL \<Rightarrow> Some (andThen (pushCMP vt) (pushInstruction OP_PUSHCLE []))
      | OPR_GREATER_THAN \<Rightarrow> Some (andThen (pushCMP vt) (pushInstruction OP_PUSHCG []))
      | OPR_GREATER_THAN_EQUAL \<Rightarrow> Some (andThen (pushCMP vt) (pushInstruction OP_PUSHCGE []))
      | _ \<Rightarrow> None)"

text \<open>The variable of a \<open>VarExpression\<close>, which an \<open>ArrayExpression\<close> is, too.\<close>

fun as_var :: "expr \<Rightarrow> (ptr \<times> wstring) option" where
  "as_var (VarExpression c v vt) = Some (c, v)"
| "as_var (ArrayExpression c v ix) = Some (c, v)"
| "as_var _ = None"

definition assembleCrement ::
    "aenv \<Rightarrow> scope \<Rightarrow> bool \<Rightarrow> expr option \<Rightarrow> act option \<Rightarrow> bool \<Rightarrow> act" where
  "assembleCrement ae sc increment left reference needResult =
     whenSome left (\<lambda>l.
       case as_var l of
         None \<Rightarrow> fail
       | Some (clazz, var) \<Rightarrow>
           if \<not> needResult \<and> scope_var sc var \<noteq> - 1
           then pushInstruction OP_INC_VAR [word_id (scope_var sc var), if increment then 1 else - 1]
           else andThen (load ae sc clazz var reference)
             (andThen (if needResult
                       then andThen (pushInstruction OP_DUP []) (andThen (pushInstruction OP_PUSHI [1])
                              (if increment then ok else pushInstruction OP_SWAP []))
                       else pushInstruction OP_PUSHI [1])
               (andThen (pushInstruction (if increment then OP_ADDI else OP_SUBI) [])
                 (store ae sc var reference))))"

definition is_reference :: "expr \<Rightarrow> bool" where
  "is_reference e =
     (case e of OperationExpression ot d vt l r \<Rightarrow> ot = OPR_REFERENCE | _ \<Rightarrow> False)"

text \<open>The first descendant along \<open>right\<close> that is no reference.\<close>

fun nonref :: "expr \<Rightarrow> expr option" where
  "nonref (OperationExpression ot d vt l r) =
     (if ot = OPR_REFERENCE then (case r of None \<Rightarrow> None | Some r' \<Rightarrow> nonref r')
      else Some (OperationExpression ot d vt l r))"
| "nonref e = Some e"

text \<open>
  The assignment, after the value has been assembled. Through a reference the destination is stored
  by name, whatever it is; an array element otherwise needs the index's code.
\<close>

definition assembleSet ::
    "aenv \<Rightarrow> scope \<Rightarrow> expr option \<Rightarrow> act option \<Rightarrow> act option \<Rightarrow> act option \<Rightarrow> bool \<Rightarrow> act" where
  "assembleSet ae sc left leftRef reference index needResult =
     andThen (if needResult then pushInstruction OP_DUP [] else ok)
       (whenSome left (\<lambda>l.
          if is_reference l
          then whenSome (nonref l) (\<lambda>dest. whenSome (as_var dest) (\<lambda>(clazz, var). store ae sc var leftRef))
          else (case l of
                  VarExpression clazz var vt \<Rightarrow> store ae sc var reference
                | ArrayExpression clazz var ix \<Rightarrow>
                    andThen (load ae sc clazz var reference)
                      (andThen (whenSome index (\<lambda>a. a)) (pushInstruction OP_STORE_ARRAY []))
                | _ \<Rightarrow> fail)))"

text \<open>
  \<open>assembleTest\<close>: a comparison that ends in \<open>PUSHCE\<close>, \<open>PUSHCL\<close> or \<open>PUSHCLE\<close> is fused with the branch
  over the block (the test of the instruction before it is always true, because it ends in
  \<open>|| OPCODE_CMPD\<close>); everything else is compared with 0.
\<close>

definition fused_branch :: "u64 \<Rightarrow> opcode option" where
  "fused_branch op =
     (if op = opcode_num OP_PUSHCE then Some OP_BNE
      else if op = opcode_num OP_PUSHCL then Some OP_BGE
      else if op = opcode_num OP_PUSHCLE then Some OP_BG
      else None)"

definition push_branch :: act where
  "push_branch = reading (\<lambda>s.
     (case (if 2 < length (asm_code s) then fused_branch (ins_op (last (asm_code s))) else None) of
        Some b \<Rightarrow> (\<lambda>s. pushInstruction b [0] (s\<lparr>asm_code := butlast (asm_code s)\<rparr>))
      | None \<Rightarrow> andThen (pushInstruction OP_PUSHI [0])
                 (andThen (pushInstruction OP_CMPI []) (pushInstruction OP_BEQ [0]))))"

definition assembleTest :: "act \<Rightarrow> act" where
  "assembleTest test = andThen test push_branch"

text \<open>The result of \<open>assembleTest\<close> is overwritten before anyone looks at it.\<close>

definition assembleIf :: "act \<Rightarrow> act \<Rightarrow> act option \<Rightarrow> act" where
  "assembleIf test trueBlock falseBlock =
     ignoring (assembleTest test) (reading (\<lambda>s.
       let bneToFalsePos = code_size s - 1 in
       andThen trueBlock
         (case falseBlock of
            None \<Rightarrow> patch_size bneToFalsePos 0
          | Some fb \<Rightarrow> andThen (pushInstruction OP_JMP [0]) (reading (\<lambda>t.
              let jmpToEndPos = code_size t - 1 in
              andThen (patch_size bneToFalsePos 0)
                (andThen fb (patch_size jmpToEndPos 0)))))))"

definition assembleFor :: "act \<Rightarrow> act \<Rightarrow> act \<Rightarrow> act \<Rightarrow> act" where
  "assembleFor init test inc body =
     andThen init (reading (\<lambda>s0.
       let loopTop = of_nat (length (asm_code s0)) in
       ignoring (assembleTest test) (reading (\<lambda>s.
         let bneToEndPos = code_size s - 1 in
         andThen body (andThen inc (andThen (pushInstruction OP_JMP [loopTop]) (patch_size bneToEndPos 0)))))))"

definition assembleTry :: "int \<Rightarrow> act \<Rightarrow> act \<Rightarrow> act" where
  "assembleTry evar tryBlock catchBlock =
     (if evar = - 1 then fail
      else andThen (pushInstruction OP_PUSHTRY [word_id evar, 0]) (reading (\<lambda>s.
        let tryCatchPos = code_size s - 1 in
        andThen tryBlock (andThen (pushInstruction OP_POPTRY []) (andThen (pushInstruction OP_JMP [0])
          (reading (\<lambda>t.
            let jmpToEndPos = code_size t - 1 in
            andThen (patch_size tryCatchPos 1) (andThen catchBlock (patch_size jmpToEndPos 0)))))))))"

definition dotted :: "wstring list \<Rightarrow> wstring" where
  "dotted parts = (case parts of [] \<Rightarrow> [] | p # ps \<Rightarrow> p @ concat (map (\<lambda>q. 46 # q) ps))"

definition assembleNew :: "aenv \<Rightarrow> wstring list \<Rightarrow> act list \<Rightarrow> act" where
  "assembleNew ae clazz params s =
     (case ae_findClass ae (dotted clazz) s of
        None \<Rightarrow> None
      | Some (cp, t) \<Rightarrow>
          if cp = 0 then Some (False, t)
          else andThen (runAll params) (pushInstruction OP_NEW [cp, of_nat (length params)]) t)"

section \<open>Expressions and blocks\<close>

lemma nonref_size: "nonref e = Some d \<Longrightarrow> size d \<le> size e"
  by (induction e rule: nonref.induct) (fastforce split: if_splits option.splits)+

lemma nonref_smaller: "nonref e = Some d \<Longrightarrow> is_reference e \<Longrightarrow> size d < size e"
  by (cases e) (auto simp: is_reference_def split: if_splits option.splits dest!: nonref_size)

text \<open>The measure of the recursion below, an expression with its reference.\<close>

definition emeas :: "expr \<Rightarrow> expr option \<Rightarrow> nat" where
  "emeas e r = (case r of None \<Rightarrow> 2 * size e + 3 | Some r' \<Rightarrow> 2 * max (size e) (size r') + 2)"

lemma list_member_size: "(x :: expr) \<in> set xs \<Longrightarrow> size x < size_list size xs"
  by (induction xs) auto

definition inner :: "codeblock \<Rightarrow> scope \<Rightarrow> scope" where
  "inner b sc = (b # fst sc, snd sc)"

text \<open>
  The recursion. \<open>reference\<close> is the chain of references the expression is the target of. The parts
  of an expression are assembled with no reference; a reference operation hands itself on to its
  target, and \<open>assembleReference\<close> assembles the left sides along the chain.
\<close>

function (sequential) assembleExpression :: "aenv \<Rightarrow> scope \<Rightarrow> expr \<Rightarrow> expr option \<Rightarrow> bool \<Rightarrow> act"
  and assembleReference :: "aenv \<Rightarrow> scope \<Rightarrow> expr \<Rightarrow> act"
  and assembleBlock :: "aenv \<Rightarrow> scope \<Rightarrow> codeblock \<Rightarrow> act" where
  "assembleExpression ae sc (CallExpression inRef clazz name params) reference needResult =
     assembleCall ae sc inRef clazz name (map (\<lambda>p. assembleExpression ae sc p None True) params)
       (case reference of None \<Rightarrow> None | Some r \<Rightarrow> Some (assembleReference ae sc r)) needResult"
| "assembleExpression ae sc (OperationExpression ot desc vt left right) reference needResult =
     (if ot = OPR_REFERENCE \<and> reference = None
      then (case right of
              None \<Rightarrow> fail
            | Some r \<Rightarrow>
                (case nonref r of
                   None \<Rightarrow> fail
                 | Some refChild \<Rightarrow>
                     assembleExpression ae sc refChild (Some (OperationExpression ot desc vt left right)) needResult))
      else
        andThen (case right of None \<Rightarrow> ok | Some r \<Rightarrow> assembleExpression ae sc r None True)
          (andThen
            (if ot \<noteq> OPR_SET \<and> ot \<noteq> OPR_INCREMENT \<and> ot \<noteq> OPR_DECREMENT \<and> od_hasLeft desc
             then (case left of None \<Rightarrow> crash | Some l \<Rightarrow> assembleExpression ae sc l None True)
             else ok)
            (case binary_oper ot vt of
               Some a \<Rightarrow> a
             | None \<Rightarrow>
                 if ot = OPR_INCREMENT \<or> ot = OPR_DECREMENT
                 then assembleCrement ae sc (ot = OPR_INCREMENT) left
                        (case reference of None \<Rightarrow> None | Some r \<Rightarrow> Some (assembleReference ae sc r)) needResult
                 else if ot = OPR_SET
                 then assembleSet ae sc left
                        (case left of None \<Rightarrow> None
                         | Some l \<Rightarrow> if is_reference l then Some (assembleReference ae sc l) else None)
                        (case reference of None \<Rightarrow> None | Some r \<Rightarrow> Some (assembleReference ae sc r))
                        (case left of
                           Some (ArrayExpression c v ix) \<Rightarrow> Some (assembleExpression ae sc ix None True)
                         | _ \<Rightarrow> None)
                        needResult
                 else if ot = OPR_REFERENCE then ok
                 else fail)))"
| "assembleExpression ae sc (IfExpression t tb fb) reference needResult =
     assembleIf (assembleExpression ae sc t None True) (assembleBlock ae (inner tb sc) tb)
       (case fb of None \<Rightarrow> None | Some f \<Rightarrow> Some (assembleBlock ae (inner f sc) f))"
| "assembleExpression ae sc (ForExpression i t n body) reference needResult =
     assembleFor (case i of None \<Rightarrow> ok | Some e \<Rightarrow> assembleExpression ae sc e None False)
       (assembleExpression ae sc t None True)
       (case n of None \<Rightarrow> ok | Some e \<Rightarrow> assembleExpression ae sc e None False)
       (assembleBlock ae (inner body sc) body)"
| "assembleExpression ae sc (ReturnExpression v) reference needResult =
     andThen (case v of None \<Rightarrow> pushInstruction OP_PUSHI [0] | Some e \<Rightarrow> assembleExpression ae sc e None True)
       (pushInstruction OP_RETURN [])"
| "assembleExpression ae sc (TryExpression tb ev cb) reference needResult =
     assembleTry (scope_var (inner cb sc) ev) (assembleBlock ae (inner tb sc) tb) (assembleBlock ae (inner cb sc) cb)"
| "assembleExpression ae sc (ThrowExpression v) reference needResult =
     andThen (assembleExpression ae sc v None True) (pushInstruction OP_THROW [])"
| "assembleExpression ae sc (VarExpression clazz var vt) reference needResult =
     load ae sc clazz var (case reference of None \<Rightarrow> None | Some r \<Rightarrow> Some (assembleReference ae sc r))"
| "assembleExpression ae sc (ArrayExpression clazz var ix) reference needResult =
     andThen (load ae sc clazz var (case reference of None \<Rightarrow> None | Some r \<Rightarrow> Some (assembleReference ae sc r)))
       (andThen (assembleExpression ae sc ix None True) (pushInstruction OP_LOAD_ARRAY []))"
| "assembleExpression ae sc (NewExpression clazz params) reference needResult =
     assembleNew ae clazz (map (\<lambda>p. assembleExpression ae sc p None True) params)"
| "assembleExpression ae sc (StringExpression str) reference needResult = push_string ae str"
| "assembleExpression ae sc (IntegerExpression i) reference needResult = pushInstruction OP_PUSHI [i]"
| "assembleExpression ae sc (DoubleExpression d) reference needResult = pushInstruction OP_PUSHD [d]"
| "assembleExpression ae sc (FunctionExpression f) reference needResult = pushInstruction OP_NEW_FUNCTION [f]"
| "assembleReference ae sc (OperationExpression ot desc vt left right) =
     andThen (case left of None \<Rightarrow> crash | Some l \<Rightarrow> assembleExpression ae sc l None True)
       (case right of None \<Rightarrow> ok | Some r \<Rightarrow> if is_reference r then assembleReference ae sc r else ok)"
| "assembleReference ae sc e = crash"
| "assembleBlock ae sc (CodeBlock i m vs code) =
     runAll (map (\<lambda>e. assembleExpression ae sc e None False) code)"
  by pat_completeness auto
termination
  by (relation "measure (\<lambda>p. case p of
      Inl (ae, sc, e, r, n) \<Rightarrow> emeas e r
    | Inr (Inl (ae, sc, r)) \<Rightarrow> 2 * size r + 1
    | Inr (Inr (ae, sc, b)) \<Rightarrow> 2 * size b)")
     (auto simp: emeas_def max_def less_Suc_eq_le split: option.splits
       dest!: nonref_size list_member_size)

end
