(* ===== verification/Linker.thy ===== *)
theory Linker
  imports Assembler
begin

text \<open>
  From instructions to the code array: \<open>Assembler::assemble\<close> (src/libb0rk/assembler.cpp) with its
  address assignment and encoding, and the walk of \<open>Disassembler::disassemble\<close>
  (src/libb0rk/disassembler.cpp) over the array.
\<close>

section \<open>Addresses\<close>

text \<open>The address of an instruction is the number of words before it.\<close>

definition ins_size :: "Instruction \<Rightarrow> nat" where
  "ins_size i = Suc (length (ins_args i))"

definition address_of :: "icode \<Rightarrow> nat \<Rightarrow> nat" where
  "address_of code k = sum_list (map ins_size (take k code))"

definition code_words :: "icode \<Rightarrow> nat" where
  "code_words code = sum_list (map ins_size code)"

section \<open>Encoding\<close>

text \<open>\<open>None\<close> is \<open>return false\<close>: a wrong number of arguments, or a target that is no instruction.\<close>

definition encode_arg :: "icode \<Rightarrow> int \<Rightarrow> nat \<Rightarrow> u64 \<Rightarrow> u64 option" where
  "encode_arg code address j arg =
     (if int j = address
      then if unat arg \<ge> length code then None else Some (of_nat (address_of code (unat arg)))
      else Some arg)"

fun encode_args :: "icode \<Rightarrow> int \<Rightarrow> nat \<Rightarrow> u64 list \<Rightarrow> u64 list option" where
  "encode_args code address j [] = Some []"
| "encode_args code address j (a # as) = do {
     w \<leftarrow> encode_arg code address j a;
     ws \<leftarrow> encode_args code address (Suc j) as;
     Some (w # ws) }"

definition encode :: "icode \<Rightarrow> Instruction \<Rightarrow> u64 list option" where
  "encode code i =
     (let info = getOpcodeInfo (ins_op i) in
      if info_args info \<noteq> length (ins_args i) then None
      else do { ws \<leftarrow> encode_args code (info_address info) 0 (ins_args i); Some (ins_op i # ws) })"

definition link :: "icode \<Rightarrow> u64 list option" where
  "link code = map_option concat (map_option_list (encode code) code)"

section \<open>Assembling a function\<close>

text \<open>
  The buffer is emptied on success only: after a failure the instructions stay, and the next
  function this context assembles is appended to them. The listing that \<open>assemble\<close> writes to the
  directory \<open>asm\<close> is left out.
\<close>

definition set_code :: "ptr \<Rightarrow> Function \<Rightarrow> codeblock \<Rightarrow> AssembledCode \<Rightarrow> vm \<Rightarrow> vm" where
  "set_code f fn blk ac s =
     s\<lparr>rt := (rt s)\<lparr>rt_func := (rt_func (rt s))(f \<mapsto> fn\<lparr>fn_kind := ScriptFunction blk (Some ac)\<rparr>)\<rparr>\<rparr>"

definition assemble :: "aenv \<Rightarrow> act" where
  "assemble ae s = do {
     fn \<leftarrow> rt_func (rt s) (ae_function ae);
     (case fn_kind fn of
        ScriptFunction blk _ \<Rightarrow>
          do {
            (res, t) \<leftarrow> assembleBlock ae ([blk], Some (fn_args fn)) blk s;
            if \<not> res then Some (False, t)
            else do {
              (_, t1) \<leftarrow> pushInstruction OP_PUSHI [0] t;
              (_, t2) \<leftarrow> pushInstruction OP_RETURN [] t1;
              code \<leftarrow> optimise (m_maxVarId blk + 1) (int (length (fn_args fn))) (asm_code t2);
              (case link code of
                 None \<Rightarrow> Some (False, t2\<lparr>asm_code := code\<rparr>)
               | Some ws \<Rightarrow>
                   Some (True, set_code (ae_function ae) fn blk
                     \<lparr>ac_function = ae_function ae, ac_code = ws, ac_localVars = m_maxVarId blk + 1\<rparr>
                     (t2\<lparr>asm_code := []\<rparr>))) } }
      | _ \<Rightarrow> None) }"

section \<open>The disassembler's walk\<close>

text \<open>
  A line of the listing: the position, the name, and the pieces its format asks for. What
  \<open>swprintf\<close> and the name lookups make of a piece is left open. Each piece takes the next argument;
  one that lies outside the array is \<open>None\<close>.
\<close>

datatype piece = Literal char | Dec u64 | Hex u64 | Flt u64 | ClassName u64 | FunName u64 | ObjRef u64

definition piece_of :: "char \<Rightarrow> (u64 \<Rightarrow> piece) option" where
  "piece_of c =
     (if c = CHR ''d'' then Some Dec else if c = CHR ''x'' then Some Hex
      else if c = CHR ''f'' then Some Flt else if c = CHR ''C'' then Some ClassName
      else if c = CHR ''F'' then Some FunName else if c = CHR ''O'' then Some ObjRef else None)"

text \<open>A lone \<open>%\<close> at the end makes the code read one character past it, the terminating 0.\<close>

fun pieces :: "u64 list \<Rightarrow> int \<Rightarrow> string \<Rightarrow> piece list option" where
  "pieces code pos [] = Some []"
| "pieces code pos (c # cs) =
     (if c \<noteq> CHR ''%'' then map_option ((#) (Literal c)) (pieces code pos cs)
      else (case cs of
              [] \<Rightarrow> Some []
            | d # ds \<Rightarrow>
                (case piece_of d of
                   None \<Rightarrow> pieces code pos ds
                 | Some f \<Rightarrow> do {
                     w \<leftarrow> idx code pos;
                     ps \<leftarrow> pieces code (pos + 1) ds;
                     Some (f w # ps) })))"

text \<open>The opcode passes through an \<open>int\<close> and an unsigned comparison on its way to the table.\<close>

definition int_opcode :: "u64 \<Rightarrow> u64" where
  "int_opcode w = word_of_int (to_int32 w)"

function disassemble_from :: "nat \<Rightarrow> u64 list \<Rightarrow> (nat \<times> string \<times> piece list) list option" where
  "disassemble_from pos code =
     (if pos < length code
      then do {
        let info = getOpcodeInfo (int_opcode (code ! pos));
        ps \<leftarrow> pieces code (int (Suc pos)) (info_format info);
        rest \<leftarrow> disassemble_from (Suc pos + info_args info) code;
        Some ((pos, info_name info, ps) # rest) }
      else Some [])"
  by pat_completeness auto
termination
  by (relation "measure (\<lambda>(pos, code). length code - pos)") auto

declare disassemble_from.simps [simp del]

definition disassemble :: "AssembledCode \<Rightarrow> (nat \<times> string \<times> piece list) list option" where
  "disassemble c = disassemble_from 0 (ac_code c)"

section \<open>Layout\<close>

lemma map_option_list_Some:
  "map_option_list f xs = Some ys \<longleftrightarrow>
     length ys = length xs \<and> (\<forall>k < length xs. f (xs ! k) = Some (ys ! k))"
proof (induction xs arbitrary: ys)
  case Nil
  then show ?case by auto
next
  case (Cons x xs)
  show ?case
  proof (cases ys)
    case (Cons y ys')
    with Cons.IH [of ys'] show ?thesis by (auto split: bind_splits simp: All_less_Suc2)
  qed (auto split: bind_splits)
qed

lemma map_option_list_None: "map_option_list f xs = None \<longleftrightarrow> (\<exists>x \<in> set xs. f x = None)"
  by (induction xs) (auto split: bind_splits)

lemma concat_nth_offset:
  assumes "k < length yss" and "j < length (yss ! k)"
  shows "concat yss ! (sum_list (map length (take k yss)) + j) = yss ! k ! j"
    and "sum_list (map length (take k yss)) + length (yss ! k) \<le> length (concat yss)"
proof -
  have e: "concat yss = concat (take k yss) @ yss ! k @ concat (drop (Suc k) yss)"
    using id_take_nth_drop [OF assms(1)] by (metis concat.simps(2) concat_append)
  have l: "length (concat (take k yss)) = sum_list (map length (take k yss))" by (simp add: length_concat)
  show "concat yss ! (sum_list (map length (take k yss)) + j) = yss ! k ! j"
    using assms(2) by (subst e) (simp add: nth_append l [symmetric])
  show "sum_list (map length (take k yss)) + length (yss ! k) \<le> length (concat yss)"
    by (subst e) (simp add: l)
qed

lemma encode_args_Some:
  "encode_args code ad j as = Some ws \<longleftrightarrow>
     length ws = length as \<and> (\<forall>k < length as. encode_arg code ad (j + k) (as ! k) = Some (ws ! k))"
proof (induction as arbitrary: j ws)
  case (Cons a as)
  show ?case
  proof (cases ws)
    case (Cons w ws')
    with Cons.IH [of "Suc j" ws'] show ?thesis by (auto split: bind_splits simp: All_less_Suc2)
  qed (auto split: bind_splits)
qed auto

lemma encode_args_None:
  "encode_args code ad j as = None \<longleftrightarrow> (\<exists>k < length as. encode_arg code ad (j + k) (as ! k) = None)"
proof (induction as arbitrary: j)
  case (Cons a as)
  have "encode_args code ad j (a # as) = None \<longleftrightarrow> encode_arg code ad j a = None \<or> encode_args code ad (Suc j) as = None"
    by (auto split: bind_splits)
  with Cons.IH [of "Suc j"] show ?case by (simp add: Ex_less_Suc2)
qed simp

lemma encode_length: "encode code i = Some ws \<Longrightarrow> length ws = ins_size i"
  by (auto simp: encode_def ins_size_def Let_def encode_args_Some split: if_splits bind_splits)

lemma link_parts:
  assumes "link code = Some ws"
  obtains wss where "ws = concat wss" and "length wss = length code"
    and "\<And>k. k < length code \<Longrightarrow> encode code (code ! k) = Some (wss ! k)"
    and "\<And>k. k \<le> length code \<Longrightarrow> sum_list (map length (take k wss)) = address_of code k"
proof -
  from assms obtain wss where w: "ws = concat wss" "map_option_list (encode code) code = Some wss"
    by (auto simp: link_def)
  then have l: "length wss = length code" and e: "\<And>k. k < length code \<Longrightarrow> encode code (code ! k) = Some (wss ! k)"
    by (auto simp: map_option_list_Some)
  have "map length wss = map ins_size code"
    by (rule nth_equalityI) (use l e encode_length in auto)
  then have "sum_list (map length (take k wss)) = address_of code k" for k
    by (metis address_of_def take_map)
  with that w(1) l e show thesis by blast
qed

lemma link_words:
  assumes "link code = Some ws" and "k < length code"
  shows "length ws = code_words code" and "address_of code k + length (ins_args (code ! k)) < length ws"
    and "encode code (code ! k) = Some (map (\<lambda>j. ws ! (address_of code k + j)) [0..<ins_size (code ! k)])"
proof -
  obtain wss where w: "ws = concat wss" "length wss = length code"
    "\<And>k. k < length code \<Longrightarrow> encode code (code ! k) = Some (wss ! k)"
    "\<And>k. k \<le> length code \<Longrightarrow> sum_list (map length (take k wss)) = address_of code k"
    using link_parts [OF assms(1)] by blast
  note l = encode_length [OF w(3) [OF assms(2)]]
  from w(4) [of "length code"] w(2) show "length ws = code_words code"
    by (simp add: w(1) length_concat address_of_def code_words_def)
  have a: "sum_list (map length (take k wss)) = address_of code k" using w(4) assms(2) by simp
  from concat_nth_offset(2) [of k wss 0] assms(2) w(2) l a
  show "address_of code k + length (ins_args (code ! k)) < length ws" by (simp add: w(1) ins_size_def)
  have "wss ! k = map (\<lambda>j. ws ! (address_of code k + j)) [0..<ins_size (code ! k)]"
    by (rule nth_equalityI) (use l concat_nth_offset(1) [of k wss] a w(1,2) assms(2) in auto)
  with w(3) [OF assms(2)] show "encode code (code ! k)
    = Some (map (\<lambda>j. ws ! (address_of code k + j)) [0..<ins_size (code ! k)])" by simp
qed

lemma encode_shape:
  assumes "encode code i = Some ws"
  shows "ws ! 0 = ins_op i" and "length (ins_args i) = info_args (getOpcodeInfo (ins_op i))"
    and "j < length (ins_args i) \<Longrightarrow>
      encode_arg code (info_address (getOpcodeInfo (ins_op i))) j (ins_args i ! j) = Some (ws ! Suc j)"
  using assms by (auto simp: encode_def Let_def encode_args_Some split: if_splits bind_splits)

text \<open>C13: The layout of assembled code: the array has exactly the words of the instructions; at the
  address of instruction \<open>k\<close> stand its opcode and then as many arguments as the opcode takes,
  unchanged, except that a code address is an instruction in the list and has become the address
  that instruction has in the array. So every branch and handler address is an instruction start.\<close>

theorem link_layout:
  assumes "link code = Some ws" and "k < length code"
  shows "length ws = code_words code
    \<and> address_of code k + length (ins_args (code ! k)) < length ws
    \<and> ws ! address_of code k = ins_op (code ! k)
    \<and> length (ins_args (code ! k)) = info_args (getOpcodeInfo (ins_op (code ! k)))
    \<and> (\<forall>j < length (ins_args (code ! k)).
        (let a = ins_args (code ! k) ! j; w = ws ! (address_of code k + Suc j) in
         if int j = info_address (getOpcodeInfo (ins_op (code ! k)))
         then unat a < length code \<and> w = of_nat (address_of code (unat a))
         else w = a))"
proof -
  note w = link_words [OF assms]
  note e = encode_shape [OF w(3)]
  have 1: "ws ! address_of code k = ins_op (code ! k)"
    using e(1) by (simp add: ins_size_def upt_conv_Cons del: upt_Suc)
  have "\<forall>j < length (ins_args (code ! k)).
      (let a = ins_args (code ! k) ! j; w = ws ! (address_of code k + Suc j) in
       if int j = info_address (getOpcodeInfo (ins_op (code ! k)))
       then unat a < length code \<and> w = of_nat (address_of code (unat a))
       else w = a)"
  proof (intro allI impI)
    fix j assume j: "j < length (ins_args (code ! k))"
    have "map (\<lambda>j. ws ! (address_of code k + j)) [0..<ins_size (code ! k)] ! Suc j = ws ! (address_of code k + Suc j)"
      using j by (simp add: ins_size_def del: upt_Suc)
    with e(3) [OF j] show "let a = ins_args (code ! k) ! j; w = ws ! (address_of code k + Suc j) in
       if int j = info_address (getOpcodeInfo (ins_op (code ! k)))
       then unat a < length code \<and> w = of_nat (address_of code (unat a))
       else w = a"
      by (auto simp: Let_def encode_arg_def split: if_splits)
  qed
  with 1 w(1,2) e(2) show ?thesis by blast
qed

text \<open>A two-instruction example.\<close>

definition sample_icode :: icode where
  "sample_icode = [ins OP_JMP [1], ins OP_PUSHI [5]]"

lemma link_sample: "link sample_icode = Some [opcode_num OP_JMP, 2, opcode_num OP_PUSHI, 5]"
  by (simp add: sample_icode_def link_def encode_def encode_arg_def address_of_def ins_size_def Let_def
      del: opcode_num.simps)

theorem link_layout_witness:
  "address_of sample_icode 1 + length (ins_args (sample_icode ! 1))
     < length [opcode_num OP_JMP, 2, opcode_num OP_PUSHI, 5]"
proof -
  have "1 < length sample_icode" by (simp add: sample_icode_def)
  from link_layout [OF link_sample this] show ?thesis by blast
qed

text \<open>C21: The assembler rejects code exactly when some instruction has a number of arguments that
  its opcode does not take, or a code address that is not the index of an instruction.\<close>

theorem link_rejects_iff:
  "link code = None \<longleftrightarrow>
     (\<exists>i \<in> set code. let info = getOpcodeInfo (ins_op i) in
        length (ins_args i) \<noteq> info_args info
        \<or> (info_address info \<ge> 0 \<and> nat (info_address info) < length (ins_args i)
            \<and> length code \<le> unat (ins_args i ! nat (info_address info))))"
proof -
  have n: "encode_args code ad 0 as = None \<longleftrightarrow>
      ad \<ge> 0 \<and> nat ad < length as \<and> length code \<le> unat (as ! nat ad)" for ad as
    by (auto simp: encode_args_None encode_arg_def split: if_splits intro!: exI [of _ "nat ad"])
  have "encode code i = None \<longleftrightarrow> (let info = getOpcodeInfo (ins_op i) in
        length (ins_args i) \<noteq> info_args info
        \<or> (info_address info \<ge> 0 \<and> nat (info_address info) < length (ins_args i)
            \<and> length code \<le> unat (ins_args i ! nat (info_address info))))" for i
    using n [of "info_address (getOpcodeInfo (ins_op i))" "ins_args i"]
    by (auto simp: encode_def Let_def split: bind_splits)
  then show ?thesis by (simp add: link_def map_option_list_None)
qed

theorem link_rejects_iff_witness:
  "link [ins OP_JMP [1]] = None"
  unfolding link_rejects_iff by (simp add: Let_def del: opcode_num.simps)

text \<open>A listing has one line per instruction, at its address, and reads no word it should not.\<close>

lemma opcode_num_int: "int_opcode (opcode_num c) = opcode_num c"
  by (cases c) (simp_all add: int_opcode_def to_int32_def)

lemma pieces_ok:
  assumes "pos + info_args (opcode_info c) \<le> length code"
  shows "\<exists>ps. pieces code (int pos) (info_format (opcode_info c)) = Some ps"
  using assms by (cases c) (auto simp: piece_of_def idx_def)

definition line_at :: "icode \<Rightarrow> u64 list \<Rightarrow> nat \<Rightarrow> nat \<times> string \<times> piece list" where
  "line_at code ws k =
     (let info = getOpcodeInfo (ins_op (code ! k))
      in (address_of code k, info_name info, the (pieces ws (int (Suc (address_of code k))) (info_format info))))"

lemma disassemble_lines:
  assumes "link code = Some ws" and "\<forall>i \<in> set code. \<exists>c. ins_op i = opcode_num c"
  shows "disassemble \<lparr>ac_function = f, ac_code = ws, ac_localVars = n\<rparr> = Some (map (line_at code ws) [0..<length code])"
proof -
  have succ: "address_of code (Suc k) = address_of code k + ins_size (code ! k)" if "k < length code" for k
    using that by (simp add: address_of_def take_Suc_conv_app_nth)
  have "k \<le> length code \<Longrightarrow> disassemble_from (address_of code k) ws = Some (map (line_at code ws) [k..<length code])" for k
  proof (induction "length code - k" arbitrary: k)
    case 0
    then have "k = length code" by simp
    moreover have "length ws = address_of code (length code)"
    proof (cases "code = []")
      case True
      with assms(1) show ?thesis by (simp add: address_of_def link_def)
    next
      case False
      with link_words(1) [OF assms(1), of 0] show ?thesis by (simp add: address_of_def code_words_def)
    qed
    ultimately show ?case by (subst disassemble_from.simps) simp
  next
    case (Suc m)
    then have k: "k < length code" by simp
    have "m = length code - Suc k" "Suc k \<le> length code" using Suc(2) k by simp_all
    from Suc(1) [OF this] have r: "disassemble_from (address_of code (Suc k)) ws = Some (map (line_at code ws) [Suc k..<length code])" .
    note w = link_words [OF assms(1) k]
    note e = encode_shape [OF w(3)]
    from assms(2) k obtain c where c: "ins_op (code ! k) = opcode_num c" by (meson nth_mem)
    have op: "ws ! address_of code k = opcode_num c" using e(1) c by (simp add: ins_size_def upt_conv_Cons del: upt_Suc)
    have n: "length (ins_args (code ! k)) = info_args (opcode_info c)" using e(2) c by simp
    obtain ps where ps: "pieces ws (int (Suc (address_of code k))) (info_format (opcode_info c)) = Some ps"
      using pieces_ok [of "Suc (address_of code k)" c ws] w(2) n by auto
    have "disassemble_from (address_of code k) ws
        = Some ((address_of code k, info_name (opcode_info c), ps) # map (line_at code ws) [Suc k..<length code])"
      using w(2) op ps r(1) succ [OF k] n
      by (subst disassemble_from.simps) (simp add: opcode_num_int ins_size_def)
    with k c ps show ?case by (simp add: line_at_def upt_rec [of k])
  qed
  from this [of 0] show ?thesis by (simp add: disassemble_def address_of_def)
qed

lemma disassemble_link:
  assumes "link code = Some ws" and "\<forall>i \<in> set code. \<exists>c. ins_op i = opcode_num c"
  shows "\<exists>lines. disassemble \<lparr>ac_function = f, ac_code = ws, ac_localVars = n\<rparr> = Some lines
    \<and> map (\<lambda>(pos, name, ps). (pos, name)) lines
      = map (\<lambda>k. (address_of code k, info_name (getOpcodeInfo (ins_op (code ! k))))) [0..<length code]"
  using disassemble_lines [OF assms, of f n] by (auto simp: line_at_def Let_def)

end
