(* ===== verification/Sample.thy ===== *)
theory Sample
  imports Executor
begin

text \<open>
  A small concrete machine, on which the theorems of the other theories are instantiated: an empty
  runtime, one frame running the given code, and the given operands (top first).
\<close>

definition sample_rt :: Runtime where
  "sample_rt =
     \<lparr>rt_classes = [], rt_class = Map.empty, rt_func = Map.empty, rt_native = Map.empty,
      rt_nextNative = 1, objectClass = 0, stringClass = 0, exceptionClass = 0, arrayClass = 0,
      arrayDataClass = 0, rt_stringTable = Map.empty, rt_heap = Map.empty, arena_start = 4096,
      arena_size = 1024, freeList = [], newObjects = 0, newBytes = 0, currentObjects = 0,
      currentBytes = 0, collectedObjects = 0, arenaTotal = 1024, gcEnabled = True, gcLastAlloc = 0,
      gcTime = 0, rt_clock = (\<lambda>n. of_nat n), rt_ticks = 0, rt_output = []\<rparr>"

definition sample_frame :: "u64 list \<Rightarrow> Value list \<Rightarrow> Frame" where
  "sample_frame code locals =
     \<lparr>fr_code = \<lparr>ac_function = 0, ac_code = code, ac_localVars = int (length locals)\<rparr>,
      fr_running = True, fr_pc = 0, fr_zero = False, fr_sign = False, fr_overflow = False,
      fr_localVars = locals, handlerStack = []\<rparr>"

definition sample_ctx :: "Value list \<Rightarrow> Context" where
  "sample_ctx vs =
     \<lparr>stackPos = int (length vs), stackSize = 16, stack = rev vs @ replicate 8 zero_value,
      has_exception = False, exceptionValue = zero_value\<rparr>"

definition sample_vm :: "Value list \<Rightarrow> u64 list \<Rightarrow> Value list \<Rightarrow> vm" where
  "sample_vm vs code locals =
     \<lparr>ctx = sample_ctx vs, cur = sample_frame code locals, callers = [sample_frame [] []],
      rt = sample_rt, otherContexts = [], registered = True, asm_code = []\<rparr>"

definition sample_env :: env where
  "sample_env =
     \<lparr>ev_call = (\<lambda>f inst n s. None), ev_assemble = (\<lambda>f s. None), ev_stack = 100, ev_steps = 100,
      ev_random = (\<lambda>n a b. 0)\<rparr>"

lemma sample_vm_sels [simp]:
  "vm_ok (sample_vm vs code ls)" "opstack (sample_vm vs code ls) = vs" "vm_room (sample_vm vs code ls) = 8"
  "cur (sample_vm vs code ls) = sample_frame code ls" "rt (sample_vm vs code ls) = sample_rt"
  "frame_ptr (sample_vm vs code ls) = 1"
  by (simp_all add: sample_vm_def sample_ctx_def vm_ok_def ctx_ok_def opstack_def operands_def vm_room_def
      ctx_room_def frame_ptr_def)

end
