(* ===== verification/Control.thy ===== *)
theory Control
  imports Sample
begin

text \<open>
  Facts about calls, returns and exceptions: the argument passing of \<open>Executor::run\<close>, the check
  \<open>RETURN\<close> makes, and what \<open>handleException\<close> does with and without a handler.
\<close>

section \<open>The state an operation leaves alone\<close>

lemma vm_restD:
  assumes "vm_rest t = vm_rest s"
  shows "cur t = cur s" and "callers t = callers s" and "rt t = rt s"
    and "has_exception (ctx t) = has_exception (ctx s)" and "exceptionValue (ctx t) = exceptionValue (ctx s)"
    and "frame_ptr t = frame_ptr s"
proof -
  from assms have v: "s\<lparr>ctx := (ctx s)\<lparr>stack := [], stackPos := 0\<rparr>\<rparr> = t\<lparr>ctx := (ctx t)\<lparr>stack := [], stackPos := 0\<rparr>\<rparr>"
    by (simp add: vm_rest_def ctx_rest_def)
  show "cur t = cur s" "callers t = callers s" "rt t = rt s"
    and "has_exception (ctx t) = has_exception (ctx s)" "exceptionValue (ctx t) = exceptionValue (ctx s)"
    using arg_cong [OF v, of cur] arg_cong [OF v, of callers] arg_cong [OF v, of rt]
      arg_cong [OF v, of "\<lambda>v. has_exception (ctx v)"] arg_cong [OF v, of "\<lambda>v. exceptionValue (ctx v)"]
    by simp_all
  then show "frame_ptr t = frame_ptr s" by (simp add: frame_ptr_def)
qed

lemma vm_rest_cur: "vm_rest t = vm_rest s \<Longrightarrow> vm_rest (t\<lparr>cur := f\<rparr>) = vm_rest (s\<lparr>cur := f\<rparr>)"
  by (cases s, cases t) (auto simp: vm_rest_def ctx_rest_def)

lemma opstack_cur [simp]:
  "opstack (s\<lparr>cur := f\<rparr>) = opstack s" "vm_ok (s\<lparr>cur := f\<rparr>) = vm_ok s" "vm_room (s\<lparr>cur := f\<rparr>) = vm_room s"
  "opstack (s\<lparr>callers := fs\<rparr>) = opstack s" "vm_ok (s\<lparr>callers := fs\<rparr>) = vm_ok s"
  "vm_room (s\<lparr>callers := fs\<rparr>) = vm_room s"
  "opstack (s\<lparr>rt := r\<rparr>) = opstack s" "vm_ok (s\<lparr>rt := r\<rparr>) = vm_ok s" "vm_room (s\<lparr>rt := r\<rparr>) = vm_room s"
  by (simp_all add: opstack_def vm_ok_def vm_room_def)

lemma opstack_clear [simp]:
  "opstack (s\<lparr>ctx := clearException (ctx s)\<rparr>) = opstack s"
  "vm_ok (s\<lparr>ctx := clearException (ctx s)\<rparr>) = vm_ok s"
  by (simp_all add: opstack_def vm_ok_def ctx_ok_def operands_def clearException_def)

section \<open>Leaving a function\<close>

lemma opcodeReturn_effect:
  assumes ok: "vm_ok s" and st: "opstack s = r # f # vs"
    and f: "v_type f = VALUE_FRAME" "v_bits f = frame_ptr s"
  shows "\<exists>t. opcodeReturn s = Some (True, t) \<and> opstack t = r # vs \<and> \<not> fr_running (cur t)
    \<and> vm_ok t \<and> vm_rest t = vm_rest (s\<lparr>cur := cur t\<rparr>)"
proof -
  from ms.pop_law [OF ok st] obtain t where t: "pop s = Some (r, t)" "vm_ok t" "opstack t = f # vs"
    "vm_room t = vm_room s + 1" "vm_rest t = vm_rest s" by blast
  from ms.pop_law [OF t(2,3)] obtain u where u: "pop t = Some (f, u)" "vm_ok u" "opstack u = vs"
    "vm_room u = vm_room t + 1" "vm_rest u = vm_rest t" by blast
  from ms.room_nonneg [OF ok] t(4) u(4) have "0 < vm_room u" by simp
  from ms.push_law [OF u(2) this, of r] obtain w where w: "push r u = Some w" "vm_ok w" "opstack w = r # opstack u"
    "vm_rest w = vm_rest u" by blast
  have "frame_ptr u = frame_ptr s" using u(5) t(5) by (intro vm_restD) simp
  moreover have "vm_rest (w\<lparr>cur := x\<rparr>) = vm_rest (s\<lparr>cur := x\<rparr>)" for x
    by (rule vm_rest_cur) (simp add: w(4) u(5) t(5))
  ultimately show ?thesis
    using t(1) u(1,3) w f by (simp add: opcodeReturn_def)
qed

lemma opcodeReturn_rejects:
  assumes ok: "vm_ok s" and st: "opstack s = r # f # vs"
    and f: "v_type f \<noteq> VALUE_FRAME \<or> v_bits f \<noteq> frame_ptr s"
  shows "\<exists>t. opcodeReturn s = Some (False, t) \<and> opstack t = vs"
proof -
  from ms.pop_law [OF ok st] obtain t where t: "pop s = Some (r, t)" "vm_ok t" "opstack t = f # vs"
    "vm_rest t = vm_rest s" by blast
  from ms.pop_law [OF t(2,3)] obtain u where u: "pop t = Some (f, u)" "opstack u = vs" "vm_rest u = vm_rest t"
    by blast
  have "frame_ptr u = frame_ptr s" using u(3) t(4) by (intro vm_restD) simp
  with t u f show ?thesis by (auto simp: opcodeReturn_def)
qed

section \<open>Unwinding\<close>

lemma pop_to_frame_effect:
  assumes "vm_ok s" and "opstack s = xs @ f # rest" and "\<forall>x \<in> set xs. v_type x \<noteq> VALUE_FRAME"
    and "v_type f = VALUE_FRAME" and "length xs < n"
  shows "\<exists>t. pop_to_frame n s = Some t \<and> vm_ok t \<and> opstack t = rest \<and> vm_rest t = vm_rest s"
  using assms
proof (induction xs arbitrary: s n)
  case Nil
  then obtain m where n: "n = Suc m" by (cases n) auto
  from Nil have "opstack s = f # rest" by simp
  from ms.pop_law [OF Nil(1) this] Nil(4) show ?case by (auto simp: n)
next
  case (Cons x xs)
  then obtain m where n: "n = Suc m" by (cases n) auto
  from Cons.prems have "opstack s = x # (xs @ f # rest)" by simp
  from ms.pop_law [OF Cons.prems(1) this] obtain t where t: "pop s = Some (x, t)" "vm_ok t"
    "opstack t = xs @ f # rest" "vm_rest t = vm_rest s" by blast
  from Cons.IH [OF t(2,3), of m] Cons.prems n obtain u where "pop_to_frame m t = Some u" "vm_ok u"
    "opstack u = rest" "vm_rest u = vm_rest t" by auto
  with t n Cons.prems show ?case by auto
qed

lemma opstack_length: "vm_ok s \<Longrightarrow> length (opstack s) = nat (stackPos (ctx s))"
  by (simp add: vm_ok_def ctx_ok_def opstack_def operands_def) linarith

section \<open>Arguments\<close>

lemma drop_Suc_nth_upd: "n < length l \<Longrightarrow> drop n (l[n := a]) = a # drop (Suc n) l"
  by (metis Cons_nth_drop_Suc drop_update_cancel length_list_update lessI nth_list_update_eq)

lemma store_args_effect:
  assumes "vm_ok s" and "opstack s = rev args @ vs" and "length args = n" and "n < length (fr_localVars (cur s))"
  shows "\<exists>t. store_args n s = Some t \<and> vm_ok t \<and> opstack t = vs \<and>
    fr_localVars (cur t) = take 1 (fr_localVars (cur s)) @ args @ drop (Suc n) (fr_localVars (cur s)) \<and>
    vm_rest t = vm_rest (s\<lparr>cur := cur t\<rparr>) \<and> cur t = (cur s)\<lparr>fr_localVars := fr_localVars (cur t)\<rparr>"
  using assms
proof (induction n arbitrary: s args)
  case 0
  then have "fr_localVars (cur s) \<noteq> []" by auto
  with 0 show ?case by (auto simp: neq_Nil_conv)
next
  case (Suc n)
  then obtain as a where args: "args = as @ [a]" by (metis length_0_conv nat.distinct(1) rev_exhaust)
  with Suc.prems have "opstack s = a # (rev as @ vs)" by simp
  from ms.pop_law [OF Suc.prems(1) this] obtain t where t: "pop s = Some (a, t)" "vm_ok t" "opstack t = rev as @ vs"
    "vm_rest t = vm_rest s" by blast
  note r = vm_restD [OF t(4)]
  let ?l = "fr_localVars (cur s)"
  let ?u = "t\<lparr>cur := (cur t)\<lparr>fr_localVars := ?l[Suc n := a]\<rparr>\<rparr>"
  have sl: "setLocal (int (Suc n)) a t = Some ?u"
    using Suc.prems(4) r unfolding setLocal_def upd_nat by simp
  from Suc.IH [of ?u as] t(2,3) args Suc.prems(3,4) obtain w where w: "store_args n ?u = Some w" "vm_ok w"
    "opstack w = vs" "fr_localVars (cur w) = take 1 (?l[Suc n := a]) @ as @ drop (Suc n) (?l[Suc n := a])"
    "vm_rest w = vm_rest (?u\<lparr>cur := cur w\<rparr>)" "cur w = (cur ?u)\<lparr>fr_localVars := fr_localVars (cur w)\<rparr>" by auto
  have "drop (Suc n) (?l[Suc n := a]) = a # drop (Suc (Suc n)) ?l"
    using Suc.prems(4) by (simp add: drop_Suc_nth_upd)
  moreover have "take 1 (?l[Suc n := a]) = take 1 ?l" by (simp add: take_update_cancel)
  moreover have "vm_rest (?u\<lparr>cur := cur w\<rparr>) = vm_rest (s\<lparr>cur := cur w\<rparr>)"
    using vm_rest_cur [OF t(4), of "cur w"] by simp
  moreover have "cur w = (cur s)\<lparr>fr_localVars := fr_localVars (cur w)\<rparr>" using w(6) r(1) by simp
  ultimately show ?case using t(1) sl w r args by simp
qed

section \<open>Handlers\<close>

lemma upd_uint: "upd xs (uint (w :: u64)) v = (if unat w < length xs then Some (xs[unat w := v]) else None)"
  using upd_nat [of xs "unat w" v] by simp

lemma handler_effect:
  assumes "handlerStack (cur s) = h # hs" and "unat (excepVar h) < length (fr_localVars (cur s))"
  shows "\<exists>t. handleException s = Some (True, t) \<and> opstack t = opstack s \<and> vm_ok t = vm_ok s
    \<and> vm_room t = vm_room s \<and> frame_ptr t = frame_ptr s
    \<and> fr_pc (cur t) = to_int32 (handlerPC h) \<and> handlerStack (cur t) = hs \<and> \<not> has_exception (ctx t)
    \<and> fr_localVars (cur t) = (fr_localVars (cur s))[unat (excepVar h) := exceptionValue (ctx s)]
    \<and> fr_running (cur t) = fr_running (cur s)"
  using assms
  by (simp add: upd_uint handleException_def setLocal_def clearException_def opstack_def vm_ok_def vm_room_def
      operands_def ctx_ok_def ctx_room_def frame_ptr_def)

section \<open>Properties\<close>

text \<open>C27: what \<open>RETURN\<close> checks and does. With the frame entry of the running function right below
  the result it replaces both by the result and stops the frame; with anything else there it
  reports failure.\<close>

theorem opcodeReturn_checks_frame:
  assumes "vm_ok s" and "opstack s = r # f # vs"
  shows "\<exists>b t. opcodeReturn s = Some (b, t) \<and> b = (v_type f = VALUE_FRAME \<and> v_bits f = frame_ptr s) \<and>
    opstack t = (if b then r # vs else vs)"
  using opcodeReturn_effect [OF assms] opcodeReturn_rejects [OF assms] by (cases "v_type f = VALUE_FRAME \<and> v_bits f = frame_ptr s") auto

definition sample_mark :: Value where
  "sample_mark = \<lparr>v_type = VALUE_FRAME, v_bits = 1\<rparr>"

lemma opcodeReturn_checks_frame_witness:
  "\<exists>t. opcodeReturn (sample_vm [mk_int 9, sample_mark, mk_int 4] [] []) = Some (True, t) \<and> opstack t = [mk_int 9, mk_int 4]"
  using opcodeReturn_checks_frame [of "sample_vm [mk_int 9, sample_mark, mk_int 4] [] []" "mk_int 9" sample_mark "[mk_int 4]"]
  by (auto simp: sample_mark_def)

text \<open>C28: an exception nobody in the function handles leaves the function with the operand stack cut
  exactly down to what lay below the function's frame entry: nothing is pushed, the exception stays
  pending for the caller, and the frame stops.\<close>

theorem uncaught_exception_unwinds:
  assumes "vm_ok s" and "handlerStack (cur s) = []" and "opstack s = xs @ f # rest"
    and "\<forall>x \<in> set xs. v_type x \<noteq> VALUE_FRAME" and "v_type f = VALUE_FRAME"
  shows "\<exists>t. handleException s = Some (True, t) \<and> opstack t = rest \<and> \<not> fr_running (cur t) \<and>
    has_exception (ctx t) = has_exception (ctx s) \<and> exceptionValue (ctx t) = exceptionValue (ctx s)"
proof -
  have "length xs < nat (stackPos (ctx s))" using opstack_length [OF assms(1)] assms(3) by simp
  with pop_to_frame_effect [of "stop_running s" xs f rest "nat (stackPos (ctx s))"] assms
  obtain t where t: "pop_to_frame (nat (stackPos (ctx s))) (stop_running s) = Some t" "opstack t = rest"
    "vm_rest t = vm_rest (stop_running s)" by (auto simp: stop_running_def)
  with vm_restD [OF t(3)] assms(2) show ?thesis by (simp add: handleException_def stop_running_def)
qed

lemma uncaught_exception_unwinds_witness:
  "\<exists>t. handleException (sample_vm [mk_int 1, mk_int 2, sample_mark, mk_int 3] [] []) = Some (True, t) \<and> opstack t = [mk_int 3]"
  using uncaught_exception_unwinds [of "sample_vm [mk_int 1, mk_int 2, sample_mark, mk_int 3] [] []"
      "[mk_int 1, mk_int 2]" sample_mark "[mk_int 3]"]
  by (auto simp: sample_mark_def sample_frame_def)

text \<open>C29: a caught exception leaves the operands of the interrupted expression on the stack. Entering
  a handler does not unwind the operand stack, so if the exception was thrown with an operand
  pending, a later \<open>return\<close> from the handler's code finds that operand where the frame entry
  should be and fails.\<close>

theorem caught_exception_breaks_return:
  assumes "vm_ok s" and "handlerStack (cur s) = h # hs" and "unat (excepVar h) < length (fr_localVars (cur s))"
    and "opstack s = x # vs" and "v_type x \<noteq> VALUE_FRAME" and "0 < vm_room s"
  shows "\<exists>t u w. handleException s = Some (True, t) \<and> opstack t = x # vs \<and>
    push r t = Some u \<and> opcodeReturn u = Some (False, w)"
proof -
  from handler_effect [OF assms(2,3)] obtain t where t: "handleException s = Some (True, t)"
    "opstack t = x # vs" "vm_ok t" "0 < vm_room t" using assms by auto
  from ms.push_law [OF t(3,4), of r] obtain u where u: "push r t = Some u" "vm_ok u" "opstack u = r # x # vs"
    using t(2) by auto
  from opcodeReturn_rejects [OF u(2,3)] assms(5) t u show ?thesis by blast
qed

lemma caught_exception_breaks_return_witness:
  "let s = sample_vm [mk_int 5, sample_mark] [] [zero_value, zero_value];
       s' = s\<lparr>cur := (cur s)\<lparr>handlerStack := [\<lparr>excepVar = 1, handlerPC = 0\<rparr>]\<rparr>\<rparr>
   in \<exists>t u w. handleException s' = Some (True, t) \<and> push (mk_int 0) t = Some u \<and> opcodeReturn u = Some (False, w)"
proof -
  let ?s = "sample_vm [mk_int 5, sample_mark] [] [zero_value, zero_value]"
  let ?s' = "?s\<lparr>cur := (cur ?s)\<lparr>handlerStack := [\<lparr>excepVar = 1, handlerPC = 0\<rparr>]\<rparr>\<rparr>"
  have "\<exists>t u w. handleException ?s' = Some (True, t) \<and> opstack t = mk_int 5 # [sample_mark] \<and>
      push (mk_int 0) t = Some u \<and> opcodeReturn u = Some (False, w)"
    by (rule caught_exception_breaks_return [where h = "\<lparr>excepVar = 1, handlerPC = 0\<rparr>" and hs = "[]"])
       (simp_all add: sample_frame_def)
  then show ?thesis by (auto simp: Let_def)
qed

text \<open>C26: argument passing. \<open>run\<close> takes exactly its arguments off the stack and stores the \<open>i\<close>-th
  one, in the order they were pushed, in local variable \<open>i\<close>, leaving variable 0 and those after the
  arguments alone.\<close>

theorem store_args_correct:
  assumes "vm_ok s" and "opstack s = rev args @ vs" and "length args < length (fr_localVars (cur s))"
  shows "\<exists>t. store_args (length args) s = Some t \<and> opstack t = vs \<and>
    fr_localVars (cur t) = take 1 (fr_localVars (cur s)) @ args @ drop (Suc (length args)) (fr_localVars (cur s))"
  using store_args_effect [OF assms(1,2) refl assms(3)] by blast

lemma store_args_correct_witness:
  "\<exists>t. store_args 2 (sample_vm [mk_int 20, mk_int 10, mk_int 7] [] [zero_value, zero_value, zero_value, zero_value]) = Some t
    \<and> opstack t = [mk_int 7] \<and> fr_localVars (cur t) = [zero_value, mk_int 10, mk_int 20, zero_value]"
  using store_args_correct [of "sample_vm [mk_int 20, mk_int 10, mk_int 7] [] [zero_value, zero_value, zero_value, zero_value]"
      "[mk_int 10, mk_int 20]" "[mk_int 7]"]
  by (simp add: sample_frame_def numeral_2_eq_2)

end
