(* ===== verification/Arithmetic.thy ===== *)
theory Arithmetic
  imports Sample
begin

text \<open>
  Facts about the arithmetic and comparison instructions: what they leave on the operand stack,
  that the typed variants agree with the generic ones on operands of the right type, and what the
  flags mean.
\<close>

section \<open>Shapes\<close>

lemma popInt_pop: "popInt s = map_option (\<lambda>(v, t). (v_bits v, t)) (pop s)"
  by (auto simp: popInt_def split: option.splits prod.splits bind_splits)

lemma pushInt_push: "pushInt i s = push (mk_int i) s"
  by (simp add: pushInt_def push_def ctx_pushInt_def)

lemma pushDouble_push: "pushDouble i s = push (mk_double i) s"
  by (simp add: pushDouble_def push_def ctx_pushDouble_def)

lemma int_handler_effect:
  assumes ok: "vm_ok s" and st: "opstack s = a # b # vs" and r: "iop (v_bits a) (v_bits b) = Some r"
  shows "\<exists>t. int_handler iop s = Some (True, t) \<and> vm_ok t \<and> opstack t = mk_int r # vs
    \<and> vm_room t = vm_room s + 1 \<and> vm_rest t = vm_rest s"
proof -
  from ms.pop_law [OF ok st] obtain t where t: "pop s = Some (a, t)" "vm_ok t" "opstack t = b # vs"
    "vm_room t = vm_room s + 1" "vm_rest t = vm_rest s" by blast
  from ms.pop_law [OF t(2,3)] obtain u where u: "pop t = Some (b, u)" "vm_ok u" "opstack u = vs"
    "vm_room u = vm_room t + 1" "vm_rest u = vm_rest t" by blast
  from ms.room_nonneg [OF ok] t(4) u(4) have "0 < vm_room u" by simp
  from ms.push_law [OF u(2) this, of "mk_int r"] t u r show ?thesis
    by (auto simp: int_handler_def popInt_def pushInt_push)
qed

lemma double_handler_effect:
  assumes ok: "vm_ok s" and st: "opstack s = a # b # vs"
  shows "\<exists>t. double_handler dop s = Some (True, t) \<and> vm_ok t
    \<and> opstack t = mk_double (dop (v_bits a) (v_bits b)) # vs \<and> vm_room t = vm_room s + 1 \<and> vm_rest t = vm_rest s"
proof -
  from ms.pop_law [OF ok st] obtain t where t: "pop s = Some (a, t)" "vm_ok t" "opstack t = b # vs"
    "vm_room t = vm_room s + 1" "vm_rest t = vm_rest s" by blast
  from ms.pop_law [OF t(2,3)] obtain u where u: "pop t = Some (b, u)" "vm_ok u" "opstack u = vs"
    "vm_room u = vm_room t + 1" "vm_rest u = vm_rest t" by blast
  from ms.room_nonneg [OF ok] t(4) u(4) have "0 < vm_room u" by simp
  from ms.push_law [OF u(2) this, of "mk_double (dop (v_bits a) (v_bits b))"] t u show ?thesis
    by (auto simp: double_handler_def popDouble_def pushDouble_push)
qed

section \<open>Typed against generic\<close>

text \<open>
  The interface between the generic and the typed instructions: what the assembler and the
  optimiser rely on when they add 0x10 or 0x20 to an arithmetic opcode.
\<close>

locale typed_arith =
  fixes generic :: "env \<Rightarrow> vm \<Rightarrow> (bool \<times> vm) option"
    and name :: string
    and dop :: "u64 \<Rightarrow> u64 \<Rightarrow> u64"
    and iop :: "u64 \<Rightarrow> u64 \<Rightarrow> u64 option"
    and int_op :: "vm \<Rightarrow> (bool \<times> vm) option"
    and double_op :: "vm \<Rightarrow> (bool \<times> vm) option"
  assumes generic_is: "generic e s = arith_handler e name dop iop s"
    and int_is: "int_op s = int_handler iop s"
    and double_is: "double_op s = double_handler dop s"
begin

lemma int_agrees:
  assumes ok: "vm_ok s" and st: "opstack s = a # b # vs"
    and ty: "v_type a = VALUE_INTEGER" "v_type b = VALUE_INTEGER"
  shows "generic e s = int_op s"
proof -
  from ms.pop_law [OF ok st] obtain t where t: "pop s = Some (a, t)" "vm_ok t" "opstack t = b # vs" by blast
  from ms.pop_law [OF t(2,3)] obtain u where u: "pop t = Some (b, u)" by blast
  from t u ty show ?thesis
    by (cases "iop (v_bits a) (v_bits b)")
       (simp_all add: generic_is int_is arith_handler_def int_handler_def popInt_def pushInt_push arith_def)
qed

lemma double_agrees:
  assumes ok: "vm_ok s" and st: "opstack s = a # b # vs"
    and ty: "v_type a = VALUE_DOUBLE" "v_type b = VALUE_DOUBLE"
  shows "generic e s = double_op s"
proof -
  from ms.pop_law [OF ok st] obtain t where t: "pop s = Some (a, t)" "vm_ok t" "opstack t = b # vs" by blast
  from ms.pop_law [OF t(2,3)] obtain u where u: "pop t = Some (b, u)" by blast
  from t u ty show ?thesis
    by (simp add: generic_is double_is arith_handler_def double_handler_def popDouble_def pushDouble_push
        arith_def DOUBLE_VALUE_def)
qed

text \<open>With two integers and a defined result: the exact effect.\<close>

lemma int_effect:
  assumes ok: "vm_ok s" and st: "opstack s = a # b # vs"
    and ty: "v_type a = VALUE_INTEGER" "v_type b = VALUE_INTEGER" and r: "iop (v_bits a) (v_bits b) = Some r"
  shows "\<exists>t. generic e s = Some (True, t) \<and> vm_ok t \<and> opstack t = mk_int r # vs
    \<and> vm_room t = vm_room s + 1 \<and> vm_rest t = vm_rest s"
proof -
  have "iop (v_bits a) (v_bits b) = Some r" by (rule r)
  from int_handler_effect [of s a b vs iop r, OF ok st this] int_agrees [OF ok st ty] int_is
  show ?thesis by simp
qed

end

interpretation add: typed_arith opcodeAdd "''operator+''" d_add "\<lambda>a b. Some (a + b)" opcodeAddI opcodeAddD
  by unfold_locales (simp_all add: opcodeAdd_def opcodeAddI_def opcodeAddD_def)

interpretation sub: typed_arith opcodeSub "''operator-''" d_sub "\<lambda>a b. Some (a - b)" opcodeSubI opcodeSubD
  by unfold_locales (simp_all add: opcodeSub_def opcodeSubI_def opcodeSubD_def)

interpretation mul: typed_arith opcodeMul "''operator*''" d_mul "\<lambda>a b. Some (a * b)" opcodeMulI opcodeMulD
  by unfold_locales (simp_all add: opcodeMul_def opcodeMulI_def opcodeMulD_def)

interpretation dvd: typed_arith opcodeDiv "''operator/''" d_div int_div opcodeDivI opcodeDivD
  by unfold_locales (simp_all add: opcodeDiv_def opcodeDivI_def opcodeDivD_def)

section \<open>Division\<close>

lemma c_div_trunc:
  assumes "b \<noteq> 0"
  shows "\<bar>c_div a b * b\<bar> \<le> \<bar>a\<bar> \<and> \<bar>a - c_div a b * b\<bar> < \<bar>b\<bar> \<and> (c_div a b \<noteq> 0 \<longrightarrow> sgn (c_div a b) = sgn a * sgn b)"
proof -
  obtain q m where q: "\<bar>a\<bar> div \<bar>b\<bar> = q" and m: "\<bar>a\<bar> mod \<bar>b\<bar> = m" by blast
  from assms have b: "0 < \<bar>b\<bar>" by simp
  have "\<bar>a\<bar> div \<bar>b\<bar> * \<bar>b\<bar> + \<bar>a\<bar> mod \<bar>b\<bar> = \<bar>a\<bar>" by (rule div_mult_mod_eq)
  then have e: "q * \<bar>b\<bar> + m = \<bar>a\<bar>" by (simp only: q m)
  have r: "0 \<le> m" "m < \<bar>b\<bar>" "0 \<le> q" using b by (simp_all add: m [symmetric] q [symmetric] pos_imp_zdiv_nonneg_iff)
  have z: "a = 0 \<Longrightarrow> q = 0" by (simp add: q [symmetric])
  obtain x where x: "x = q * \<bar>b\<bar>" by blast
  have "c_div a b * b = (if a < 0 then - x else x)" unfolding c_div_def q x by (auto simp: abs_if)
  moreover have "0 \<le> x" unfolding x using r by simp
  ultimately have "\<bar>c_div a b * b\<bar> \<le> \<bar>a\<bar> \<and> \<bar>a - c_div a b * b\<bar> < \<bar>b\<bar>" using e [folded x] r by auto
  moreover have "c_div a b \<noteq> 0 \<longrightarrow> sgn (c_div a b) = sgn a * sgn b"
    unfolding c_div_def q using r(3) z assms by (auto simp: sgn_if)
  ultimately show ?thesis by simp
qed

section \<open>Flags\<close>

lemma vm_rest_set_flags: "opstack (set_flags z sg s) = opstack s" "vm_ok (set_flags z sg s) = vm_ok s"
  "vm_room (set_flags z sg s) = vm_room s" "cur (set_flags z sg s) = (cur s)\<lparr>fr_zero := z, fr_sign := sg, fr_overflow := \<not> z \<or> sg\<rparr>"
  by (simp_all add: set_flags_def opstack_def vm_ok_def vm_room_def)

text \<open>The flags a comparison sets: never zero and sign together.\<close>

definition flags_ok :: "Frame \<Rightarrow> bool" where
  "flags_ok f \<longleftrightarrow> \<not> (fr_zero f \<and> fr_sign f) \<and> fr_overflow f = (\<not> fr_zero f \<or> fr_sign f)"

lemma flags_ok_CMP_INTEGER: "flags_ok (cur (CMP_INTEGER a b s))"
  by (auto simp: flags_ok_def CMP_INTEGER_def Let_def set_flags_def)

lemma flags_ok_cmp_doubles: "flags_ok (cur (cmp_doubles a b s))"
  by (auto simp: flags_ok_def cmp_doubles_def Let_def set_flags_def)

lemmas cond_defs = cond_E_def cond_NE_def cond_L_def cond_LE_def cond_G_def cond_GE_def

text \<open>Meaning of the conditions on such flags: the sign flag is "right below left".\<close>

lemma flags_ok_conds:
  assumes "flags_ok f"
  shows "cond_L f \<longleftrightarrow> \<not> fr_zero f \<and> \<not> fr_sign f" and "cond_LE f \<longleftrightarrow> \<not> fr_sign f"
    and "cond_G f \<longleftrightarrow> fr_sign f" and "cond_GE f \<longleftrightarrow> fr_zero f \<or> fr_sign f"
  using assms by (auto simp: flags_ok_def cond_defs)

lemma cmp_int_flags:
  "fr_zero (cur (CMP_INTEGER a b s)) \<longleftrightarrow> v_bits b = v_bits a"
  "fr_sign (cur (CMP_INTEGER a b s)) \<longleftrightarrow> sint (v_bits b - v_bits a) < 0"
  by (auto simp: CMP_INTEGER_def Let_def set_flags_def)

lemma sint_diff_in_range:
  assumes "- (2 ^ 63) \<le> sint (b :: u64) - sint a" and "sint b - sint a < 2 ^ 63"
  shows "sint (b - a) = sint b - sint a"
proof -
  have "b - a = word_of_int (sint b - sint a)" by simp
  with assms show ?thesis by (metis sint_of_int64_small)
qed

lemma opcodeCmpI_effect:
  assumes ok: "vm_ok s" and st: "opstack s = a # b # vs"
  shows "\<exists>t. opcodeCmpI s = Some (True, CMP_INTEGER a b t) \<and> vm_ok t \<and> opstack t = vs
    \<and> vm_room t = vm_room s + 2 \<and> vm_rest t = vm_rest s"
proof -
  from ms.pop_law [OF ok st] obtain t where t: "pop s = Some (a, t)" "vm_ok t" "opstack t = b # vs"
    "vm_room t = vm_room s + 1" "vm_rest t = vm_rest s" by blast
  from ms.pop_law [OF t(2,3)] obtain u where u: "pop t = Some (b, u)" "vm_ok u" "opstack u = vs"
    "vm_room u = vm_room t + 1" "vm_rest u = vm_rest t" by blast
  from t u show ?thesis by (auto simp: opcodeCmpI_def intro!: exI [of _ u])
qed

lemma push_cond_effect:
  assumes "vm_ok s" and "0 < vm_room s"
  shows "\<exists>t. push_cond c s = Some (True, t) \<and> opstack t = mk_int (if c (cur s) then 1 else 0) # opstack s"
  using ms.push_law [OF assms, of "mk_int (if c (cur s) then 1 else 0)"] by (auto simp: push_cond_def)

text \<open>A comparison followed by one of the \<open>PUSHC\<close> instructions, as the assembler emits them.\<close>

definition compare_push :: "(vm \<Rightarrow> (bool \<times> vm) option) \<Rightarrow> (vm \<Rightarrow> (bool \<times> vm) option) \<Rightarrow> vm \<Rightarrow> Value list option" where
  "compare_push cmp pc s = do {
     (_, t) \<leftarrow> cmp s;
     (_, u) \<leftarrow> pc t;
     Some (opstack u) }"

lemma compare_push_effect:
  assumes ok: "vm_ok s" and st: "opstack s = a # b # vs"
  shows "\<exists>f. compare_push opcodeCmpI (push_cond c) s = Some (mk_int (if c f then 1 else 0) # vs)
    \<and> flags_ok f \<and> fr_zero f = (v_bits b = v_bits a) \<and> fr_sign f = (sint (v_bits b - v_bits a) < 0)"
proof -
  from opcodeCmpI_effect [OF assms] obtain t where t: "opcodeCmpI s = Some (True, CMP_INTEGER a b t)"
    "vm_ok t" "opstack t = vs" "vm_room t = vm_room s + 2" by blast
  let ?u = "CMP_INTEGER a b t"
  have u: "vm_ok ?u" "opstack ?u = vs" "0 < vm_room ?u"
    using t ms.room_nonneg [OF ok] by (simp_all add: CMP_INTEGER_def Let_def vm_rest_set_flags)
  from push_cond_effect [OF u(1,3), of c] u(2) t(1) show ?thesis
    by (auto simp: compare_push_def flags_ok_CMP_INTEGER cmp_int_flags intro!: exI [of _ "cur ?u"])
qed

section \<open>Properties\<close>

text \<open>C22: the typed integer instructions are refinements of the generic ones. On two integer
  operands \<open>ADDI\<close>, \<open>SUBI\<close>, \<open>MULI\<close> and \<open>DIVI\<close> do exactly what \<open>ADD\<close>, \<open>SUB\<close>, \<open>MUL\<close> and \<open>DIV\<close> do,
  the undefined divisions included: replacing one by the other, as the optimiser does, is sound
  there.\<close>

theorem int_opcodes_agree:
  assumes "vm_ok s" and "opstack s = a # b # vs"
    and "v_type a = VALUE_INTEGER" and "v_type b = VALUE_INTEGER"
  shows "opcodeAdd e s = opcodeAddI s \<and> opcodeSub e s = opcodeSubI s \<and>
    opcodeMul e s = opcodeMulI s \<and> opcodeDiv e s = opcodeDivI s"
  using add.int_agrees [OF assms] sub.int_agrees [OF assms] mul.int_agrees [OF assms]
    dvd.int_agrees [OF assms] by simp

lemma int_opcodes_agree_witness:
  "opcodeSub sample_env (sample_vm [mk_int 7, mk_int 2] [] []) = opcodeSubI (sample_vm [mk_int 7, mk_int 2] [] [])"
  using int_opcodes_agree [of "sample_vm [mk_int 7, mk_int 2] [] []" "mk_int 7" "mk_int 2" "[]" sample_env] by simp

text \<open>C23: the same for the double instructions on two doubles.\<close>

theorem double_opcodes_agree:
  assumes "vm_ok s" and "opstack s = a # b # vs"
    and "v_type a = VALUE_DOUBLE" and "v_type b = VALUE_DOUBLE"
  shows "opcodeAdd e s = opcodeAddD s \<and> opcodeSub e s = opcodeSubD s \<and>
    opcodeMul e s = opcodeMulD s \<and> opcodeDiv e s = opcodeDivD s"
  using add.double_agrees [OF assms] sub.double_agrees [OF assms] mul.double_agrees [OF assms]
    dvd.double_agrees [OF assms] by simp

lemma double_opcodes_agree_witness:
  "opcodeMul sample_env (sample_vm [mk_double 7, mk_double 2] [] []) = opcodeMulD (sample_vm [mk_double 7, mk_double 2] [] [])"
  using double_opcodes_agree [of "sample_vm [mk_double 7, mk_double 2] [] []" "mk_double 7" "mk_double 2" "[]" sample_env]
  by simp

text \<open>C24: integer subtraction and division by their operands. The instruction takes the top as the
  left operand, wraps at 64 bits, leaves one integer, and touches nothing but the stack; division
  truncates towards zero, and has no result for a zero divisor or an overflowing quotient.\<close>

theorem opcodeDiv_int:
  assumes "vm_ok s" and "opstack s = a # b # vs"
    and "v_type a = VALUE_INTEGER" and "v_type b = VALUE_INTEGER"
    and "v_int b \<noteq> 0" and "\<not> (v_int a = - (2 ^ 63) \<and> v_int b = - 1)"
  shows "\<exists>t q. opcodeDiv e s = Some (True, t) \<and> vm_rest t = vm_rest s \<and>
    opstack t = mk_int (word_of_int q) # vs \<and> \<bar>v_int a - q * v_int b\<bar> < \<bar>v_int b\<bar> \<and> \<bar>q * v_int b\<bar> \<le> \<bar>v_int a\<bar>"
proof -
  have "v_bits b \<noteq> 0" using assms(5) by (auto simp: v_int_def)
  with assms(6) have "int_div (v_bits a) (v_bits b) = Some (word_of_int (c_div (v_int a) (v_int b)))"
    by (auto simp: int_div_def v_int_def)
  from dvd.int_effect [OF assms(1-4) this, of e] c_div_trunc [OF assms(5), of "v_int a"] show ?thesis by blast
qed

lemma opcodeDiv_int_witness:
  "\<exists>t q. opcodeDiv sample_env (sample_vm [mk_int (- 7), mk_int 2, mk_int 1] [] []) = Some (True, t)
    \<and> opstack t = [mk_int (word_of_int q), mk_int 1] \<and> \<bar>- 7 - q * 2\<bar> < 2"
proof -
  have i: "v_int (mk_int (- 7)) = - 7" "v_int (mk_int 2) = 2" by (simp_all add: v_int_def)
  from opcodeDiv_int [of "sample_vm [mk_int (- 7), mk_int 2, mk_int 1] [] []" "mk_int (- 7)" "mk_int 2" "[mk_int 1]" sample_env]
  show ?thesis unfolding i by auto
qed

text \<open>C25: integer comparison is correct while the difference of the operands fits 64 bits: each
  \<open>PUSHC\<close> instruction after \<open>CMPI\<close> pushes 1 or 0 for the relation its name says, the operand on top
  being the left one.\<close>

theorem compare_int_correct:
  assumes "vm_ok s" and "opstack s = a # b # vs"
    and "- (2 ^ 63) \<le> v_int b - v_int a" and "v_int b - v_int a < 2 ^ 63"
  shows "compare_push opcodeCmpI opcodePushCE s = Some (mk_int (of_bool (v_int a = v_int b)) # vs) \<and>
    compare_push opcodeCmpI opcodePushCNE s = Some (mk_int (of_bool (v_int a \<noteq> v_int b)) # vs) \<and>
    compare_push opcodeCmpI opcodePushCL s = Some (mk_int (of_bool (v_int a < v_int b)) # vs) \<and>
    compare_push opcodeCmpI opcodePushCLE s = Some (mk_int (of_bool (v_int a \<le> v_int b)) # vs) \<and>
    compare_push opcodeCmpI opcodePushCG s = Some (mk_int (of_bool (v_int a > v_int b)) # vs) \<and>
    compare_push opcodeCmpI opcodePushCGE s = Some (mk_int (of_bool (v_int a \<ge> v_int b)) # vs)"
proof -
  have d: "sint (v_bits b - v_bits a) = v_int b - v_int a"
    using sint_diff_in_range assms(3,4) by (simp add: v_int_def)
  have e: "v_bits b = v_bits a \<longleftrightarrow> v_int a = v_int b" by (auto simp: v_int_def sint_inject64)
  have *: "compare_push opcodeCmpI (push_cond c) s = Some (mk_int (of_bool P) # vs)"
    if "\<And>f. flags_ok f \<Longrightarrow> fr_zero f = (v_int a = v_int b) \<Longrightarrow> fr_sign f = (v_int b < v_int a) \<Longrightarrow> c f = P" for c P
    using compare_push_effect [OF assms(1,2), of c] that unfolding d e by auto
  have p: "opcodePushCE = push_cond cond_E" "opcodePushCNE = push_cond cond_NE" "opcodePushCL = push_cond cond_L"
    "opcodePushCLE = push_cond cond_LE" "opcodePushCG = push_cond cond_G" "opcodePushCGE = push_cond cond_GE"
    by (simp_all add: fun_eq_iff opcodePushCE_def opcodePushCNE_def opcodePushCL_def opcodePushCLE_def
        opcodePushCG_def opcodePushCGE_def)
  show ?thesis unfolding p
    by (intro conjI *) (auto simp: flags_ok_conds, auto simp: cond_E_def cond_NE_def)
qed

lemma compare_int_correct_witness:
  "compare_push opcodeCmpI opcodePushCL (sample_vm [mk_int 3, mk_int 5] [] []) = Some [mk_int 1]"
proof -
  have i: "v_int (mk_int 3) = 3" "v_int (mk_int 5) = 5" by (simp_all add: v_int_def)
  from compare_int_correct [of "sample_vm [mk_int 3, mk_int 5] [] []" "mk_int 3" "mk_int 5" "[]"]
  show ?thesis unfolding i by simp
qed

text \<open>Outside that range the comparison is wrong, because the difference wraps: the least
  integer does not compare as less than 1.\<close>

theorem compare_int_wraps:
  "compare_push opcodeCmpI opcodePushCL (sample_vm [mk_int (word_of_int (- (2 ^ 63))), mk_int 1] [] [])
     = Some [mk_int 0]"
proof -
  let ?a = "mk_int (word_of_int (- (2 ^ 63)))" and ?b = "mk_int 1"
  have "sint (v_bits ?b - v_bits ?a) < 0" by simp
  with compare_push_effect [of "sample_vm [?a, ?b] [] []" ?a ?b "[]" cond_L] show ?thesis
    by (auto simp: opcodePushCL_def [abs_def] flags_ok_conds)
qed

text \<open>\<open>BLE\<close> branches always. On any flags a comparison can leave, the handler's condition
  \<open>!zero || sign == overflow\<close> holds, so the instruction is a plain jump, while \<open>PUSHCLE\<close> on the
  same flags pushes 1 only when the left operand is not above the right one.\<close>

theorem opcodeBLE_jumps:
  assumes "flags_ok (cur s)"
  shows "opcodeBLE s = opcodeJmp s \<and> opcodePushCLE s = push_cond (\<lambda>f. \<not> fr_sign f) s"
proof -
  have "flags_ok (cur t)" if "fetch s = Some (w, t)" for w t
    using that assms by (auto simp: fetch_def flags_ok_def split: bind_splits)
  then have "opcodeBLE s = opcodeJmp s"
    by (auto simp: opcodeBLE_def opcodeJmp_def branch_def flags_ok_def split: bind_splits)
  moreover have "opcodePushCLE s = push_cond (\<lambda>f. \<not> fr_sign f) s"
    using flags_ok_conds(2) [OF assms] by (simp add: opcodePushCLE_def push_cond_def)
  ultimately show ?thesis by simp
qed

lemma opcodeBLE_jumps_witness:
  "opcodeBLE (CMP_INTEGER (mk_int 5) (mk_int 3) (sample_vm [] [0] [])) =
   opcodeJmp (CMP_INTEGER (mk_int 5) (mk_int 3) (sample_vm [] [0] []))"
  using opcodeBLE_jumps [of "CMP_INTEGER (mk_int 5) (mk_int 3) (sample_vm [] [0] [])"] flags_ok_CMP_INTEGER
  by simp

text \<open>A NaN compares as less than everything. \<open>CMPD\<close> with a NaN operand clears zero and sign and
  sets overflow, which the conditions read as "less"; none of equal, greater holds.\<close>

lemma compare_nan:
  assumes "d_decode (v_double a) = DNaN \<or> d_decode (v_double b) = DNaN"
  shows "cond_L (cur (CMP_DOUBLE a b s)) \<and> cond_LE (cur (CMP_DOUBLE a b s)) \<and> cond_NE (cur (CMP_DOUBLE a b s))
    \<and> \<not> cond_G (cur (CMP_DOUBLE a b s)) \<and> \<not> cond_GE (cur (CMP_DOUBLE a b s))"
proof -
  have "d_decode (d_neg w) = DNaN" if "d_decode w = DNaN" for w :: u64
    using that by (simp add: d_decode_neg_nan)
  then have n: "d_sub (v_double b) (v_double a) = nan_bits"
    using assms by (auto simp: d_sub_def d_add_nan)
  show ?thesis
    by (simp add: CMP_DOUBLE_def cmp_doubles_def n Let_def set_flags_def cond_defs d_decode_nan_bits)
qed

lemma compare_nan_witness:
  "cond_L (cur (CMP_DOUBLE (mk_double nan_bits) (mk_double 0) (sample_vm [] [] [])))"
  using compare_nan [of "mk_double nan_bits" "mk_double 0" "sample_vm [] [] []"] by (simp add: d_decode_nan_bits)

end
