(* ===== verification/Stepping.thy ===== *)
theory Stepping
  imports Linker Control Arithmetic
begin

text \<open>
  The interpreter on assembled code. A configuration names an instruction of the list the code array
  was linked from, the operand stack and the local variables; the lemmas give the effect of one
  iteration of \<open>Executor::run\<close> on configurations. The last section states what a compiler relies on
  as a locale and interprets it on the interpreter.
\<close>

section \<open>Iterations\<close>

fun exec_n :: "env \<Rightarrow> nat \<Rightarrow> vm \<Rightarrow> vm option" where
  "exec_n e 0 s = Some s"
| "exec_n e (Suc n) s =
     (if loop_condition s
      then (case step e s of Some (Inr True, t) \<Rightarrow> exec_n e n t | _ \<Rightarrow> None)
      else None)"

lemma exec_n_add: "exec_n e (m + n) s = Option.bind (exec_n e m s) (exec_n e n)"
  by (induction m arbitrary: s) (auto split: option.splits prod.splits sum.splits bool.splits)

lemma exec_n_run_loop: "exec_n e n s = Some t \<Longrightarrow> run_loop e (n + m) True s = run_loop e m True t"
  by (induction n arbitrary: s) (auto split: option.splits prod.splits sum.splits bool.splits if_splits)

text \<open>
  The environments inside \<open>interp\<close>: calls go one level down, with at least \<open>N\<close> levels of C stack and
  \<open>N\<close> iterations per function left.
\<close>

definition deep :: "nat \<Rightarrow> env \<Rightarrow> bool" where
  "deep N e \<longleftrightarrow> (\<exists>e0 n. N \<le> n \<and> N \<le> ev_steps e0 \<and> e = e0\<lparr>ev_call := interp e0 n, ev_stack := n\<rparr>)"

lemma deepI: "N \<le> n \<Longrightarrow> N \<le> ev_steps e0 \<Longrightarrow> deep N (e0\<lparr>ev_call := interp e0 n, ev_stack := n\<rparr>)"
  unfolding deep_def by blast

lemma deep_mono:
  assumes "deep N e" and "M \<le> N"
  shows "deep M e"
proof -
  from assms(1) obtain e0 n where n: "N \<le> n" "N \<le> ev_steps e0" and e: "e = e0\<lparr>ev_call := interp e0 n, ev_stack := n\<rparr>"
    unfolding deep_def by blast
  show ?thesis unfolding e by (rule deepI) (use n assms(2) in simp_all)
qed

lemma deep_steps: "deep N e \<Longrightarrow> N \<le> ev_steps e"
  by (auto simp: deep_def)

lemma deep_call:
  assumes "deep (Suc N) e"
  obtains e' where "deep N e'" and "ev_call e = function_execute e'"
proof -
  from assms obtain e0 n where n: "Suc N \<le> n" "Suc N \<le> ev_steps e0" and e: "e = e0\<lparr>ev_call := interp e0 n, ev_stack := n\<rparr>"
    by (auto simp: deep_def)
  then obtain k where k: "n = Suc k" by (cases n) auto
  show thesis
  proof (rule that)
    show "deep N (e0\<lparr>ev_call := interp e0 k, ev_stack := k\<rparr>)" using n k by (intro deepI) simp_all
    show "ev_call e = function_execute (e0\<lparr>ev_call := interp e0 k, ev_stack := k\<rparr>)" by (simp add: e k fun_eq_iff)
  qed
qed

lemma interp_deep:
  assumes "Suc N \<le> n" and "Suc N \<le> ev_steps e"
  obtains e' where "deep N e'" and "interp e n = function_execute e'"
proof (rule deep_call)
  show "deep (Suc N) (e\<lparr>ev_call := interp e n, ev_stack := n\<rparr>)" using assms by (rule deepI)
qed (use that in simp)

section \<open>Configurations\<close>

definition skeleton :: "vm \<Rightarrow> vm" where
  "skeleton s = s\<lparr>ctx := (ctx s)\<lparr>stack := [], stackPos := 0\<rparr>,
     cur := (cur s)\<lparr>fr_pc := 0, fr_localVars := [], fr_zero := False, fr_sign := False, fr_overflow := False\<rparr>\<rparr>"

type_synonym config = "nat \<times> Value list \<times> Value list"

fun conf :: "int \<Rightarrow> icode \<Rightarrow> vm \<Rightarrow> config \<Rightarrow> bool" where
  "conf cap code s (k, vs, ls) \<longleftrightarrow>
     vm_ok s \<and> opstack s = vs \<and> fr_localVars (cur s) = ls \<and> fr_running (cur s)
     \<and> \<not> has_exception (ctx s) \<and> stackSize (ctx s) = cap \<and> cap \<le> int (length (stack (ctx s)))
     \<and> link code = Some (ac_code (fr_code (cur s))) \<and> code_words code < 2 ^ 31
     \<and> fr_pc (cur s) = int (address_of code k) \<and> k \<le> length code"

definition advance :: "nat \<Rightarrow> vm \<Rightarrow> vm" where
  "advance n s = s\<lparr>cur := (cur s)\<lparr>fr_pc := fr_pc (cur s) + int n\<rparr>\<rparr>"

lemma advance_sels [simp]:
  "cur (advance n s) = (cur s)\<lparr>fr_pc := fr_pc (cur s) + int n\<rparr>" "ctx (advance n s) = ctx s"
  "skeleton (advance n s) = skeleton s" "opstack (advance n s) = opstack s" "vm_ok (advance n s) = vm_ok s"
  "vm_room (advance n s) = vm_room s"
  by (simp_all add: advance_def skeleton_def)

lemma vm_rest_more:
  assumes "vm_rest t = vm_rest s"
  shows "cur t = cur s" and "has_exception (ctx t) = has_exception (ctx s)"
    and "stackSize (ctx t) = stackSize (ctx s)" and "length (stack (ctx t)) = length (stack (ctx s))"
    and "skeleton t = skeleton s"
proof -
  from assms have v: "s\<lparr>ctx := (ctx s)\<lparr>stack := [], stackPos := 0\<rparr>\<rparr> = t\<lparr>ctx := (ctx t)\<lparr>stack := [], stackPos := 0\<rparr>\<rparr>"
    and "length (stack (ctx t)) = length (stack (ctx s))" by (simp_all add: vm_rest_def ctx_rest_def)
  then show "length (stack (ctx t)) = length (stack (ctx s))" by simp
  show "cur t = cur s" "has_exception (ctx t) = has_exception (ctx s)" using vm_restD [OF assms] by auto
  show "stackSize (ctx t) = stackSize (ctx s)" using arg_cong [OF v, of "\<lambda>v. stackSize (ctx v)"] by simp
  show "skeleton t = skeleton s"
    using arg_cong [OF v, of "\<lambda>v. v\<lparr>cur := (cur v)\<lparr>fr_pc := 0, fr_localVars := [], fr_zero := False,
      fr_sign := False, fr_overflow := False\<rparr>\<rparr>"] by (simp add: skeleton_def)
qed

lemma address_of_Suc: "k < length code \<Longrightarrow> address_of code (Suc k) = address_of code k + ins_size (code ! k)"
  by (simp add: address_of_def take_Suc_conv_app_nth)

lemma address_of_le: "address_of code k \<le> code_words code"
  by (metis address_of_def code_words_def append_take_drop_id le_add1 map_append sum_list_append)

lemma stackPos_opstack: "vm_ok s \<Longrightarrow> stackPos (ctx s) = int (length (opstack s))"
  by (auto simp: vm_ok_def ctx_ok_def opstack_def operands_def min_def)

text \<open>Fetching the opcode and its arguments.\<close>

lemma conf_fetch:
  assumes "conf cap code s (k, vs, ls)" and "k < length code"
  shows "loop_condition s" and "fetch s = Some (ins_op (code ! k), advance 1 s)"
    and "\<And>j. j < length (ins_args (code ! k)) \<Longrightarrow>
      fetch (advance (Suc j) s) = Some (let a = ins_args (code ! k) ! j in
        (if int j = info_address (getOpcodeInfo (ins_op (code ! k))) then of_nat (address_of code (unat a)) else a),
        advance (Suc (Suc j)) s)"
proof -
  let ?ws = "ac_code (fr_code (cur s))" and ?i = "code ! k"
  from assms(1) have l: "link code = Some ?ws" and r: "fr_running (cur s)"
    and pc: "fr_pc (cur s) = int (address_of code k)" by simp_all
  note lay = link_words [OF l assms(2)]
  note sh = encode_shape [OF lay(3)]
  have 0: "?ws ! address_of code k = ins_op ?i"
    using sh(1) by (simp add: ins_size_def upt_conv_Cons del: upt_Suc)
  show "loop_condition s" using lay(2) r pc by (simp add: loop_condition_def ac_size_def)
  show "fetch s = Some (ins_op ?i, advance 1 s)"
    using lay(2) pc 0 by (simp add: fetch_def advance_def)
  fix j assume j: "j < length (ins_args ?i)"
  have p: "fr_pc (cur (advance (Suc j) s)) = int (address_of code k + Suc j)" using pc by simp
  have "encode_arg code (info_address (getOpcodeInfo (ins_op ?i))) j (ins_args ?i ! j)
      = Some (?ws ! (address_of code k + Suc j))"
    using sh(3) [OF j] j by (simp add: ins_size_def del: upt_Suc)
  then have "?ws ! (address_of code k + Suc j) = (let a = ins_args ?i ! j in
      if int j = info_address (getOpcodeInfo (ins_op ?i)) then of_nat (address_of code (unat a)) else a)"
    by (auto simp: encode_arg_def split: if_splits)
  moreover have "address_of code k + Suc j < length ?ws" using lay(2) j by simp
  ultimately show "fetch (advance (Suc j) s) = Some (let a = ins_args ?i ! j in
        (if int j = info_address (getOpcodeInfo (ins_op ?i)) then of_nat (address_of code (unat a)) else a),
        advance (Suc (Suc j)) s)"
    unfolding fetch_def p idx_nat using pc by (simp add: advance_def ac_simps)
qed

text \<open>
  \<open>reaches s t\<close>: with enough C stack and enough iterations the loop gets from \<open>s\<close> to \<open>t\<close>, whatever
  else the environment holds; \<open>runs1\<close> is one iteration, given the effect of the handler.
\<close>

definition reaches :: "vm \<Rightarrow> vm \<Rightarrow> bool" where
  "reaches s t \<longleftrightarrow> (\<exists>N n. \<forall>e. deep N e \<longrightarrow> exec_n e n s = Some t)"

lemma reaches_refl: "reaches s s"
  unfolding reaches_def by (metis exec_n.simps(1))

lemma reaches_trans:
  assumes "reaches s t" and "reaches t u"
  shows "reaches s u"
proof -
  from assms obtain N n M m where "\<And>e. deep N e \<Longrightarrow> exec_n e n s = Some t" "\<And>e. deep M e \<Longrightarrow> exec_n e m t = Some u"
    unfolding reaches_def by blast
  then have "deep (max N M) e \<Longrightarrow> exec_n e (n + m) s = Some u" for e
    using deep_mono [of "max N M" e N] deep_mono [of "max N M" e M] by (simp add: exec_n_add)
  then show ?thesis unfolding reaches_def by blast
qed

definition runs1 :: "vm \<Rightarrow> vm \<Rightarrow> bool" where
  "runs1 s t \<longleftrightarrow> (\<exists>N. \<forall>e. deep N e \<longrightarrow> exec_n e (Suc 0) s = Some t)"

lemma runs1_reaches: "runs1 s t \<Longrightarrow> reaches s t"
  unfolding runs1_def reaches_def by blast

lemma conf_step:
  assumes c: "conf cap code s (k, vs, ls)" and k: "k < length code" and op: "ins_op (code ! k) = opcode_num c"
    and cap: "int (length vs) < cap"
    and h: "\<And>e. deep N e \<Longrightarrow> opcodeTable c e (advance 1 s) = Some (True, t)" and x: "\<not> has_exception (ctx t)"
  shows "runs1 s t"
  unfolding runs1_def
proof (intro exI [of _ N] allI impI)
  fix e assume e: "deep N e"
  note f = conf_fetch [OF c k]
  have "stackPos (ctx s) = int (length vs)" using c stackPos_opstack by auto
  then have "checkStack (ctx (advance 1 s))" using c cap by (simp add: checkStack_def)
  then show "exec_n e (Suc 0) s = Some t"
    using f(1,2) h [OF e] x op by (simp add: step_def dispatch_def del: opcode_num.simps)
qed

lemma conf_room: "conf cap code s (k, vs, ls) \<Longrightarrow> int (length vs) < cap \<Longrightarrow> 0 < vm_room s"
  using stackPos_opstack [of s] by (simp add: vm_room_def ctx_room_def)

section \<open>One instruction\<close>

lemma step_push:
  assumes c: "conf cap code s (k, vs, ls)" and k: "k < length code" and cap: "int (length vs) < cap"
    and op: "code ! k = \<lparr>ins_op = opcode_num OP_PUSHI, ins_args = [w]\<rparr>"
  shows "\<exists>t. runs1 s t \<and> conf cap code t (Suc k, mk_int w # vs, ls) \<and> skeleton t = skeleton s"
proof -
  have f: "fetch (advance 1 s) = Some (w, advance 2 s)"
    using conf_fetch(3) [OF c k, of 0] op by (simp add: numeral_2_eq_2 del: opcode_num.simps)
  from c conf_room [OF c cap] have "vm_ok (advance 2 s)" "0 < vm_room (advance 2 s)" by simp_all
  from ms.push_law [OF this, of "mk_int w"] obtain t where t: "push (mk_int w) (advance 2 s) = Some t" "vm_ok t"
    "opstack t = mk_int w # opstack s" "vm_rest t = vm_rest (advance 2 s)" by auto
  note r = vm_rest_more [OF t(4)]
  have h: "opcodeTable OP_PUSHI e (advance 1 s) = Some (True, t)" for e
    using f t(1) by (simp add: opcodePushI_def push_fetched_def)
  have x: "\<not> has_exception (ctx t)" using r(2) c by simp
  from conf_step [OF c k _ cap h x] op have "runs1 s t" by simp
  moreover have "conf cap code t (Suc k, mk_int w # vs, ls)"
    using c t(2,3) r(1-4) x k op by (simp add: address_of_Suc ins_size_def)
  ultimately show ?thesis using r(5) by auto
qed

lemma step_load:
  assumes c: "conf cap code s (k, vs, ls)" and k: "k < length code" and cap: "int (length vs) < cap"
    and op: "code ! k = \<lparr>ins_op = opcode_num OP_LOAD_VAR, ins_args = [w]\<rparr>"
    and v: "idx ls (to_int32 w) = Some v"
  shows "\<exists>t. runs1 s t \<and> conf cap code t (Suc k, v # vs, ls) \<and> skeleton t = skeleton s"
proof -
  have f: "fetch (advance 1 s) = Some (w, advance 2 s)"
    using conf_fetch(3) [OF c k, of 0] op by (simp add: numeral_2_eq_2 del: opcode_num.simps)
  from c conf_room [OF c cap] have "vm_ok (advance 2 s)" "0 < vm_room (advance 2 s)" by simp_all
  from ms.push_law [OF this, of v] obtain t where t: "push v (advance 2 s) = Some t" "vm_ok t"
    "opstack t = v # opstack s" "vm_rest t = vm_rest (advance 2 s)" by auto
  note r = vm_rest_more [OF t(4)]
  have "getLocal (to_int32 w) (advance 2 s) = Some v" using v c by (simp add: getLocal_def)
  with f t(1) have h: "opcodeTable OP_LOAD_VAR e (advance 1 s) = Some (True, t)" for e
    by (simp add: opcodeLoadVar_def)
  have x: "\<not> has_exception (ctx t)" using r(2) c by simp
  from conf_step [OF c k _ cap h x] op have "runs1 s t" by simp
  moreover have "conf cap code t (Suc k, v # vs, ls)"
    using c t(2,3) r(1-4) x k op by (simp add: address_of_Suc ins_size_def)
  ultimately show ?thesis using r(5) by auto
qed

lemma step_store:
  assumes c: "conf cap code s (k, v # vs, ls)" and k: "k < length code" and cap: "int (length vs) + 1 < cap"
    and op: "code ! k = \<lparr>ins_op = opcode_num OP_STORE_VAR, ins_args = [w]\<rparr>"
    and v: "upd ls (to_int32 w) v = Some ls'"
  shows "\<exists>t. runs1 s t \<and> conf cap code t (Suc k, vs, ls') \<and> skeleton t = skeleton s"
proof -
  have f: "fetch (advance 1 s) = Some (w, advance 2 s)"
    using conf_fetch(3) [OF c k, of 0] op by (simp add: numeral_2_eq_2 del: opcode_num.simps)
  from c have "vm_ok (advance 2 s)" "opstack (advance 2 s) = v # vs" by simp_all
  from ms.pop_law [OF this] obtain u where u: "pop (advance 2 s) = Some (v, u)" "vm_ok u"
    "opstack u = vs" "vm_rest u = vm_rest (advance 2 s)" by auto
  note r = vm_rest_more [OF u(4)]
  define t where "t = u\<lparr>cur := (cur u)\<lparr>fr_localVars := ls'\<rparr>\<rparr>"
  have "setLocal (to_int32 w) v u = Some t" using v r(1) c by (simp add: setLocal_def t_def)
  with f u(1) have h: "opcodeTable OP_STORE_VAR e (advance 1 s) = Some (True, t)" for e
    by (simp add: opcodeStoreVar_def)
  have x: "\<not> has_exception (ctx t)" using r(2) c by (simp add: t_def)
  from cap have "int (length (v # vs)) < cap" by simp
  from conf_step [OF c k _ this h x] op have "runs1 s t" by simp
  moreover have "conf cap code t (Suc k, vs, ls')"
    using c u(2,3) r(1-4) x k op by (simp add: address_of_Suc ins_size_def t_def)
  moreover have "skeleton t = skeleton s" using r(5) by (simp add: skeleton_def t_def advance_def)
  ultimately show ?thesis by auto
qed

lemma step_inc:
  assumes c: "conf cap code s (k, vs, ls)" and k: "k < length code" and cap: "int (length vs) < cap"
    and op: "code ! k = \<lparr>ins_op = opcode_num OP_INC_VAR, ins_args = [w, n]\<rparr>"
    and v: "idx ls (to_int32 w) = Some v" "upd ls (to_int32 w) (v\<lparr>v_bits := v_bits v + n\<rparr>) = Some ls'"
  shows "\<exists>t. runs1 s t \<and> conf cap code t (Suc k, vs, ls') \<and> skeleton t = skeleton s"
proof -
  have f: "fetch (advance 1 s) = Some (w, advance 2 s)" "fetch (advance 2 s) = Some (n, advance 3 s)"
    using conf_fetch(3) [OF c k, of 0] conf_fetch(3) [OF c k, of 1] op
    by (simp_all add: numeral_2_eq_2 numeral_3_eq_3 del: opcode_num.simps)
  define t where "t = (advance 3 s)\<lparr>cur := (cur (advance 3 s))\<lparr>fr_localVars := ls'\<rparr>\<rparr>"
  have h: "opcodeTable OP_INC_VAR e (advance 1 s) = Some (True, t)" for e
    using f v c by (simp add: opcodeIncVar_def getLocal_def setLocal_def t_def)
  have x: "\<not> has_exception (ctx t)" using c by (simp add: t_def)
  from conf_step [OF c k _ cap h x] op have "runs1 s t" by simp
  moreover have "conf cap code t (Suc k, vs, ls')"
    using c x k op by (simp add: address_of_Suc ins_size_def t_def)
  moreover have "skeleton t = skeleton s" by (simp add: skeleton_def t_def advance_def)
  ultimately show ?thesis by auto
qed

lemma step_int:
  assumes c: "conf cap code s (k, a # b # vs, ls)" and k: "k < length code" and cap: "int (length vs) + 2 < cap"
    and op: "code ! k = \<lparr>ins_op = opcode_num i, ins_args = []\<rparr>"
    and i: "\<And>e. opcodeTable i e (advance 1 s) = int_handler iop (advance 1 s)" and r: "iop (v_bits a) (v_bits b) = Some r"
  shows "\<exists>t. runs1 s t \<and> conf cap code t (Suc k, mk_int r # vs, ls) \<and> skeleton t = skeleton s"
proof -
  from c have "vm_ok (advance 1 s)" "opstack (advance 1 s) = a # b # vs" by simp_all
  from int_handler_effect [OF this, of iop r] r obtain t where t: "int_handler iop (advance 1 s) = Some (True, t)"
    "vm_ok t" "opstack t = mk_int r # vs" "vm_rest t = vm_rest (advance 1 s)" by auto
  note v = vm_rest_more [OF t(4)]
  have h: "opcodeTable i e (advance 1 s) = Some (True, t)" for e using i t(1) by simp
  have x: "\<not> has_exception (ctx t)" using v(2) c by simp
  from cap have "int (length (a # b # vs)) < cap" by simp
  from conf_step [OF c k _ this h x] op have "runs1 s t" by simp
  moreover have "conf cap code t (Suc k, mk_int r # vs, ls)"
    using c t(2,3) v(1-4) x k op by (simp add: address_of_Suc ins_size_def)
  ultimately show ?thesis using v(5) by auto
qed

text \<open>\<open>CMP\<close> on two integers does what \<open>CMPI\<close> does; so do the generic arithmetic instructions.\<close>

definition both_ints :: "Value \<Rightarrow> Value \<Rightarrow> bool" where
  "both_ints a b \<longleftrightarrow> v_type a = VALUE_INTEGER \<and> v_type b = VALUE_INTEGER"

definition comparable :: "opcode \<Rightarrow> Value \<Rightarrow> Value \<Rightarrow> bool" where
  "comparable i a b \<longleftrightarrow> i = OP_CMPI \<or> i = OP_CMP \<and> both_ints a b"

lemma comparable_table:
  assumes "comparable i a b" and "vm_ok s" and "opstack s = a # b # vs"
  shows "opcodeTable i e s = opcodeCmpI s"
proof -
  from ms.pop_law [OF assms(2,3)] obtain t where t: "pop s = Some (a, t)" "vm_ok t" "opstack t = b # vs" by blast
  from ms.pop_law [OF t(2,3)] obtain u where "pop t = Some (b, u)" by blast
  with t assms(1) show ?thesis by (auto simp: comparable_def both_ints_def opcodeCmp_def opcodeCmpI_def)
qed

definition int_and :: "u64 \<Rightarrow> u64 \<Rightarrow> u64" where
  "int_and a b = (if a \<noteq> 0 \<and> b \<noteq> 0 then 1 else 0)"

fun int_binop :: "opcode \<Rightarrow> (u64 \<Rightarrow> u64 \<Rightarrow> u64 option) option" where
  "int_binop OP_ADDI = Some (\<lambda>a b. Some (a + b))"
| "int_binop OP_SUBI = Some (\<lambda>a b. Some (a - b))"
| "int_binop OP_MULI = Some (\<lambda>a b. Some (a * b))"
| "int_binop OP_DIVI = Some int_div"
| "int_binop OP_ANDI = Some (\<lambda>a b. Some (int_and a b))"
| "int_binop OP_ADD = Some (\<lambda>a b. Some (a + b))"
| "int_binop OP_SUB = Some (\<lambda>a b. Some (a - b))"
| "int_binop OP_MUL = Some (\<lambda>a b. Some (a * b))"
| "int_binop OP_DIV = Some int_div"
| "int_binop OP_AND = Some (\<lambda>a b. Some (int_and a b))"
| "int_binop _ = None"

definition tagged_ops :: "opcode list" where
  "tagged_ops = [OP_ADD, OP_SUB, OP_MUL, OP_DIV]"

lemma opcodeAnd_int: "opcodeAnd s = int_handler (\<lambda>a b. Some (int_and a b)) s"
proof (cases "pop s")
  case (Some p)
  then obtain v t where p: "pop s = Some (v, t)" by (cases p) auto
  show ?thesis by (cases "pop t") (auto simp: opcodeAnd_def int_handler_def popInt_pop pushInt_push int_and_def p split: bind_splits)
qed (simp add: opcodeAnd_def int_handler_def popInt_pop)

lemma int_binop_table:
  assumes "int_binop i = Some f" and "i \<in> set tagged_ops \<Longrightarrow> both_ints a b" and "vm_ok s" and "opstack s = a # b # vs"
  shows "opcodeTable i e s = int_handler f s"
proof (cases "i \<in> set tagged_ops")
  case True
  with assms(2) have t: "v_type a = VALUE_INTEGER" "v_type b = VALUE_INTEGER" by (simp_all add: both_ints_def)
  from True assms(1) add.int_agrees [OF assms(3,4) t] sub.int_agrees [OF assms(3,4) t]
    mul.int_agrees [OF assms(3,4) t] dvd.int_agrees [OF assms(3,4) t]
  show ?thesis by (auto simp: tagged_ops_def opcodeAddI_def opcodeSubI_def opcodeMulI_def opcodeDivI_def)
next
  case False
  with assms(1) show ?thesis
    by (cases i) (auto simp: tagged_ops_def opcodeAddI_def opcodeSubI_def opcodeMulI_def opcodeDivI_def opcodeAnd_int)
qed

lemma step_cmp:
  assumes c: "conf cap code s (k, a # b # vs, ls)" and k: "k < length code" and cap: "int (length vs) + 2 < cap"
    and op: "code ! k = \<lparr>ins_op = opcode_num i, ins_args = []\<rparr>" and i: "comparable i a b"
  shows "\<exists>t. runs1 s t \<and> conf cap code t (Suc k, vs, ls) \<and> skeleton t = skeleton s
    \<and> flags_ok (cur t) \<and> fr_zero (cur t) = (v_bits a = v_bits b)
    \<and> fr_sign (cur t) = (sint (v_bits b - v_bits a) < 0)"
proof -
  from c have "vm_ok (advance 1 s)" "opstack (advance 1 s) = a # b # vs" by simp_all
  from opcodeCmpI_effect [OF this] obtain u where u: "opcodeCmpI (advance 1 s) = Some (True, CMP_INTEGER a b u)"
    "vm_ok u" "opstack u = vs" "vm_rest u = vm_rest (advance 1 s)" by auto
  note v = vm_rest_more [OF u(4)]
  define t where "t = CMP_INTEGER a b u"
  have "\<And>e. opcodeTable i e (advance 1 s) = opcodeCmpI (advance 1 s)"
    using comparable_table [OF i, of "advance 1 s"] c by simp
  with u(1) have h: "opcodeTable i e (advance 1 s) = Some (True, t)" for e by (simp add: t_def)
  have tc: "ctx t = ctx u" "opstack t = vs" "vm_ok t" "skeleton t = skeleton u"
    "\<exists>z g f. cur t = (cur u)\<lparr>fr_zero := z, fr_sign := g, fr_overflow := f\<rparr>"
    using u by (auto simp: t_def CMP_INTEGER_def Let_def set_flags_def skeleton_def)
  have x: "\<not> has_exception (ctx t)" using v(2) c tc(1) by simp
  from cap have "int (length (a # b # vs)) < cap" by simp
  from conf_step [OF c k _ this h x] op have "runs1 s t" by simp
  moreover have "conf cap code t (Suc k, vs, ls)"
    using c tc v(1-4) x k op by (auto simp: address_of_Suc ins_size_def)
  ultimately show ?thesis
    using v(5) tc(4) cmp_int_flags [of a b u] flags_ok_CMP_INTEGER [of a b u] by (auto simp: t_def)
qed

lemma step_push_cond:
  assumes c: "conf cap code s (k, vs, ls)" and k: "k < length code" and cap: "int (length vs) < cap"
    and op: "code ! k = \<lparr>ins_op = opcode_num i, ins_args = []\<rparr>"
    and i: "\<And>e u. opcodeTable i e u = push_cond q u"
    and q: "\<And>f g. fr_zero f = fr_zero g \<Longrightarrow> fr_sign f = fr_sign g \<Longrightarrow> fr_overflow f = fr_overflow g \<Longrightarrow> q f = q g"
  shows "\<exists>t. runs1 s t \<and> skeleton t = skeleton s
    \<and> conf cap code t (Suc k, mk_int (if q (cur s) then 1 else 0) # vs, ls)"
proof -
  have qs: "q (cur (advance 1 s)) = q (cur s)" by (rule q) simp_all
  from c conf_room [OF c cap] have "vm_ok (advance 1 s)" "0 < vm_room (advance 1 s)" by simp_all
  from ms.push_law [OF this, of "mk_int (if q (cur s) then 1 else 0)"] obtain t
    where t: "push (mk_int (if q (cur s) then 1 else 0)) (advance 1 s) = Some t" "vm_ok t"
    "opstack t = mk_int (if q (cur s) then 1 else 0) # opstack s" "vm_rest t = vm_rest (advance 1 s)" by auto
  note v = vm_rest_more [OF t(4)]
  have h: "opcodeTable i e (advance 1 s) = Some (True, t)" for e using i t(1) qs by (simp add: push_cond_def)
  have x: "\<not> has_exception (ctx t)" using v(2) c by simp
  from conf_step [OF c k _ cap h x] op have "runs1 s t" by simp
  moreover have "conf cap code t (Suc k, mk_int (if q (cur s) then 1 else 0) # vs, ls)"
    using c t(2,3) v(1-4) x k op by (simp add: address_of_Suc ins_size_def)
  ultimately show ?thesis using v(5) by auto
qed

lemma step_branch:
  assumes c: "conf cap code s (k, vs, ls)" and k: "k < length code" and cap: "int (length vs) < cap"
    and op: "code ! k = \<lparr>ins_op = opcode_num i, ins_args = [of_nat d]\<rparr>" "d \<le> length code"
    and ad: "info_address (opcode_info i) = 0"
    and i: "\<And>e u. opcodeTable i e u = branch q u"
    and q: "\<And>f g. fr_zero f = fr_zero g \<Longrightarrow> fr_sign f = fr_sign g \<Longrightarrow> fr_overflow f = fr_overflow g \<Longrightarrow> q f = q g"
  shows "\<exists>t. runs1 s t \<and> skeleton t = skeleton s
    \<and> conf cap code t (if q (cur s) then d else Suc k, vs, ls)"
proof -
  have qs: "q (cur (advance 2 s)) = q (cur s)" by (rule q) simp_all
  have sz: "code_words code < 2 ^ 31" using c by simp
  have "length code \<le> code_words code" by (induction code) (auto simp: code_words_def ins_size_def)
  with op(2) sz have ud: "unat (of_nat d :: u64) = d" by (simp add: unsigned_of_nat take_bit_nat_eq_self)
  have f: "fetch (advance 1 s) = Some (of_nat (address_of code d), advance 2 s)"
    using conf_fetch(3) [OF c k, of 0] op ad ud by (simp add: numeral_2_eq_2 del: opcode_num.simps)
  from address_of_le [of code d] sz have a: "to_int32 (of_nat (address_of code d)) = int (address_of code d)"
    by (intro to_int32_small) simp
  define t where "t = (if q (cur s) then set_pc (of_nat (address_of code d)) (advance 2 s) else advance 2 s)"
  have h: "opcodeTable i e (advance 1 s) = Some (True, t)" for e using i f qs by (simp add: branch_def t_def)
  have x: "\<not> has_exception (ctx t)" using c by (simp add: t_def set_pc_def)
  from conf_step [OF c k _ cap h x] op have "runs1 s t" by simp
  moreover have "conf cap code t (if q (cur s) then d else Suc k, vs, ls)"
    using c x k op a by (simp add: address_of_Suc ins_size_def t_def set_pc_def)
  moreover have "skeleton t = skeleton s" by (simp add: skeleton_def t_def set_pc_def advance_def)
  ultimately show ?thesis by auto
qed

lemma step_pop:
  assumes c: "conf cap code s (k, v # vs, ls)" and k: "k < length code" and cap: "int (length vs) + 1 < cap"
    and op: "code ! k = \<lparr>ins_op = opcode_num OP_POP, ins_args = []\<rparr>"
  shows "\<exists>t. runs1 s t \<and> conf cap code t (Suc k, vs, ls) \<and> skeleton t = skeleton s"
proof -
  from c have "vm_ok (advance 1 s)" "opstack (advance 1 s) = v # vs" by simp_all
  from ms.pop_law [OF this] obtain t where t: "pop (advance 1 s) = Some (v, t)" "vm_ok t"
    "opstack t = vs" "vm_rest t = vm_rest (advance 1 s)" by auto
  note r = vm_rest_more [OF t(4)]
  have h: "opcodeTable OP_POP e (advance 1 s) = Some (True, t)" for e using t(1) by (simp add: opcodePop_def)
  have x: "\<not> has_exception (ctx t)" using r(2) c by simp
  from cap have "int (length (v # vs)) < cap" by simp
  from conf_step [OF c k _ this h x] op have "runs1 s t" by simp
  moreover have "conf cap code t (Suc k, vs, ls)"
    using c t(2,3) r(1-4) x k op by (simp add: address_of_Suc ins_size_def)
  ultimately show ?thesis using r(5) by auto
qed

definition int_not :: "u64 \<Rightarrow> u64" where
  "int_not a = (if a = 0 then 1 else 0)"

lemma step_not:
  assumes c: "conf cap code s (k, a # vs, ls)" and k: "k < length code" and cap: "int (length vs) + 1 < cap"
    and op: "code ! k = \<lparr>ins_op = opcode_num i, ins_args = []\<rparr>" and i: "i \<in> {OP_NOT, OP_NOTI}"
  shows "\<exists>t. runs1 s t \<and> conf cap code t (Suc k, mk_int (int_not (v_bits a)) # vs, ls) \<and> skeleton t = skeleton s"
proof -
  let ?v = "mk_int (int_not (v_bits a))"
  from c have ok: "vm_ok (advance 1 s)" "opstack (advance 1 s) = a # vs" by simp_all
  from ms.pop_law [OF this] obtain u where u: "pop (advance 1 s) = Some (a, u)" "vm_ok u"
    "opstack u = vs" "vm_room u = vm_room (advance 1 s) + 1" "vm_rest u = vm_rest (advance 1 s)" by auto
  with ms.room_nonneg [OF ok(1)] have "0 < vm_room u" by simp
  from ms.push_law [OF u(2) this, of ?v] obtain t where t: "push ?v u = Some t" "vm_ok t"
    "opstack t = ?v # opstack u" "vm_rest t = vm_rest u" by auto
  note r = vm_rest_more [OF trans [OF t(4) u(5)]]
  have h: "opcodeTable i e (advance 1 s) = Some (True, t)" for e
    using i u(1) t(1) by (auto simp: opcodeNot_def int_not_def)
  have x: "\<not> has_exception (ctx t)" using r(2) c by simp
  from cap have "int (length (a # vs)) < cap" by simp
  from conf_step [OF c k _ this h x] op have "runs1 s t" by simp
  moreover have "conf cap code t (Suc k, ?v # vs, ls)"
    using c t(2,3) u(3) r(1-4) x k op by (simp add: address_of_Suc ins_size_def)
  ultimately show ?thesis using r(5) by auto
qed

section \<open>Calls\<close>

text \<open>
  The functions a program consists of, as instruction lists with the number of their local variables;
  \<open>realises\<close> says that the runtime holds their assembled code. A state is \<open>ready\<close> for a call when the
  arguments lie on the operands \<open>vs\<close>, and \<open>vm_calls m f inst args v\<close> says that the call of \<open>f\<close> returns
  and replaces them by \<open>v\<close>, when \<open>m\<close> slots of the stack are free.
\<close>

type_synonym program = "ptr \<Rightarrow> (icode \<times> nat) option"

definition realises :: "program \<Rightarrow> Runtime \<Rightarrow> bool" where
  "realises P r \<longleftrightarrow> (\<forall>f code n. P f = Some (code, n) \<longrightarrow> (\<exists>fn blk ac. rt_func r f = Some fn
     \<and> fn_kind fn = ScriptFunction blk (Some ac) \<and> link code = Some (ac_code ac) \<and> code_words code < 2 ^ 31
     \<and> ac_localVars ac = int n))"

definition ready :: "int \<Rightarrow> vm \<Rightarrow> Value list \<Rightarrow> bool" where
  "ready cap s vs \<longleftrightarrow> vm_ok s \<and> opstack s = vs \<and> \<not> has_exception (ctx s) \<and> stackSize (ctx s) = cap
     \<and> cap \<le> int (length (stack (ctx s)))"

definition vm_calls :: "program \<Rightarrow> int \<Rightarrow> nat \<Rightarrow> ptr \<Rightarrow> ptr \<Rightarrow> Value list \<Rightarrow> Value \<Rightarrow> bool" where
  "vm_calls P cap m f inst args v \<longleftrightarrow> (\<forall>s vs. ready cap s (rev args @ vs) \<and> realises P (rt s)
     \<and> int (length vs) + int m < cap \<longrightarrow>
     (\<exists>N t. (\<forall>e. deep N e \<longrightarrow> function_execute e f inst (int (length args)) s = Some (True, t))
        \<and> ready cap t (v # vs) \<and> cur t = cur s \<and> skeleton t = skeleton s))"

lemma fetch_same:
  assumes "fetch s = Some (w, advance 1 s)" and "cur t = cur s"
  shows "fetch t = Some (w, advance 1 t)"
  using assms by (auto simp: fetch_def advance_def split: bind_splits)

lemma skeletonD:
  assumes "skeleton t = skeleton s"
  shows "has_exception (ctx t) = has_exception (ctx s)" and "rt t = rt s" and "callers t = callers s"
    and "asm_code t = asm_code s"
  using arg_cong [OF assms, of "\<lambda>v. has_exception (ctx v)"] arg_cong [OF assms, of rt]
    arg_cong [OF assms, of callers] arg_cong [OF assms, of asm_code] by (simp_all add: skeleton_def)

lemma skeleton_cong:
  assumes "skeleton t = skeleton s"
  shows "skeleton (t\<lparr>cur := x\<rparr>) = skeleton (s\<lparr>cur := x\<rparr>)" and "skeleton (t\<lparr>callers := fs\<rparr>) = skeleton (s\<lparr>callers := fs\<rparr>)"
  using assms by (cases s; cases t; simp add: skeleton_def)+

text \<open>A call instruction, given what its handler does up to the call itself.\<close>

lemma step_call:
  assumes c: "conf cap code s (k, st, ls)" and k: "k < length code" and cap: "int (length st) < cap"
    and op: "ins_op (code ! k) = opcode_num i" and call: "vm_calls P cap m f inst args v"
    and p: "realises P (rt s)" and room: "int (length vs) + int m < cap"
    and u: "ready cap u (rev args @ vs)" "cur u = cur (advance (ins_size (code ! k)) s)" "skeleton u = skeleton s"
    and i: "\<And>e. opcodeTable i e (advance 1 s) = ev_call e f inst (int (length args)) u"
  shows "\<exists>t. runs1 s t \<and> conf cap code t (Suc k, v # vs, ls) \<and> skeleton t = skeleton s"
proof -
  have "realises P (rt u)" using p skeletonD(2) [OF u(3)] by simp
  with call u(1) room obtain N t where t: "\<And>e. deep N e \<Longrightarrow> function_execute e f inst (int (length args)) u = Some (True, t)"
    "ready cap t (v # vs)" "cur t = cur u" "skeleton t = skeleton u" unfolding vm_calls_def by blast
  have h: "opcodeTable i e (advance 1 s) = Some (True, t)" if "deep (Suc N) e" for e
    using deep_call [OF that] t(1) i [of e] by metis
  have x: "\<not> has_exception (ctx t)" using t(2) by (simp add: ready_def)
  from conf_step [OF c k op cap h x] have "runs1 s t" .
  moreover have "conf cap code t (Suc k, v # vs, ls)"
    using c t(2,3) u(2) x k by (simp add: address_of_Suc ready_def)
  ultimately show ?thesis using t(4) u(3) by auto
qed

lemma step_call_static:
  assumes c: "conf cap code s (k, rev args @ vs, ls)" and k: "k < length code"
    and op: "code ! k = \<lparr>ins_op = opcode_num OP_CALL_STATIC, ins_args = [f, of_nat (length args)]\<rparr>"
    and n: "length args < 2 ^ 31" and call: "vm_calls P cap m f 0 args v" and p: "realises P (rt s)"
    and room: "int (length vs) + int m < cap" "int (length vs) + int (length args) < cap"
  shows "\<exists>t. runs1 s t \<and> conf cap code t (Suc k, v # vs, ls) \<and> skeleton t = skeleton s"
proof (rule step_call [OF c k _ _ call p room(1), of OP_CALL_STATIC "advance 3 s"])
  have f: "fetch (advance 1 s) = Some (f, advance 2 s)" "fetch (advance 2 s) = Some (of_nat (length args), advance 3 s)"
    using conf_fetch(3) [OF c k, of 0] conf_fetch(3) [OF c k, of 1] op
    by (simp_all add: numeral_2_eq_2 numeral_3_eq_3 del: opcode_num.simps)
  show "opcodeTable OP_CALL_STATIC e (advance 1 s) = ev_call e f 0 (int (length args)) (advance 3 s)" for e
    using f to_int32_small [OF n] by (simp add: opcodeCallStatic_def fetch_int_def)
qed (use c op room in \<open>auto simp: ready_def ins_size_def\<close>)

lemma step_call_this:
  assumes c: "conf cap code s (k, ob # rev args @ vs, ls)" and k: "k < length code"
    and op: "code ! k = \<lparr>ins_op = opcode_num OP_CALL, ins_args = [f, of_nat (length args)]\<rparr>"
    and n: "length args < 2 ^ 31" and call: "vm_calls P cap m f (v_object ob) args v" and p: "realises P (rt s)"
    and room: "int (length vs) + int m < cap" "int (length vs) + int (length args) + 1 < cap"
  shows "\<exists>t. runs1 s t \<and> conf cap code t (Suc k, v # vs, ls) \<and> skeleton t = skeleton s"
proof -
  from c have "vm_ok (advance 1 s)" "opstack (advance 1 s) = ob # rev args @ vs" by simp_all
  from ms.pop_law [OF this] obtain u where u: "pop (advance 1 s) = Some (ob, u)" "vm_ok u"
    "opstack u = rev args @ vs" "vm_rest u = vm_rest (advance 1 s)" by auto
  note r = vm_rest_more [OF u(4)]
  have a: "advance 1 (advance 1 s) = advance 2 s" "advance 1 (advance 2 s) = advance 3 s" by (simp_all add: advance_def)
  have f: "fetch (advance 1 s) = Some (f, advance 1 (advance 1 s))"
    "fetch (advance 1 (advance 1 s)) = Some (of_nat (length args), advance 1 (advance 1 (advance 1 s)))"
    using conf_fetch(3) [OF c k, of 0] conf_fetch(3) [OF c k, of 1] op
    unfolding a by (simp_all add: numeral_2_eq_2 numeral_3_eq_3 del: opcode_num.simps)
  have f1: "fetch u = Some (f, advance 1 u)" by (rule fetch_same [OF f(1) r(1)])
  have f2: "fetch (advance 1 u) = Some (of_nat (length args), advance 1 (advance 1 u))"
    by (rule fetch_same [OF f(2)]) (use r(1) in simp)
  show ?thesis
  proof (rule step_call [OF c k _ _ call p room(1), of OP_CALL "advance 1 (advance 1 u)"])
    show "opcodeTable OP_CALL e (advance 1 s) = ev_call e f (v_object ob) (int (length args)) (advance 1 (advance 1 u))" for e
      using f1 f2 u(1) to_int32_small [OF n] by (simp add: opcodeCall_def fetch_int_def)
  qed (use c op room u r in \<open>auto simp: ready_def ins_size_def\<close>)
qed

section \<open>The machine a compiler relies on\<close>

text \<open>
  \<open>less64\<close> is the order \<open>CMPI\<close> computes, from the sign of the 64-bit difference; \<open>cond_holds\<close> says
  when a test instruction after \<open>CMPI\<close> succeeds, for the left and the right operand.
\<close>

definition less64 :: "u64 \<Rightarrow> u64 \<Rightarrow> bool" where
  "less64 l r \<longleftrightarrow> l \<noteq> r \<and> 0 \<le> sint (r - l)"

lemma less64_sint:
  assumes "- (2 ^ 63) \<le> sint r - sint l" and "sint r - sint l < 2 ^ 63"
  shows "less64 l r \<longleftrightarrow> sint l < sint r"
  using sint_diff_in_range [of r l] assms sint_inject64 [of l r] by (auto simp: less64_def)

fun cond_holds :: "opcode \<Rightarrow> u64 \<Rightarrow> u64 \<Rightarrow> bool" where
  "cond_holds OP_PUSHCE l r \<longleftrightarrow> l = r"
| "cond_holds OP_PUSHCNE l r \<longleftrightarrow> l \<noteq> r"
| "cond_holds OP_PUSHCL l r \<longleftrightarrow> less64 l r"
| "cond_holds OP_PUSHCLE l r \<longleftrightarrow> l = r \<or> less64 l r"
| "cond_holds OP_PUSHCG l r \<longleftrightarrow> \<not> (l = r \<or> less64 l r)"
| "cond_holds OP_PUSHCGE l r \<longleftrightarrow> \<not> less64 l r"
| "cond_holds OP_BEQ l r \<longleftrightarrow> l = r"
| "cond_holds OP_BNE l r \<longleftrightarrow> l \<noteq> r"
| "cond_holds OP_BG l r \<longleftrightarrow> \<not> (l = r \<or> less64 l r)"
| "cond_holds OP_BGE l r \<longleftrightarrow> \<not> less64 l r"
| "cond_holds _ l r \<longleftrightarrow> False"

definition cond_pushes :: "opcode list" where
  "cond_pushes = [OP_PUSHCE, OP_PUSHCNE, OP_PUSHCL, OP_PUSHCLE, OP_PUSHCG, OP_PUSHCGE]"

definition cond_branches :: "opcode list" where
  "cond_branches = [OP_BEQ, OP_BNE, OP_BG, OP_BGE]"

locale instruction_machine =
  fixes runs :: "icode \<Rightarrow> config \<Rightarrow> config \<Rightarrow> bool"
    and calls :: "nat \<Rightarrow> ptr \<Rightarrow> ptr \<Rightarrow> Value list \<Rightarrow> Value \<Rightarrow> bool"
    and P :: program
    and cap :: int
  assumes runs_refl: "runs code c c"
    and runs_trans: "runs code c c1 \<Longrightarrow> runs code c1 c' \<Longrightarrow> runs code c c'"
    and runs_push: "k < length code \<Longrightarrow> code ! k = ins OP_PUSHI [w] \<Longrightarrow> int (length vs) < cap
      \<Longrightarrow> runs code (k, vs, ls) (Suc k, mk_int w # vs, ls)"
    and runs_load: "k < length code \<Longrightarrow> code ! k = ins OP_LOAD_VAR [w] \<Longrightarrow> int (length vs) < cap
      \<Longrightarrow> idx ls (to_int32 w) = Some v \<Longrightarrow> runs code (k, vs, ls) (Suc k, v # vs, ls)"
    and runs_store: "k < length code \<Longrightarrow> code ! k = ins OP_STORE_VAR [w] \<Longrightarrow> int (length vs) + 1 < cap
      \<Longrightarrow> upd ls (to_int32 w) v = Some ls' \<Longrightarrow> runs code (k, v # vs, ls) (Suc k, vs, ls')"
    and runs_inc: "k < length code \<Longrightarrow> code ! k = ins OP_INC_VAR [w, n] \<Longrightarrow> int (length vs) < cap
      \<Longrightarrow> idx ls (to_int32 w) = Some v \<Longrightarrow> upd ls (to_int32 w) (v\<lparr>v_bits := v_bits v + n\<rparr>) = Some ls'
      \<Longrightarrow> runs code (k, vs, ls) (Suc k, vs, ls')"
    and runs_binop: "k < length code \<Longrightarrow> code ! k = ins i [] \<Longrightarrow> int_binop i = Some iop
      \<Longrightarrow> (i \<in> set tagged_ops \<Longrightarrow> both_ints a b) \<Longrightarrow> iop (v_bits a) (v_bits b) = Some w \<Longrightarrow> int (length vs) + 2 < cap
      \<Longrightarrow> runs code (k, a # b # vs, ls) (Suc k, mk_int w # vs, ls)"
    and runs_not: "k < length code \<Longrightarrow> code ! k = ins i [] \<Longrightarrow> i \<in> {OP_NOT, OP_NOTI} \<Longrightarrow> int (length vs) + 1 < cap
      \<Longrightarrow> runs code (k, a # vs, ls) (Suc k, mk_int (int_not (v_bits a)) # vs, ls)"
    and runs_pop: "k < length code \<Longrightarrow> code ! k = ins OP_POP [] \<Longrightarrow> int (length vs) + 1 < cap
      \<Longrightarrow> runs code (k, v # vs, ls) (Suc k, vs, ls)"
    and runs_cmp_push: "Suc k < length code \<Longrightarrow> code ! k = ins j [] \<Longrightarrow> comparable j a b \<Longrightarrow> code ! Suc k = ins i []
      \<Longrightarrow> i \<in> set cond_pushes \<Longrightarrow> int (length vs) + 2 < cap
      \<Longrightarrow> runs code (k, a # b # vs, ls)
            (Suc (Suc k), mk_int (if cond_holds i (v_bits a) (v_bits b) then 1 else 0) # vs, ls)"
    and runs_cmp_branch: "Suc k < length code \<Longrightarrow> code ! k = ins j [] \<Longrightarrow> comparable j a b \<Longrightarrow> code ! Suc k = ins i [of_nat d]
      \<Longrightarrow> i \<in> set cond_branches \<Longrightarrow> d \<le> length code \<Longrightarrow> int (length vs) + 2 < cap
      \<Longrightarrow> runs code (k, a # b # vs, ls)
            (if cond_holds i (v_bits a) (v_bits b) then d else Suc (Suc k), vs, ls)"
    and runs_jump: "k < length code \<Longrightarrow> code ! k = ins OP_JMP [of_nat d] \<Longrightarrow> d \<le> length code
      \<Longrightarrow> int (length vs) < cap \<Longrightarrow> runs code (k, vs, ls) (d, vs, ls)"
    and runs_call_static: "k < length code \<Longrightarrow> code ! k = ins OP_CALL_STATIC [f, of_nat (length args)]
      \<Longrightarrow> length args < 2 ^ 31 \<Longrightarrow> calls m f 0 args v \<Longrightarrow> int (length vs) + int m < cap
      \<Longrightarrow> int (length vs) + int (length args) < cap \<Longrightarrow> runs code (k, rev args @ vs, ls) (Suc k, v # vs, ls)"
    and runs_call_this: "k < length code \<Longrightarrow> code ! k = ins OP_CALL [f, of_nat (length args)]
      \<Longrightarrow> length args < 2 ^ 31 \<Longrightarrow> calls m f (v_object ob) args v \<Longrightarrow> int (length vs) + int m < cap
      \<Longrightarrow> int (length vs) + int (length args) + 1 < cap \<Longrightarrow> runs code (k, ob # rev args @ vs, ls) (Suc k, v # vs, ls)"
    and calls_run: "P f = Some (code, Suc slots) \<Longrightarrow> length args \<le> slots \<Longrightarrow> 2 \<le> m
      \<Longrightarrow> (\<And>fr vs. int (length vs) + int m < cap \<Longrightarrow> \<exists>q ls. q < length code \<and> code ! q = ins OP_RETURN []
            \<and> runs code (0, fr # vs, mk_object inst # args @ replicate (slots - length args) zero_value) (q, v # fr # vs, ls))
      \<Longrightarrow> calls m f inst args v"

text \<open>Iterating \<open>Executor::run\<close>'s loop provides it: nothing but the configuration changes.\<close>

definition vm_runs :: "program \<Rightarrow> int \<Rightarrow> icode \<Rightarrow> config \<Rightarrow> config \<Rightarrow> bool" where
  "vm_runs P cap code c c' \<longleftrightarrow> (\<forall>s. conf cap code s c \<and> realises P (rt s) \<longrightarrow>
     (\<exists>t. reaches s t \<and> conf cap code t c' \<and> skeleton t = skeleton s))"

lemma vm_runsE:
  assumes "vm_runs P cap code c c'" and "conf cap code s c" and "realises P (rt s)"
  obtains t where "reaches s t" and "conf cap code t c'" and "skeleton t = skeleton s"
  using assms unfolding vm_runs_def by blast

lemma vm_runs_one:
  assumes "\<And>s. conf cap code s c \<Longrightarrow> realises P (rt s) \<Longrightarrow>
    \<exists>t. runs1 s t \<and> conf cap code t c' \<and> skeleton t = skeleton s"
  shows "vm_runs P cap code c c'"
  using assms runs1_reaches unfolding vm_runs_def by blast

lemma vm_runs_trans:
  assumes "vm_runs P cap code c d" and "vm_runs P cap code d c'"
  shows "vm_runs P cap code c c'"
  unfolding vm_runs_def
proof (intro allI impI, elim conjE)
  fix s assume s: "conf cap code s c" "realises P (rt s)"
  from vm_runsE [OF assms(1) s] obtain t where t: "reaches s t" "conf cap code t d" "skeleton t = skeleton s" .
  have "realises P (rt t)" using s(2) skeletonD(2) [OF t(3)] by simp
  from vm_runsE [OF assms(2) t(2) this] obtain u where "reaches t u" "conf cap code u c'" "skeleton u = skeleton t" .
  with t show "\<exists>t. reaches s t \<and> conf cap code t c' \<and> skeleton t = skeleton s"
    using reaches_trans by metis
qed

lemma vm_runs_cmp:
  assumes "k < length code" and "code ! k = ins j []" and "comparable j a b" and "int (length vs) + 2 < cap"
    and "\<And>s. conf cap code s (Suc k, vs, ls) \<Longrightarrow> flags_ok (cur s) \<Longrightarrow> fr_zero (cur s) = (v_bits a = v_bits b)
      \<Longrightarrow> fr_sign (cur s) = (sint (v_bits b - v_bits a) < 0)
      \<Longrightarrow> \<exists>t. runs1 s t \<and> conf cap code t c' \<and> skeleton t = skeleton s"
  shows "vm_runs P cap code (k, a # b # vs, ls) c'"
  unfolding vm_runs_def
proof (intro allI impI, elim conjE)
  fix s assume "conf cap code s (k, a # b # vs, ls)"
  from step_cmp [OF this assms(1,4,2,3)] obtain t where t: "runs1 s t" "skeleton t = skeleton s"
    "conf cap code t (Suc k, vs, ls)" "flags_ok (cur t)" "fr_zero (cur t) = (v_bits a = v_bits b)"
    "fr_sign (cur t) = (sint (v_bits b - v_bits a) < 0)" by blast
  from assms(5) [OF t(3-6)] obtain u where "runs1 t u" "conf cap code u c'" "skeleton u = skeleton t"
    by blast
  with t(1,2) show "\<exists>t. reaches s t \<and> conf cap code t c' \<and> skeleton t = skeleton s"
    using reaches_trans [OF runs1_reaches runs1_reaches] by metis
qed

lemma push_cond_case:
  assumes "i \<in> set cond_pushes"
  obtains q where "\<And>e u. opcodeTable i e u = push_cond q u"
    and "\<And>f g. fr_zero f = fr_zero g \<Longrightarrow> fr_sign f = fr_sign g \<Longrightarrow> fr_overflow f = fr_overflow g \<Longrightarrow> q f = q g"
    and "\<And>f l r. flags_ok f \<Longrightarrow> fr_zero f = (l = r) \<Longrightarrow> fr_sign f = (sint (r - l) < 0) \<Longrightarrow> q f = cond_holds i l r"
proof -
  note d = opcodePushCE_def opcodePushCNE_def opcodePushCL_def opcodePushCLE_def opcodePushCG_def opcodePushCGE_def
  from assms consider "i = OP_PUSHCE" | "i = OP_PUSHCNE" | "i = OP_PUSHCL" | "i = OP_PUSHCLE"
    | "i = OP_PUSHCG" | "i = OP_PUSHCGE" by (auto simp: cond_pushes_def)
  then show thesis
  proof cases
    case 1 show thesis by (rule that [of cond_E]) (auto simp: 1 d cond_defs)
  next
    case 2 show thesis by (rule that [of cond_NE]) (auto simp: 2 d cond_defs)
  next
    case 3 show thesis by (rule that [of cond_L]) (auto simp: 3 d flags_ok_conds less64_def, auto simp: cond_defs)
  next
    case 4 show thesis by (rule that [of cond_LE]) (auto simp: 4 d flags_ok_conds less64_def, auto simp: cond_defs)
  next
    case 5 show thesis by (rule that [of cond_G]) (auto simp: 5 d flags_ok_conds less64_def, auto simp: cond_defs)
  next
    case 6 show thesis by (rule that [of cond_GE]) (auto simp: 6 d flags_ok_conds less64_def, auto simp: cond_defs)
  qed
qed

lemma branch_case:
  assumes "i \<in> set cond_branches"
  obtains q where "\<And>e u. opcodeTable i e u = branch q u" and "info_address (opcode_info i) = 0"
    and "\<And>f g. fr_zero f = fr_zero g \<Longrightarrow> fr_sign f = fr_sign g \<Longrightarrow> fr_overflow f = fr_overflow g \<Longrightarrow> q f = q g"
    and "\<And>f l r. flags_ok f \<Longrightarrow> fr_zero f = (l = r) \<Longrightarrow> fr_sign f = (sint (r - l) < 0) \<Longrightarrow> q f = cond_holds i l r"
proof -
  note d = opcodeBEq_def opcodeBNE_def opcodeBG_def opcodeBGE_def
  from assms consider "i = OP_BEQ" | "i = OP_BNE" | "i = OP_BG" | "i = OP_BGE" by (auto simp: cond_branches_def)
  then show thesis
  proof cases
    case 1 show thesis by (rule that [of cond_E]) (auto simp: 1 d cond_defs)
  next
    case 2 show thesis by (rule that [of cond_NE]) (auto simp: 2 d cond_defs)
  next
    case 3 show thesis by (rule that [of cond_G]) (auto simp: 3 d flags_ok_conds less64_def, auto simp: cond_defs)
  next
    case 4 show thesis by (rule that [of cond_GE]) (auto simp: 4 d flags_ok_conds less64_def, auto simp: cond_defs)
  qed
qed

lemma vm_runs_cmp_push:
  assumes "Suc k < length code" and "code ! k = ins j []" and "comparable j a b" and "code ! Suc k = ins i []"
    and "i \<in> set cond_pushes" and "int (length vs) + 2 < cap"
  shows "vm_runs P cap code (k, a # b # vs, ls)
    (Suc (Suc k), mk_int (if cond_holds i (v_bits a) (v_bits b) then 1 else 0) # vs, ls)"
proof -
  obtain q where q: "\<And>e u. opcodeTable i e u = push_cond q u"
    "\<And>f g. fr_zero f = fr_zero g \<Longrightarrow> fr_sign f = fr_sign g \<Longrightarrow> fr_overflow f = fr_overflow g \<Longrightarrow> q f = q g"
    "\<And>f l r. flags_ok f \<Longrightarrow> fr_zero f = (l = r) \<Longrightarrow> fr_sign f = (sint (r - l) < 0) \<Longrightarrow> q f = cond_holds i l r"
    using push_cond_case [OF assms(5)] by blast
  have k: "k < length code" and cap: "int (length vs) < cap" using assms by simp_all
  show ?thesis
  proof (rule vm_runs_cmp [OF k assms(2,3,6)])
    fix s assume s: "conf cap code s (Suc k, vs, ls)" "flags_ok (cur s)" "fr_zero (cur s) = (v_bits a = v_bits b)"
      "fr_sign (cur s) = (sint (v_bits b - v_bits a) < 0)"
    have h: "q (cur s) = cond_holds i (v_bits a) (v_bits b)" using q(3) s(2-4) by blast
    have "\<exists>t. runs1 s t \<and> skeleton t = skeleton s
        \<and> conf cap code t (Suc (Suc k), mk_int (if q (cur s) then 1 else 0) # vs, ls)"
      by (rule step_push_cond [OF s(1) assms(1) cap assms(4)]) (rule q(1), rule q(2))
    then show "\<exists>t. runs1 s t \<and> conf cap code t
        (Suc (Suc k), mk_int (if cond_holds i (v_bits a) (v_bits b) then 1 else 0) # vs, ls) \<and> skeleton t = skeleton s"
      unfolding h by blast
  qed
qed

lemma vm_runs_cmp_branch:
  assumes "Suc k < length code" and "code ! k = ins j []" and "comparable j a b" and "code ! Suc k = ins i [of_nat d]"
    and "i \<in> set cond_branches" and "d \<le> length code" and "int (length vs) + 2 < cap"
  shows "vm_runs P cap code (k, a # b # vs, ls)
    (if cond_holds i (v_bits a) (v_bits b) then d else Suc (Suc k), vs, ls)"
proof -
  obtain q where q: "\<And>e u. opcodeTable i e u = branch q u" "info_address (opcode_info i) = 0"
    "\<And>f g. fr_zero f = fr_zero g \<Longrightarrow> fr_sign f = fr_sign g \<Longrightarrow> fr_overflow f = fr_overflow g \<Longrightarrow> q f = q g"
    "\<And>f l r. flags_ok f \<Longrightarrow> fr_zero f = (l = r) \<Longrightarrow> fr_sign f = (sint (r - l) < 0) \<Longrightarrow> q f = cond_holds i l r"
    using branch_case [OF assms(5)] by blast
  have k: "k < length code" and cap: "int (length vs) < cap" using assms by simp_all
  show ?thesis
  proof (rule vm_runs_cmp [OF k assms(2,3,7)])
    fix s assume s: "conf cap code s (Suc k, vs, ls)" "flags_ok (cur s)" "fr_zero (cur s) = (v_bits a = v_bits b)"
      "fr_sign (cur s) = (sint (v_bits b - v_bits a) < 0)"
    have h: "q (cur s) = cond_holds i (v_bits a) (v_bits b)" using q(4) s(2-4) by blast
    have "\<exists>t. runs1 s t \<and> skeleton t = skeleton s
        \<and> conf cap code t (if q (cur s) then d else Suc (Suc k), vs, ls)"
      by (rule step_branch [OF s(1) assms(1) cap assms(4,6) q(2)]) (rule q(1), rule q(3))
    then show "\<exists>t. runs1 s t \<and> conf cap code t
        (if cond_holds i (v_bits a) (v_bits b) then d else Suc (Suc k), vs, ls) \<and> skeleton t = skeleton s"
      unfolding h by blast
  qed
qed

text \<open>Calling a function runs its code in a frame of its own, up to its \<open>RETURN\<close>.\<close>

lemma return_step:
  assumes c: "conf cap code s (k, r # f # vs, ls)" and k: "k < length code" and cap: "int (length vs) + 2 < cap"
    and op: "code ! k = ins OP_RETURN []" and f: "v_type f = VALUE_FRAME" "v_bits f = frame_ptr s"
  shows "\<exists>t. runs1 s t \<and> ready cap t (r # vs) \<and> \<not> fr_running (cur t) \<and> skeleton (t\<lparr>cur := x\<rparr>) = skeleton (s\<lparr>cur := x\<rparr>)"
proof -
  from c have "vm_ok (advance 1 s)" "opstack (advance 1 s) = r # f # vs" by simp_all
  moreover have "v_bits f = frame_ptr (advance 1 s)" using f by (simp add: frame_ptr_def advance_def)
  ultimately obtain t where t: "opcodeReturn (advance 1 s) = Some (True, t)" "vm_ok t" "opstack t = r # vs"
    "\<not> fr_running (cur t)" "vm_rest t = vm_rest ((advance 1 s)\<lparr>cur := cur t\<rparr>)"
    using opcodeReturn_effect [of "advance 1 s" r f vs] f(1) by blast
  note v = vm_rest_more [OF t(5)]
  have h: "opcodeTable OP_RETURN e (advance 1 s) = Some (True, t)" for e using t(1) by simp
  have x: "\<not> has_exception (ctx t)" using v(2) c by simp
  from cap have "int (length (r # f # vs)) < cap" by simp
  from conf_step [OF c k _ this h x] op have "runs1 s t" by simp
  moreover have "ready cap t (r # vs)" using c t(2,3) v(2-4) by (simp add: ready_def)
  moreover have "skeleton (t\<lparr>cur := x\<rparr>) = skeleton (s\<lparr>cur := x\<rparr>)"
    using vm_rest_more(5) [OF vm_rest_cur [OF t(5), of x]] by (simp add: advance_def)
  ultimately show ?thesis using t(4) by blast
qed

lemma reaches_return:
  assumes "reaches s t" and "\<not> fr_running (cur t)"
  shows "\<exists>N. \<forall>e. deep N e \<longrightarrow> run_loop e (ev_steps e) True s = Some (True, t)"
proof -
  from assms(1) obtain N n where n: "\<And>e. deep N e \<Longrightarrow> exec_n e n s = Some t" unfolding reaches_def by blast
  have "run_loop e (ev_steps e) True s = Some (True, t)" if e: "deep (max N n) e" for e
  proof -
    have le: "n \<le> ev_steps e" using deep_steps [OF e] by simp
    have "exec_n e n s = Some t" by (rule n [OF deep_mono [OF e]]) simp
    from exec_n_run_loop [OF this, of "ev_steps e - n"] le have "run_loop e (ev_steps e) True s = run_loop e (ev_steps e - n) True t"
      by simp
    also have "\<dots> = Some (True, t)" using assms(2) by (cases "ev_steps e - n") (simp_all add: loop_condition_def)
    finally show ?thesis .
  qed
  then show ?thesis by blast
qed

lemma enter_frame:
  assumes s: "ready cap s (rev args @ vs)" and l: "link code = Some (ac_code ac)" "code_words code < 2 ^ 31"
    and n: "ac_localVars ac = int (Suc n)" "length args \<le> n" and cap: "int (length vs) + 1 < cap"
  obtains s1 s2 fr where "new_frame ac inst = Some fr"
    and "store_args (length args) (s\<lparr>cur := fr, callers := cur s # callers s\<rparr>) = Some s1"
    and "push \<lparr>v_type = VALUE_FRAME, v_bits = frame_ptr s1\<rparr> s1 = Some s2"
    and "conf cap code s2 (0, \<lparr>v_type = VALUE_FRAME, v_bits = frame_ptr s2\<rparr> # vs,
      mk_object inst # args @ replicate (n - length args) zero_value)"
    and "skeleton (s2\<lparr>cur := x, callers := callers s\<rparr>) = skeleton (s\<lparr>cur := x\<rparr>)" and "rt s2 = rt s"
proof -
  define fr where "fr = \<lparr>fr_code = ac, fr_running = True, fr_pc = 0, fr_zero = False, fr_sign = False,
     fr_overflow = False, fr_localVars = mk_object inst # replicate n zero_value, handlerStack = []\<rparr>"
  have "nat (ac_localVars ac) = Suc n" using n by simp
  then have f: "new_frame ac inst = Some fr"
    using upd_nat [of "replicate (Suc n) zero_value" 0] by (simp add: new_frame_def fr_def)
  let ?s = "s\<lparr>cur := fr, callers := cur s # callers s\<rparr>"
  have "vm_ok ?s" "opstack ?s = rev args @ vs" "length args < length (fr_localVars (cur ?s))"
    using s n(2) by (simp_all add: ready_def fr_def)
  from store_args_effect [OF this(1,2) refl this(3)] obtain s1
    where s1: "store_args (length args) ?s = Some s1" "vm_ok s1" "opstack s1 = vs"
    "fr_localVars (cur s1) = mk_object inst # args @ replicate (n - length args) zero_value"
    "vm_rest s1 = vm_rest (?s\<lparr>cur := cur s1\<rparr>)" "cur s1 = fr\<lparr>fr_localVars := fr_localVars (cur s1)\<rparr>"
    by (auto simp: fr_def)
  note r1 = vm_rest_more [OF s1(5)]
  have "0 < vm_room s1"
    using s cap stackPos_opstack [OF s1(2)] r1(3,4) s1(3) by (simp add: ready_def vm_room_def ctx_room_def)
  from ms.push_law [OF s1(2) this, of "\<lparr>v_type = VALUE_FRAME, v_bits = frame_ptr s1\<rparr>"] obtain s2
    where s2: "push \<lparr>v_type = VALUE_FRAME, v_bits = frame_ptr s1\<rparr> s1 = Some s2" "vm_ok s2"
    "opstack s2 = \<lparr>v_type = VALUE_FRAME, v_bits = frame_ptr s1\<rparr> # vs" "vm_rest s2 = vm_rest s1"
    using s1(3) by auto
  note r2 = vm_rest_more [OF s2(4)]
  have p: "frame_ptr s2 = frame_ptr s1" by (rule vm_restD(6) [OF s2(4)])
  have e: "cur s2 = fr\<lparr>fr_localVars := mk_object inst # args @ replicate (n - length args) zero_value\<rparr>"
    using r2(1) s1(4,6) by simp
  have c: "conf cap code s2 (0, \<lparr>v_type = VALUE_FRAME, v_bits = frame_ptr s2\<rparr> # vs,
      mk_object inst # args @ replicate (n - length args) zero_value)"
    unfolding p using s s2(2,3) r2(2-4) r1(2-4) l by (simp add: e fr_def address_of_def ready_def)
  have r: "vm_rest s2 = vm_rest (?s\<lparr>cur := cur s1\<rparr>)" using s2(4) s1(5) by simp
  have "vm_rest (s2\<lparr>cur := x\<rparr>) = vm_rest (?s\<lparr>cur := x\<rparr>)" using vm_rest_cur [OF r, of x] by simp
  then have k: "skeleton (s2\<lparr>cur := x\<rparr>) = skeleton (?s\<lparr>cur := x\<rparr>)" by (rule vm_rest_more(5))
  have "skeleton (s2\<lparr>cur := x, callers := callers s\<rparr>) = skeleton (s\<lparr>cur := x\<rparr>)"
    using skeleton_cong(2) [OF k, of "callers s"] by simp
  moreover have "rt s2 = rt s" using vm_restD(3) [OF r] by simp
  ultimately show thesis by (rule that [OF f s1(1) s2(1) c])
qed

lemma vm_calls_run:
  assumes f: "P f = Some (code, Suc n)" and n: "length args \<le> n" and m: "2 \<le> m"
    and body: "\<And>fr vs. int (length vs) + int m < cap \<Longrightarrow> \<exists>q ls. q < length code \<and> code ! q = ins OP_RETURN []
      \<and> vm_runs P cap code (0, fr # vs, mk_object inst # args @ replicate (n - length args) zero_value) (q, v # fr # vs, ls)"
  shows "vm_calls P cap m f inst args v"
  unfolding vm_calls_def
proof (intro allI impI, elim conjE)
  fix s vs assume s: "ready cap s (rev args @ vs)" and p: "realises P (rt s)" and cap: "int (length vs) + int m < cap"
  from p f obtain fn blk ac where fn: "rt_func (rt s) f = Some fn" "fn_kind fn = ScriptFunction blk (Some ac)"
    and ac: "link code = Some (ac_code ac)" "code_words code < 2 ^ 31" "ac_localVars ac = int (Suc n)"
    unfolding realises_def by blast
  have cap': "int (length vs) + 1 < cap" using cap m by simp
  obtain s1 s2 fr where fr: "new_frame ac inst = Some fr"
    and st: "store_args (length args) (s\<lparr>cur := fr, callers := cur s # callers s\<rparr>) = Some s1"
    and pu: "push \<lparr>v_type = VALUE_FRAME, v_bits = frame_ptr s1\<rparr> s1 = Some s2"
    and c2: "conf cap code s2 (0, \<lparr>v_type = VALUE_FRAME, v_bits = frame_ptr s2\<rparr> # vs,
      mk_object inst # args @ replicate (n - length args) zero_value)"
    and k2: "skeleton (s2\<lparr>cur := cur s, callers := callers s\<rparr>) = skeleton s" "rt s2 = rt s"
    by (rule enter_frame [OF s ac n cap', where inst = inst and x = "cur s"]) auto
  let ?f = "\<lparr>v_type = VALUE_FRAME, v_bits = frame_ptr s2\<rparr>"
  from body [OF cap, of ?f] obtain q ls where q: "q < length code" "code ! q = ins OP_RETURN []"
    and b: "vm_runs P cap code (0, ?f # vs, mk_object inst # args @ replicate (n - length args) zero_value)
      (q, v # ?f # vs, ls)" by blast
  from vm_runsE [OF b c2] k2(2) p obtain u where u: "reaches s2 u" "conf cap code u (q, v # ?f # vs, ls)"
    "skeleton u = skeleton s2" by auto
  have "frame_ptr u = frame_ptr s2" using skeletonD(3) [OF u(3)] by (simp add: frame_ptr_def)
  with return_step [OF u(2) q(1) _ q(2), of "cur s"] cap m obtain w where w: "runs1 u w" "ready cap w (v # vs)"
    "\<not> fr_running (cur w)" "skeleton (w\<lparr>cur := cur s\<rparr>) = skeleton (u\<lparr>cur := cur s\<rparr>)" by auto
  from reaches_return [OF reaches_trans [OF u(1) runs1_reaches [OF w(1)]] w(3)] obtain N
    where N: "\<And>e. deep N e \<Longrightarrow> run_loop e (ev_steps e) True s2 = Some (True, w)" by blast
  let ?t = "w\<lparr>cur := cur s, callers := callers s\<rparr>"
  have "function_execute e f inst (int (length args)) s = Some (True, ?t)" if "deep N e" for e
    using N [OF that] fr st pu fn by (simp add: function_execute_def script_execute_def run_def)
  moreover have "ready cap ?t (v # vs)" using w(2) by (simp add: ready_def)
  moreover have "skeleton ?t = skeleton s"
  proof -
    from w(4) skeleton_cong(1) [OF u(3), of "cur s"] have "skeleton (w\<lparr>cur := cur s\<rparr>) = skeleton (s2\<lparr>cur := cur s\<rparr>)" by simp
    from skeleton_cong(2) [OF this, of "callers s"] k2(1) show ?thesis by simp
  qed
  ultimately show "\<exists>N t. (\<forall>e. deep N e \<longrightarrow> function_execute e f inst (int (length args)) s = Some (True, t))
      \<and> ready cap t (v # vs) \<and> cur t = cur s \<and> skeleton t = skeleton s"
    by (intro exI [of _ N] exI [of _ ?t]) auto
qed

interpretation im: instruction_machine "vm_runs P cap" "vm_calls P cap" P cap for P cap
proof unfold_locales
  show "vm_runs P cap code c c" for code c
    unfolding vm_runs_def using reaches_refl by blast
  show "vm_runs P cap code c c1 \<Longrightarrow> vm_runs P cap code c1 c' \<Longrightarrow> vm_runs P cap code c c'" for code c c1 c'
    by (rule vm_runs_trans)
  show "k < length code \<Longrightarrow> code ! k = ins OP_PUSHI [w] \<Longrightarrow> int (length vs) < cap
      \<Longrightarrow> vm_runs P cap code (k, vs, ls) (Suc k, mk_int w # vs, ls)" for k code w vs ls
    by (rule vm_runs_one) (rule step_push)
  show "k < length code \<Longrightarrow> code ! k = ins OP_LOAD_VAR [w] \<Longrightarrow> int (length vs) < cap
      \<Longrightarrow> idx ls (to_int32 w) = Some v \<Longrightarrow> vm_runs P cap code (k, vs, ls) (Suc k, v # vs, ls)" for k code w vs ls v
    by (rule vm_runs_one) (rule step_load)
  show "k < length code \<Longrightarrow> code ! k = ins OP_STORE_VAR [w] \<Longrightarrow> int (length vs) + 1 < cap
      \<Longrightarrow> upd ls (to_int32 w) v = Some ls' \<Longrightarrow> vm_runs P cap code (k, v # vs, ls) (Suc k, vs, ls')"
    for k code w vs ls ls' v
    by (rule vm_runs_one) (rule step_store)
  show "k < length code \<Longrightarrow> code ! k = ins OP_INC_VAR [w, n] \<Longrightarrow> int (length vs) < cap
      \<Longrightarrow> idx ls (to_int32 w) = Some v \<Longrightarrow> upd ls (to_int32 w) (v\<lparr>v_bits := v_bits v + n\<rparr>) = Some ls'
      \<Longrightarrow> vm_runs P cap code (k, vs, ls) (Suc k, vs, ls')" for k code w n vs ls ls' v
    by (rule vm_runs_one) (rule step_inc)
  show "vm_runs P cap code (k, a # b # vs, ls) (Suc k, mk_int w # vs, ls)"
    if "k < length code" "code ! k = ins i []" "int_binop i = Some iop" "i \<in> set tagged_ops \<Longrightarrow> both_ints a b"
      "iop (v_bits a) (v_bits b) = Some w" "int (length vs) + 2 < cap" for k code i iop vs a b ls w
  proof (rule vm_runs_one, rule step_int [where i = i and iop = iop])
    show "opcodeTable i e (advance 1 s) = int_handler iop (advance 1 s)" if "conf cap code s (k, a # b # vs, ls)" for s e
      by (rule int_binop_table) (use that \<open>int_binop i = Some iop\<close> \<open>i \<in> set tagged_ops \<Longrightarrow> both_ints a b\<close> in simp_all)
  qed (use that in simp_all)
  show "vm_runs P cap code (k, a # vs, ls) (Suc k, mk_int (int_not (v_bits a)) # vs, ls)"
    if "k < length code" "code ! k = ins i []" "i \<in> {OP_NOT, OP_NOTI}" "int (length vs) + 1 < cap" for k code i vs a ls
    by (rule vm_runs_one, rule step_not) (use that in simp_all)
  show "vm_runs P cap code (k, v # vs, ls) (Suc k, vs, ls)"
    if "k < length code" "code ! k = ins OP_POP []" "int (length vs) + 1 < cap" for k code v vs ls
    by (rule vm_runs_one, rule step_pop) (use that in simp_all)
  show "Suc k < length code \<Longrightarrow> code ! k = ins j [] \<Longrightarrow> comparable j a b \<Longrightarrow> code ! Suc k = ins i []
      \<Longrightarrow> i \<in> set cond_pushes \<Longrightarrow> int (length vs) + 2 < cap
      \<Longrightarrow> vm_runs P cap code (k, a # b # vs, ls)
            (Suc (Suc k), mk_int (if cond_holds i (v_bits a) (v_bits b) then 1 else 0) # vs, ls)"
    for k code j i vs a b ls
    by (rule vm_runs_cmp_push)
  show "Suc k < length code \<Longrightarrow> code ! k = ins j [] \<Longrightarrow> comparable j a b \<Longrightarrow> code ! Suc k = ins i [of_nat d]
      \<Longrightarrow> i \<in> set cond_branches \<Longrightarrow> d \<le> length code \<Longrightarrow> int (length vs) + 2 < cap
      \<Longrightarrow> vm_runs P cap code (k, a # b # vs, ls)
            (if cond_holds i (v_bits a) (v_bits b) then d else Suc (Suc k), vs, ls)"
    for k code j i d vs a b ls
    by (rule vm_runs_cmp_branch)
  show "k < length code \<Longrightarrow> code ! k = ins OP_JMP [of_nat d] \<Longrightarrow> d \<le> length code
      \<Longrightarrow> int (length vs) < cap \<Longrightarrow> vm_runs P cap code (k, vs, ls) (d, vs, ls)" for k code d vs ls
  proof (rule vm_runs_one)
    fix s assume a: "k < length code" "code ! k = ins OP_JMP [of_nat d]" "d \<le> length code" "int (length vs) < cap"
      and s: "conf cap code s (k, vs, ls)"
    have "\<exists>t. runs1 s t \<and> skeleton t = skeleton s
        \<and> conf cap code t (if True then d else Suc k, vs, ls)"
      by (rule step_branch [OF s a(1,4,2,3)]) (simp_all add: opcodeJmp_def)
    then show "\<exists>t. runs1 s t \<and> conf cap code t (d, vs, ls) \<and> skeleton t = skeleton s"
      unfolding if_True by blast
  qed
  show "vm_runs P cap code (k, rev args @ vs, ls) (Suc k, v # vs, ls)"
    if "k < length code" "code ! k = ins OP_CALL_STATIC [f, of_nat (length args)]" "length args < 2 ^ 31"
      "vm_calls P cap m f 0 args v" "int (length vs) + int m < cap" "int (length vs) + int (length args) < cap"
    for k code f args m v vs ls
    by (rule vm_runs_one) (rule step_call_static [OF _ that(1-4) _ that(5,6)])
  show "vm_runs P cap code (k, ob # rev args @ vs, ls) (Suc k, v # vs, ls)"
    if "k < length code" "code ! k = ins OP_CALL [f, of_nat (length args)]" "length args < 2 ^ 31"
      "vm_calls P cap m f (v_object ob) args v" "int (length vs) + int m < cap"
      "int (length vs) + int (length args) + 1 < cap" for k code f args m ob v vs ls
    by (rule vm_runs_one) (rule step_call_this [OF _ that(1-4) _ that(5,6)])
  show "vm_calls P cap m f inst args v" if "P f = Some (code, Suc n)" "length args \<le> n" "2 \<le> m"
      "\<And>fr vs. int (length vs) + int m < cap \<Longrightarrow> \<exists>q ls. q < length code \<and> code ! q = ins OP_RETURN []
        \<and> vm_runs P cap code (0, fr # vs, mk_object inst # args @ replicate (n - length args) zero_value) (q, v # fr # vs, ls)"
    for f code n args m v inst
    by (rule vm_calls_run [OF that])
qed

end
