(* ===== verification/Meaning.thy ===== *)
theory Meaning
  imports Stepping
begin

text \<open>
  What a program of the integer fragment of the language means, and the code the assembler emits for
  it. The fragment has literals, local variables, the arithmetic, comparison and logical operators,
  calls of functions of the same class, assignment, \<open>++\<close> and \<open>--\<close>, \<open>if\<close>, \<open>for\<close> and \<open>while\<close> (a \<open>for\<close> without
  its first and third part), \<open>return\<close>, and calls as statements.
\<close>

section \<open>Operators\<close>

text \<open>The slot \<open>Assembler::load\<close> and \<open>store\<close> use for a name.\<close>

definition local_id :: "scope \<Rightarrow> wstring \<Rightarrow> int" where
  "local_id sc x = (if x = wstr ''this'' then 0 else scope_var sc x)"

definition slot_ok :: "int \<Rightarrow> bool" where
  "slot_ok i \<longleftrightarrow> 0 \<le> i \<and> i < 2 ^ 31"

definition truth :: "bool \<Rightarrow> u64" where
  "truth b = (if b then 1 else 0)"

fun apply_op :: "OpType \<Rightarrow> u64 \<Rightarrow> u64 \<Rightarrow> u64 option" where
  "apply_op OPR_ADD l r = Some (l + r)"
| "apply_op OPR_SUB l r = Some (l - r)"
| "apply_op OPR_MULTIPLY l r = Some (l * r)"
| "apply_op OPR_DIVIDE l r = int_div l r"
| "apply_op OPR_LOGICAL_AND l r = Some (truth (l \<noteq> 0 \<and> r \<noteq> 0))"
| "apply_op OPR_EQUALS l r = Some (truth (l = r))"
| "apply_op OPR_NOT_EQUAL l r = Some (truth (l \<noteq> r))"
| "apply_op OPR_LESS_THAN l r = Some (truth (less64 l r))"
| "apply_op OPR_LESS_THAN_EQUAL l r = Some (truth (l = r \<or> less64 l r))"
| "apply_op OPR_GREATER_THAN l r = Some (truth (\<not> (l = r \<or> less64 l r)))"
| "apply_op OPR_GREATER_THAN_EQUAL l r = Some (truth (\<not> less64 l r))"
| "apply_op _ l r = None"

text \<open>
  The type the parser has inferred for an operation decides the instruction: with \<open>VALUE_INTEGER\<close> it
  takes the operands for integers, without a type the operands must be tagged as integers.
\<close>

definition operands_ok :: "ValueType \<Rightarrow> Value \<Rightarrow> Value \<Rightarrow> bool" where
  "operands_ok vt a b \<longleftrightarrow> vt = VALUE_INTEGER \<or> both_ints a b"

section \<open>Meaning\<close>

text \<open>
  A program names its functions (\<open>True\<close> for a static one) and gives the arguments and the body of
  each. Expressions have values, statements relate stores of local variables and may return, and
  \<open>call d f inst args v\<close> says that the function returns \<open>v\<close> with calls nested at most \<open>d\<close> deep. What
  fails or does not end has no meaning.
\<close>

type_synonym names = "wstring \<Rightarrow> (ptr \<times> bool) option"
type_synonym bodies = "ptr \<Rightarrow> (wstring list \<times> codeblock) option"

inductive eval :: "names \<Rightarrow> bodies \<Rightarrow> nat \<Rightarrow> scope \<Rightarrow> Value list \<Rightarrow> expr \<Rightarrow> Value \<Rightarrow> bool"
  and evals :: "names \<Rightarrow> bodies \<Rightarrow> nat \<Rightarrow> scope \<Rightarrow> Value list \<Rightarrow> expr list \<Rightarrow> Value list \<Rightarrow> bool"
  and call :: "names \<Rightarrow> bodies \<Rightarrow> nat \<Rightarrow> ptr \<Rightarrow> ptr \<Rightarrow> Value list \<Rightarrow> Value \<Rightarrow> bool"
  and exec :: "names \<Rightarrow> bodies \<Rightarrow> nat \<Rightarrow> scope \<Rightarrow> expr \<Rightarrow> Value list \<Rightarrow> Value list \<Rightarrow> Value option \<Rightarrow> bool"
  and exec_opt :: "names \<Rightarrow> bodies \<Rightarrow> nat \<Rightarrow> scope \<Rightarrow> expr option \<Rightarrow> Value list \<Rightarrow> Value list \<Rightarrow> bool"
  and execs :: "names \<Rightarrow> bodies \<Rightarrow> nat \<Rightarrow> scope \<Rightarrow> expr list \<Rightarrow> Value list \<Rightarrow> Value list \<Rightarrow> Value option \<Rightarrow> bool"
  and loops :: "names \<Rightarrow> bodies \<Rightarrow> nat \<Rightarrow> scope \<Rightarrow> expr \<Rightarrow> expr option \<Rightarrow> codeblock
    \<Rightarrow> Value list \<Rightarrow> Value list \<Rightarrow> Value option \<Rightarrow> bool"
  for nm :: names and fs :: bodies
where
  e_int: "eval nm fs d sc ls (IntegerExpression i) (mk_int i)"
| e_var: "idx ls (local_id sc x) = Some v \<Longrightarrow> eval nm fs d sc ls (VarExpression c x vt) v"
| e_oper: "eval nm fs d sc ls l a \<Longrightarrow> eval nm fs d sc ls r b \<Longrightarrow> operands_ok vt a b
    \<Longrightarrow> apply_op ot (v_bits a) (v_bits b) = Some w
    \<Longrightarrow> eval nm fs d sc ls (OperationExpression ot ds vt (Some l) (Some r)) (mk_int w)"
| e_not: "eval nm fs d sc ls r a
    \<Longrightarrow> eval nm fs d sc ls (OperationExpression OPR_NOT ds vt None (Some r)) (mk_int (int_not (v_bits a)))"
| e_static: "nm x = Some (f, True) \<Longrightarrow> evals nm fs d sc ls ps vs \<Longrightarrow> call nm fs d f 0 vs v
    \<Longrightarrow> eval nm fs d sc ls (CallExpression q c x ps) v"
| e_this: "nm x = Some (f, False) \<Longrightarrow> evals nm fs d sc ls ps vs \<Longrightarrow> idx ls 0 = Some ob
    \<Longrightarrow> call nm fs d f (v_object ob) vs v \<Longrightarrow> eval nm fs d sc ls (CallExpression q c x ps) v"
| e_nil: "evals nm fs d sc ls [] []"
| e_cons: "eval nm fs d sc ls p v \<Longrightarrow> evals nm fs d sc ls ps vs \<Longrightarrow> evals nm fs d sc ls (p # ps) (v # vs)"
| c_call: "fs f = Some (as, b) \<Longrightarrow> int (length args) \<le> m_maxVarId b
    \<Longrightarrow> execs nm fs d ([b], Some as) (m_code b)
          (mk_object inst # args @ replicate (nat (m_maxVarId b) - length args) zero_value) ls' out
    \<Longrightarrow> call nm fs (Suc d) f inst args (case out of None \<Rightarrow> mk_int 0 | Some v \<Rightarrow> v)"
| x_set: "eval nm fs d sc ls r v \<Longrightarrow> upd ls (local_id sc x) v = Some ls'
    \<Longrightarrow> exec nm fs d sc (OperationExpression OPR_SET ds vt (Some (VarExpression c x t)) (Some r)) ls ls' None"
| x_inc: "idx ls (scope_var sc x) = Some v \<Longrightarrow> upd ls (scope_var sc x) (v\<lparr>v_bits := v_bits v + 1\<rparr>) = Some ls'
    \<Longrightarrow> exec nm fs d sc (OperationExpression OPR_INCREMENT ds vt (Some (VarExpression c x t)) None) ls ls' None"
| x_dec: "idx ls (scope_var sc x) = Some v \<Longrightarrow> upd ls (scope_var sc x) (v\<lparr>v_bits := v_bits v - 1\<rparr>) = Some ls'
    \<Longrightarrow> exec nm fs d sc (OperationExpression OPR_DECREMENT ds vt (Some (VarExpression c x t)) None) ls ls' None"
| x_call: "eval nm fs d sc ls (CallExpression q c x ps) v \<Longrightarrow> exec nm fs d sc (CallExpression q c x ps) ls ls None"
| x_return: "eval nm fs d sc ls e v \<Longrightarrow> exec nm fs d sc (ReturnExpression (Some e)) ls ls (Some v)"
| x_return_0: "exec nm fs d sc (ReturnExpression None) ls ls (Some (mk_int 0))"
| x_if: "eval nm fs d sc ls t v \<Longrightarrow> v_bits v \<noteq> 0 \<Longrightarrow> execs nm fs d (inner tb sc) (m_code tb) ls ls' out
    \<Longrightarrow> exec nm fs d sc (IfExpression t tb fb) ls ls' out"
| x_if_not: "eval nm fs d sc ls t v \<Longrightarrow> v_bits v = 0 \<Longrightarrow> exec nm fs d sc (IfExpression t tb None) ls ls None"
| x_else: "eval nm fs d sc ls t v \<Longrightarrow> v_bits v = 0 \<Longrightarrow> execs nm fs d (inner fb sc) (m_code fb) ls ls' out
    \<Longrightarrow> exec nm fs d sc (IfExpression t tb (Some fb)) ls ls' out"
| x_for: "exec_opt nm fs d sc i ls ls1 \<Longrightarrow> loops nm fs d sc t n body ls1 ls' out
    \<Longrightarrow> exec nm fs d sc (ForExpression i t n body) ls ls' out"
| o_none: "exec_opt nm fs d sc None ls ls"
| o_some: "exec nm fs d sc e ls ls' None \<Longrightarrow> exec_opt nm fs d sc (Some e) ls ls'"
| s_nil: "execs nm fs d sc [] ls ls None"
| s_stop: "exec nm fs d sc e ls ls' (Some v) \<Longrightarrow> execs nm fs d sc (e # es) ls ls' (Some v)"
| s_cons: "exec nm fs d sc e ls ls1 None \<Longrightarrow> execs nm fs d sc es ls1 ls' out \<Longrightarrow> execs nm fs d sc (e # es) ls ls' out"
| l_end: "eval nm fs d sc ls t v \<Longrightarrow> v_bits v = 0 \<Longrightarrow> loops nm fs d sc t n body ls ls None"
| l_return: "eval nm fs d sc ls t v \<Longrightarrow> v_bits v \<noteq> 0 \<Longrightarrow> execs nm fs d (inner body sc) (m_code body) ls ls' (Some w)
    \<Longrightarrow> loops nm fs d sc t n body ls ls' (Some w)"
| l_more: "eval nm fs d sc ls t v \<Longrightarrow> v_bits v \<noteq> 0 \<Longrightarrow> execs nm fs d (inner body sc) (m_code body) ls ls1 None
    \<Longrightarrow> exec_opt nm fs d sc n ls1 ls2 \<Longrightarrow> loops nm fs d sc t n body ls2 ls' out
    \<Longrightarrow> loops nm fs d sc t n body ls ls' out"

lemmas meaning = eval_evals_call_exec_exec_opt_execs_loops.intros

inductive_cases eval_operE: "eval nm fs d sc ls (OperationExpression ot ds vt (Some l) (Some r)) v"
inductive_cases evalsE: "evals nm fs d sc ls ps vs"

lemma evals_length: "evals nm fs d sc ls ps vs \<Longrightarrow> length vs = length ps"
  by (induction ps arbitrary: vs) (auto elim: evalsE)

section \<open>Code of expressions\<close>

definition pick :: "ValueType \<Rightarrow> opcode \<Rightarrow> opcode \<Rightarrow> opcode" where
  "pick vt g i = (if vt = VALUE_INTEGER then i else g)"

fun gen_op :: "OpType \<Rightarrow> ValueType \<Rightarrow> icode option" where
  "gen_op OPR_ADD vt = Some [ins (pick vt OP_ADD OP_ADDI) []]"
| "gen_op OPR_SUB vt = Some [ins (pick vt OP_SUB OP_SUBI) []]"
| "gen_op OPR_MULTIPLY vt = Some [ins (pick vt OP_MUL OP_MULI) []]"
| "gen_op OPR_DIVIDE vt = Some [ins (pick vt OP_DIV OP_DIVI) []]"
| "gen_op OPR_LOGICAL_AND vt = Some [ins (pick vt OP_AND OP_ANDI) []]"
| "gen_op OPR_EQUALS vt = Some [ins (pick vt OP_CMP OP_CMPI) [], ins OP_PUSHCE []]"
| "gen_op OPR_NOT_EQUAL vt = Some [ins (pick vt OP_CMP OP_CMPI) [], ins OP_PUSHCNE []]"
| "gen_op OPR_LESS_THAN vt = Some [ins (pick vt OP_CMP OP_CMPI) [], ins OP_PUSHCL []]"
| "gen_op OPR_LESS_THAN_EQUAL vt = Some [ins (pick vt OP_CMP OP_CMPI) [], ins OP_PUSHCLE []]"
| "gen_op OPR_GREATER_THAN vt = Some [ins (pick vt OP_CMP OP_CMPI) [], ins OP_PUSHCG []]"
| "gen_op OPR_GREATER_THAN_EQUAL vt = Some [ins (pick vt OP_CMP OP_CMPI) [], ins OP_PUSHCGE []]"
| "gen_op _ vt = None"

definition call_code :: "ptr \<times> bool \<Rightarrow> nat \<Rightarrow> icode" where
  "call_code p n =
     (if snd p then [ins OP_CALL_STATIC [fst p, of_nat n]] else [ins OP_LOAD_VAR [0], ins OP_CALL [fst p, of_nat n]])"

text \<open>The right operand's code comes first. \<open>None\<close> is outside the fragment.\<close>

fun gen_expr :: "names \<Rightarrow> scope \<Rightarrow> expr \<Rightarrow> icode option"
  and gen_list :: "names \<Rightarrow> scope \<Rightarrow> expr list \<Rightarrow> icode option" where
  "gen_expr nm sc (IntegerExpression i) = Some [ins OP_PUSHI [i]]"
| "gen_expr nm sc (VarExpression c x vt) =
     (if c = 0 \<and> slot_ok (local_id sc x) then Some [ins OP_LOAD_VAR [word_id (local_id sc x)]] else None)"
| "gen_expr nm sc (OperationExpression ot d vt (Some l) (Some r)) =
     (if vt \<noteq> VALUE_DOUBLE \<and> od_hasLeft d
      then do {
        cr \<leftarrow> gen_expr nm sc r;
        cl \<leftarrow> gen_expr nm sc l;
        co \<leftarrow> gen_op ot vt;
        Some (cr @ cl @ co) }
      else None)"
| "gen_expr nm sc (OperationExpression ot d vt None (Some r)) =
     (if ot = OPR_NOT \<and> vt \<noteq> VALUE_DOUBLE \<and> \<not> od_hasLeft d
      then map_option (\<lambda>cr. cr @ [ins (pick vt OP_NOT OP_NOTI) []]) (gen_expr nm sc r)
      else None)"
| "gen_expr nm sc (CallExpression inRef clazz name params) =
     (if \<not> inRef \<and> clazz = 0 \<and> scope_var sc name = - 1 \<and> length params < 2 ^ 31
      then do {
        f \<leftarrow> nm name;
        cp \<leftarrow> gen_list nm sc params;
        Some (cp @ call_code f (length params)) }
      else None)"
| "gen_expr nm sc e = None"
| "gen_list nm sc [] = Some []"
| "gen_list nm sc (p # ps) = do {
     c \<leftarrow> gen_expr nm sc p;
     cs \<leftarrow> gen_list nm sc ps;
     Some (c @ cs) }"

text \<open>How far above the operands already there the stack grows.\<close>

fun need :: "expr \<Rightarrow> nat" and needs :: "expr list \<Rightarrow> nat" where
  "need (OperationExpression ot d vt (Some l) (Some r)) = max 2 (max (need r) (Suc (need l)))"
| "need (OperationExpression ot d vt None (Some r)) = max 1 (need r)"
| "need (CallExpression inRef clazz name params) = Suc (needs params)"
| "need e = 0"
| "needs [] = 0"
| "needs (p # ps) = max (need p) (Suc (needs ps))"

lemma needs_length: "length ps \<le> needs ps"
  by (induction ps) auto

section \<open>Code of statements\<close>

text \<open>
  The code of a statement that starts at instruction \<open>p\<close>. \<open>D\<close> bounds the operands an expression may
  need. A test that ends in \<open>==\<close>, \<open><\<close> or \<open><=\<close> is fused with its branch.
\<close>

definition gen_value :: "nat \<Rightarrow> names \<Rightarrow> scope \<Rightarrow> expr \<Rightarrow> icode option" where
  "gen_value D nm sc e = (if need e \<le> D then gen_expr nm sc e else None)"

definition gen_test :: "nat \<Rightarrow> names \<Rightarrow> scope \<Rightarrow> expr \<Rightarrow> (icode \<times> opcode) option" where
  "gen_test D nm sc t = do {
     c \<leftarrow> gen_value D nm sc t;
     (case fused_branch (ins_op (last c)) of
        Some b \<Rightarrow> Some (butlast c, b)
      | None \<Rightarrow> Some (c @ [ins OP_PUSHI [0], ins OP_CMPI []], OP_BEQ)) }"

function (sequential) gen_stmt :: "nat \<Rightarrow> names \<Rightarrow> scope \<Rightarrow> nat \<Rightarrow> expr \<Rightarrow> icode option"
  and gen_opt :: "nat \<Rightarrow> names \<Rightarrow> scope \<Rightarrow> nat \<Rightarrow> expr option \<Rightarrow> icode option"
  and gen_stmts :: "nat \<Rightarrow> names \<Rightarrow> scope \<Rightarrow> nat \<Rightarrow> expr list \<Rightarrow> icode option" where
  "gen_stmt D nm sc p (OperationExpression ot d vt (Some (VarExpression c x t)) (Some r)) =
     (if ot = OPR_SET \<and> slot_ok (local_id sc x)
      then map_option (\<lambda>cr. cr @ [ins OP_STORE_VAR [word_id (local_id sc x)]]) (gen_value D nm sc r)
      else None)"
| "gen_stmt D nm sc p (OperationExpression ot d vt (Some (VarExpression c x t)) None) =
     (if slot_ok (scope_var sc x) \<and> ot = OPR_INCREMENT
      then Some [ins OP_INC_VAR [word_id (scope_var sc x), 1]]
      else if slot_ok (scope_var sc x) \<and> ot = OPR_DECREMENT
      then Some [ins OP_INC_VAR [word_id (scope_var sc x), - 1]]
      else None)"
| "gen_stmt D nm sc p (CallExpression inRef clazz name params) =
     map_option (\<lambda>c. c @ [ins OP_POP []]) (gen_value D nm sc (CallExpression inRef clazz name params))"
| "gen_stmt D nm sc p (ReturnExpression (Some e)) = map_option (\<lambda>c. c @ [ins OP_RETURN []]) (gen_value D nm sc e)"
| "gen_stmt D nm sc p (ReturnExpression None) = Some [ins OP_PUSHI [0], ins OP_RETURN []]"
| "gen_stmt D nm sc p (IfExpression t tb None) = do {
     (ct, br) \<leftarrow> gen_test D nm sc t;
     let q = p + length ct + 1;
     cb \<leftarrow> gen_stmts D nm (inner tb sc) q (m_code tb);
     Some (ct @ ins br [of_nat (q + length cb)] # cb) }"
| "gen_stmt D nm sc p (IfExpression t tb (Some fb)) = do {
     (ct, br) \<leftarrow> gen_test D nm sc t;
     let q = p + length ct + 1;
     cb \<leftarrow> gen_stmts D nm (inner tb sc) q (m_code tb);
     let f = q + length cb + 1;
     cf \<leftarrow> gen_stmts D nm (inner fb sc) f (m_code fb);
     Some (ct @ ins br [of_nat f] # cb @ ins OP_JMP [of_nat (f + length cf)] # cf) }"
| "gen_stmt D nm sc p (ForExpression i t n body) = do {
     ci \<leftarrow> gen_opt D nm sc p i;
     (ct, br) \<leftarrow> gen_test D nm sc t;
     let top = p + length ci;
     let q = top + length ct + 1;
     cb \<leftarrow> gen_stmts D nm (inner body sc) q (m_code body);
     cn \<leftarrow> gen_opt D nm sc (q + length cb) n;
     Some (ci @ ct @ ins br [of_nat (q + length cb + length cn + 1)] # cb @ cn @ [ins OP_JMP [of_nat top]]) }"
| "gen_stmt D nm sc p e = None"
| "gen_opt D nm sc p None = Some []"
| "gen_opt D nm sc p (Some e) = gen_stmt D nm sc p e"
| "gen_stmts D nm sc p [] = Some []"
| "gen_stmts D nm sc p (e # es) = do {
     c \<leftarrow> gen_stmt D nm sc p e;
     cs \<leftarrow> gen_stmts D nm sc (p + length c) es;
     Some (c @ cs) }"
  by pat_completeness auto
termination
  by (relation "measure (\<lambda>a. case a of
      Inl (D, nm, sc, p, e) \<Rightarrow> 2 * size e
    | Inr (Inl (D, nm, sc, p, e)) \<Rightarrow> 2 * size_option size e
    | Inr (Inr (D, nm, sc, p, es)) \<Rightarrow> 2 * size_list size es + 1)")
    (auto simp: block_size)

text \<open>The whole function: its body, then \<open>return 0\<close>.\<close>

definition body_code :: "nat \<Rightarrow> names \<Rightarrow> wstring list \<times> codeblock \<Rightarrow> icode option" where
  "body_code D nm p =
     map_option (\<lambda>c. c @ [ins OP_PUSHI [0], ins OP_RETURN []]) (gen_stmts D nm ([snd p], Some (fst p)) 0 (m_code (snd p)))"

text \<open>The program a set of functions is compiled to.\<close>

definition compiled :: "nat \<Rightarrow> names \<Rightarrow> bodies \<Rightarrow> program \<Rightarrow> bool" where
  "compiled D nm fs P \<longleftrightarrow> (\<forall>f p. fs f = Some p \<longrightarrow>
     (\<exists>code. body_code D nm p = Some code \<and> P f = Some (code, Suc (nat (m_maxVarId (snd p))))))"

end
