(* ===== verification/Compiler.thy ===== *)
theory Compiler
  imports Meaning
begin

text \<open>
  Compiler correctness for the fragment of Meaning: the code listed there does what the program means
  on any machine that satisfies \<open>instruction_machine\<close>, recursive calls included; the assembler emits
  that code; and the interpreter is such a machine, so calling an assembled function returns its value.
\<close>

section \<open>Code segments\<close>

definition seg :: "icode \<Rightarrow> nat \<Rightarrow> icode \<Rightarrow> bool" where
  "seg code k c \<longleftrightarrow> k + length c \<le> length code \<and> take (length c) (drop k code) = c"

lemma seg_Nil [simp]: "seg code k [] \<longleftrightarrow> k \<le> length code"
  by (simp add: seg_def)

lemma seg_append [simp]: "seg code k (c @ d) \<longleftrightarrow> seg code k c \<and> seg code (k + length c) d"
proof -
  have "take (length c + length d) (drop k code) = take (length c) (drop k code) @ take (length d) (drop (k + length c) code)"
    by (simp add: take_add add.commute)
  then show ?thesis by (auto simp: seg_def)
qed

lemma seg_Cons [simp]: "seg code k (i # c) \<longleftrightarrow> k < length code \<and> code ! k = i \<and> seg code (Suc k) c"
proof (cases "k < length code")
  case True
  then show ?thesis by (auto simp: seg_def Cons_nth_drop_Suc [symmetric])
qed (simp add: seg_def)

lemma seg_bound: "seg code k c \<Longrightarrow> k + length c \<le> length code"
  by (simp add: seg_def)

lemma seg_self: "seg (c @ d) 0 c"
  by (simp add: seg_def)

lemma to_int32_word_id: "slot_ok i \<Longrightarrow> to_int32 (word_id i) = i"
  using to_int32_small [of "nat i"] by (auto simp: slot_ok_def word_id_def nat_less_iff)

text \<open>
  A statement ends behind its code with a new store, or at a \<open>RETURN\<close> with the value on the stack.
\<close>

definition ends :: "(icode \<Rightarrow> config \<Rightarrow> config \<Rightarrow> bool) \<Rightarrow> icode \<Rightarrow> nat \<Rightarrow> nat \<Rightarrow> Value list
    \<Rightarrow> Value list \<Rightarrow> Value list \<Rightarrow> Value option \<Rightarrow> bool" where
  "ends runs code p q vs ls ls' out \<longleftrightarrow>
     (case out of
        None \<Rightarrow> runs code (p, vs, ls) (q, vs, ls')
      | Some v \<Rightarrow> \<exists>r. r < length code \<and> code ! r = ins OP_RETURN [] \<and> runs code (p, vs, ls) (r, v # vs, ls'))"

section \<open>Operators\<close>

lemma gen_op_cases:
  assumes "gen_op ot vt = Some co" and "apply_op ot (v_bits a) (v_bits b) = Some w" and "operands_ok vt a b"
  obtains (one) i f where "co = [ins i []]" and "int_binop i = Some f"
      and "i \<in> set tagged_ops \<Longrightarrow> both_ints a b" and "f (v_bits a) (v_bits b) = Some w"
  | (two) i j where "co = [ins j [], ins i []]" and "comparable j a b" and "i \<in> set cond_pushes"
      and "w = (if cond_holds i (v_bits a) (v_bits b) then 1 else 0)"
proof -
  have ints: "pick vt g i \<in> set tagged_ops \<Longrightarrow> i \<notin> set tagged_ops \<Longrightarrow> both_ints a b" for g i
    using assms(3) by (auto simp: pick_def operands_ok_def split: if_splits)
  have cmp: "comparable (pick vt OP_CMP OP_CMPI) a b" using assms(3) by (auto simp: comparable_def pick_def operands_ok_def)
  have arith: thesis if "co = [ins (pick vt g i) []]" "int_binop g = Some f" "int_binop i = Some f" "i \<notin> set tagged_ops"
      "f (v_bits a) (v_bits b) = Some w" for g i f
    by (rule one [of "pick vt g i" f, OF that(1) _ _ that(5)]) (use ints that(2-4) in \<open>auto simp: pick_def split: if_splits\<close>)
  have rel: thesis if "co = [ins (pick vt OP_CMP OP_CMPI) [], ins i []]" "i \<in> set cond_pushes"
      "w = truth (cond_holds i (v_bits a) (v_bits b))" for i
    by (rule two [OF that(1) cmp that(2)]) (simp add: that(3) truth_def)
  show thesis
  proof (cases ot)
    case OPR_ADD show thesis by (rule arith [of OP_ADD OP_ADDI "\<lambda>a b. Some (a + b)"]) (use assms OPR_ADD in \<open>auto simp: tagged_ops_def simp del: opcode_num.simps\<close>)
  next
    case OPR_SUB show thesis by (rule arith [of OP_SUB OP_SUBI "\<lambda>a b. Some (a - b)"]) (use assms OPR_SUB in \<open>auto simp: tagged_ops_def simp del: opcode_num.simps\<close>)
  next
    case OPR_MULTIPLY show thesis by (rule arith [of OP_MUL OP_MULI "\<lambda>a b. Some (a * b)"]) (use assms OPR_MULTIPLY in \<open>auto simp: tagged_ops_def simp del: opcode_num.simps\<close>)
  next
    case OPR_DIVIDE show thesis by (rule arith [of OP_DIV OP_DIVI int_div]) (use assms OPR_DIVIDE in \<open>auto simp: tagged_ops_def simp del: opcode_num.simps\<close>)
  next
    case OPR_LOGICAL_AND
    have "i \<notin> set tagged_ops" if "i \<in> {OP_AND, OP_ANDI}" for i using that by (auto simp: tagged_ops_def)
    then show thesis
      using one [of "pick vt OP_AND OP_ANDI" "\<lambda>a b. Some (int_and a b)"] assms OPR_LOGICAL_AND
      by (auto simp: pick_def int_and_def truth_def split: if_splits simp del: opcode_num.simps)
  qed (use assms rel in \<open>auto simp: cond_pushes_def simp del: opcode_num.simps\<close>)
qed

section \<open>Tests\<close>

lemma gen_op_nonempty: "gen_op ot vt = Some co \<Longrightarrow> co \<noteq> []"
  by (cases ot) auto

lemma gen_expr_nonempty: "gen_expr nm sc e = Some c \<Longrightarrow> c \<noteq> []"
  by (cases "(nm, sc, e)" rule: gen_expr.cases)
    (auto simp: call_code_def dest: gen_op_nonempty split: if_splits bind_splits)

lemma gen_op_last:
  assumes "gen_op ot vt = Some co" and "fused_branch (ins_op (last (xs @ co))) = Some b"
    and "apply_op ot (v_bits l) (v_bits r) = Some w" and "operands_ok vt l r"
  obtains i j where "co = [ins j [], ins i []]" and "comparable j l r" and "b \<in> set cond_branches"
    and "cond_holds b (v_bits l) (v_bits r) \<longleftrightarrow> w = 0"
proof -
  from assms(4) have j: "comparable (pick vt OP_CMP OP_CMPI) l r" by (auto simp: comparable_def pick_def operands_ok_def)
  have "fused_branch (opcode_num (pick vt OP_ADD OP_ADDI)) = None" "fused_branch (opcode_num (pick vt OP_SUB OP_SUBI)) = None"
    "fused_branch (opcode_num (pick vt OP_MUL OP_MULI)) = None" "fused_branch (opcode_num (pick vt OP_DIV OP_DIVI)) = None"
    "fused_branch (opcode_num (pick vt OP_AND OP_ANDI)) = None" by (simp_all add: fused_branch_def pick_def)
  moreover have "fused_branch (opcode_num OP_PUSHCE) = Some OP_BNE" "fused_branch (opcode_num OP_PUSHCNE) = None"
    "fused_branch (opcode_num OP_PUSHCL) = Some OP_BGE" "fused_branch (opcode_num OP_PUSHCLE) = Some OP_BG"
    "fused_branch (opcode_num OP_PUSHCG) = None" "fused_branch (opcode_num OP_PUSHCGE) = None" by (simp_all add: fused_branch_def)
  ultimately consider "ot = OPR_EQUALS" "co = [ins (pick vt OP_CMP OP_CMPI) [], ins OP_PUSHCE []]" "b = OP_BNE"
    | "ot = OPR_LESS_THAN" "co = [ins (pick vt OP_CMP OP_CMPI) [], ins OP_PUSHCL []]" "b = OP_BGE"
    | "ot = OPR_LESS_THAN_EQUAL" "co = [ins (pick vt OP_CMP OP_CMPI) [], ins OP_PUSHCLE []]" "b = OP_BG"
    using assms(1,2) by (cases ot) (auto simp del: opcode_num.simps)
  then show thesis
    using assms(3) by cases (rule that, assumption, rule j, (auto simp: cond_branches_def truth_def) [2])+
qed

lemma fused_leaf: "fused_branch (opcode_num i) = None"
  if "i \<in> {OP_PUSHI, OP_LOAD_VAR, OP_NOT, OP_NOTI, OP_CALL, OP_CALL_STATIC}"
  using that by (auto simp: fused_branch_def)

lemma fused_oper:
  assumes "gen_expr nm sc e = Some c" and "fused_branch (ins_op (last c)) = Some b"
  obtains ot ds vt l r where "e = OperationExpression ot ds vt (Some l) (Some r)"
  using assms
  by (cases "(nm, sc, e)" rule: gen_expr.cases)
    (auto simp: fused_leaf call_code_def pick_def split: if_splits bind_splits simp del: opcode_num.simps)

text \<open>What running an expression means, as a value and as the test of a branch, with \<open>room\<close> operands.\<close>

definition value_ok :: "(icode \<Rightarrow> config \<Rightarrow> config \<Rightarrow> bool) \<Rightarrow> int \<Rightarrow> names \<Rightarrow> scope \<Rightarrow> Value list \<Rightarrow> expr \<Rightarrow> Value \<Rightarrow> bool" where
  "value_ok runs room nm sc ls e v \<longleftrightarrow> (\<forall>c code k vs. gen_expr nm sc e = Some c \<longrightarrow> seg code k c
     \<longrightarrow> int (length vs) + int (need e) < room \<longrightarrow> runs code (k, vs, ls) (k + length c, v # vs, ls))"

definition test_ok :: "(icode \<Rightarrow> config \<Rightarrow> config \<Rightarrow> bool) \<Rightarrow> int \<Rightarrow> nat \<Rightarrow> names \<Rightarrow> scope \<Rightarrow> Value list \<Rightarrow> expr \<Rightarrow> Value \<Rightarrow> bool" where
  "test_ok runs room D nm sc ls t v \<longleftrightarrow> (\<forall>ct br code k d vs. gen_test D nm sc t = Some (ct, br)
     \<longrightarrow> seg code k (ct @ [ins br [of_nat d]]) \<longrightarrow> d \<le> length code \<longrightarrow> int (length vs) + int D < room
     \<longrightarrow> runs code (k, vs, ls) (if v_bits v = 0 then d else Suc (k + length ct), vs, ls))"

text \<open>The same for arguments, statements and loops, from any start in any code that holds theirs.\<close>

definition args_ok :: "(icode \<Rightarrow> config \<Rightarrow> config \<Rightarrow> bool) \<Rightarrow> int \<Rightarrow> names \<Rightarrow> scope \<Rightarrow> Value list \<Rightarrow> expr list \<Rightarrow> Value list \<Rightarrow> bool" where
  "args_ok runs room nm sc ls ps us \<longleftrightarrow> (\<forall>c code k vs. gen_list nm sc ps = Some c \<longrightarrow> seg code k c
     \<longrightarrow> int (length vs) + int (needs ps) < room \<longrightarrow> runs code (k, vs, ls) (k + length c, rev us @ vs, ls))"

definition stmt_ok :: "(icode \<Rightarrow> config \<Rightarrow> config \<Rightarrow> bool) \<Rightarrow> int \<Rightarrow> nat \<Rightarrow> names \<Rightarrow> scope \<Rightarrow> expr
    \<Rightarrow> Value list \<Rightarrow> Value list \<Rightarrow> Value option \<Rightarrow> bool" where
  "stmt_ok runs room D nm sc e ls ls' out \<longleftrightarrow> (\<forall>c code p vs. gen_stmt D nm sc p e = Some c \<longrightarrow> seg code p c
     \<longrightarrow> int (length vs) + int D < room \<longrightarrow> ends runs code p (p + length c) vs ls ls' out)"

definition opt_ok :: "(icode \<Rightarrow> config \<Rightarrow> config \<Rightarrow> bool) \<Rightarrow> int \<Rightarrow> nat \<Rightarrow> names \<Rightarrow> scope \<Rightarrow> expr option
    \<Rightarrow> Value list \<Rightarrow> Value list \<Rightarrow> bool" where
  "opt_ok runs room D nm sc i ls ls' \<longleftrightarrow> (\<forall>c code p vs. gen_opt D nm sc p i = Some c \<longrightarrow> seg code p c
     \<longrightarrow> int (length vs) + int D < room \<longrightarrow> runs code (p, vs, ls) (p + length c, vs, ls'))"

definition stmts_ok :: "(icode \<Rightarrow> config \<Rightarrow> config \<Rightarrow> bool) \<Rightarrow> int \<Rightarrow> nat \<Rightarrow> names \<Rightarrow> scope \<Rightarrow> expr list
    \<Rightarrow> Value list \<Rightarrow> Value list \<Rightarrow> Value option \<Rightarrow> bool" where
  "stmts_ok runs room D nm sc es ls ls' out \<longleftrightarrow> (\<forall>c code p vs. gen_stmts D nm sc p es = Some c \<longrightarrow> seg code p c
     \<longrightarrow> int (length vs) + int D < room \<longrightarrow> ends runs code p (p + length c) vs ls ls' out)"

definition loop_ok :: "(icode \<Rightarrow> config \<Rightarrow> config \<Rightarrow> bool) \<Rightarrow> int \<Rightarrow> nat \<Rightarrow> names \<Rightarrow> scope \<Rightarrow> expr \<Rightarrow> expr option
    \<Rightarrow> codeblock \<Rightarrow> Value list \<Rightarrow> Value list \<Rightarrow> Value option \<Rightarrow> bool" where
  "loop_ok runs room D nm sc t n body ls ls' out \<longleftrightarrow> (\<forall>ct br cb cn code p vs. gen_test D nm sc t = Some (ct, br)
     \<longrightarrow> gen_stmts D nm (inner body sc) (Suc (p + length ct)) (m_code body) = Some cb
     \<longrightarrow> gen_opt D nm sc (Suc (p + length ct) + length cb) n = Some cn
     \<longrightarrow> seg code p (ct @ ins br [of_nat (Suc (p + length ct) + length cb + length cn + 1)] # cb @ cn @ [ins OP_JMP [of_nat p]])
     \<longrightarrow> int (length vs) + int D < room
     \<longrightarrow> ends runs code p (Suc (p + length ct) + length cb + length cn + 1) vs ls ls' out)"

lemma test_okD:
  "test_ok runs room D nm sc ls t v \<Longrightarrow> gen_test D nm sc t = Some (ct, br) \<Longrightarrow> seg code k (ct @ [ins br [of_nat d]])
    \<Longrightarrow> d \<le> length code \<Longrightarrow> int (length vs) + int D < room
    \<Longrightarrow> runs code (k, vs, ls) (if v_bits v = 0 then d else Suc (k + length ct), vs, ls)"
  unfolding test_ok_def by blast

lemma stmts_okD:
  "stmts_ok runs room D nm sc es ls ls' out \<Longrightarrow> gen_stmts D nm sc p es = Some c \<Longrightarrow> seg code p c
    \<Longrightarrow> int (length vs) + int D < room \<Longrightarrow> ends runs code p (p + length c) vs ls ls' out"
  unfolding stmts_ok_def by blast

lemma stmt_okD:
  "stmt_ok runs room D nm sc e ls ls' out \<Longrightarrow> gen_stmt D nm sc p e = Some c \<Longrightarrow> seg code p c
    \<Longrightarrow> int (length vs) + int D < room \<Longrightarrow> ends runs code p (p + length c) vs ls ls' out"
  unfolding stmt_ok_def by blast

lemma opt_okD:
  "opt_ok runs room D nm sc i ls ls' \<Longrightarrow> gen_opt D nm sc p i = Some c \<Longrightarrow> seg code p c
    \<Longrightarrow> int (length vs) + int D < room \<Longrightarrow> runs code (p, vs, ls) (p + length c, vs, ls')"
  unfolding opt_ok_def by blast

lemma loop_okD:
  "loop_ok runs room D nm sc t n body ls ls' out \<Longrightarrow> gen_test D nm sc t = Some (ct, br)
    \<Longrightarrow> gen_stmts D nm (inner body sc) (Suc (p + length ct)) (m_code body) = Some cb
    \<Longrightarrow> gen_opt D nm sc (Suc (p + length ct) + length cb) n = Some cn
    \<Longrightarrow> seg code p (ct @ ins br [of_nat (Suc (p + length ct) + length cb + length cn + 1)] # cb @ cn @ [ins OP_JMP [of_nat p]])
    \<Longrightarrow> int (length vs) + int D < room
    \<Longrightarrow> ends runs code p (Suc (p + length ct) + length cb + length cn + 1) vs ls ls' out"
  unfolding loop_ok_def by blast

section \<open>Expressions and statements run\<close>

context instruction_machine
begin

lemma op_runs:
  assumes "gen_op ot vt = Some co" and "apply_op ot (v_bits a) (v_bits b) = Some w" and "operands_ok vt a b"
    and "seg code k co" and "int (length vs) + 2 < cap"
  shows "runs code (k, a # b # vs, ls) (k + length co, mk_int w # vs, ls)"
  using assms(1-3)
proof (cases rule: gen_op_cases)
  case (one i f)
  have "k < length code" "code ! k = ins i []" using assms(4) one(1) by simp_all
  from runs_binop [OF this one(2,3,4) assms(5)] one(1) show ?thesis by simp
next
  case (two i j)
  have "Suc k < length code" "code ! k = ins j []" "code ! Suc k = ins i []" using assms(4) two(1) by simp_all
  from runs_cmp_push [OF this(1,2) two(2) this(3) two(3) assms(5)] two show ?thesis by simp
qed

lemma plain_test_ok:
  assumes v: "value_ok runs room nm sc ls t v" and D: "2 \<le> D" and room: "room \<le> cap"
    and plain: "\<And>c b. gen_expr nm sc t = Some c \<Longrightarrow> fused_branch (ins_op (last c)) \<noteq> Some b"
  shows "test_ok runs room D nm sc ls t v"
  unfolding test_ok_def
proof (intro allI impI)
  fix ct br code k d and vs :: "Value list"
  assume g: "gen_test D nm sc t = Some (ct, br)" and seg: "seg code k (ct @ [ins br [of_nat d]])"
    and d: "d \<le> length code" and vs: "int (length vs) + int D < room"
  from g obtain c where c: "gen_expr nm sc t = Some c" and n: "need t \<le> D"
    and "(case fused_branch (ins_op (last c)) of
        Some b \<Rightarrow> (butlast c, b)
      | None \<Rightarrow> (c @ [ins OP_PUSHI [0], ins OP_CMPI []], OP_BEQ)) = (ct, br)"
    by (auto simp: gen_test_def gen_value_def split: bind_splits if_splits option.splits)
  with plain [OF c] have ct: "ct = c @ [ins OP_PUSHI [0], ins OP_CMPI []]" "br = OP_BEQ" by (auto split: option.splits)
  have s: "seg code k c" and k: "k + length c < length code" "Suc (k + length c) < length code"
    "Suc (Suc (k + length c)) < length code"
    and i: "code ! (k + length c) = ins OP_PUSHI [0]" "code ! Suc (k + length c) = ins OP_CMPI []"
    "code ! Suc (Suc (k + length c)) = ins OP_BEQ [of_nat d]"
    using seg by (simp_all add: ct del: opcode_num.simps)
  have cp: "comparable OP_CMPI x y" for x y by (simp add: comparable_def)
  have r1: "runs code (k, vs, ls) (k + length c, v # vs, ls)" using v c s vs n by (simp add: value_ok_def)
  have r2: "runs code (k + length c, v # vs, ls) (Suc (k + length c), mk_int 0 # v # vs, ls)"
    by (rule runs_push [OF k(1) i(1)]) (use vs D room in simp)
  have r3: "runs code (Suc (k + length c), mk_int 0 # v # vs, ls)
      (if cond_holds OP_BEQ (v_bits (mk_int 0)) (v_bits v) then d else Suc (Suc (Suc (k + length c))), vs, ls)"
    by (rule runs_cmp_branch [OF k(3) i(2) cp i(3) _ d]) (use vs D room in \<open>simp_all add: cond_branches_def\<close>)
  have "(if cond_holds OP_BEQ (v_bits (mk_int 0)) (v_bits v) then d else Suc (Suc (Suc (k + length c))))
      = (if v_bits v = 0 then d else Suc (k + length ct))" by (auto simp: ct)
  with runs_trans [OF runs_trans [OF r1 r2] r3] show "runs code (k, vs, ls) (if v_bits v = 0 then d else Suc (k + length ct), vs, ls)"
    by simp
qed

lemma oper_value_ok:
  assumes l: "value_ok runs room nm sc ls l a" and r: "value_ok runs room nm sc ls r b" and room: "room \<le> cap"
    and op: "operands_ok vt a b" "apply_op ot (v_bits a) (v_bits b) = Some w"
  shows "value_ok runs room nm sc ls (OperationExpression ot ds vt (Some l) (Some r)) (mk_int w)"
  unfolding value_ok_def
proof (intro allI impI)
  fix c code k and vs :: "Value list"
  assume "gen_expr nm sc (OperationExpression ot ds vt (Some l) (Some r)) = Some c"
  then obtain cr cl co where g: "gen_expr nm sc r = Some cr" "gen_expr nm sc l = Some cl" "gen_op ot vt = Some co"
    and c: "c = cr @ cl @ co" by (auto split: if_splits bind_splits)
  assume "seg code k c" and vs: "int (length vs) + int (need (OperationExpression ot ds vt (Some l) (Some r))) < room"
  then have s: "seg code k cr" "seg code (k + length cr) cl" "seg code (k + length cr + length cl) co"
    by (simp_all add: c add.assoc)
  from vs have n: "int (length vs) + int (need r) < room" "int (length (b # vs)) + int (need l) < room"
    "int (length vs) + 2 < cap" using room by simp_all
  have "runs code (k, vs, ls) (k + length cr, b # vs, ls)" using r g(1) s(1) n(1) unfolding value_ok_def by blast
  moreover have "runs code (k + length cr, b # vs, ls) (k + length cr + length cl, a # b # vs, ls)"
    using l g(2) s(2) n(2) unfolding value_ok_def by blast
  moreover note op_runs [OF g(3) op(2,1) s(3) n(3), of ls]
  ultimately show "runs code (k, vs, ls) (k + length c, mk_int w # vs, ls)"
    unfolding c length_append add.assoc [symmetric] by (blast intro: runs_trans)
qed

lemma oper_test_ok:
  assumes l: "value_ok runs room nm sc ls l a" and r: "value_ok runs room nm sc ls r b" and room: "room \<le> cap"
    and op: "operands_ok vt a b" "apply_op ot (v_bits a) (v_bits b) = Some w" and D: "2 \<le> D"
  shows "test_ok runs room D nm sc ls (OperationExpression ot ds vt (Some l) (Some r)) (mk_int w)"
    (is "test_ok _ _ _ _ _ _ ?t _")
proof (cases "\<exists>c b. gen_expr nm sc ?t = Some c \<and> fused_branch (ins_op (last c)) = Some b")
  case False
  then show ?thesis by (intro plain_test_ok [OF oper_value_ok [OF assms(1-5)] D room]) blast
next
  case True
  then obtain c br where c: "gen_expr nm sc ?t = Some c" and br: "fused_branch (ins_op (last c)) = Some br" by blast
  from c obtain cr cl co where g: "gen_expr nm sc r = Some cr" "gen_expr nm sc l = Some cl" "gen_op ot vt = Some co"
    and ce: "c = cr @ cl @ co" by (auto split: if_splits bind_splits)
  from br ce have "fused_branch (ins_op (last ((cr @ cl) @ co))) = Some br" by simp
  from gen_op_last [OF g(3) this op(2,1)] obtain i j where co: "co = [ins j [], ins i []]" and j: "comparable j a b"
    and b: "br \<in> set cond_branches" and h: "cond_holds br (v_bits a) (v_bits b) \<longleftrightarrow> w = 0" by blast
  show ?thesis
    unfolding test_ok_def
  proof (intro allI impI)
    fix ct br' code k d and vs :: "Value list"
    assume "gen_test D nm sc ?t = Some (ct, br')"
    with c br have ct: "ct = butlast c" "br' = br" and n: "need ?t \<le> D"
      by (auto simp: gen_test_def gen_value_def simp del: need.simps gen_expr.simps split: if_splits)
    assume seg: "seg code k (ct @ [ins br' [of_nat d]])" and d: "d \<le> length code" and vs: "int (length vs) + int D < room"
    let ?q = "k + length cr + length cl"
    have s: "seg code k cr" "seg code (k + length cr) cl"
      and i: "code ! ?q = ins j []" "code ! Suc ?q = ins br [of_nat d]" and q: "Suc ?q < length code"
      using seg by (simp_all add: ct ce co butlast_append add.assoc del: opcode_num.simps)
    have n': "int (length vs) + int (need r) < room" "int (length (b # vs)) + int (need l) < room"
      "int (length vs) + 2 < cap" using vs n room by simp_all
    have r1: "runs code (k, vs, ls) (k + length cr, b # vs, ls)" using r g(1) s(1) n'(1) unfolding value_ok_def by blast
    have r2: "runs code (k + length cr, b # vs, ls) (?q, a # b # vs, ls)"
      using l g(2) s(2) n'(2) unfolding value_ok_def by blast
    have r3: "runs code (?q, a # b # vs, ls) (if cond_holds br (v_bits a) (v_bits b) then d else Suc (Suc ?q), vs, ls)"
      by (rule runs_cmp_branch [OF q i(1) j i(2) b d n'(3)])
    have "(if cond_holds br (v_bits a) (v_bits b) then d else Suc (Suc ?q)) = (if v_bits (mk_int w) = 0 then d else Suc (k + length ct))"
      using h by (auto simp: ct ce co butlast_append)
    with runs_trans [OF runs_trans [OF r1 r2] r3]
    show "runs code (k, vs, ls) (if v_bits (mk_int w) = 0 then d else Suc (k + length ct), vs, ls)" by simp
  qed
qed

lemma ends_before:
  assumes "runs code (p, vs, ls) (p1, vs, ls1)" and "ends runs code p1 q vs ls1 ls' out"
  shows "ends runs code p q vs ls ls' out"
  using assms by (auto simp: ends_def intro: runs_trans split: option.splits)

lemma ends_after:
  assumes "ends runs code p q vs ls ls' out" and "out = None \<Longrightarrow> runs code (q, vs, ls') (q', vs, ls')"
  shows "ends runs code p q' vs ls ls' out"
  using assms by (auto simp: ends_def intro: runs_trans split: option.splits)

lemma ends_None: "runs code (p, vs, ls) (q, vs, ls') \<Longrightarrow> ends runs code p q vs ls ls' None"
  by (simp add: ends_def)

lemma room_left: "cap - int (d * D) \<le> cap"
  by (simp del: of_nat_mult)

lemma room_for: "x + int D < cap - int (d * E) \<Longrightarrow> 2 \<le> D \<Longrightarrow> x + 2 < cap"
  using room_left [of d E] by linarith

lemma leaf_value_ok:
  assumes "room \<le> cap"
  shows "value_ok runs room nm sc ls (IntegerExpression i) (mk_int i)"
    and "idx ls (local_id sc x) = Some v \<Longrightarrow> value_ok runs room nm sc ls (VarExpression c x vt) v"
  using assms by (auto simp: value_ok_def to_int32_word_id simp del: opcode_num.simps split: if_splits
      intro!: runs_push runs_load)

lemma not_value_ok:
  assumes r: "value_ok runs room nm sc ls r a" and room: "room \<le> cap"
  shows "value_ok runs room nm sc ls (OperationExpression OPR_NOT ds vt None (Some r)) (mk_int (int_not (v_bits a)))"
  unfolding value_ok_def
proof (intro allI impI)
  fix c code k and vs :: "Value list"
  assume "gen_expr nm sc (OperationExpression OPR_NOT ds vt None (Some r)) = Some c"
  then obtain cr where g: "gen_expr nm sc r = Some cr" and c: "c = cr @ [ins (pick vt OP_NOT OP_NOTI) []]"
    by (auto split: if_splits)
  assume s: "seg code k c" and vs: "int (length vs) + int (need (OperationExpression OPR_NOT ds vt None (Some r))) < room"
  then have "runs code (k, vs, ls) (k + length cr, a # vs, ls)" using r g by (simp add: c value_ok_def)
  moreover have "runs code (k + length cr, a # vs, ls) (Suc (k + length cr), mk_int (int_not (v_bits a)) # vs, ls)"
    by (rule runs_not [of _ _ "pick vt OP_NOT OP_NOTI"]) (use s vs room in \<open>auto simp: c pick_def simp del: opcode_num.simps\<close>)
  ultimately show "runs code (k, vs, ls) (k + length c, mk_int (int_not (v_bits a)) # vs, ls)"
    by (simp add: c) (rule runs_trans)
qed

text \<open>The code of a call, given that the function returns.\<close>

lemma call_value_ok:
  assumes args: "args_ok runs room nm sc ls ps us"
    and n: "length us = length ps" and room: "room + int m \<le> cap" and f: "nm x = Some (f, st)"
    and call: "calls m f inst us v" and inst: "if st then inst = 0 else (\<exists>ob. idx ls 0 = Some ob \<and> inst = v_object ob)"
  shows "value_ok runs room nm sc ls (CallExpression q c x ps) v"
  unfolding value_ok_def
proof (intro allI impI)
  fix co code k and vs :: "Value list"
  assume "gen_expr nm sc (CallExpression q c x ps) = Some co"
  then obtain cp where g: "gen_list nm sc ps = Some cp" and co: "co = cp @ call_code (f, st) (length us)"
    and l: "length us < 2 ^ 31" using f n by (auto split: if_splits bind_splits)
  assume "seg code k co" and vs: "int (length vs) + int (need (CallExpression q c x ps)) < room"
  then have s: "seg code k cp" "seg code (k + length cp) (call_code (f, st) (length us))" by (simp_all add: co)
  have r: "int (length vs) + int (needs ps) < room" "int (length vs) + int m < cap"
    "int (length vs) + int (length us) + 1 < cap" using vs room n needs_length [of ps] by simp_all
  have r1: "runs code (k, vs, ls) (k + length cp, rev us @ vs, ls)" using args g s(1) r(1) unfolding args_ok_def by blast
  show "runs code (k, vs, ls) (k + length co, v # vs, ls)"
  proof (cases st)
    case True
    with s(2) have i: "k + length cp < length code" "code ! (k + length cp) = ins OP_CALL_STATIC [f, of_nat (length us)]"
      by (simp_all add: call_code_def del: opcode_num.simps)
    have "runs code (k + length cp, rev us @ vs, ls) (Suc (k + length cp), v # vs, ls)"
      by (rule runs_call_static [OF i l]) (use call inst True r in simp_all)
    with r1 True show ?thesis by (simp add: co call_code_def) (rule runs_trans)
  next
    case False
    with inst obtain ob where ob: "idx ls 0 = Some ob" "inst = v_object ob" by auto
    from False s(2) have i: "k + length cp < length code" "code ! (k + length cp) = ins OP_LOAD_VAR [0]"
      "Suc (k + length cp) < length code" "code ! Suc (k + length cp) = ins OP_CALL [f, of_nat (length us)]"
      by (simp_all add: call_code_def del: opcode_num.simps)
    have r2: "runs code (k + length cp, rev us @ vs, ls) (Suc (k + length cp), ob # rev us @ vs, ls)"
      by (rule runs_load [OF i(1,2)]) (use ob(1) r in \<open>simp_all add: to_int32_def\<close>)
    have "runs code (Suc (k + length cp), ob # rev us @ vs, ls) (Suc (Suc (k + length cp)), v # vs, ls)"
      by (rule runs_call_this [OF i(3,4) l]) (use call ob(2) r in simp_all)
    with runs_trans [OF r1 r2] False show ?thesis by (simp add: co call_code_def) (rule runs_trans)
  qed
qed

lemma value_test_ok:
  assumes "value_ok runs room nm sc ls e v" and "2 \<le> D" and "room \<le> cap"
    and "\<And>ot ds vt l r. e \<noteq> OperationExpression ot ds vt (Some l) (Some r)"
  shows "value_ok runs room nm sc ls e v \<and> test_ok runs room D nm sc ls e v"
  using assms(1) plain_test_ok [OF assms(1-3)] fused_oper assms(4) by metis

text \<open>Statements.\<close>

lemma set_ok:
  assumes r: "value_ok runs room nm sc ls r v" and u: "upd ls (local_id sc x) v = Some ls'" and room: "room \<le> cap" and D: "2 \<le> D"
  shows "stmt_ok runs room D nm sc (OperationExpression OPR_SET ds vt (Some (VarExpression cl x t)) (Some r)) ls ls' None"
  unfolding stmt_ok_def
proof (intro allI impI, rule ends_None)
  fix c code p and vs :: "Value list"
  assume "gen_stmt D nm sc p (OperationExpression OPR_SET ds vt (Some (VarExpression cl x t)) (Some r)) = Some c"
    and s: "seg code p c" and vs: "int (length vs) + int D < room"
  then obtain cr where g: "gen_expr nm sc r = Some cr" "need r \<le> D" and so: "slot_ok (local_id sc x)"
    and c: "c = cr @ [ins OP_STORE_VAR [word_id (local_id sc x)]]" by (auto simp: gen_value_def split: if_splits)
  have "runs code (p, vs, ls) (p + length cr, v # vs, ls)" using r g s vs unfolding value_ok_def c by auto
  moreover have "runs code (p + length cr, v # vs, ls) (Suc (p + length cr), vs, ls')"
  proof (rule runs_store)
    show "upd ls (to_int32 (word_id (local_id sc x))) v = Some ls'" unfolding to_int32_word_id [OF so] by (rule u)
  qed (use s vs room D in \<open>simp_all add: c del: opcode_num.simps\<close>)
  ultimately show "runs code (p, vs, ls) (p + length c, vs, ls')" by (simp add: c) (rule runs_trans)
qed

lemma crement_ok:
  assumes v: "idx ls (scope_var sc x) = Some v" "upd ls (scope_var sc x) (v\<lparr>v_bits := v_bits v + k\<rparr>) = Some ls'"
    and k: "(ot, k) \<in> {(OPR_INCREMENT, 1), (OPR_DECREMENT, - 1)}" and room: "room \<le> cap" and D: "2 \<le> D"
  shows "stmt_ok runs room D nm sc (OperationExpression ot ds vt (Some (VarExpression cl x t)) None) ls ls' None"
  unfolding stmt_ok_def
proof (intro allI impI, rule ends_None)
  fix c code p and vs :: "Value list"
  assume "gen_stmt D nm sc p (OperationExpression ot ds vt (Some (VarExpression cl x t)) None) = Some c"
    and s: "seg code p c" and vs: "int (length vs) + int D < room"
  with k have so: "slot_ok (scope_var sc x)" and c: "c = [ins OP_INC_VAR [word_id (scope_var sc x), k]]"
    by (auto split: if_splits)
  have "runs code (p, vs, ls) (Suc p, vs, ls')"
    by (rule runs_inc [where w = "word_id (scope_var sc x)" and n = k])
      (use v s vs room in \<open>simp_all add: c to_int32_word_id [OF so] del: opcode_num.simps\<close>)
  then show "runs code (p, vs, ls) (p + length c, vs, ls')" by (simp add: c)
qed

lemma decrement_ok:
  assumes "idx ls (scope_var sc x) = Some v" and "upd ls (scope_var sc x) (v\<lparr>v_bits := v_bits v - 1\<rparr>) = Some ls'"
    and "room \<le> cap" and "2 \<le> D"
  shows "stmt_ok runs room D nm sc (OperationExpression OPR_DECREMENT ds vt (Some (VarExpression cl x t)) None) ls ls' None"
  by (rule crement_ok [of ls sc x v "- 1"]) (use assms in simp_all)

lemma call_ok:
  assumes v: "value_ok runs room nm sc ls (CallExpression q cl x ps) v" and room: "room \<le> cap" and D: "2 \<le> D"
  shows "stmt_ok runs room D nm sc (CallExpression q cl x ps) ls ls None"
  unfolding stmt_ok_def
proof (intro allI impI, rule ends_None)
  fix c code p and vs :: "Value list"
  assume "gen_stmt D nm sc p (CallExpression q cl x ps) = Some c"
    and s: "seg code p c" and vs: "int (length vs) + int D < room"
  then obtain cc where g: "gen_expr nm sc (CallExpression q cl x ps) = Some cc" "need (CallExpression q cl x ps) \<le> D"
    and c: "c = cc @ [ins OP_POP []]" by (auto simp: gen_value_def simp del: gen_expr.simps need.simps split: if_splits)
  have "runs code (p, vs, ls) (p + length cc, v # vs, ls)" using v g s vs unfolding value_ok_def c by auto
  moreover have "runs code (p + length cc, v # vs, ls) (Suc (p + length cc), vs, ls)"
    by (rule runs_pop) (use s vs room D in \<open>simp_all add: c del: opcode_num.simps\<close>)
  ultimately show "runs code (p, vs, ls) (p + length c, vs, ls)" by (simp add: c) (rule runs_trans)
qed

lemma return_ok:
  assumes v: "value_ok runs room nm sc ls e v"
  shows "stmt_ok runs room D nm sc (ReturnExpression (Some e)) ls ls (Some v)"
  unfolding stmt_ok_def
proof (intro allI impI)
  fix c code p and vs :: "Value list"
  assume "gen_stmt D nm sc p (ReturnExpression (Some e)) = Some c" and s: "seg code p c" and vs: "int (length vs) + int D < room"
  then obtain ce where g: "gen_expr nm sc e = Some ce" "need e \<le> D" and c: "c = ce @ [ins OP_RETURN []]"
    by (auto simp: gen_value_def split: if_splits)
  have "runs code (p, vs, ls) (p + length ce, v # vs, ls)" using v g s vs unfolding value_ok_def c by auto
  with s show "ends runs code p (p + length c) vs ls ls (Some v)" by (auto simp: ends_def c simp del: opcode_num.simps)
qed

lemma return_0_ok:
  assumes room: "room \<le> cap"
  shows "stmt_ok runs room D nm sc (ReturnExpression None) ls ls (Some (mk_int 0))"
  unfolding stmt_ok_def
proof (intro allI impI)
  fix c code p and vs :: "Value list"
  assume "gen_stmt D nm sc p (ReturnExpression None) = Some c" and s: "seg code p c" and vs: "int (length vs) + int D < room"
  then have c: "c = [ins OP_PUSHI [0], ins OP_RETURN []]" by simp
  have "runs code (p, vs, ls) (Suc p, mk_int 0 # vs, ls)"
    by (rule runs_push) (use s vs room in \<open>simp_all add: c del: opcode_num.simps\<close>)
  with s show "ends runs code p (p + length c) vs ls ls (Some (mk_int 0))"
    by (auto simp: ends_def c simp del: opcode_num.simps)
qed

lemma if_ok:
  assumes t: "test_ok runs room D nm sc ls t v" "v_bits v \<noteq> 0" and b: "stmts_ok runs room D nm (inner tb sc) (m_code tb) ls ls' out"
    and room: "room \<le> cap"
  shows "stmt_ok runs room D nm sc (IfExpression t tb fb) ls ls' out"
  unfolding stmt_ok_def
proof (intro allI impI)
  fix c code p and vs :: "Value list"
  assume gen: "gen_stmt D nm sc p (IfExpression t tb fb) = Some c" and seg: "seg code p c" and vs: "int (length vs) + int D < room"
  show "ends runs code p (p + length c) vs ls ls' out"
  proof (cases fb)
    case None
    with gen obtain ct br cb where g: "gen_test D nm sc t = Some (ct, br)"
      "gen_stmts D nm (inner tb sc) (Suc (p + length ct)) (m_code tb) = Some cb"
      and c: "c = ct @ ins br [of_nat (Suc (p + length ct) + length cb)] # cb"
      by (auto simp: Let_def split: bind_splits)
    from seg have s: "seg code p (ct @ [ins br [of_nat (Suc (p + length ct) + length cb)]])"
      "seg code (Suc (p + length ct)) cb" "Suc (p + length ct) + length cb \<le> length code"
      using seg_bound [OF seg] by (simp_all add: c add.assoc del: of_nat_add of_nat_Suc opcode_num.simps)
    have "runs code (p, vs, ls) (Suc (p + length ct), vs, ls)"
      using test_okD [OF t(1) g(1) s(1,3) vs] t(2) by simp
    moreover have "ends runs code (Suc (p + length ct)) (Suc (p + length ct) + length cb) vs ls ls' out"
      by (rule stmts_okD [OF b g(2) s(2) vs])
    ultimately show ?thesis by (simp add: c add.assoc) (rule ends_before)
  next
    case (Some f)
    with gen obtain ct br cb cf where g: "gen_test D nm sc t = Some (ct, br)"
      "gen_stmts D nm (inner tb sc) (Suc (p + length ct)) (m_code tb) = Some cb"
      and c: "c = ct @ ins br [of_nat (Suc (Suc (p + length ct) + length cb))] # cb
        @ ins OP_JMP [of_nat (Suc (Suc (p + length ct) + length cb) + length cf)] # cf"
      by (auto simp: Let_def split: bind_splits)
    let ?f = "Suc (Suc (p + length ct) + length cb)"
    from seg have s: "seg code p (ct @ [ins br [of_nat ?f]])" "seg code (Suc (p + length ct)) cb"
      "?f \<le> length code" "seg code (Suc (p + length ct) + length cb) [ins OP_JMP [of_nat (?f + length cf)]]"
      "?f + length cf \<le> length code"
      using seg_bound [OF seg] by (simp_all add: c add.assoc del: of_nat_add of_nat_Suc opcode_num.simps)
    have "runs code (p, vs, ls) (Suc (p + length ct), vs, ls)"
      using test_okD [OF t(1) g(1) s(1,3) vs] t(2) by simp
    moreover have "ends runs code (Suc (p + length ct)) (Suc (p + length ct) + length cb) vs ls ls' out"
      by (rule stmts_okD [OF b g(2) s(2) vs])
    moreover have "runs code (Suc (p + length ct) + length cb, vs, ls') (?f + length cf, vs, ls')"
      using runs_jump [OF _ _ s(5)] s(4) vs room by simp
    ultimately show ?thesis by (simp add: c add.assoc) (blast intro: ends_before ends_after)
  qed
qed

lemma if_not_ok:
  assumes t: "test_ok runs room D nm sc ls t v" "v_bits v = 0"
  shows "stmt_ok runs room D nm sc (IfExpression t tb None) ls ls None"
  unfolding stmt_ok_def
proof (intro allI impI, rule ends_None)
  fix c code p and vs :: "Value list"
  assume "gen_stmt D nm sc p (IfExpression t tb None) = Some c" and seg: "seg code p c" and vs: "int (length vs) + int D < room"
  then obtain ct br cb where g: "gen_test D nm sc t = Some (ct, br)"
    and c: "c = ct @ ins br [of_nat (Suc (p + length ct) + length cb)] # cb" by (auto simp: Let_def split: bind_splits)
  from seg have s: "seg code p (ct @ [ins br [of_nat (Suc (p + length ct) + length cb)]])"
    "Suc (p + length ct) + length cb \<le> length code"
    using seg_bound [OF seg] by (simp_all add: c add.assoc del: of_nat_add of_nat_Suc opcode_num.simps)
  from test_okD [OF t(1) g(1) s vs] t(2) show "runs code (p, vs, ls) (p + length c, vs, ls)" by (simp add: c add.assoc)
qed

lemma else_ok:
  assumes t: "test_ok runs room D nm sc ls t v" "v_bits v = 0" and b: "stmts_ok runs room D nm (inner fb sc) (m_code fb) ls ls' out"
  shows "stmt_ok runs room D nm sc (IfExpression t tb (Some fb)) ls ls' out"
  unfolding stmt_ok_def
proof (intro allI impI)
  fix c code p and vs :: "Value list"
  assume "gen_stmt D nm sc p (IfExpression t tb (Some fb)) = Some c" and seg: "seg code p c" and vs: "int (length vs) + int D < room"
  then obtain ct br cb cf where g: "gen_test D nm sc t = Some (ct, br)"
    "gen_stmts D nm (inner fb sc) (Suc (Suc (p + length ct) + length cb)) (m_code fb) = Some cf"
    and c: "c = ct @ ins br [of_nat (Suc (Suc (p + length ct) + length cb))] # cb
      @ ins OP_JMP [of_nat (Suc (Suc (p + length ct) + length cb) + length cf)] # cf"
    by (auto simp: Let_def split: bind_splits)
  let ?f = "Suc (Suc (p + length ct) + length cb)"
  from seg have s: "seg code p (ct @ [ins br [of_nat ?f]])" "?f \<le> length code" "seg code ?f cf"
    using seg_bound [OF seg] by (simp_all add: c add.assoc del: of_nat_add of_nat_Suc opcode_num.simps)
  have "runs code (p, vs, ls) (?f, vs, ls)" using test_okD [OF t(1) g(1) s(1,2) vs] t(2) by simp
  from ends_before [OF this stmts_okD [OF b g(2) s(3) vs]] show "ends runs code p (p + length c) vs ls ls' out"
    by (simp add: c add.assoc)
qed

lemma for_ok:
  assumes i: "opt_ok runs room D nm sc i ls ls1" and l: "loop_ok runs room D nm sc t n body ls1 ls' out"
  shows "stmt_ok runs room D nm sc (ForExpression i t n body) ls ls' out"
  unfolding stmt_ok_def
proof (intro allI impI)
  fix c code p and vs :: "Value list"
  assume "gen_stmt D nm sc p (ForExpression i t n body) = Some c" and seg: "seg code p c" and vs: "int (length vs) + int D < room"
  then obtain ci ct br cb cn where g: "gen_opt D nm sc p i = Some ci" "gen_test D nm sc t = Some (ct, br)"
    "gen_stmts D nm (inner body sc) (Suc (p + length ci + length ct)) (m_code body) = Some cb"
    "gen_opt D nm sc (Suc (p + length ci + length ct) + length cb) n = Some cn"
    and c: "c = ci @ ct @ ins br [of_nat (Suc (p + length ci + length ct) + length cb + length cn + 1)]
      # cb @ cn @ [ins OP_JMP [of_nat (p + length ci)]]"
    by (auto simp: Let_def split: bind_splits)
  from seg have s: "seg code p ci"
    "seg code (p + length ci) (ct @ ins br [of_nat (Suc (p + length ci + length ct) + length cb + length cn + 1)]
      # cb @ cn @ [ins OP_JMP [of_nat (p + length ci)]])"
    by (auto simp: c)
  from ends_before [OF opt_okD [OF i g(1) s(1) vs] loop_okD [OF l g(2-4) s(2) vs]]
  show "ends runs code p (p + length c) vs ls ls' out" by (simp add: c add.assoc)
qed

lemma sequence_ok:
  shows "stmts_ok runs room D nm sc [] ls ls None"
    and "stmt_ok runs room D nm sc e ls ls' (Some v) \<Longrightarrow> stmts_ok runs room D nm sc (e # es) ls ls' (Some v)"
    and "stmt_ok runs room D nm sc e ls ls1 None \<Longrightarrow> stmts_ok runs room D nm sc es ls1 ls' out
      \<Longrightarrow> stmts_ok runs room D nm sc (e # es) ls ls' out"
proof -
  show "stmts_ok runs room D nm sc [] ls ls None" by (simp add: stmts_ok_def ends_None runs_refl)
  show "stmts_ok runs room D nm sc (e # es) ls ls' (Some v)" if "stmt_ok runs room D nm sc e ls ls' (Some v)"
    using that by (fastforce simp: stmt_ok_def stmts_ok_def ends_def split: bind_splits)
  show "stmts_ok runs room D nm sc (e # es) ls ls' out"
    if "stmt_ok runs room D nm sc e ls ls1 None" "stmts_ok runs room D nm sc es ls1 ls' out"
    unfolding stmts_ok_def
  proof (intro allI impI)
    fix c code p and vs :: "Value list"
    assume "gen_stmts D nm sc p (e # es) = Some c" and seg: "seg code p c" and vs: "int (length vs) + int D < room"
    then obtain c1 cs where g: "gen_stmt D nm sc p e = Some c1" "gen_stmts D nm sc (p + length c1) es = Some cs"
      and c: "c = c1 @ cs" by (auto split: bind_splits)
    from seg have s: "seg code p c1" "seg code (p + length c1) cs" by (auto simp: c)
    have "runs code (p, vs, ls) (p + length c1, vs, ls1)" using stmt_okD [OF that(1) g(1) s(1) vs] by (simp add: ends_def)
    from ends_before [OF this stmts_okD [OF that(2) g(2) s(2) vs]] show "ends runs code p (p + length c) vs ls ls' out"
      by (simp add: c add.assoc)
  qed
qed

lemma opt_runs_ok:
  shows "opt_ok runs room D nm sc None ls ls"
    and "stmt_ok runs room D nm sc e ls ls' None \<Longrightarrow> opt_ok runs room D nm sc (Some e) ls ls'"
  by (auto simp: opt_ok_def stmt_ok_def ends_def runs_refl)

text \<open>Loops: the test is at the top, the code ends with a jump back to it.\<close>

lemma loop_parts:
  assumes "seg code p (ct @ ins br [of_nat (Suc (p + length ct) + length cb + length cn + 1)] # cb @ cn @ [ins OP_JMP [of_nat p]])"
  shows "seg code p (ct @ [ins br [of_nat (Suc (p + length ct) + length cb + length cn + 1)]])"
    and "Suc (p + length ct) + length cb + length cn + 1 \<le> length code"
    and "seg code (Suc (p + length ct)) cb" and "seg code (Suc (p + length ct) + length cb) cn"
    and "seg code (Suc (p + length ct) + length cb + length cn) [ins OP_JMP [of_nat p]]" and "p \<le> length code"
  using assms seg_bound [OF assms] by (simp_all add: add.assoc del: of_nat_add of_nat_Suc opcode_num.simps)

lemma loop_end_ok:
  assumes t: "test_ok runs room D nm sc ls t v" "v_bits v = 0"
  shows "loop_ok runs room D nm sc t n body ls ls None"
  unfolding loop_ok_def
proof (intro allI impI, rule ends_None)
  fix ct cb cn :: icode and br code p and vs :: "Value list"
  let ?q = "Suc (p + length ct) + length cb + length cn + 1"
  assume g: "gen_test D nm sc t = Some (ct, br)" and vs: "int (length vs) + int D < room"
    and seg: "seg code p (ct @ ins br [of_nat ?q] # cb @ cn @ [ins OP_JMP [of_nat p]])"
  from test_okD [OF t(1) g loop_parts(1,2) [OF seg] vs] t(2) show "runs code (p, vs, ls) (?q, vs, ls)" by simp
qed

lemma loop_return_ok:
  assumes t: "test_ok runs room D nm sc ls t v" "v_bits v \<noteq> 0"
    and b: "stmts_ok runs room D nm (inner body sc) (m_code body) ls ls' (Some w)"
  shows "loop_ok runs room D nm sc t n body ls ls' (Some w)"
  unfolding loop_ok_def
proof (intro allI impI)
  fix ct cb cn :: icode and br code p and vs :: "Value list"
  let ?q = "Suc (p + length ct) + length cb + length cn + 1"
  assume g: "gen_test D nm sc t = Some (ct, br)" "gen_stmts D nm (inner body sc) (Suc (p + length ct)) (m_code body) = Some cb"
    and vs: "int (length vs) + int D < room"
    and seg: "seg code p (ct @ ins br [of_nat ?q] # cb @ cn @ [ins OP_JMP [of_nat p]])"
  have "runs code (p, vs, ls) (Suc (p + length ct), vs, ls)"
    using test_okD [OF t(1) g(1) loop_parts(1,2) [OF seg] vs] t(2) by simp
  from ends_before [OF this stmts_okD [OF b g(2) loop_parts(3) [OF seg] vs]]
  show "ends runs code p ?q vs ls ls' (Some w)" by (simp add: ends_def)
qed

lemma loop_more_ok:
  assumes t: "test_ok runs room D nm sc ls t v" "v_bits v \<noteq> 0"
    and b: "stmts_ok runs room D nm (inner body sc) (m_code body) ls ls1 None"
    and n: "opt_ok runs room D nm sc n ls1 ls2" and l: "loop_ok runs room D nm sc t n body ls2 ls' out" and room: "room \<le> cap"
  shows "loop_ok runs room D nm sc t n body ls ls' out"
  unfolding loop_ok_def
proof (intro allI impI)
  fix ct cb cn :: icode and br code p and vs :: "Value list"
  let ?q = "Suc (p + length ct) + length cb + length cn + 1"
  assume g: "gen_test D nm sc t = Some (ct, br)" "gen_stmts D nm (inner body sc) (Suc (p + length ct)) (m_code body) = Some cb"
      "gen_opt D nm sc (Suc (p + length ct) + length cb) n = Some cn"
    and seg: "seg code p (ct @ ins br [of_nat ?q] # cb @ cn @ [ins OP_JMP [of_nat p]])"
    and vs: "int (length vs) + int D < room"
  note s = loop_parts [OF seg]
  have r1: "runs code (p, vs, ls) (Suc (p + length ct), vs, ls)" using test_okD [OF t(1) g(1) s(1,2) vs] t(2) by simp
  have r2: "runs code (Suc (p + length ct), vs, ls) (Suc (p + length ct) + length cb, vs, ls1)"
    using stmts_okD [OF b g(2) s(3) vs] by (simp add: ends_def)
  have r3: "runs code (Suc (p + length ct) + length cb, vs, ls1) (Suc (p + length ct) + length cb + length cn, vs, ls2)"
    by (rule opt_okD [OF n g(3) s(4) vs])
  have r4: "runs code (Suc (p + length ct) + length cb + length cn, vs, ls2) (p, vs, ls2)"
    using runs_jump [OF _ _ s(6)] s(5) vs room by simp
  from ends_before [OF runs_trans [OF runs_trans [OF r1 r2] runs_trans [OF r3 r4]] loop_okD [OF l g seg vs]]
  show "ends runs code p ?q vs ls ls' out" .
qed

text \<open>A function whose body runs can be called.\<close>

lemma body_calls:
  assumes comp: "compiled D nm fs P" and D: "2 \<le> D" and f: "fs f = Some (as, b)" and n: "int (length args) \<le> m_maxVarId b"
    and body: "stmts_ok runs (cap - int (d * Suc D)) D nm ([b], Some as) (m_code b)
      (mk_object inst # args @ replicate (nat (m_maxVarId b) - length args) zero_value) ls' out"
  shows "calls (Suc d * Suc D) f inst args (case out of None \<Rightarrow> mk_int 0 | Some v \<Rightarrow> v)"
proof -
  from comp f obtain c where c: "gen_stmts D nm ([b], Some as) 0 (m_code b) = Some c"
    and P: "P f = Some (c @ [ins OP_PUSHI [0], ins OP_RETURN []], Suc (nat (m_maxVarId b)))"
    by (fastforce simp: compiled_def body_code_def)
  let ?code = "c @ [ins OP_PUSHI [0], ins OP_RETURN []]" and ?v = "case out of None \<Rightarrow> mk_int 0 | Some v \<Rightarrow> v"
    and ?ls = "mk_object inst # args @ replicate (nat (m_maxVarId b) - length args) zero_value"
  have D3: "3 \<le> Suc d * Suc D" using mult_le_mono [of 1 "Suc d" 3 "Suc D"] D by simp
  show ?thesis
  proof (rule calls_run [OF P])
    show "length args \<le> nat (m_maxVarId b)" using n by simp
    show "2 \<le> Suc d * Suc D" using D3 by simp
    fix fr and vs :: "Value list" assume vs: "int (length vs) + int (Suc d * Suc D) < cap"
    with D3 have vs3: "int (length vs) + 3 < cap" by linarith
    have e: "ends runs ?code 0 (0 + length c) (fr # vs) ?ls ls' out"
      by (rule stmts_okD [OF body c seg_self]) (use vs in simp)
    have z: "runs ?code (length c, fr # vs, ls') (Suc (length c), mk_int 0 # fr # vs, ls')"
      by (rule runs_push) (use vs3 in \<open>simp_all del: opcode_num.simps\<close>)
    have r: "Suc (length c) < length ?code" "?code ! Suc (length c) = ins OP_RETURN []"
      by (simp_all add: nth_append del: opcode_num.simps)
    show "\<exists>q ls. q < length ?code \<and> ?code ! q = ins OP_RETURN [] \<and> runs ?code (0, fr # vs, ?ls) (q, ?v # fr # vs, ls)"
    proof (cases out)
      case None
      with e have "runs ?code (0, fr # vs, ?ls) (length c, fr # vs, ls')" by (simp add: ends_def)
      with r runs_trans [OF this z] None show ?thesis by (intro exI [of _ "Suc (length c)"] exI [of _ ls']) simp
    next
      case (Some v)
      with e show ?thesis by (auto simp: ends_def simp del: opcode_num.simps)
    qed
  qed
qed

lemma args_runs_ok:
  shows "args_ok runs room nm sc ls [] []"
    and "value_ok runs room nm sc ls p v \<Longrightarrow> args_ok runs room nm sc ls ps us \<Longrightarrow> args_ok runs room nm sc ls (p # ps) (v # us)"
proof -
  show "args_ok runs room nm sc ls [] []" by (simp add: args_ok_def runs_refl)
  assume p: "value_ok runs room nm sc ls p v" and ps: "args_ok runs room nm sc ls ps us"
  show "args_ok runs room nm sc ls (p # ps) (v # us)"
    unfolding args_ok_def
  proof (intro allI impI)
    fix c code k and vs :: "Value list"
    assume "gen_list nm sc (p # ps) = Some c" and seg: "seg code k c" and vs: "int (length vs) + int (needs (p # ps)) < room"
    then obtain c1 cs where g: "gen_expr nm sc p = Some c1" "gen_list nm sc ps = Some cs" and c: "c = c1 @ cs"
      by (auto split: bind_splits)
    have s: "seg code k c1" "seg code (k + length c1) cs" using seg by (simp_all add: c)
    have "runs code (k, vs, ls) (k + length c1, v # vs, ls)" using p g(1) s(1) vs by (auto simp: value_ok_def)
    moreover have "int (length (v # vs)) + int (needs ps) < room" using vs by simp
    with ps g(2) s(2) have "runs code (k + length c1, v # vs, ls) (k + length c1 + length cs, rev us @ v # vs, ls)"
      unfolding args_ok_def by blast
    ultimately show "runs code (k, vs, ls) (k + length c, rev (v # us) @ vs, ls)" by (simp add: c add.assoc) (rule runs_trans)
  qed
qed

lemma program_runs:
  assumes comp: "compiled D nm fs P" and D: "2 \<le> D"
  shows "eval nm fs d sc ls e v \<Longrightarrow> value_ok runs (cap - int (d * Suc D)) nm sc ls e v
      \<and> test_ok runs (cap - int (d * Suc D)) D nm sc ls e v"
    and "evals nm fs d sc ls es us \<Longrightarrow> args_ok runs (cap - int (d * Suc D)) nm sc ls es us"
    and "call nm fs d f inst args v \<Longrightarrow> calls (d * Suc D) f inst args v"
    and "exec nm fs d sc e ls ls' out \<Longrightarrow> stmt_ok runs (cap - int (d * Suc D)) D nm sc e ls ls' out"
    and "exec_opt nm fs d sc i ls ls' \<Longrightarrow> opt_ok runs (cap - int (d * Suc D)) D nm sc i ls ls'"
    and "execs nm fs d sc es ls ls' out \<Longrightarrow> stmts_ok runs (cap - int (d * Suc D)) D nm sc es ls ls' out"
    and "loops nm fs d sc t n body ls ls' out \<Longrightarrow> loop_ok runs (cap - int (d * Suc D)) D nm sc t n body ls ls' out"
proof (induction rule: eval_evals_call_exec_exec_opt_execs_loops.inducts)
  case (e_int d sc ls i)
  show ?case by (rule value_test_ok [OF leaf_value_ok(1) [OF room_left] D room_left]) simp_all
next
  case (e_var ls sc x v d c vt)
  show ?case by (rule value_test_ok [OF leaf_value_ok(2) [OF room_left e_var] D room_left]) simp_all
next
  case (e_oper d sc ls l a r b vt ot w ds)
  note h = conjunct1 [OF e_oper(2)] conjunct1 [OF e_oper(4)] room_left e_oper(5,6)
  show ?case by (intro conjI oper_value_ok [OF h] oper_test_ok [OF h D])
next
  case (e_not d sc ls r a ds vt)
  show ?case by (rule value_test_ok [OF not_value_ok [OF _ room_left] D room_left]) (use e_not in simp_all)
next
  case (e_static x f d sc ls ps vs v q c)
  have "value_ok runs (cap - int (d * Suc D)) nm sc ls (CallExpression q c x ps) v"
    by (rule call_value_ok [OF e_static(3), where m = "d * Suc D" and f = f and st = True and inst = 0])
      (use e_static(1,5) evals_length [OF e_static(2)] in simp_all)
  then show ?case by (rule value_test_ok [OF _ D room_left]) simp_all
next
  case (e_this x f d sc ls ps vs ob v q c)
  have "value_ok runs (cap - int (d * Suc D)) nm sc ls (CallExpression q c x ps) v"
    by (rule call_value_ok [OF e_this(3), where m = "d * Suc D" and f = f and st = False and inst = "v_object ob"])
      (use e_this(1,5,6) evals_length [OF e_this(2)] in simp_all)
  then show ?case by (rule value_test_ok [OF _ D room_left]) simp_all
next
  case (c_call f as b args d inst ls' out)
  show ?case by (rule body_calls [OF comp D c_call(1,4,3)])
qed (use D room_left in \<open>blast intro: args_runs_ok set_ok crement_ok decrement_ok call_ok return_ok return_0_ok if_ok if_not_ok else_ok for_ok
    sequence_ok opt_runs_ok loop_end_ok loop_return_ok loop_more_ok\<close>)+

end

section \<open>The assembler emits that code\<close>

definition emit :: "icode \<Rightarrow> vm \<Rightarrow> vm" where
  "emit c s = s\<lparr>asm_code := asm_code s @ c\<rparr>"

lemma emit_simps [simp]:
  "emit [] s = s" "emit d (emit c s) = emit (c @ d) s" "asm_code (emit c s) = asm_code s @ c" "rt (emit c s) = rt s"
  by (simp_all add: emit_def)

text \<open>The functions of \<open>nm\<close> are methods of the class of the function being assembled, and no fields.\<close>

definition names_ok :: "names \<Rightarrow> aenv \<Rightarrow> vm \<Rightarrow> bool" where
  "names_ok nm ae s \<longleftrightarrow> (\<exists>cp. fun_class ae s = Some cp \<and> (\<forall>x f st. nm x = Some (f, st) \<longrightarrow>
     getFieldId (rt_class (rt s)) cp x = Some (- 1) \<and> findMethod (rt_class (rt s)) cp x = Some f \<and> f \<noteq> 0
     \<and> (\<exists>fn. rt_func (rt s) f = Some fn \<and> fn_static fn = st)))"

lemma names_ok_emit [simp]: "names_ok nm ae (emit c s) = names_ok nm ae s"
  by (simp add: names_ok_def fun_class_def)

lemma act_simps:
  "ok s = Some (True, s)" "pushInstruction i as s = Some (True, emit [ins i as] s)"
  "andThen a b s = (case a s of None \<Rightarrow> None | Some (False, t) \<Rightarrow> Some (False, t) | Some (True, t) \<Rightarrow> b t)"
  by (simp_all add: ok_def pushInstruction_def emit_def andThen_def)

lemma push_operators:
  assumes "vt \<noteq> VALUE_DOUBLE"
  shows "pushOperator OP_ADD vt s = Some (True, emit [ins (pick vt OP_ADD OP_ADDI) []] s)"
    and "pushOperator OP_SUB vt s = Some (True, emit [ins (pick vt OP_SUB OP_SUBI) []] s)"
    and "pushOperator OP_MUL vt s = Some (True, emit [ins (pick vt OP_MUL OP_MULI) []] s)"
    and "pushOperator OP_DIV vt s = Some (True, emit [ins (pick vt OP_DIV OP_DIVI) []] s)"
    and "pushOperator OP_AND vt s = Some (True, emit [ins (pick vt OP_AND OP_ANDI) []] s)"
    and "pushOperator OP_NOT vt s = Some (True, emit [ins (pick vt OP_NOT OP_NOTI) []] s)"
    and "pushCMP vt s = Some (True, emit [ins (pick vt OP_CMP OP_CMPI) []] s)"
  using assms by (cases vt; simp add: pushOperator_def push_raw_def pushCMP_def act_simps emit_def pick_def)+

lemma gen_op_opers: "gen_op ot vt = Some co \<Longrightarrow> ot \<notin> {OPR_SET, OPR_INCREMENT, OPR_DECREMENT, OPR_REFERENCE}"
  by (cases ot) simp_all

lemma binary_oper_emit:
  "gen_op ot vt = Some co \<Longrightarrow> vt \<noteq> VALUE_DOUBLE
    \<Longrightarrow> \<exists>a. binary_oper ot vt = Some a \<and> (\<forall>s. a s = Some (True, emit co s))"
  by (cases ot) (auto simp: binary_oper_def act_simps push_operators simp del: opcode_num.simps)

lemma call_target_emit:
  assumes "names_ok nm ae s" and "nm x = Some (f, st)" and "scope_var sc x = - 1"
  shows "call_target ae sc False 0 x n r s = Some (True, emit (if st then [ins OP_CALL_STATIC [f, n]]
    else [ins OP_LOAD_VAR [0], ins OP_CALL [f, n]]) s)"
proof -
  from assms obtain cp fn where "fun_class ae s = Some cp" "getFieldId (rt_class (rt s)) cp x = Some (- 1)"
    "findMethod (rt_class (rt s)) cp x = Some f" "f \<noteq> 0" "rt_func (rt s) f = Some fn" "fn_static fn = st"
    unfolding names_ok_def by metis
  with assms(3) show ?thesis
    by (cases st) (simp_all add: call_target_def reading_def isVariable_def whenSome_def act_simps del: opcode_num.simps)
qed

lemma assemble_expr:
  shows "gen_expr nm sc e = Some c \<Longrightarrow> names_ok nm ae s
      \<Longrightarrow> assembleExpression ae sc e None True s = Some (True, emit c s)"
    and "gen_list nm sc ps = Some c \<Longrightarrow> names_ok nm ae s
      \<Longrightarrow> runAll (map (\<lambda>p. assembleExpression ae sc p None True) ps) s = Some (True, emit c s)"
proof (induction nm sc e and nm sc ps arbitrary: c s and c s rule: gen_expr_gen_list.induct)
  case (2 nm sc c' x vt)
  then have "local_id sc x \<noteq> - 1" by (auto simp: slot_ok_def split: if_splits)
  with 2 show ?case
    by (auto simp: load_def load_plain_def local_id_def Let_def act_simps split: if_splits)
next
  case (3 nm sc ot d vt l r)
  then obtain cr cl co where g: "gen_expr nm sc r = Some cr" "gen_expr nm sc l = Some cl" "gen_op ot vt = Some co"
    and c: "c = cr @ cl @ co" and t: "vt \<noteq> VALUE_DOUBLE \<and> od_hasLeft d" by (auto split: if_splits bind_splits)
  obtain a where a: "binary_oper ot vt = Some a" "\<And>s. a s = Some (True, emit co s)"
    using binary_oper_emit [OF g(3)] t by blast
  from gen_op_opers [OF g(3)] 3(1) [OF t g(1)] 3(2) [OF t g(1) g(2)] 3(4) a t show ?case
    by (simp add: c act_simps)
next
  case (4 nm sc ot d vt r)
  then obtain cr where g: "gen_expr nm sc r = Some cr" and t: "ot = OPR_NOT \<and> vt \<noteq> VALUE_DOUBLE \<and> \<not> od_hasLeft d"
    and c: "c = cr @ [ins (pick vt OP_NOT OP_NOTI) []]" by (auto split: if_splits)
  from 4(1) [OF t g 4(3)] t show ?case by (simp add: c act_simps binary_oper_def push_operators)
next
  case (5 nm sc inRef clazz name params)
  then obtain f st cp where g: "gen_list nm sc params = Some cp" "nm name = Some (f, st)"
    and t: "\<not> inRef \<and> clazz = 0 \<and> scope_var sc name = - 1 \<and> length params < 2 ^ 31"
    and c: "c = cp @ call_code (f, st) (length params)" by (auto split: if_splits bind_splits)
  have "runAll (map (\<lambda>p. assembleExpression ae sc p None True) params) s = Some (True, emit cp s)"
    using 5(1) [OF t g(2,1) 5(3)] .
  with call_target_emit [of nm ae "emit cp s" name f st sc] 5(3) g(2) t show ?case
    by (simp add: c act_simps assembleCall_def call_code_def)
next
  case (8 nm sc p ps)
  then obtain c1 cs where "gen_expr nm sc p = Some c1" "gen_list nm sc ps = Some cs" "c = c1 @ cs" by (auto split: bind_splits)
  with 8 show ?case by (simp add: act_simps)
qed (auto simp: act_simps)

lemma assembleBlock_runAll:
  "assembleBlock ae sc b = runAll (map (\<lambda>e. assembleExpression ae sc e None False) (m_code b))"
  by (cases b) simp

lemma code_size_emit: "code_size (emit (c @ [i]) s) - 1 = int (length (asm_code s) + length c)"
  by (simp add: code_size_def)

lemma patch_emit:
  "patch_size (int (length (asm_code s) + length c)) 0 (emit (c @ ins br [a] # d) s)
     = Some (True, emit (c @ ins br [of_nat (Suc (length (asm_code s) + length c) + length d)] # d) s)"
proof -
  have 1: "idx (asm_code (emit (c @ ins br [a] # d) s)) (int (length (asm_code s) + length c)) = Some (ins br [a])"
    unfolding idx_nat by (simp add: nth_append)
  have 2: "upd (asm_code (emit (c @ ins br [a] # d) s)) (int (length (asm_code s) + length c)) (ins br [w])
    = Some (asm_code s @ c @ ins br [w] # d)" for w
    unfolding upd_nat by (simp add: list_update_append)
  have 3: "set_arg 0 w (ins br [a]) = Some (ins br [w])" for w
    using upd_nat [of "[a]" 0 w] by (simp add: set_arg_def)
  show ?thesis
    unfolding patch_size_def 1 bind.simps 3 2
    by (simp add: emit_def ac_simps)
qed

lemma fused_length:
  assumes "gen_expr nm sc t = Some c" and "fused_branch (ins_op (last c)) = Some b"
  shows "2 < length c"
proof -
  from fused_oper [OF assms] obtain ot ds vt l r where t: "t = OperationExpression ot ds vt (Some l) (Some r)" .
  with assms(1) obtain cr cl co where g: "gen_expr nm sc r = Some cr" "gen_expr nm sc l = Some cl" "gen_op ot vt = Some co"
    and c: "c = cr @ cl @ co" by (auto split: if_splits bind_splits)
  from gen_op_nonempty [OF g(3)] gen_expr_nonempty [OF g(1)] gen_expr_nonempty [OF g(2)] show ?thesis
    by (cases cr; cases cl; cases co) (auto simp: c)
qed

lemma test_emits:
  assumes "gen_test D nm sc t = Some (ct, br)" and nm: "names_ok nm ae s"
  shows "assembleTest (assembleExpression ae sc t None True) s = Some (True, emit (ct @ [ins br [0]]) s)"
proof -
  from assms obtain c where c: "gen_expr nm sc t = Some c"
    and ct: "(case fused_branch (ins_op (last c)) of
        Some b \<Rightarrow> (butlast c, b)
      | None \<Rightarrow> (c @ [ins OP_PUSHI [0], ins OP_CMPI []], OP_BEQ)) = (ct, br)"
    by (auto simp: gen_test_def gen_value_def split: bind_splits if_splits option.splits)
  have t: "assembleTest (assembleExpression ae sc t None True) s = push_branch (emit c s)"
    by (simp add: assembleTest_def act_simps assemble_expr(1) [OF c nm])
  have l: "last (asm_code (emit c s)) = last c" using gen_expr_nonempty [OF c] by simp
  show ?thesis
  proof (cases "fused_branch (ins_op (last c))")
    case None
    with ct t l show ?thesis by (auto simp: push_branch_def reading_def act_simps)
  next
    case (Some b)
    with fused_length [OF c Some] ct have "ct = butlast c" "br = b" "2 < length (asm_code (emit c s))" by auto
    moreover have "(emit c s)\<lparr>asm_code := butlast (asm_code (emit c s))\<rparr> = emit (butlast c) s"
      using gen_expr_nonempty [OF c] by (simp add: emit_def butlast_append)
    ultimately show ?thesis using Some t l by (simp add: push_branch_def reading_def act_simps)
  qed
qed

text \<open>\<open>if\<close> and \<open>for\<close> around the code of their parts.\<close>

lemma if_emits:
  assumes t: "gen_test D nm sc t = Some (ct, br)" "names_ok nm ae s"
    and b: "a (emit (ct @ [ins br [0]]) s) = Some (True, emit (ct @ ins br [0] # cb) s)"
  shows "assembleIf (assembleExpression ae sc t None True) a None s
    = Some (True, emit (ct @ ins br [of_nat (Suc (length (asm_code s) + length ct) + length cb)] # cb) s)"
  by (simp only: assembleIf_def ignoring_def test_emits [OF t] reading_def Let_def option.case prod.case act_simps
      code_size_emit bool.case b patch_emit)

lemma else_emits:
  assumes t: "gen_test D nm sc t = Some (ct, br)" "names_ok nm ae s"
    and b: "a (emit (ct @ [ins br [0]]) s) = Some (True, emit (ct @ ins br [0] # cb) s)"
    and f: "f = Suc (Suc (length (asm_code s) + length ct) + length cb)"
    and e: "b (emit ((ct @ ins br [of_nat f] # cb) @ [ins OP_JMP [0]]) s)
      = Some (True, emit ((ct @ ins br [of_nat f] # cb) @ ins OP_JMP [0] # cf) s)"
  shows "assembleIf (assembleExpression ae sc t None True) a (Some b) s
    = Some (True, emit (ct @ ins br [of_nat f] # cb @ ins OP_JMP [of_nat (f + length cf)] # cf) s)"
proof -
  let ?p = "length (asm_code s)"
  have 1: "patch_size (int (?p + length ct)) 0 (emit ((ct @ ins br [0] # cb) @ [ins OP_JMP [0]]) s)
      = Some (True, emit ((ct @ ins br [of_nat f] # cb) @ [ins OP_JMP [0]]) s)"
    using patch_emit [of s ct br 0 "cb @ [ins OP_JMP [0]]"] by (simp add: f)
  have 2: "patch_size (int (?p + length (ct @ ins br [0] # cb))) 0 (emit ((ct @ ins br [of_nat f] # cb) @ ins OP_JMP [0] # cf) s)
      = Some (True, emit (ct @ ins br [of_nat f] # cb @ ins OP_JMP [of_nat (f + length cf)] # cf) s)"
    using patch_emit [of s "ct @ ins br [of_nat f] # cb" OP_JMP 0 cf] by (simp add: f)
  show ?thesis
    by (simp only: assembleIf_def ignoring_def test_emits [OF t] reading_def Let_def option.case prod.case act_simps
        code_size_emit bool.case b emit_simps 1 e 2)
qed

lemma for_emits:
  assumes i: "a s = Some (True, emit ci s)" and t: "gen_test D nm sc t = Some (ct, br)" "names_ok nm ae s"
    and b: "b (emit (ci @ ct @ [ins br [0]]) s) = Some (True, emit (ci @ ct @ ins br [0] # cb) s)"
    and n: "n (emit (ci @ ct @ ins br [0] # cb) s) = Some (True, emit (ci @ (ct @ ins br [0] # cb) @ cn) s)"
    and p: "p = length (asm_code s) + length ci"
  shows "assembleFor a (assembleExpression ae sc t None True) n b s = Some (True, emit (ci @ ct
    @ ins br [of_nat (Suc (p + length ct) + length cb + length cn + 1)] # cb @ cn @ [ins OP_JMP [of_nat p]]) s)"
proof -
  define s1 where "s1 = emit ci s"
  let ?jmp = "ins OP_JMP [of_nat p]"
  have p1: "length (asm_code s1) = p" and nm: "names_ok nm ae s1" using t(2) by (simp_all add: s1_def p)
  have 1: "patch_size (int (length (asm_code s1) + length ct)) 0 (emit (((ct @ ins br [0] # cb) @ cn) @ [?jmp]) s1)
      = Some (True, emit (ct @ ins br [of_nat (Suc (p + length ct) + length cb + length cn + 1)] # cb @ cn @ [?jmp]) s1)"
    using patch_emit [of s1 ct br 0 "cb @ cn @ [?jmp]"] by (simp add: p1 add.assoc)
  have b1: "b (emit (ct @ [ins br [0]]) s1) = Some (True, emit (ct @ ins br [0] # cb) s1)" using b by (simp add: s1_def)
  have n1: "n (emit (ct @ ins br [0] # cb) s1) = Some (True, emit ((ct @ ins br [0] # cb) @ cn) s1)" using n by (simp add: s1_def)
  have j: "pushInstruction OP_JMP [of_nat (length (asm_code s1))] u = Some (True, emit [?jmp] u)" for u
    by (simp add: act_simps p1)
  have "assembleFor a (assembleExpression ae sc t None True) n b s = Some (True, emit (ct
    @ ins br [of_nat (Suc (p + length ct) + length cb + length cn + 1)] # cb @ cn @ [?jmp]) s1)"
    by (simp only: assembleFor_def ignoring_def i [folded s1_def] test_emits [OF t(1) nm] reading_def Let_def
        option.case prod.case andThen_def code_size_emit bool.case b1 n1 j emit_simps(2) 1)
  then show ?thesis by (simp add: s1_def)
qed

lemma stmt_emits:
  shows "gen_stmt D nm sc p e = Some c \<Longrightarrow> p = length (asm_code s) \<Longrightarrow> names_ok nm ae s
      \<Longrightarrow> assembleExpression ae sc e None False s = Some (True, emit c s)"
    and "gen_opt D nm sc p i = Some c \<Longrightarrow> p = length (asm_code s) \<Longrightarrow> names_ok nm ae s
      \<Longrightarrow> (case i of None \<Rightarrow> ok | Some e \<Rightarrow> assembleExpression ae sc e None False) s = Some (True, emit c s)"
    and "gen_stmts D nm sc p es = Some c \<Longrightarrow> p = length (asm_code s) \<Longrightarrow> names_ok nm ae s
      \<Longrightarrow> runAll (map (\<lambda>e. assembleExpression ae sc e None False) es) s = Some (True, emit c s)"
proof (induction D nm sc p e and D nm sc p i and D nm sc p es arbitrary: c s and c s and c s
    rule: gen_stmt_gen_opt_gen_stmts.induct)
  case (1 D nm sc p ot d vt c' x t r)
  then obtain cr where g: "gen_expr nm sc r = Some cr" and so: "slot_ok (local_id sc x)" and ot: "ot = OPR_SET"
    and c: "c = cr @ [ins OP_STORE_VAR [word_id (local_id sc x)]]"
    by (auto simp: gen_value_def split: if_splits)
  from so have "local_id sc x \<noteq> - 1" by (auto simp: slot_ok_def)
  then show ?case
    by (auto simp: ot c act_simps assemble_expr(1) [OF g 1(3)] binary_oper_def assembleSet_def whenSome_def is_reference_def
        store_def local_id_def Let_def simp del: opcode_num.simps)
next
  case (2 D nm sc p ot d vt c' x t)
  have "slot_ok (- 1) = False" by (simp add: slot_ok_def)
  with 2 show ?case
    by (auto simp: act_simps binary_oper_def assembleCrement_def whenSome_def split: if_splits simp del: opcode_num.simps)
next
  case (3 D nm sc p inRef clazz name params)
  then obtain cc where g: "gen_expr nm sc (CallExpression inRef clazz name params) = Some cc" and c: "c = cc @ [ins OP_POP []]"
    by (auto simp: gen_value_def simp del: gen_expr.simps split: if_splits)
  from assemble_expr(1) [OF g 3(3)] show ?case
    by (auto simp: c assembleCall_def act_simps split: option.splits bool.splits)
next
  case (6 D nm sc p t tb)
  then obtain ct br cb where g: "gen_test D nm sc t = Some (ct, br)"
    "gen_stmts D nm (inner tb sc) (Suc (p + length ct)) (m_code tb) = Some cb"
    and c: "c = ct @ ins br [of_nat (Suc (p + length ct) + length cb)] # cb"
    by (auto simp: Let_def split: bind_splits)
  have "assembleBlock ae (inner tb sc) tb (emit (ct @ [ins br [0]]) s) = Some (True, emit (ct @ ins br [0] # cb) s)"
    using 6(1) [OF g(1) refl _ _ _, of "Suc (p + length ct)" cb "emit (ct @ [ins br [0]]) s"] g(2) 6(3,4)
    by (simp add: assembleBlock_runAll)
  from if_emits [where a = "assembleBlock ae (inner tb sc) tb", OF g(1) 6(4) this] show ?case by (simp add: c 6(3) del: of_nat_Suc of_nat_add)
next
  case (7 D nm sc p t tb fb)
  then obtain ct br cb cf where g: "gen_test D nm sc t = Some (ct, br)"
    "gen_stmts D nm (inner tb sc) (Suc (p + length ct)) (m_code tb) = Some cb"
    "gen_stmts D nm (inner fb sc) (Suc (Suc (p + length ct) + length cb)) (m_code fb) = Some cf"
    and c: "c = ct @ ins br [of_nat (Suc (Suc (p + length ct) + length cb))] # cb
      @ ins OP_JMP [of_nat (Suc (Suc (p + length ct) + length cb) + length cf)] # cf"
    by (auto simp: Let_def split: bind_splits)
  let ?f = "Suc (Suc (p + length ct) + length cb)"
  have b: "assembleBlock ae (inner tb sc) tb (emit (ct @ [ins br [0]]) s) = Some (True, emit (ct @ ins br [0] # cb) s)"
    using 7(1) [OF g(1) refl, of "Suc (p + length ct)" cb "emit (ct @ [ins br [0]]) s"] g(2) 7(4,5)
    by (simp add: assembleBlock_runAll)
  have "assembleBlock ae (inner fb sc) fb (emit ((ct @ ins br [of_nat ?f] # cb) @ [ins OP_JMP [0]]) s)
      = Some (True, emit ((ct @ ins br [of_nat ?f] # cb) @ ins OP_JMP [0] # cf) s)"
    using 7(2) [OF g(1) refl, of "Suc (p + length ct)" cb ?f cf "emit ((ct @ ins br [of_nat ?f] # cb) @ [ins OP_JMP [0]]) s"]
      g(2,3) 7(4,5) by (simp add: assembleBlock_runAll)
  from else_emits [where a = "assembleBlock ae (inner tb sc) tb" and b = "assembleBlock ae (inner fb sc) fb", OF g(1) 7(5) b _ this] show ?case by (simp add: c 7(4) del: of_nat_Suc of_nat_add)
next
  case (8 D nm sc p i t n body)
  then obtain ci ct br cb cn where g: "gen_opt D nm sc p i = Some ci" "gen_test D nm sc t = Some (ct, br)"
    "gen_stmts D nm (inner body sc) (Suc (p + length ci + length ct)) (m_code body) = Some cb"
    "gen_opt D nm sc (Suc (p + length ci + length ct) + length cb) n = Some cn"
    and c: "c = ci @ ct @ ins br [of_nat (Suc (p + length ci + length ct) + length cb + length cn + 1)]
      # cb @ cn @ [ins OP_JMP [of_nat (p + length ci)]]"
    by (auto simp: Let_def split: bind_splits)
  have i: "(case i of None \<Rightarrow> ok | Some e \<Rightarrow> assembleExpression ae sc e None False) s = Some (True, emit ci s)"
    by (rule 8(1) [OF g(1) 8(5,6)])
  have q: "Suc (p + length ci + length ct) = length (asm_code (emit (ci @ ct @ [ins br [0]]) s))"
    "Suc (p + length ci + length ct) + length cb = length (asm_code (emit (ci @ ct @ ins br [0] # cb) s))"
    using 8(5) by simp_all
  have b: "assembleBlock ae (inner body sc) body (emit (ci @ ct @ [ins br [0]]) s) = Some (True, emit (ci @ ct @ ins br [0] # cb) s)"
    using 8(2) [OF g(1,2) refl refl _ g(3) q(1)] 8(6) by (simp add: assembleBlock_runAll)
  have n: "(case n of None \<Rightarrow> ok | Some e \<Rightarrow> assembleExpression ae sc e None False) (emit (ci @ ct @ ins br [0] # cb) s)
      = Some (True, emit (ci @ (ct @ ins br [0] # cb) @ cn) s)"
    using 8(3) [OF g(1,2) refl refl _ g(3,4) q(2)] 8(6) by simp
  from for_emits [where a = "case i of None \<Rightarrow> ok | Some e \<Rightarrow> assembleExpression ae sc e None False"
      and n = "case n of None \<Rightarrow> ok | Some e \<Rightarrow> assembleExpression ae sc e None False"
      and b = "assembleBlock ae (inner body sc) body", OF i g(2) 8(6) b n refl] show ?case by (simp add: c 8(5) del: of_nat_Suc of_nat_add)
qed (auto simp: act_simps gen_value_def assemble_expr split: bind_splits if_splits)

end
