(* ===== verification/Calling.thy ===== *)
theory Calling
  imports Compiler
begin

text \<open>
  From the tree of a program to its results: the assembler and the interpreter together. The
  functions of a program are assembled, the first of them when it is called, and every call returns
  the value the program means.
\<close>

section \<open>Blocks and functions\<close>

lemma block_emits:
  assumes "gen_stmts D nm sc (length (asm_code s)) (m_code b) = Some c" and "names_ok nm ae s"
  shows "assembleBlock ae sc b s = Some (True, emit c s)"
  using stmt_emits(3) [OF assms(1) refl assms(2)] by (simp add: assembleBlock_runAll)

text \<open>C1: Compiler correctness for the integer fragment: arithmetic, comparisons, assignments, \<open>++\<close>,
  \<open>--\<close>, \<open>if\<close>, \<open>for\<close>, and calls of functions of the program, which may be recursive. Assembling a block of
  it succeeds and emits the listed code; and when the block, by its meaning, takes the local variables
  \<open>ls\<close> to \<open>ls'\<close> with calls nested at most \<open>d\<close> deep, the interpreter, started at that code with \<open>ls\<close>,
  reaches its end with \<open>ls'\<close>, with the operand stack as before and nothing else of the machine changed.\<close>

theorem assembled_block_correct:
  assumes "gen_stmts D nm sc 0 (m_code b) = Some c" and "asm_code s = []" and "names_ok nm ae s"
    and "compiled D nm fs P" and "realises P (rt t)"
    and "execs nm fs d sc (m_code b) ls ls' None" and "2 \<le> D" and "int (length vs) + int D < cap - int (d * Suc D)"
    and "conf cap (c @ tail) t (0, vs, ls)"
  shows "assembleBlock ae sc b s = Some (True, s\<lparr>asm_code := c\<rparr>)
    \<and> (\<exists>N n u. (\<forall>e. deep N e \<longrightarrow> exec_n e n t = Some u) \<and> conf cap (c @ tail) u (length c, vs, ls')
        \<and> skeleton u = skeleton t)"
proof
  show "assembleBlock ae sc b s = Some (True, s\<lparr>asm_code := c\<rparr>)"
    using block_emits [of D nm sc s b c ae] assms(1-3) by (simp add: emit_def)
  have "ends (vm_runs P cap) (c @ tail) 0 (0 + length c) vs ls ls' None"
    by (rule stmts_okD [OF im.program_runs(6) [OF assms(4,7,6)] assms(1) seg_self assms(8)])
  then have "vm_runs P cap (c @ tail) (0, vs, ls) (length c, vs, ls')" by (simp add: ends_def)
  from vm_runsE [OF this assms(9,5)] show "\<exists>N n u. (\<forall>e. deep N e \<longrightarrow> exec_n e n t = Some u)
      \<and> conf cap (c @ tail) u (length c, vs, ls') \<and> skeleton u = skeleton t"
    unfolding reaches_def by metis
qed

lemma call_executes:
  assumes "compiled D nm fs P" and "2 \<le> D" and "call nm fs d f inst args v"
    and "realises P (rt s)" and "ready cap s (rev args @ vs)" and "int (length vs) + int (d * Suc D) < cap"
  obtains N t where "\<And>e. deep N e \<Longrightarrow> function_execute e f inst (int (length args)) s = Some (True, t)"
    and "ready cap t (v # vs)" and "cur t = cur s" and "callers t = callers s" and "rt t = rt s"
proof -
  have "vm_calls P cap (d * Suc D) f inst args v" by (rule im.program_runs(3) [OF assms(1-3)])
  with assms(4-6) obtain N t where "\<And>e. deep N e \<Longrightarrow> function_execute e f inst (int (length args)) s = Some (True, t)"
    "ready cap t (v # vs)" "cur t = cur s" "skeleton t = skeleton s" unfolding vm_calls_def by blast
  then show thesis using skeletonD(2,3) [of t s] by (intro that [of N t]) auto
qed

text \<open>C2: Calls of assembled functions return. When the runtime holds the code of the functions of a
  program of that fragment and a call, by the program's meaning, has the value \<open>v\<close> with calls nested
  \<open>d\<close> deep, then with \<open>d * (D + 1)\<close> free operand slots there are a C stack depth and a number of
  iterations from which on \<open>Function::execute\<close> returns true, having replaced the arguments by \<open>v\<close>, with
  the caller's frame restored and the runtime unchanged.\<close>

theorem assembled_function_returns:
  assumes "compiled D nm fs P" and "2 \<le> D" and "call nm fs d f inst args v"
    and "realises P (rt s)" and "ready cap s (rev args @ vs)" and "int (length vs) + int (d * Suc D) < cap"
  shows "\<exists>N t. (\<forall>e n. N \<le> n \<and> N \<le> ev_steps e \<longrightarrow> interp e n f inst (int (length args)) s = Some (True, t))
    \<and> opstack t = v # vs \<and> cur t = cur s \<and> callers t = callers s \<and> rt t = rt s"
proof -
  from call_executes [OF assms] obtain N t where t: "\<And>e. deep N e \<Longrightarrow> function_execute e f inst (int (length args)) s = Some (True, t)"
    "ready cap t (v # vs)" "cur t = cur s" "callers t = callers s" "rt t = rt s" by metis
  have "interp e n f inst (int (length args)) s = Some (True, t)" if "Suc N \<le> n \<and> Suc N \<le> ev_steps e" for e n
    using interp_deep [of N n e] that t(1) by metis
  with t(2-5) show ?thesis unfolding ready_def by blast
qed

section \<open>The first call\<close>

text \<open>\<open>Assembler::assemble\<close> on a function of the fragment that the optimiser has nothing to do for.\<close>

lemma assemble_body:
  assumes fn: "rt_func (rt s) (ae_function ae) = Some fn" "fn_kind fn = ScriptFunction b old"
    and code: "body_code D nm (fn_args fn, b) = Some code" and nm: "names_ok nm ae s" and s: "asm_code s = []"
    and opt: "optimise (m_maxVarId b + 1) (int (length (fn_args fn))) code = Some code" and l: "link code = Some ws"
  shows "assemble ae s = Some (True, set_code (ae_function ae) fn b
    \<lparr>ac_function = ae_function ae, ac_code = ws, ac_localVars = m_maxVarId b + 1\<rparr> s)"
proof -
  from code obtain c where c: "gen_stmts D nm ([b], Some (fn_args fn)) 0 (m_code b) = Some c"
    and ce: "code = c @ [ins OP_PUSHI [0], ins OP_RETURN []]" by (auto simp: body_code_def)
  have "assembleBlock ae ([b], Some (fn_args fn)) b s = Some (True, emit c s)"
    by (rule block_emits) (use c nm s in simp_all)
  moreover have e: "s\<lparr>asm_code := []\<rparr> = s" using s by (cases s) simp
  ultimately show ?thesis
    using fn opt l s by (simp add: assemble_def act_simps ce emit_def e del: opcode_num.simps)
qed

lemma realises_set_code:
  assumes p: "realises (P(f := None)) (rt s)" and f: "P f = Some (code, n)" and l: "link code = Some ws"
    and small: "code_words code < 2 ^ 31"
  shows "realises P (rt (set_code f fn b \<lparr>ac_function = g, ac_code = ws, ac_localVars = int n\<rparr> s))"
  unfolding realises_def
proof (intro allI impI)
  fix h c m assume h: "P h = Some (c, m)"
  show "\<exists>fn' blk ac. rt_func (rt (set_code f fn b \<lparr>ac_function = g, ac_code = ws, ac_localVars = int n\<rparr> s)) h = Some fn'
     \<and> fn_kind fn' = ScriptFunction blk (Some ac) \<and> link c = Some (ac_code ac) \<and> code_words c < 2 ^ 31
     \<and> ac_localVars ac = int m"
  proof (cases "h = f")
    case True
    with h f l small show ?thesis by (simp add: set_code_def)
  next
    case False
    with h have "(P(f := None)) h = Some (c, m)" by simp
    with p False show ?thesis unfolding realises_def by (simp add: set_code_def)
  qed
qed

text \<open>C3: From the tree to the result. A script function that has not been assembled yet is called, with
  the other functions of its program assembled before. When its body lies in the fragment, the
  optimiser leaves its code alone and the linker accepts it, then the call assembles it, stores the
  code in the function and returns the value the program means.\<close>

theorem first_call_returns:
  assumes fn: "rt_func (rt s) f = Some fn" "fn_kind fn = ScriptFunction b None" "fs f = Some (fn_args fn, b)"
    and code: "body_code D nm (fn_args fn, b) = Some code" "code_words code < 2 ^ 31"
    and nm: "names_ok nm ae s" "ae_function ae = f" "asm_code s = []"
    and opt: "optimise (m_maxVarId b + 1) (int (length (fn_args fn))) code = Some code" and l: "link code = Some ws"
    and prog: "compiled D nm fs P" "2 \<le> D" "call nm fs d f inst args v" "realises (P(f := None)) (rt s)"
    and s: "ready cap s (rev args @ vs)" "int (length vs) + int (d * Suc D) < cap" and m: "0 \<le> m_maxVarId b"
  shows "\<exists>N t ac. (\<forall>e n. N \<le> n \<and> N \<le> ev_steps e \<and> ev_assemble e f s = assemble ae s
        \<longrightarrow> interp e n f inst (int (length args)) s = Some (True, t))
    \<and> opstack t = v # vs \<and> cur t = cur s \<and> callers t = callers s \<and> rt t = rt (set_code f fn b ac s)"
proof -
  let ?ac = "\<lparr>ac_function = f, ac_code = ws, ac_localVars = m_maxVarId b + 1\<rparr>"
  let ?s = "set_code f fn b ?ac s"
  have a: "assemble ae s = Some (True, ?s)"
    using assemble_body [of s ae fn b None D nm code ws] fn(1,2) code(1) nm opt l by simp
  have P: "P f = Some (code, Suc (nat (m_maxVarId b)))" using prog(1) fn(3) code(1) by (fastforce simp: compiled_def)
  have n: "m_maxVarId b + 1 = int (Suc (nat (m_maxVarId b)))" using m by simp
  have p: "realises P (rt ?s)" unfolding n by (rule realises_set_code [OF prog(4) P l code(2)])
  have r: "ready cap ?s (rev args @ vs)" using s(1) by (simp add: ready_def set_code_def)
  from call_executes [OF prog(1-3) p r s(2)] obtain N t
    where t: "\<And>e. deep N e \<Longrightarrow> function_execute e f inst (int (length args)) ?s = Some (True, t)"
    "ready cap t (v # vs)" "cur t = cur ?s" "callers t = callers ?s" "rt t = rt ?s" by metis
  have "interp e n f inst (int (length args)) s = Some (True, t)"
    if e: "Suc N \<le> n \<and> Suc N \<le> ev_steps e \<and> ev_assemble e f s = assemble ae s" for e n
  proof -
    from e obtain k where k: "n = Suc k" "N \<le> k" by (cases n) auto
    let ?e = "e\<lparr>ev_call := interp e k, ev_stack := k\<rparr>"
    have "function_execute ?e f inst (int (length args)) ?s = Some (True, t)" using t(1) [OF deepI [OF k(2)]] e by simp
    moreover have "function_execute ?e f inst (int (length args)) s = function_execute ?e f inst (int (length args)) ?s"
      using e a fn by (simp add: function_execute_def script_execute_def set_code_def)
    ultimately show ?thesis by (simp add: k(1))
  qed
  with t(2-5) show ?thesis by (intro exI [of _ "Suc N"] exI [of _ t] exI [of _ ?ac]) (simp add: ready_def set_code_def)
qed

section \<open>An example\<close>

text \<open>\<open>static function f(n) { if (n < 2) { return 1; } return n * f(n - 1); }\<close>, in class 5 at address 7.\<close>

definition fact_desc :: OpDesc where
  "fact_desc = \<lparr>od_token = TOK_MINUS, od_oper = OPR_SUB, od_hasLeft = True, od_hasRight = True\<rparr>"

definition fact_n :: expr where
  "fact_n = VarExpression 0 [110] VALUE_UNKNOWN"

definition fact_body :: codeblock where
  "fact_body = CodeBlock 2 2 []
     [IfExpression (OperationExpression OPR_LESS_THAN fact_desc VALUE_UNKNOWN (Some fact_n) (Some (IntegerExpression 2)))
        (CodeBlock 2 2 [] [ReturnExpression (Some (IntegerExpression 1))]) None,
      ReturnExpression (Some (OperationExpression OPR_MULTIPLY fact_desc VALUE_UNKNOWN (Some fact_n)
        (Some (CallExpression False 0 [102]
          [OperationExpression OPR_SUB fact_desc VALUE_UNKNOWN (Some fact_n) (Some (IntegerExpression 1))]))))]"

definition fact_names :: names where
  "fact_names = [[102] \<mapsto> (7, True)]"

definition fact_bodies :: bodies where
  "fact_bodies = [7 \<mapsto> ([[110]], fact_body)]"

definition fact_code :: icode where
  "fact_code =
     [ins OP_PUSHI [2], ins OP_LOAD_VAR [1], ins OP_CMP [], ins OP_BGE [6], ins OP_PUSHI [1], ins OP_RETURN [],
      ins OP_PUSHI [1], ins OP_LOAD_VAR [1], ins OP_SUB [], ins OP_CALL_STATIC [7, 1], ins OP_LOAD_VAR [1],
      ins OP_MUL [], ins OP_RETURN [], ins OP_PUSHI [0], ins OP_RETURN []]"

definition fact_program :: program where
  "fact_program = [7 \<mapsto> (fact_code, 3)]"

lemma fact_scope: "local_id ([b], Some [[110]]) [110] = 1" if "m_vars b = []"
proof -
  have "([110] :: wstring) \<noteq> wstr ''this''" by (simp add: wstr_def)
  with that show ?thesis by (simp add: local_id_def scope_var_def getArgId_def)
qed

lemma fact_inner: "local_id (inner c ([b], Some [[110]])) [110] = 1" if "m_vars b = []" "m_vars c = []"
proof -
  have "([110] :: wstring) \<noteq> wstr ''this''" by (simp add: wstr_def)
  with that show ?thesis by (simp add: local_id_def scope_var_def getArgId_def inner_def)
qed

lemma fact_gen: "body_code 3 fact_names ([[110]], fact_body) = Some fact_code"
proof -
  have s: "slot_ok 1" "word_id 1 = 1" by (simp_all add: slot_ok_def word_id_def)
  have l: "local_id ([fact_body], Some [[110]]) [110] = 1" by (rule fact_scope) (simp add: fact_body_def)
  have f: "scope_var ([fact_body], Some [[110]]) [102] = - 1" by (simp add: scope_var_def getArgId_def fact_body_def)
  let ?sc = "([fact_body], Some [[110]])"
  have t: "gen_test 3 fact_names ?sc (OperationExpression OPR_LESS_THAN fact_desc VALUE_UNKNOWN (Some fact_n) (Some (IntegerExpression 2)))
      = Some ([ins OP_PUSHI [2], ins OP_LOAD_VAR [1], ins OP_CMP []], OP_BGE)"
    by (simp add: gen_test_def gen_value_def fact_n_def l s fact_desc_def pick_def fused_branch_def)
  have v: "gen_value 3 fact_names ?sc (OperationExpression OPR_MULTIPLY fact_desc VALUE_UNKNOWN (Some fact_n)
        (Some (CallExpression False 0 [102]
          [OperationExpression OPR_SUB fact_desc VALUE_UNKNOWN (Some fact_n) (Some (IntegerExpression 1))])))
      = Some [ins OP_PUSHI [1], ins OP_LOAD_VAR [1], ins OP_SUB [], ins OP_CALL_STATIC [7, 1], ins OP_LOAD_VAR [1], ins OP_MUL []]"
    by (simp add: gen_value_def fact_n_def l s f fact_desc_def pick_def fact_names_def call_code_def del: opcode_num.simps)
  show ?thesis
    unfolding body_code_def fact_body_def m_code.simps snd_conv fst_conv gen_stmts.simps gen_stmt.simps
      t [unfolded fact_body_def] v [unfolded fact_body_def]
    by (simp add: gen_value_def fact_code_def del: opcode_num.simps)
qed

lemma fact_optimised: "optimise 3 1 fact_code = Some fact_code"
  by code_simp

lemma fact_compiled: "compiled 3 fact_names fact_bodies fact_program"
proof -
  have "nat (m_maxVarId fact_body) = 2" by (simp add: fact_body_def)
  then show ?thesis using fact_gen by (auto simp: compiled_def fact_bodies_def fact_program_def)
qed

text \<open>The call means the factorial, computed in 64 bits.\<close>

lemma fact_test:
  assumes "n < 2 ^ 62"
  shows "less64 (of_nat n) 2 \<longleftrightarrow> n < 2"
proof -
  have "sint (of_nat n :: u64) = int n"
    using assms sint_of_int64_small [of "int n"] by simp
  moreover have "sint (2 :: u64) = 2" by simp
  ultimately show ?thesis using assms less64_sint [of 2 "of_nat n"] by simp
qed

lemma fact_parts:
  fixes n :: nat
  defines "ls \<equiv> [mk_object 0, mk_int (of_nat n), zero_value]" and "sc \<equiv> ([fact_body], Some [[110]])"
  assumes "n < 2 ^ 62"
  shows "eval fact_names fact_bodies d sc ls fact_n (mk_int (of_nat n))"
    and "eval fact_names fact_bodies d sc ls
      (OperationExpression OPR_LESS_THAN fact_desc VALUE_UNKNOWN (Some fact_n) (Some (IntegerExpression 2))) (mk_int (truth (n < 2)))"
    and "eval fact_names fact_bodies d sc ls
      (OperationExpression OPR_SUB fact_desc VALUE_UNKNOWN (Some fact_n) (Some (IntegerExpression 1))) (mk_int (of_nat n - 1))"
proof -
  have l: "local_id sc [110] = 1" unfolding sc_def by (rule fact_scope) (simp add: fact_body_def)
  show n: "eval fact_names fact_bodies d sc ls fact_n (mk_int (of_nat n))"
    unfolding fact_n_def by (rule e_var) (simp add: l ls_def idx_def)
  have i: "both_ints (mk_int a) (mk_int b)" for a b by (simp add: both_ints_def)
  show "eval fact_names fact_bodies d sc ls
      (OperationExpression OPR_LESS_THAN fact_desc VALUE_UNKNOWN (Some fact_n) (Some (IntegerExpression 2))) (mk_int (truth (n < 2)))"
    by (rule e_oper [OF n e_int]) (simp_all add: operands_ok_def i fact_test [OF assms(3)])
  show "eval fact_names fact_bodies d sc ls
      (OperationExpression OPR_SUB fact_desc VALUE_UNKNOWN (Some fact_n) (Some (IntegerExpression 1))) (mk_int (of_nat n - 1))"
    by (rule e_oper [OF n e_int]) (simp_all add: operands_ok_def i)
qed

lemma fact_step:
  assumes n: "n < 2 ^ 62"
    and rec: "2 \<le> n \<Longrightarrow> call fact_names fact_bodies d 7 0 [mk_int (of_nat n - 1)] (mk_int r)"
  shows "call fact_names fact_bodies (Suc d) 7 0 [mk_int (of_nat n)] (mk_int (if n < 2 then 1 else of_nat n * r))"
proof -
  let ?ls = "[mk_object 0, mk_int (of_nat n), zero_value]" and ?sc = "([fact_body], Some [[110]])"
  note p = fact_parts [OF n, where d = d]
  have "execs fact_names fact_bodies d ?sc (m_code fact_body) ?ls ?ls (Some (mk_int (if n < 2 then 1 else of_nat n * r)))"
  proof (cases "n < 2")
    case True
    have "execs fact_names fact_bodies d (inner (CodeBlock 2 2 [] [ReturnExpression (Some (IntegerExpression 1))]) ?sc)
        [ReturnExpression (Some (IntegerExpression 1))] ?ls ?ls (Some (mk_int 1))"
      by (intro s_stop x_return e_int)
    with True show ?thesis
      unfolding fact_body_def m_code.simps
      by (intro s_stop x_if [OF p(2) [unfolded fact_body_def]]) (simp_all add: truth_def fact_body_def)
  next
    case False
    have "call fact_names fact_bodies d 7 0 [mk_int (of_nat n - 1)] (mk_int r)" using False rec by simp
    then have c: "eval fact_names fact_bodies d ?sc ?ls (CallExpression False 0 [102]
        [OperationExpression OPR_SUB fact_desc VALUE_UNKNOWN (Some fact_n) (Some (IntegerExpression 1))]) (mk_int r)"
      by (intro e_static [OF _ e_cons [OF p(3) e_nil]]) (simp_all add: fact_names_def)
    have "eval fact_names fact_bodies d ?sc ?ls (OperationExpression OPR_MULTIPLY fact_desc VALUE_UNKNOWN (Some fact_n)
        (Some (CallExpression False 0 [102]
          [OperationExpression OPR_SUB fact_desc VALUE_UNKNOWN (Some fact_n) (Some (IntegerExpression 1))]))) (mk_int (of_nat n * r))"
      by (rule e_oper [OF p(1) c]) (simp_all add: operands_ok_def both_ints_def)
    with False show ?thesis
      unfolding fact_body_def m_code.simps
      by (intro s_cons [OF x_if_not [OF p(2) [unfolded fact_body_def]]] s_stop x_return) (simp_all add: truth_def)
  qed
  then have b: "execs fact_names fact_bodies d ?sc (m_code fact_body) (mk_object 0 # [mk_int (of_nat n)]
      @ replicate (nat (m_maxVarId fact_body) - length [mk_int (of_nat n)]) zero_value) ?ls
      (Some (mk_int (if n < 2 then 1 else of_nat n * r)))"
    by (simp add: fact_body_def)
  have "fact_bodies 7 = Some ([[110]], fact_body)" by (simp add: fact_bodies_def)
  from c_call [of fact_bodies, OF this _ b] show ?thesis by (simp add: fact_body_def)
qed

lemma fact_call: "n < 2 ^ 62 \<Longrightarrow> call fact_names fact_bodies (Suc n) 7 0 [mk_int (of_nat n)] (mk_int (of_nat (fact n)))"
proof (induction n)
  case 0
  then show ?case using fact_step [of 0 0 0] by simp
next
  case (Suc n)
  then have "call fact_names fact_bodies (Suc n) 7 0 [mk_int (of_nat (Suc n) - 1)] (mk_int (of_nat (fact n)))" by simp
  moreover have "(if Suc n < 2 then 1 else of_nat (Suc n) * of_nat (fact n)) = (of_nat (fact (Suc n)) :: u64)"
  proof (cases n)
    case (Suc m)
    then have "\<not> Suc n < 2" by simp
    then show ?thesis by (simp only: fact_Suc of_nat_mult of_nat_id if_False)
  qed simp
  ultimately show ?case using fact_step [OF Suc(2), of "Suc n" "of_nat (fact n)"] by presburger
qed

text \<open>A runtime with that class, before and after the function has been assembled.\<close>

definition fact_words :: "u64 list" where
  "fact_words =
     [opcode_num OP_PUSHI, 2, opcode_num OP_LOAD_VAR, 1, opcode_num OP_CMP, opcode_num OP_BGE, 10, opcode_num OP_PUSHI, 1,
      opcode_num OP_RETURN, opcode_num OP_PUSHI, 1, opcode_num OP_LOAD_VAR, 1, opcode_num OP_SUB,
      opcode_num OP_CALL_STATIC, 7, 1, opcode_num OP_LOAD_VAR, 1, opcode_num OP_MUL, opcode_num OP_RETURN,
      opcode_num OP_PUSHI, 0, opcode_num OP_RETURN]"

lemma fact_link: "link fact_code = Some fact_words" "code_words fact_code = 25"
  by (simp_all add: fact_code_def fact_words_def link_def encode_def encode_arg_def ins_size_def code_words_def
      address_of_def del: opcode_num.simps)

definition fact_function :: Function where
  "fact_function = \<lparr>fn_name = [102], fn_static = True, fn_class = 5, fn_args = [[110]], fn_kind = ScriptFunction fact_body None\<rparr>"

definition fact_vm :: "Value list \<Rightarrow> vm" where
  "fact_vm vs = (sample_vm vs [] [])\<lparr>
     ctx := (sample_ctx vs)\<lparr>stackSize := 64, stack := rev vs @ replicate 64 zero_value\<rparr>,
     rt := sample_rt\<lparr>rt_class := [5 \<mapsto> (new_class None [83])\<lparr>cl_methods := [[102] \<mapsto> 7]\<rparr>], rt_func := [7 \<mapsto> fact_function]\<rparr>\<rparr>"

definition fact_assembled :: "vm \<Rightarrow> vm" where
  "fact_assembled = set_code 7 fact_function fact_body \<lparr>ac_function = 7, ac_code = fact_words, ac_localVars = 3\<rparr>"

definition fact_aenv :: aenv where
  "fact_aenv = \<lparr>ae_env = sample_env, ae_findClass = (\<lambda>name s. None), ae_function = 7\<rparr>"

lemma fact_vm_ready: "ready 64 (fact_vm vs) vs" "asm_code (fact_vm vs) = []" "rt_func (rt (fact_vm vs)) 7 = Some fact_function"
  by (simp_all add: ready_def fact_vm_def sample_vm_def sample_ctx_def vm_ok_def ctx_ok_def opstack_def operands_def)

lemma fact_vm_names: "names_ok fact_names fact_aenv (fact_vm vs)"
  by (simp add: names_ok_def fact_names_def fun_class_def fact_aenv_def fact_vm_def fact_function_def new_class_def
      getFieldId.simps findMethod.simps)

lemma fact_realised: "realises fact_program (rt (fact_assembled s))"
  using fact_link by (simp add: realises_def fact_program_def fact_assembled_def set_code_def)

theorem first_call_returns_witness:
  "\<exists>N t. interp (sample_env\<lparr>ev_steps := N, ev_assemble := (\<lambda>f. assemble fact_aenv)\<rparr>) N 7 0 1 (fact_vm [mk_int 5]) = Some (True, t)
    \<and> opstack t = [mk_int 120]"
proof -
  have c: "call fact_names fact_bodies 6 7 0 [mk_int 5] (mk_int 120)"
    using fact_call [of 5] by (simp add: fact_numeral)
  have f: "fn_kind fact_function = ScriptFunction fact_body None" "fact_bodies 7 = Some (fn_args fact_function, fact_body)"
    "body_code 3 fact_names (fn_args fact_function, fact_body) = Some fact_code"
    "optimise (m_maxVarId fact_body + 1) (int (length (fn_args fact_function))) fact_code = Some fact_code"
    using fact_gen fact_optimised by (simp_all add: fact_function_def fact_bodies_def fact_body_def)
  have p: "realises (fact_program(7 := None)) (rt (fact_vm [mk_int 5]))" by (simp add: realises_def fact_program_def)
  have r: "ready 64 (fact_vm [mk_int 5]) (rev [mk_int 5] @ [])" by (simp add: fact_vm_ready)
  obtain N t where "\<And>e n. N \<le> n \<and> N \<le> ev_steps e \<and> ev_assemble e 7 (fact_vm [mk_int 5]) = assemble fact_aenv (fact_vm [mk_int 5])
      \<Longrightarrow> interp e n 7 0 (int (length [mk_int 5])) (fact_vm [mk_int 5]) = Some (True, t)" "opstack t = [mk_int 120]"
    using first_call_returns [OF fact_vm_ready(3) f(1-3) _ fact_vm_names _ fact_vm_ready(2) f(4) fact_link(1)
        fact_compiled _ c p r] by (auto simp: fact_link fact_aenv_def fact_body_def)
  then show ?thesis by (intro exI [of _ N] exI [of _ t]) simp
qed

text \<open>\<open>n = f(3)\<close>, in a frame whose argument is \<open>n\<close>.\<close>

definition call_block :: codeblock where
  "call_block = CodeBlock 1 2 [] [OperationExpression OPR_SET fact_desc VALUE_UNKNOWN (Some fact_n)
     (Some (CallExpression False 0 [102] [IntegerExpression 3]))]"

definition call_block_code :: icode where
  "call_block_code = [ins OP_PUSHI [3], ins OP_CALL_STATIC [7, 1], ins OP_STORE_VAR [1]]"

definition call_words :: "u64 list" where
  "call_words = [opcode_num OP_PUSHI, 3, opcode_num OP_CALL_STATIC, 7, 1, opcode_num OP_STORE_VAR, 1,
     opcode_num OP_PUSHI, 0, opcode_num OP_RETURN]"

definition call_machine :: vm where
  "call_machine = (fact_assembled (fact_vm []))\<lparr>cur := sample_frame call_words [zero_value, zero_value]\<rparr>"

lemma call_gen: "gen_stmts 3 fact_names ([call_block], Some [[110]]) 0 (m_code call_block) = Some call_block_code"
proof -
  have s: "slot_ok 1" "word_id 1 = 1" by (simp_all add: slot_ok_def word_id_def)
  have l: "local_id ([call_block], Some [[110]]) [110] = 1" by (rule fact_scope) (simp add: call_block_def)
  have f: "scope_var ([call_block], Some [[110]]) [102] = - 1" by (simp add: scope_var_def getArgId_def call_block_def)
  show ?thesis using l f s
    by (simp add: call_block_def fact_n_def gen_value_def fact_names_def call_code_def call_block_code_def
        del: opcode_num.simps)
qed

lemma call_meaning:
  "execs fact_names fact_bodies 4 ([call_block], Some [[110]]) (m_code call_block)
     [zero_value, zero_value] [zero_value, mk_int 6] None"
proof -
  have l: "local_id ([call_block], Some [[110]]) [110] = 1" by (rule fact_scope) (simp add: call_block_def)
  have "call fact_names fact_bodies 4 7 0 [mk_int 3] (mk_int 6)"
    using fact_call [of 3] by (simp add: fact_numeral)
  then have "eval fact_names fact_bodies 4 ([call_block], Some [[110]]) [zero_value, zero_value]
      (CallExpression False 0 [102] [IntegerExpression 3]) (mk_int 6)"
    by (intro e_static [OF _ e_cons [OF e_int e_nil]]) (simp_all add: fact_names_def)
  moreover have "upd [zero_value, zero_value] (local_id ([call_block], Some [[110]]) [110]) (mk_int 6)
      = Some [zero_value, mk_int 6]" unfolding l by (simp add: upd_def)
  ultimately have "exec fact_names fact_bodies 4 ([call_block], Some [[110]])
      (OperationExpression OPR_SET fact_desc VALUE_UNKNOWN (Some (VarExpression 0 [110] VALUE_UNKNOWN))
        (Some (CallExpression False 0 [102] [IntegerExpression 3])))
      [zero_value, zero_value] [zero_value, mk_int 6] None" by (rule x_set)
  then have "execs fact_names fact_bodies 4 ([call_block], Some [[110]])
      [OperationExpression OPR_SET fact_desc VALUE_UNKNOWN (Some (VarExpression 0 [110] VALUE_UNKNOWN))
        (Some (CallExpression False 0 [102] [IntegerExpression 3]))]
      [zero_value, zero_value] [zero_value, mk_int 6] None" by (rule s_cons [OF _ s_nil])
  moreover have "m_code call_block = [OperationExpression OPR_SET fact_desc VALUE_UNKNOWN
      (Some (VarExpression 0 [110] VALUE_UNKNOWN)) (Some (CallExpression False 0 [102] [IntegerExpression 3]))]"
    by (simp add: call_block_def fact_n_def)
  ultimately show ?thesis by (simp only:)
qed

lemma call_link:
  "link (call_block_code @ [ins OP_PUSHI [0], ins OP_RETURN []]) = Some call_words"
  "code_words (call_block_code @ [ins OP_PUSHI [0], ins OP_RETURN []]) = 10"
  by (simp_all add: call_block_code_def call_words_def link_def encode_def encode_arg_def ins_size_def code_words_def
      del: opcode_num.simps)

theorem assembled_block_correct_witness:
  "assembleBlock fact_aenv ([call_block], Some [[110]]) call_block (fact_vm [])
     = Some (True, (fact_vm [])\<lparr>asm_code := call_block_code\<rparr>)
   \<and> (\<exists>N n u. (\<forall>e. deep N e \<longrightarrow> exec_n e n call_machine = Some u)
     \<and> fr_localVars (cur u) = [zero_value, mk_int 6] \<and> opstack u = [] \<and> rt u = rt call_machine)"
proof -
  have c: "conf 64 (call_block_code @ [ins OP_PUSHI [0], ins OP_RETURN []]) call_machine (0, [], [zero_value, zero_value])"
    using call_link fact_vm_ready(1) [of "[]"]
    by (simp add: call_machine_def sample_frame_def address_of_def ready_def fact_assembled_def set_code_def
        del: opcode_num.simps)
  have r: "realises fact_program (rt call_machine)" using fact_realised by (simp add: call_machine_def)
  have b: "2 \<le> (3 :: nat)" "int (length ([] :: Value list)) + int 3 < 64 - int (4 * Suc 3)" by simp_all
  note all = assembled_block_correct [OF call_gen fact_vm_ready(2) fact_vm_names fact_compiled r call_meaning b c]
  from conjunct2 [OF all] obtain N n u where u: "\<forall>e. deep N e \<longrightarrow> exec_n e n call_machine = Some u"
    "conf 64 (call_block_code @ [ins OP_PUSHI [0], ins OP_RETURN []]) u (length call_block_code, [], [zero_value, mk_int 6])"
    "skeleton u = skeleton call_machine" by (elim exE conjE)
  have "fr_localVars (cur u) = [zero_value, mk_int 6]" "opstack u = []" using u(2) by (simp_all only: conf.simps)
  with u(1) skeletonD(2) [OF u(3)] have "(\<forall>e. deep N e \<longrightarrow> exec_n e n call_machine = Some u)
      \<and> fr_localVars (cur u) = [zero_value, mk_int 6] \<and> opstack u = [] \<and> rt u = rt call_machine" by (intro conjI)
  then show ?thesis by (intro conjI [OF conjunct1 [OF all]] exI)
qed

theorem assembled_function_returns_witness:
  "\<exists>N t. interp (sample_env\<lparr>ev_steps := N\<rparr>) N 7 0 1 (fact_assembled (fact_vm [mk_int 4, mk_int 9])) = Some (True, t)
    \<and> opstack t = [mk_int 24, mk_int 9]"
proof -
  have c: "call fact_names fact_bodies 5 7 0 [mk_int 4] (mk_int 24)"
    using fact_call [of 4] by (simp add: fact_numeral)
  have r: "ready 64 (fact_assembled (fact_vm [mk_int 4, mk_int 9])) (rev [mk_int 4] @ [mk_int 9])"
    using fact_vm_ready(1) by (simp add: fact_assembled_def ready_def set_code_def)
  obtain N t where "\<And>e n. N \<le> n \<and> N \<le> ev_steps e
      \<Longrightarrow> interp e n 7 0 (int (length [mk_int 4])) (fact_assembled (fact_vm [mk_int 4, mk_int 9])) = Some (True, t)"
    "opstack t = [mk_int 24, mk_int 9]"
    using assembled_function_returns [OF fact_compiled _ c fact_realised r] by auto
  then show ?thesis by (intro exI [of _ N] exI [of _ t]) simp
qed

end
