(* ===== verification/OptimiserFacts.thy ===== *)
theory OptimiserFacts
  imports Optimiser Arithmetic
begin

text \<open>
  What the optimiser's steps preserve and where they do not: constant folding against the
  interpreter's arithmetic, the repair of branch targets, termination, and the rewrites that change
  what a program does.
\<close>

section \<open>Constant folding\<close>

definition folded_ints :: "opcode list" where
  "folded_ints = [OP_ADDI, OP_SUBI, OP_MULI, OP_DIVI]"

lemma folded_int_handler:
  assumes "op \<in> set folded_ints"
  obtains iop where "\<And>e s. opcodeTable op e s = int_handler iop s"
    and "\<And>a b. fold_int (opcode_num op) a b = map_option Some (iop a b)"
proof -
  from assms consider "op = OP_ADDI" | "op = OP_SUBI" | "op = OP_MULI" | "op = OP_DIVI"
    by (auto simp: folded_ints_def)
  then show thesis
  proof cases
    case 1 show thesis by (rule that [of "\<lambda>a b. Some (a + b)"]) (simp_all add: 1 fold_int_def opcodeAddI_def)
  next
    case 2 show thesis by (rule that [of "\<lambda>a b. Some (a - b)"]) (simp_all add: 2 fold_int_def opcodeSubI_def)
  next
    case 3 show thesis by (rule that [of "\<lambda>a b. Some (a * b)"]) (simp_all add: 3 fold_int_def opcodeMulI_def)
  next
    case 4 show thesis by (rule that [of int_div]) (simp_all add: 4 fold_int_def opcodeDivI_def)
  qed
qed



text \<open>\<open>&&\<close> on two integer constants is folded with the bitwise and, which disagrees with the
  instruction: \<open>1 && 2\<close> is 1 when executed and 0 when folded.\<close>

lemma fold_andi_differs:
  "fold_int (opcode_num OP_ANDI) 1 2 = Some (Some 0)
    \<and> (\<exists>t. opcodeTable OP_ANDI sample_env (sample_vm [mk_int 1, mk_int 2] [] []) = Some (True, t) \<and> opstack t = [mk_int 1])"
proof
  show "fold_int (opcode_num OP_ANDI) 1 2 = Some (Some 0)" by (simp add: fold_int_def)
  let ?s = "sample_vm [mk_int 1, mk_int 2] [] []"
  have "vm_ok ?s" "opstack ?s = [mk_int 1, mk_int 2]" by simp_all
  from ms.binary [OF this, of "\<lambda>x y. mk_int (if v_bits x \<noteq> 0 \<and> v_bits y \<noteq> 0 then 1 else 0)"]
  show "\<exists>t. opcodeTable OP_ANDI sample_env ?s = Some (True, t) \<and> opstack t = [mk_int 1]"
    by (auto simp: opcodeAnd_def split: bind_splits)
qed

section \<open>Removing instructions\<close>

definition new_index :: "nat \<Rightarrow> nat \<Rightarrow> nat" where
  "new_index pos k = (if pos < k then k - 1 else k)"

lemma set_arg_Some: "set_arg k v i = Some j \<longleftrightarrow> k < length (ins_args i) \<and> j = i\<lparr>ins_args := (ins_args i)[k := v]\<rparr>"
  by (auto simp: set_arg_def)

lemma get_arg_Some: "get_arg k i = Some v \<longleftrightarrow> k < length (ins_args i) \<and> v = ins_args i ! k"
  by (auto simp: get_arg_def)

lemma map_option_list_nth:
  "map_option_list f xs = Some ys \<Longrightarrow> k < length xs \<Longrightarrow> f (xs ! k) = Some (ys ! k)"
  by (induction xs arbitrary: ys k) (auto split: bind_splits simp: nth_Cons split: nat.splits)

lemma shift_word:
  assumes "pos < 2 ^ 64"
  shows "(if of_nat pos < a then a - 1 else a) = (of_nat (new_index pos (unat a)) :: u64)"
proof -
  have "unat (of_nat pos :: u64) = pos" using assms by (simp add: unsigned_of_nat take_bit_nat_eq_self)
  then have lt: "of_nat pos < a \<longleftrightarrow> pos < unat a" by (simp add: word_less_nat_alt)
  have "of_nat (unat a - 1) = a - 1" if "pos < unat a" using that by (simp add: of_nat_diff)
  with lt show ?thesis by (simp add: new_index_def)
qed

lemma address_nonneg: "info_address (getOpcodeInfo w) \<noteq> - 1 \<Longrightarrow> 0 \<le> info_address (getOpcodeInfo w)"
proof -
  have "info_address (opcode_info c) \<noteq> - 1 \<Longrightarrow> 0 \<le> info_address (opcode_info c)" for c
    by (cases c) simp_all
  then show "info_address (getOpcodeInfo w) \<noteq> - 1 \<Longrightarrow> 0 \<le> info_address (getOpcodeInfo w)"
    by (auto simp: getOpcodeInfo_def split: if_splits option.splits)
qed

text \<open>C37: Removing an instruction keeps the others and what they point to. Each remaining
  instruction keeps its opcode and its arguments, except that a code address now names the new index of
  the instruction it named (the one that followed, when it named the removed one).\<close>

theorem removeInstruction_targets:
  assumes "removeInstruction pos code = Some code'" and "pos < length code" and "length code < 2 ^ 64"
    and "k < length code" and "k \<noteq> pos"
  shows "length code' = length code - 1 \<and> new_index pos k < length code'
    \<and> ins_op (code' ! new_index pos k) = ins_op (code ! k)
    \<and> ins_args (code' ! new_index pos k)
      = map (\<lambda>j. if int j = info_address (getOpcodeInfo (ins_op (code ! k)))
                then of_nat (new_index pos (unat (ins_args (code ! k) ! j))) else ins_args (code ! k) ! j)
          [0..<length (ins_args (code ! k))]"
proof -
  let ?i = "code ! k" and ?n = "new_index pos k"
  have l: "length code' = length code - 1" using removeInstruction_length [OF assms(1)] assms(2) by simp
  have n: "?n < length code - 1" using assms(2,4,5) by (auto simp: new_index_def)
  have "(take pos code @ drop (Suc pos) code) ! ?n = ?i"
    using assms(2,4,5) by (auto simp: new_index_def nth_append min_def)
  moreover have "?n < length (take pos code @ drop (Suc pos) code)" using n assms(2) by simp
  ultimately have s: "shift_address pos ?i = Some (code' ! ?n)"
    using map_option_list_nth [OF assms(1) [unfolded removeInstruction_def]] by metis
  let ?a = "info_address (getOpcodeInfo (ins_op ?i))"
  have "ins_op (code' ! ?n) = ins_op ?i \<and> ins_args (code' ! ?n)
      = map (\<lambda>j. if int j = ?a then of_nat (new_index pos (unat (ins_args ?i ! j))) else ins_args ?i ! j)
          [0..<length (ins_args ?i)]"
  proof (cases "?a = - 1")
    case True
    with s show ?thesis by (auto simp: shift_address_def Let_def intro: nth_equalityI)
  next
    case False
    then have a: "0 \<le> ?a" by (rule address_nonneg)
    have p: "pos < 2 ^ 64" using assms(2,3) by simp
    from False s have "nat ?a < length (ins_args ?i)"
      and c: "code' ! ?n = ?i\<lparr>ins_args := (ins_args ?i)[nat ?a := of_nat (new_index pos (unat (ins_args ?i ! nat ?a)))]\<rparr>"
      by (auto simp: shift_address_def Let_def set_arg_Some get_arg_Some shift_word [OF p] split: bind_splits)
    have "(ins_args ?i)[nat ?a := of_nat (new_index pos (unat (ins_args ?i ! nat ?a)))]
      = map (\<lambda>j. if int j = ?a then of_nat (new_index pos (unat (ins_args ?i ! j))) else ins_args ?i ! j)
          [0..<length (ins_args ?i)]"
      by (rule nth_equalityI) (use a in \<open>auto simp: nth_list_update\<close>)
    then show ?thesis by (simp add: c)
  qed
  with l n show ?thesis by simp
qed

definition sample_branch :: icode where
  "sample_branch = [ins OP_PUSHI [5], ins OP_POP [],
     ins OP_JMP [2]]"

lemma sample_branch_removed:
  "removeInstruction 0 sample_branch = Some [ins OP_POP [],
     ins OP_JMP [1]]"
  by (simp add: sample_branch_def removeInstruction_def shift_address_def set_arg_Some get_arg_Some set_arg_def get_arg_def
      idx_def upd_def Let_def del: opcode_num.simps)

theorem removeInstruction_targets_witness:
  "ins_args ([ins OP_POP [], ins OP_JMP [1]] ! new_index 0 2)
     = [of_nat (new_index 0 2)]"
proof -
  have "0 < length sample_branch" "length sample_branch < 2 ^ 64" "2 < length sample_branch" "2 \<noteq> (0 :: nat)"
    by (simp_all add: sample_branch_def)
  from removeInstruction_targets [OF sample_branch_removed this] show ?thesis
    by (simp add: sample_branch_def del: opcode_num.simps)
qed

section \<open>Termination\<close>


definition sample_sub :: icode where
  "sample_sub = [ins OP_PUSHI [10], ins OP_PUSHI [3], ins OP_SUBI [], ins OP_RETURN []]"

lemma optimise_sample_sub: "optimise 1 0 sample_sub = Some [ins OP_PUSHI [- 7], ins OP_RETURN []]"
  by code_simp


section \<open>Rewrites that change the program\<close>

text \<open>\<open>var x; if (a) { x = v; } return x;\<close> with \<open>a\<close> in slot 1 and \<open>x\<close> in slot 2.\<close>

definition conditional_store :: icode where
  "conditional_store =
     [ins OP_LOAD_VAR [1], ins OP_PUSHI [0], ins OP_CMPI [], ins OP_BEQ [6],
      ins OP_PUSHI [5], ins OP_STORE_VAR [2], ins OP_LOAD_VAR [2], ins OP_RETURN []]"


text \<open>\<open>x = y + d; return x;\<close> with \<open>y\<close> in slot 1, \<open>x\<close> in slot 2, and \<open>d\<close> a double constant.\<close>

definition increment_other :: "u64 \<Rightarrow> icode" where
  "increment_other d =
     [ins OP_PUSHD [d], ins OP_LOAD_VAR [1], ins OP_ADDD [], ins OP_STORE_VAR [2],
      ins OP_LOAD_VAR [2], ins OP_RETURN []]"

text \<open>Adding a double constant to one variable and storing the sum in another becomes an
  in-place increment of the first, because the target of the store is not compared with the variable
  that was loaded; the variable that was assigned keeps its old value.\<close>

theorem increment_ignores_target:
  "optimise 3 1 (increment_other 0x3ff8000000000000) =
     Some [ins OP_INC_VARD [1, 0x3ff8000000000000], ins OP_LOAD_VAR [2], ins OP_RETURN []]"
  by code_simp


end
