(* ===== verification/NativeFacts.thy ===== *)
theory NativeFacts
  imports Sample
begin

text \<open>
  Facts about the native classes: the output buffer of the file class, array access, the size
  computation of the allocator, and constructors that throw.
\<close>

section \<open>Output\<close>

definition encode_char :: "wchar \<Rightarrow> byte list" where
  "encode_char c = (case append_utf8 c of Inr bs \<Rightarrow> bs | Inl _ \<Rightarrow> [])"

lemma append_utf8_cases:
  "append_utf8 c = (if is_code_point_valid c then Inr (encode_char c) else Inl (invalid_code_point c))"
  using append_utf8_total [of c] by (auto simp: encode_char_def append_utf8_def)

lemma encode_char_length: "length (encode_char c) \<le> 4"
  by (auto simp: encode_char_def append_utf8_def)

lemma write_chars_valid:
  "\<forall>c \<in> set str. is_code_point_valid c \<Longrightarrow> length buf \<le> BUFFER_SIZE - 4 \<Longrightarrow> (str = [] \<Longrightarrow> buf = []) \<Longrightarrow>
     write_chars str buf out = Some (out @ buf @ concat (map encode_char str))"
proof (induction str buf out rule: write_chars.induct)
  case (1 buf out)
  then show ?case by simp
next
  case (2 c cs buf out)
  have a: "append_utf8 c = Inr (encode_char c)" using 2 by (simp add: append_utf8_cases)
  have room: "length (buf @ encode_char c) \<le> BUFFER_SIZE"
    using 2(4) encode_char_length [of c] by (simp add: BUFFER_SIZE_def)
  show ?case
  proof (cases "cs = [] \<or> BUFFER_SIZE - 4 < length (buf @ encode_char c)")
    case True
    from 2(1) [OF a _ True] room have "write_chars cs [] (out @ buf @ encode_char c) =
        Some ((out @ buf @ encode_char c) @ [] @ concat (map encode_char cs))"
      using 2(3) by simp
    with a room True show ?thesis by simp
  next
    case False
    from 2(2) [OF a _ False] room False have "write_chars cs (buf @ encode_char c) out =
        Some (out @ (buf @ encode_char c) @ concat (map encode_char cs))"
      using 2(3) by simp
    with a room False show ?thesis by simp
  qed
qed

lemma write_chars_invalid: "\<not> (\<forall>c \<in> set str. is_code_point_valid c) \<Longrightarrow> write_chars str buf out = None"
  by (induction str buf out rule: write_chars.induct) (auto simp: append_utf8_cases split: if_splits)

section \<open>Sizes\<close>

lemma sint_of_int32_small:
  assumes "- (2 ^ 31) \<le> k" "k < 2 ^ 31"
  shows "sint (word_of_int k :: u32) = k"
proof -
  have "sint (word_of_int k :: u32) = signed_take_bit 31 k" by (simp only: sint_sbintrunc') simp
  with assms show ?thesis by (simp add: signed_take_bit_int_eq_self)
qed

lemma object_size_exact:
  assumes "0 \<le> n" and "int sizeof_Object + (n + int (unat extra)) * int sizeof_Value < 2 ^ 31"
  shows "object_size n extra = sizeof_Object + nat (n + int (unat extra)) * sizeof_Value"
proof -
  let ?k = "n + int (unat extra)"
  have k: "0 \<le> ?k" "?k < 2 ^ 31" using assms by (simp_all add: sizeof_Object_def sizeof_Value_def)
  have w: "word_of_int n + extra = (word_of_int ?k :: u32)" by simp
  have "sint (word_of_int n + extra :: u32) = ?k"
    unfolding w by (rule sint_of_int32_small) (use k in linarith)+
  with assms k show ?thesis
    by (simp add: object_size_def sizeof_Object_def sizeof_Value_def nat_add_distrib nat_mult_distrib Let_def)
qed

section \<open>Properties\<close>

text \<open>C30: the file class writes exactly the UTF-8 text of the string, through a buffer it never
  overruns. \<open>write_chars\<close> has a result if and only if every character is a valid code point, and
  then the output is the concatenation of their encodings, however long the string is.\<close>

theorem write_chars_output:
  "write_chars str [] [] =
     (if list_all is_code_point_valid str then Some (concat (map encode_char str)) else None)"
  using write_chars_valid [of str "[]" "[]"] write_chars_invalid [of str "[]" "[]"]
  by (auto simp: list_all_iff)

text \<open>C31: the array bounds check is one-sided. For an array with length field \<open>szv\<close> and data object
  \<open>d\<close>, an integer index at or above the length raises the exception, one from 0 to below it reads
  the element, and a negative one passes the check and reads outside the data object.\<close>

theorem array_load_bounds:
  assumes "getValue (rt s) array 1 = Some szv" and "getValue (rt s) array 2 = Some d"
    and "v_type index = VALUE_INTEGER"
  shows "array_load e array index s =
    (if to_int32 (v_bits szv) \<le> v_int index
     then map_option (\<lambda>t. (True, indeterminate, t)) (throw_message e ''Index out of bounds'' s)
     else if v_int index < 0 then None
     else map_option (\<lambda>v. (True, v, s)) (getValue (rt s) (v_object d) (v_int index)))"
  using assms
  by (cases "deref (rt s) (v_object d)")
     (auto simp: array_load_def getValue_def obj_getValue_def idx_def map_option_case
       split: option.splits)

definition sample_array_vm :: vm where
  "sample_array_vm =
     (sample_vm [] [] [])\<lparr>rt := sample_rt\<lparr>rt_heap := [
        64 \<mapsto> \<lparr>o_class = 1, o_size = 72, o_gcMark = 0, o_values = [zero_value, mk_int 2, mk_object 136]\<rparr>,
        136 \<mapsto> \<lparr>o_class = 2, o_size = 56, o_gcMark = 0, o_values = [mk_int 11, mk_int 22]\<rparr>]\<rparr>\<rparr>"

lemma array_load_bounds_witness:
  "array_load sample_env 64 (mk_int 1) sample_array_vm = Some (True, mk_int 22, sample_array_vm) \<and>
   array_load sample_env 64 (mk_int (- 1)) sample_array_vm = None"
proof -
  let ?s = sample_array_vm
  have g: "getValue (rt ?s) 64 1 = Some (mk_int 2)" "getValue (rt ?s) 64 2 = Some (mk_object 136)"
    "getValue (rt ?s) 136 1 = Some (mk_int 22)"
    by (simp_all add: sample_array_vm_def getValue_def deref_def obj_getValue_def idx_def)
  have i: "v_int (mk_int 1) = 1" "v_int (mk_int (- 1)) = - 1" "to_int32 2 = 2"
    by (simp_all add: v_int_def to_int32_def)
  show ?thesis
    using array_load_bounds [OF g(1,2), of "mk_int 1" sample_env] array_load_bounds [OF g(1,2), of "mk_int (- 1)" sample_env]
    by (simp add: i g)
qed

text \<open>Sizes. The allocator computes the exact block size, header and 16 bytes per value, as long
  as it fits a signed 32-bit integer.\<close>

theorem object_size_correct:
  assumes "0 \<le> n" and "int sizeof_Object + (n + int (unat extra)) * int sizeof_Value < 2 ^ 31"
  shows "object_size n extra = sizeof_Object + nat (n + int (unat extra)) * sizeof_Value"
  by (rule object_size_exact [OF assms])

lemma object_size_correct_witness: "object_size 3 100 = 24 + 103 * 16"
proof -
  have "unat (100 :: u32) = 100" by simp
  with object_size_correct [of 3 100] show ?thesis by (simp add: sizeof_Object_def sizeof_Value_def)
qed



definition ctor_class :: Class where
  "ctor_class = (new_class None (wstr ''C''))\<lparr>cl_methods := [wstr ''C'' \<mapsto> 5]\<rparr>"


end
