(* ===== verification/Lexer.thy ===== *)
theory Lexer
  imports Doubles Utf8
begin

text \<open>
  The lexer (src/libb0rk/lexer.cpp): from the bytes of a source file to the list of tokens. The
  buffer is the memory at \<open>char* buffer\<close>; the text is its first \<open>length\<close> bytes, and
  \<open>Runtime::loadClass\<close> puts zeros behind them. Iterators are indices. An uncaught exception of the
  UTF-8 routines and a read outside the buffer are the \<open>Inl\<close> results of theory Utf8.
\<close>

section \<open>What the lexer uses of the C library\<close>

text \<open>
  The program never calls \<open>setlocale\<close>, so the character classes are those of the "C" locale, on
  bytes and on wide characters. \<open>atoi\<close>, \<open>atof\<close> and the conversion to \<open>int\<close> behave as on x86-64
  with glibc where the standard leaves them open: \<open>atoi\<close> is \<open>strtol\<close> cut to 32 bits, a double
  outside the range of \<open>int\<close> becomes the least \<open>int\<close>, \<open>pow(10, n)\<close> is the nearest double.
\<close>

definition isalpha :: "byte \<Rightarrow> bool" where
  "isalpha b \<longleftrightarrow> 65 \<le> b \<and> b \<le> 90 \<or> 97 \<le> b \<and> b \<le> 122"

definition isdigit :: "byte \<Rightarrow> bool" where
  "isdigit b \<longleftrightarrow> 48 \<le> b \<and> b \<le> 57"

definition isspace :: "byte \<Rightarrow> bool" where
  "isspace b \<longleftrightarrow> b = 32 \<or> 9 \<le> b \<and> b \<le> 13"

definition iswdigit :: "wchar \<Rightarrow> bool" where
  "iswdigit c \<longleftrightarrow> 48 \<le> c \<and> c \<le> 57"

definition iswalnum :: "wchar \<Rightarrow> bool" where
  "iswalnum c \<longleftrightarrow> iswdigit c \<or> 65 \<le> c \<and> c \<le> 90 \<or> 97 \<le> c \<and> c \<le> 122"

definition iswspace :: "wchar \<Rightarrow> bool" where
  "iswspace c \<longleftrightarrow> c = 32 \<or> 9 \<le> c \<and> c \<le> 13"

definition bytes :: "string \<Rightarrow> byte list" where
  "bytes s = map of_char s"

text \<open>The two directions of utils.cpp; \<open>char\<close> is signed.\<close>

definition wstring2string :: "wstring \<Rightarrow> byte list" where
  "wstring2string s = map (\<lambda>c. ucast c) s"

definition string2wstring :: "byte list \<Rightarrow> wstring" where
  "string2wstring s = map (\<lambda>b. scast b) s"

fun scan_sign :: "byte list \<Rightarrow> bool \<times> byte list" where
  "scan_sign (b # bs) = (if b = 45 then (True, bs) else if b = 43 then (False, bs) else (False, b # bs))"
| "scan_sign [] = (False, [])"

fun scan_digits :: "int \<Rightarrow> byte list \<Rightarrow> int \<times> byte list" where
  "scan_digits acc (b # bs) =
     (if isdigit b then scan_digits (acc * 10 + (uint b - 48)) bs else (acc, b # bs))"
| "scan_digits acc [] = (acc, [])"

definition atoi :: "byte list \<Rightarrow> int" where
  "atoi s =
     (let (neg, r) = scan_sign s;
          n = fst (scan_digits 0 r);
          l = (if neg then max (- (2 ^ 63)) (- n) else min (2 ^ 63 - 1) n)
      in sint (word_of_int l :: u32))"

text \<open>The double nearest to \<open>m / n\<close>: enough quotient bits, and a sticky bit for the rest.\<close>

definition d_ratio :: "bool \<Rightarrow> int \<Rightarrow> int \<Rightarrow> u64" where
  "d_ratio s m n =
     (let k = bitlen n + 64;
          q = m * 2 ^ nat k div n;
          sticky = (if m * 2 ^ nat k mod n = 0 then 0 else 1)
      in d_round s (2 * q + sticky) (- k - 1))"

definition atof :: "byte list \<Rightarrow> u64" where
  "atof s =
     (let (neg, r) = scan_sign s;
          (n, rest) = scan_digits 0 r
      in case rest of
           [] \<Rightarrow> d_ratio neg n 1
         | b # fs \<Rightarrow>
             if b = 46
             then (let (m, tl) = scan_digits n fs in d_ratio neg m (10 ^ (length fs - length tl)))
             else d_ratio neg n 1)"

definition double_to_int :: "u64 \<Rightarrow> int" where
  "double_to_int d =
     (case d_to_int64 d of
        Some k \<Rightarrow> if - (2 ^ 31) \<le> k \<and> k < 2 ^ 31 then k else - (2 ^ 31)
      | None \<Rightarrow> - (2 ^ 31))"

definition pow10 :: "int \<Rightarrow> u64" where
  "pow10 n =
     (if 308 < n then inf_bits False
      else if 0 \<le> n then d_ratio False (10 ^ nat n) 1
      else if - 400 \<le> n then d_ratio False 1 (10 ^ nat (- n))
      else 0)"

section \<open>Tables and character classes\<close>

record SimpleToken =
  st_str :: "byte list"
  st_length :: nat
  st_token :: TokenType

definition simple_token :: "string \<Rightarrow> nat \<Rightarrow> TokenType \<Rightarrow> SimpleToken" where
  "simple_token s n t = \<lparr>st_str = bytes s, st_length = n, st_token = t\<rparr>"

definition tokenTable :: "SimpleToken list" where
  "tokenTable =
    [simple_token ''.'' 1 TOK_DOT,
     simple_token '','' 1 TOK_COMMA,
     simple_token '';'' 1 TOK_SEMICOLON,
     simple_token '':'' 1 TOK_COLON,
     simple_token ''=='' 2 TOK_EQUALS,
     simple_token ''!='' 2 TOK_NOT_EQUAL,
     simple_token ''='' 1 TOK_ASSIGN,
     simple_token ''<='' 2 TOK_LESS_THAN_EQUAL,
     simple_token ''<'' 1 TOK_LESS_THAN,
     simple_token ''>='' 2 TOK_GREATER_THAN_EQUAL,
     simple_token ''>'' 1 TOK_GREATER_THAN,
     simple_token ''+='' 2 TOK_ADD_ASSIGN,
     simple_token ''-='' 2 TOK_SUB_ASSIGN,
     simple_token ''++'' 2 TOK_INCREMENT,
     simple_token ''--'' 2 TOK_DECREMENT,
     simple_token ''+'' 1 TOK_PLUS,
     simple_token ''-'' 1 TOK_MINUS,
     simple_token ''*'' 1 TOK_ASTERISK,
     simple_token ''/'' 1 TOK_SLASH_FORWARD,
     simple_token ''!'' 1 TOK_NOT,
     simple_token ''&&'' 2 TOK_LOGICAL_AND,
     simple_token ''{'' 1 TOK_BRACE_LEFT,
     simple_token ''}'' 1 TOK_BRACE_RIGHT,
     simple_token ''('' 1 TOK_BRACKET_LEFT,
     simple_token '')'' 1 TOK_BRACKET_RIGHT,
     simple_token ''['' 1 TOK_SQUARE_BRACKET_LEFT,
     simple_token '']'' 1 TOK_SQUARE_BRACKET_RIGHT,
     simple_token [CHR 0x22] 1 TOK_DOUBLE_QUOTE,
     simple_token [CHR 0x27] 1 TOK_QUOTE,
     simple_token ''var'' 3 TOK_VAR,
     simple_token ''import'' 6 TOK_IMPORT,
     simple_token ''class'' 5 TOK_CLASS,
     simple_token ''extends'' 7 TOK_EXTENDS,
     simple_token ''function'' 8 TOK_FUNCTION,
     simple_token ''static'' 6 TOK_STATIC,
     simple_token ''new'' 3 TOK_NEW,
     simple_token ''if'' 2 TOK_IF,
     simple_token ''else'' 4 TOK_ELSE,
     simple_token ''for'' 3 TOK_FOR,
     simple_token ''while'' 5 TOK_WHILE,
     simple_token ''return'' 6 TOK_RETURN,
     simple_token ''true'' 4 TOK_LITERAL,
     simple_token ''false'' 5 TOK_LITERAL,
     simple_token ''try'' 3 TOK_TRY,
     simple_token ''throw'' 5 TOK_THROW,
     simple_token ''catch'' 5 TOK_CATCH]"

definition chartype :: "byte \<Rightarrow> CharType" where
  "chartype c =
     (if isalpha c then ALPHA else if isdigit c then DIGIT
      else if isspace c then WHITESPACE else OTHER)"

definition isIdentifierChar :: "wchar \<Rightarrow> bool" where
  "isIdentifierChar c \<longleftrightarrow> iswalnum c \<or> c = 0x5f \<or> c AND 0x2600 = 0x2600"

section \<open>Words\<close>

text \<open>Whether \<open>strncmp\<close> finds the text at \<open>pos\<close> equal; \<open>s\<close> stands for its characters and a zero.\<close>

fun strncmp_eq :: "byte list \<Rightarrow> nat \<Rightarrow> byte list \<Rightarrow> nat \<Rightarrow> bool res" where
  "strncmp_eq buf pos s 0 = Inr True"
| "strncmp_eq buf pos s (Suc n) =
     rbind (rd buf pos) (\<lambda>b.
       let c = (case s of [] \<Rightarrow> 0 | c # _ \<Rightarrow> c)
       in if b \<noteq> c then Inr False else if b = 0 then Inr True
          else strncmp_eq buf (pos + 1) (tl s) n)"

definition checkWord :: "byte list \<Rightarrow> nat \<Rightarrow> SimpleToken \<Rightarrow> nat option res" where
  "checkWord buf pos token =
     rbind (rd buf pos) (\<lambda>first.
       let firstType = chartype first in
       rbind (strncmp_eq buf pos (st_str token) (st_length token)) (\<lambda>eq.
         if eq
         then (if firstType = ALPHA \<or> firstType = DIGIT
               then rbind (rd buf (pos + st_length token)) (\<lambda>b.
                 let type = chartype b
                 in if type = ALPHA \<or> type = DIGIT then Inr None
                    else Inr (Some (pos + st_length token)))
               else Inr (Some (pos + st_length token)))
         else Inr None))"

fun find_token :: "byte list \<Rightarrow> nat \<Rightarrow> SimpleToken list \<Rightarrow> (SimpleToken \<times> nat) option res" where
  "find_token buf pos [] = Inr None"
| "find_token buf pos (t # ts) =
     rbind (checkWord buf pos t) (\<lambda>r.
       case r of Some p \<Rightarrow> Inr (Some (t, p)) | None \<Rightarrow> find_token buf pos ts)"

section \<open>The inner loops\<close>

lemma rbind_cong [fundef_cong]:
  "m = m' \<Longrightarrow> (\<And>x. m' = Inr x \<Longrightarrow> f x = f' x) \<Longrightarrow> rbind m f = rbind m' f'"
  by (cases m') simp_all

lemma increase_OK_moves:
  "increase_or_return buf e it cp k = Inr (UTF8_OK, it', c) \<Longrightarrow>
     it + 1 < length buf \<and> (\<exists>b. k (it + 1) b = Inr (UTF8_OK, it', c))"
  by (auto simp: increase_or_return_OK)

lemma next_moves:
  assumes "utf8_next buf e it = Inr (cp, it')"
  shows "it < it' \<and> it' \<le> length buf"
proof -
  from assms have v: "validate_next buf e it = Inr (UTF8_OK, it', cp)"
    by (auto simp: utf8_next_def rd_Inr elim!: rbind_InrE split: utf_error.splits prod.splits)
  then obtain j n where g: "get_sequence n buf e it = Inr (UTF8_OK, j, cp)" and "it' = j + 1" and "it < length buf"
    by (auto simp: validate_next_def rd_Inr Let_def elim!: rbind_InrE split: if_splits prod.splits)
  moreover from g have "it \<le> j \<and> j < length buf"
    by (auto simp: get_sequence_def get_sequence_1_def get_sequence_2_def get_sequence_3_def
        get_sequence_4_def rd_Inr Let_def elim!: rbind_InrE dest!: increase_OK_moves split: if_splits)
  ultimately show ?thesis by simp
qed

text \<open>\<open>//\<close> comments: up to, not including, the end of the line.\<close>

function line_comment :: "byte list \<Rightarrow> nat \<Rightarrow> nat \<Rightarrow> int \<Rightarrow> (nat \<times> int) res" where
  "line_comment buf e pos line =
     rbind (peek_next buf e pos) (\<lambda>nxt.
       if nxt = 10 \<or> nxt = 13 \<or> nxt = 0 then Inr (pos, line + 1)
       else rbind (utf8_next buf e pos) (\<lambda>(_, p). line_comment buf e p line))"
  by pat_completeness auto
termination
  by (relation "measure (\<lambda>(buf, e, pos, line). length buf - pos)") (auto dest: next_moves)

function block_comment :: "byte list \<Rightarrow> nat \<Rightarrow> nat \<Rightarrow> int \<Rightarrow> (nat \<times> int) res" where
  "block_comment buf e pos line =
     rbind (peek_next buf e pos) (\<lambda>nxt.
       if nxt = 42
       then rbind (utf8_next buf e pos) (\<lambda>(_, p).
         rbind (peek_next buf e p) (\<lambda>nxt1.
           if nxt1 = 47 then rbind (utf8_next buf e p) (\<lambda>(_, p1). Inr (p1, line))
           else rbind (utf8_next buf e p) (\<lambda>(_, p1).
             block_comment buf e p1 (if nxt1 = 10 then line + 1 else line))))
       else if nxt = 0 then Inr (pos, line)
       else rbind (utf8_next buf e pos) (\<lambda>(_, p).
         block_comment buf e p (if nxt = 10 then line + 1 else line)))"
  by pat_completeness auto
termination
  by (relation "measure (\<lambda>(buf, e, pos, line). length buf - pos)") (auto dest!: next_moves)

text \<open>
  The digits behind \<open>e+\<close> or \<open>e-\<close>, appended to the sign. The code asks \<open>isdigit\<close> here; of a
  wide character the compiler's built-in tests the same range as \<open>iswdigit\<close>.
\<close>

function lex_exponent :: "byte list \<Rightarrow> nat \<Rightarrow> nat \<Rightarrow> wstring \<Rightarrow> (wstring \<times> nat) res" where
  "lex_exponent buf e pos exponent =
     rbind (utf8_next buf e pos) (\<lambda>(cur, p).
       if \<not> iswdigit cur then rbind (prior buf e p) (\<lambda>(_, p1). Inr (exponent, p1))
       else lex_exponent buf e p (exponent @ [cur]))"
  by pat_completeness auto
termination
  by (relation "measure (\<lambda>(buf, e, pos, ex). length buf - pos)") (auto dest: next_moves)

text \<open>
  The loop over a number, with \<open>cur\<close> the character in front of \<open>pos\<close>. The result holds \<open>str\<close>,
  \<open>dot\<close> and, for a number with an \<open>e\<close>, \<open>exponent\<close>; \<open>None\<close> is the error return.
\<close>

type_synonym number = "wstring \<times> bool \<times> wstring option"

function lex_number :: "byte list \<Rightarrow> nat \<Rightarrow> nat \<Rightarrow> wchar \<Rightarrow> wstring \<Rightarrow> bool \<Rightarrow> (number option \<times> nat) res" where
  "lex_number buf e pos cur str dot =
     (if cur = 45
      then (if str \<noteq> [] then rbind (prior buf e pos) (\<lambda>(_, p). Inr (Some (str, dot, None), p))
            else rbind (utf8_next buf e pos) (\<lambda>(cur', p). lex_number buf e p cur' [45] dot))
      else if cur = 46 \<and> \<not> dot
      then rbind (utf8_next buf e pos) (\<lambda>(cur', p). lex_number buf e p cur' (str @ [46]) True)
      else if iswdigit cur
      then rbind (utf8_next buf e pos) (\<lambda>(cur', p). lex_number buf e p cur' (str @ [cur]) dot)
      else if cur = 101 \<or> cur = 69
      then rbind (utf8_next buf e pos) (\<lambda>(sign, p).
        if sign \<noteq> 45 \<and> sign \<noteq> 43 then Inr (None, p)
        else rbind (lex_exponent buf e p [sign]) (\<lambda>(exponent, p1).
          Inr (Some (str, dot, Some exponent), p1)))
      else rbind (prior buf e pos) (\<lambda>(_, p). Inr (Some (str, dot, None), p)))"
  by pat_completeness auto
termination
  by (relation "measure (\<lambda>(buf, e, pos, cur, str, dot). length buf - pos)") (auto dest: next_moves)

definition number_token :: "int \<Rightarrow> number \<Rightarrow> Token" where
  "number_token line num =
     (let (str, dot, exponent) = num in
      if dot \<or> exponent \<noteq> None
      then (blank_token TOK_DOUBLE line)\<lparr>tok_d :=
             (case exponent of
                None \<Rightarrow> atof (wstring2string str)
              | Some ex \<Rightarrow> d_mul (atof (wstring2string str))
                  (pow10 (double_to_int (atof (wstring2string ex)))))\<rparr>
      else (blank_token TOK_INTEGER line)\<lparr>tok_i := atoi (wstring2string str)\<rparr>)"

text \<open>String literals; \<open>None\<close> is the error return for an unknown escape.\<close>

function lex_string :: "byte list \<Rightarrow> nat \<Rightarrow> nat \<Rightarrow> wstring \<Rightarrow> (wstring \<times> nat) option res" where
  "lex_string buf e pos str =
     (if pos < e
      then rbind (utf8_next buf e pos) (\<lambda>(cur, p).
        if cur = 92
        then rbind (utf8_next buf e p) (\<lambda>(esc, p1).
          if esc = 110 then lex_string buf e p1 (str @ [10]) else Inr None)
        else if cur = 34 then Inr (Some (str, p))
        else lex_string buf e p (str @ [cur]))
      else Inr (Some (str, pos)))"
  by pat_completeness auto
termination
  by (relation "measure (\<lambda>(buf, e, pos, str). length buf - pos)") (auto dest!: next_moves)

function lex_identifier :: "byte list \<Rightarrow> nat \<Rightarrow> nat \<Rightarrow> wstring \<Rightarrow> (wstring \<times> nat) res" where
  "lex_identifier buf e pos str =
     (if pos < e
      then rbind (peek_next buf e pos) (\<lambda>cur.
        if \<not> isIdentifierChar cur then Inr (str, pos)
        else rbind (utf8_next buf e pos) (\<lambda>(_, p). lex_identifier buf e p (str @ [cur])))
      else Inr (str, pos))"
  by pat_completeness auto
termination
  by (relation "measure (\<lambda>(buf, e, pos, str). length buf - pos)") (auto dest: next_moves)

text \<open>The rest of the line, read for an error message.\<close>

function restOfLine :: "byte list \<Rightarrow> nat \<Rightarrow> byte list res" where
  "restOfLine buf pos =
     rbind (rd buf pos) (\<lambda>b.
       if b \<noteq> 10 \<and> b \<noteq> 0 then rbind (restOfLine buf (pos + 1)) (\<lambda>r. Inr (b # r)) else Inr [])"
  by pat_completeness auto
termination
  by (relation "measure (\<lambda>(buf, pos). length buf - pos)") (auto simp: rd_Inr)

lemmas lexer_loops = line_comment.simps block_comment.simps lex_exponent.simps lex_number.simps
  lex_string.simps lex_identifier.simps restOfLine.simps

declare lexer_loops [simp del]

section \<open>The lexer\<close>

text \<open>
  One turn of the main loop ends in \<open>Lexed\<close> with the new position, line and tokens, or leaves the
  loop: \<open>Done\<close> at a zero character, \<open>Failed\<close> for \<open>return false\<close>.
\<close>

datatype turn = Lexed nat int "Token list" | Done | Failed

definition lex_comment :: "byte list \<Rightarrow> nat \<Rightarrow> nat \<Rightarrow> int \<Rightarrow> Token list \<Rightarrow> wchar \<Rightarrow> turn res" where
  "lex_comment buf e pos line toks nxt =
     rbind (utf8_next buf e pos) (\<lambda>(_, p).
       rbind (if nxt = 47 then line_comment buf e p line else block_comment buf e p line)
         (\<lambda>(p1, l). Inr (Lexed p1 l toks)))"

definition lex_number_token ::
    "byte list \<Rightarrow> nat \<Rightarrow> nat \<Rightarrow> int \<Rightarrow> Token list \<Rightarrow> wchar \<Rightarrow> turn res" where
  "lex_number_token buf e pos line toks cur =
     rbind (lex_number buf e pos cur [] False) (\<lambda>(num, p).
       case num of
         None \<Rightarrow> Inr Failed
       | Some nm \<Rightarrow> Inr (Lexed p line (toks @ [number_token line nm])))"

definition lex_string_token :: "byte list \<Rightarrow> nat \<Rightarrow> nat \<Rightarrow> int \<Rightarrow> Token list \<Rightarrow> turn res" where
  "lex_string_token buf e pos line toks =
     rbind (lex_string buf e pos []) (\<lambda>r.
       case r of
         None \<Rightarrow> Inr Failed
       | Some (str, p) \<Rightarrow>
           Inr (Lexed p line (toks @ [(blank_token TOK_STRING line)\<lparr>tok_string := str\<rparr>])))"

definition lex_word :: "byte list \<Rightarrow> nat \<Rightarrow> nat \<Rightarrow> int \<Rightarrow> Token list \<Rightarrow> wchar \<Rightarrow> turn res" where
  "lex_word buf e pos line toks cur =
     rbind (prior buf 0 pos) (\<lambda>(_, p).
       rbind (find_token buf p tokenTable) (\<lambda>r.
         case r of
           Some (t, p1) \<Rightarrow>
             Inr (Lexed p1 line (toks @
               [(blank_token (st_token t) line)\<lparr>tok_string := string2wstring (st_str t)\<rparr>]))
         | None \<Rightarrow>
             if isIdentifierChar cur \<and> \<not> iswdigit cur
             then rbind (utf8_next buf e p) (\<lambda>(_, p1).
               rbind (lex_identifier buf e p1 [cur]) (\<lambda>(str, p2).
                 Inr (Lexed p2 line (toks @
                   [(blank_token TOK_IDENTIFIER line)\<lparr>tok_string := str\<rparr>]))))
             else rbind (restOfLine buf p) (\<lambda>_. Inr Failed)))"

definition lex_turn :: "byte list \<Rightarrow> nat \<Rightarrow> nat \<Rightarrow> int \<Rightarrow> Token list \<Rightarrow> turn res" where
  "lex_turn buf e pos line toks =
     rbind (utf8_next buf e pos) (\<lambda>(cur, p).
       if cur = 0 then Inr Done
       else rbind (if p < e - 1 then peek_next buf e p else Inr 0) (\<lambda>nxt.
         if cur = 47 \<and> (nxt = 47 \<or> nxt = 42) then lex_comment buf e p line toks nxt
         else if iswspace cur then Inr (Lexed p (if cur = 10 then line + 1 else line) toks)
         else if iswdigit cur \<or> cur = 45 \<and> iswdigit nxt
         then lex_number_token buf e p line toks cur
         else if cur = 34 then lex_string_token buf e p line toks
         else lex_word buf e p line toks cur))"

subsection \<open>Every turn moves forward\<close>

text \<open>An iterator only moves forward, and inside the buffer: induction on the bytes left.\<close>

lemma forward_induct [consumes 0, case_names step]:
  assumes "\<And>pos. (\<And>q. pos < q \<Longrightarrow> q \<le> n \<Longrightarrow> P q) \<Longrightarrow> P pos"
  shows "P (pos :: nat)"
proof (induction "n - pos" arbitrary: pos rule: less_induct)
  case less
  show ?case by (rule assms, rule less) simp
qed

lemma line_comment_moves: "line_comment buf e pos line = Inr (p, l) \<Longrightarrow> pos \<le> p"
proof (induction pos rule: forward_induct [where n = "length buf"])
  case (step pos)
  from step(2) show ?case
    by (subst (asm) line_comment.simps)
       (auto elim!: rbind_InrE split: if_splits dest!: next_moves, metis step(1) less_imp_le order_trans)
qed

lemma block_comment_moves: "block_comment buf e pos line = Inr (p, l) \<Longrightarrow> pos \<le> p"
proof (induction pos arbitrary: line rule: forward_induct [where n = "length buf"])
  case (step pos)
  have ih: "pos < q \<longrightarrow> q \<le> length buf \<longrightarrow> q \<le> p" if "block_comment buf e q line' = Inr (p, l)" for q line'
    using step(1) [of q line'] that by simp
  from step(2) show ?case
    by (subst (asm) block_comment.simps)
       (auto elim!: rbind_InrE split: if_splits dest!: next_moves ih)
qed

lemma prior_back:
  assumes "utf8_next buf e it = Inr (cp, it')" and "it \<le> e" and "prior buf e it' = Inr (c, p)"
  shows "p = it"
proof -
  from next_sound [OF assms(1,2)] have "it' \<le> e" by simp
  moreover from assms(3) have "it' \<noteq> e" by (auto simp: prior_def)
  ultimately have "prior buf e it' = Inr (cp, it)" using assms(1,2) by (intro prior_next) auto
  with assms(3) show ?thesis by simp
qed

lemma lex_exponent_moves: "lex_exponent buf e pos ex = Inr (r, p) \<Longrightarrow> pos \<le> e \<Longrightarrow> pos \<le> p"
proof (induction pos arbitrary: ex rule: forward_induct [where n = "length buf"])
  case (step pos)
  from step(2) obtain cur p1 where nx: "utf8_next buf e pos = Inr (cur, p1)"
    and r: "(if \<not> iswdigit cur then rbind (prior buf e p1) (\<lambda>(_, p1). Inr (ex, p1))
       else lex_exponent buf e p1 (ex @ [cur])) = Inr (r, p)"
    by (subst (asm) lex_exponent.simps) (auto elim!: rbind_InrE)
  note s = next_sound [OF nx step(3)]
  show ?case
  proof (cases "iswdigit cur")
    case True
    with r step(1) [of p1 "ex @ [cur]"] s show ?thesis by simp
  next
    case False
    with r prior_back [OF nx step(3)] show ?thesis by (auto elim!: rbind_InrE)
  qed
qed

text \<open>The number loop never falls behind the character it looks at, and it takes the first one.\<close>

lemma lex_number_moves:
  "lex_number buf e pos cur str dot = Inr (r, p) \<Longrightarrow> utf8_next buf e it = Inr (cur, pos) \<Longrightarrow> it \<le> e \<Longrightarrow>
     it \<le> p \<and> (iswdigit cur \<or> cur = 45 \<and> str = [] \<longrightarrow> pos \<le> p)"
proof (induction pos arbitrary: it cur str dot rule: forward_induct [where n = "length buf"])
  case (step pos)
  note s = next_sound [OF step(3,4)]
  then have pe: "pos \<le> e" and ip: "it \<le> pos" by simp_all
  have bck: "prior buf e pos = Inr (c, q) \<Longrightarrow> q = it" for c q
    by (rule prior_back [OF step(3,4)])
  have d: "cur = 45 \<or> cur = 46 \<Longrightarrow> \<not> iswdigit cur" by (auto simp: iswdigit_def)
  have ex: "lex_exponent buf e q ex = Inr (x, p) \<Longrightarrow> utf8_next buf e pos = Inr (c, q) \<Longrightarrow> it \<le> p"
    for q c x ex
    using lex_exponent_moves [of buf e q ex x p] next_sound [of buf e pos c q] pe ip by auto
  have one: "utf8_next buf e pos = Inr (c, p) \<Longrightarrow> it \<le> p" for c
    using next_moves [of buf e pos c p] ip by simp
  have rec: "lex_number buf e q c str' dot' = Inr (r, p) \<Longrightarrow> utf8_next buf e pos = Inr (c, q) \<Longrightarrow>
      it \<le> p \<and> pos \<le> p"
    for q c str' dot'
    using step(1) [of q c str' dot' pos] next_moves [of buf e pos c q] pe ip by auto
  from step(2) ip d show ?case
    by (subst (asm) lex_number.simps)
       (auto elim!: rbind_InrE split: if_splits dest: bck ex rec one)
qed

lemma lex_string_moves: "lex_string buf e pos str = Inr (Some (r, p)) \<Longrightarrow> pos \<le> p"
proof (induction pos arbitrary: str rule: forward_induct [where n = "length buf"])
  case (step pos)
  have ih: "pos < q \<longrightarrow> q \<le> length buf \<longrightarrow> q \<le> p" if "lex_string buf e q str' = Inr (Some (r, p))" for q str'
    using step(1) [of q str'] that by simp
  from step(2) show ?case
    by (subst (asm) lex_string.simps)
       (auto elim!: rbind_InrE split: if_splits dest!: next_moves ih)
qed

lemma lex_identifier_moves: "lex_identifier buf e pos str = Inr (r, p) \<Longrightarrow> pos \<le> p"
proof (induction pos arbitrary: str rule: forward_induct [where n = "length buf"])
  case (step pos)
  have ih: "pos < q \<longrightarrow> q \<le> length buf \<longrightarrow> q \<le> p" if "lex_identifier buf e q str' = Inr (r, p)" for q str'
    using step(1) [of q str'] that by simp
  from step(2) show ?case
    by (subst (asm) lex_identifier.simps)
       (auto elim!: rbind_InrE split: if_splits dest!: next_moves ih)
qed

lemma find_token_moves:
  "find_token buf pos ts = Inr (Some (t, p)) \<Longrightarrow> p = pos + st_length t \<and> t \<in> set ts"
  by (induction ts) (auto simp: checkWord_def Let_def elim!: rbind_InrE split: option.splits if_splits)

lemma token_length_pos: "t \<in> set tokenTable \<Longrightarrow> 0 < st_length t"
  by (auto simp: tokenTable_def simple_token_def)

lemma lex_turn_moves:
  assumes "lex_turn buf e pos line toks = Inr (Lexed p l ts)" and "pos < e"
  shows "pos < p \<and> pos < length buf"
proof -
  from assms(1) obtain cur q where nx: "utf8_next buf e pos = Inr (cur, q)"
    by (auto simp: lex_turn_def elim!: rbind_InrE)
  note s = next_sound [OF nx]
  from assms(2) s have q: "pos < q" "q \<le> length buf" "q \<le> e" by auto
  have bck: "prior buf 0 q = Inr (c, r) \<Longrightarrow> r = pos" for c r
    using prior_next [OF nx, of 0] assms(2) by simp
  have len: "find_token buf pos tokenTable = Inr (Some (t, r)) \<Longrightarrow> pos < r" for t r
    using find_token_moves [of buf pos tokenTable t r] token_length_pos [of t] by auto
  have num: "lex_number buf e q c [] False = Inr (x, p) \<Longrightarrow> utf8_next buf e pos = Inr (c, q) \<Longrightarrow>
      iswdigit c \<or> c = 45 \<Longrightarrow> pos < p" for x c
    using lex_number_moves [of buf e q c "[]" False x p pos] assms(2) q by auto
  have str: "lex_string buf e q [] = Inr (Some (x, p)) \<Longrightarrow> pos < p" for x
    using lex_string_moves [of buf e q "[]" x p] q by simp
  have step: "utf8_next buf e r = Inr (c, r') \<Longrightarrow> r < r'" for c r r'
    using next_moves [of buf e r c r'] by simp
  have cmt: "lex_comment buf e q line toks nxt = Inr (Lexed p l ts) \<Longrightarrow> pos < p" for nxt
    using q by (auto simp: lex_comment_def elim!: rbind_InrE split: if_splits
        dest!: step line_comment_moves block_comment_moves)
  have wrd: "lex_word buf e q line toks c = Inr (Lexed p l ts) \<Longrightarrow> pos < p" for c
    by (auto simp: lex_word_def elim!: rbind_InrE split: if_splits option.splits
        dest!: bck step lex_identifier_moves dest: len)
  from assms(1) nx q have "pos < p"
    by (auto simp: lex_turn_def lex_number_token_def lex_string_token_def
        elim!: rbind_InrE split: if_splits option.splits dest!: cmt wrd num str)
  with q show ?thesis by simp
qed

function lex_loop :: "byte list \<Rightarrow> nat \<Rightarrow> nat \<Rightarrow> int \<Rightarrow> Token list \<Rightarrow> (bool \<times> Token list) res" where
  "lex_loop buf e pos line toks =
     (if pos < e
      then rbind (lex_turn buf e pos line toks) (\<lambda>t.
        case t of
          Lexed p l ts \<Rightarrow> lex_loop buf e p l ts
        | Done \<Rightarrow> Inr (True, toks)
        | Failed \<Rightarrow> Inr (False, toks))
      else Inr (True, toks))"
  by pat_completeness auto
termination
  by (relation "measure (\<lambda>(buf, e, pos, line, toks). length buf - pos)")
     (auto dest: lex_turn_moves)

declare lex_loop.simps [simp del]

text \<open>\<open>Lexer::lexer\<close> of a fresh lexer: the returned truth value and \<open>m_tokens\<close>.\<close>

definition lexer :: "byte list option \<Rightarrow> nat \<Rightarrow> (bool \<times> Token list) res" where
  "lexer buffer n =
     (case buffer of
        None \<Rightarrow> Inr (False, [])
      | Some buf \<Rightarrow> if n = 0 then Inr (False, []) else lex_loop buf n 0 1 [])"

end
