(* ===== verification/Registry.thy ===== *)
theory Registry
  imports Services
begin

text \<open>
  The class registry of the runtime (src/libb0rk/runtime.cpp, \<open>addClass\<close> and \<open>findClass\<close>).
  \<open>Runtime::loadClass\<close>, which runs the lexer and the parser on a file, is the parameter \<open>load\<close>
  here; theory Loader supplies it.
\<close>

type_synonym loader = "wstring \<Rightarrow> bool \<Rightarrow> vm \<Rightarrow> (ptr \<times> vm) option"

definition findClass :: "loader \<Rightarrow> wstring \<Rightarrow> bool \<Rightarrow> vm \<Rightarrow> (ptr \<times> vm) option" where
  "findClass load name ld s =
     (case map_of (rt_classes (rt s)) name of
        Some p \<Rightarrow> Some (p, s)
      | None \<Rightarrow> if ld then load name False s else Some (0, s))"

definition set_class :: "ptr \<Rightarrow> Class \<Rightarrow> vm \<Rightarrow> vm" where
  "set_class p c s = s\<lparr>rt := (rt s)\<lparr>rt_class := (rt_class (rt s))(p \<mapsto> c)\<rparr>\<rparr>"

definition addClass :: "loader \<Rightarrow> env \<Rightarrow> ptr \<Rightarrow> bool \<Rightarrow> vm \<Rightarrow> (bool \<times> vm) option" where
  "addClass load e clazz findScript s = do {
     c \<leftarrow> rt_class (rt s) clazz;
     let existing = findClass_loaded (cl_name c) (rt s);
     if existing \<noteq> 0 then Some (False, s)
     else do {
       let obj = objectClass (rt s);
       let s1 = (if findScript \<and> obj \<noteq> 0 \<and> clazz \<noteq> obj
                 then set_class clazz (setSuperClass obj c) s else s);
       let s2 = s1\<lparr>rt := (rt s1)\<lparr>rt_classes := rt_classes (rt s1) @ [(cl_name c, clazz)]\<rparr>\<rparr>;
       init \<leftarrow> findMethod (rt_class (rt s2)) clazz (wstr ''<staticinit>'');
       (res, s3) \<leftarrow> (if init \<noteq> 0 then ev_call e init 0 0 s2 else Some (True, s2));
       if \<not> res then Some (False, s3)
       else if findScript then do {
         (_, s4) \<leftarrow> load (cl_name c) True s3;
         Some (True, s4) }
       else Some (True, s3) } }"

lemma findClass_registered:
  "map_of (rt_classes (rt s)) name = Some p \<Longrightarrow> findClass load name ld s = Some (p, s)"
  by (simp add: findClass_def)

lemma findClass_loaded_eq: "findClass load name False s = Some (findClass_loaded name (rt s), s)"
  by (simp add: findClass_def findClass_loaded_def split: option.splits)

end
