(* ===== verification/Nodes.thy ===== *)
theory Nodes
  imports Registry
begin

text \<open>
  What the parser (src/libb0rk/parser.cpp) keeps while it runs: its token position, the imports,
  and the expressions, code blocks and functions it has allocated. The parser builds expressions by
  assigning to the members of objects that are also in its list \<open>m_expressions\<close>, and afterwards
  infers types by walking that list, so expressions and blocks live in a store here and refer to each
  other by address. Theory Exprs has the trees the assembler reads; \<open>expr_tree\<close> and \<open>block_tree\<close>
  give the tree at an address.
\<close>

section \<open>The store\<close>

text \<open>
  One constructor per subclass of \<open>Expression\<close>, with the members of the subclass; a null pointer to
  an expression or block is \<open>None\<close>.
\<close>

type_synonym addr = nat

datatype (plugins only: code size) pnode =
    PCall ptr wstring "addr list"
  | PNew "wstring list" "addr list"
  | POper OpType OpDesc "addr option" "addr option"
  | PIf "addr option" "addr option" "addr option"
  | PFor "addr option" "addr option" "addr option" "addr option"
  | PReturn "addr option"
  | PVar ptr wstring
  | PArray ptr wstring "addr option"
  | PString wstring
  | PInteger u64
  | PDouble u64
  | PFunction ptr
  | PThrow "addr option"
  | PTry "addr option" wstring "addr option"

record pexpr =
  e_parent :: "addr option"
  e_block :: addr
  e_valueType :: ValueType
  e_node :: pnode

record pblock =
  b_function :: ptr
  b_parent :: "addr option"
  b_startingVarId :: int
  b_maxVarId :: int
  b_varTypes :: "ValueType list option"
  b_vars :: "wstring list"
  b_code :: "addr list"
  b_childBlocks :: "addr list"

record pfunction =
  f_name :: wstring
  f_static :: bool
  f_class :: ptr
  f_args :: "wstring list"
  f_code :: "addr option"

text \<open>
  The parser's members. \<open>m_expressions\<close> is the list of the code; \<open>p_nodes\<close> and \<open>p_blocks\<close> hold
  everything allocated, \<open>p_dead\<close> and \<open>p_freed\<close> the expressions and the blocks that have been deleted.
  \<open>p_funcs\<close> are the functions this parser has made.
\<close>

record parser =
  m_pos :: nat
  m_tokens :: "Token list"
  m_imports :: "(wstring \<times> wstring list) list"
  m_expressions :: "addr list"
  p_nodes :: "pexpr list"
  p_blocks :: "pblock list"
  p_dead :: "addr list"
  p_freed :: "addr list"
  p_funcs :: "(ptr \<times> pfunction) list"
  p_vm :: vm

section \<open>Parsing steps\<close>

text \<open>
  A step returns a result, fails (\<open>return NULL\<close> or \<open>return false\<close> behind an error message), has no
  defined result, or would need more fuel.
\<close>

datatype 'a outcome = Ret 'a parser | Failed parser | Undefined | OutOfFuel

type_synonym 'a step = "parser \<Rightarrow> 'a outcome"

definition ret :: "'a \<Rightarrow> 'a step" where
  "ret x s = Ret x s"

definition failing :: "'a step" where
  "failing s = Failed s"

definition undef :: "'a step" where
  "undef s = Undefined"

definition starved :: "'a step" where
  "starved s = OutOfFuel"

definition bind_step :: "'a step \<Rightarrow> ('a \<Rightarrow> 'b step) \<Rightarrow> 'b step" where
  "bind_step m f s =
     (case m s of Ret x t \<Rightarrow> f x t | Failed t \<Rightarrow> Failed t | Undefined \<Rightarrow> Undefined | OutOfFuel \<Rightarrow> OutOfFuel)"

text \<open>A call whose failure the caller looks at itself.\<close>

definition attempt :: "'a step \<Rightarrow> 'a option step" where
  "attempt m s =
     (case m s of Ret x t \<Rightarrow> Ret (Some x) t | Failed t \<Rightarrow> Ret None t
      | Undefined \<Rightarrow> Undefined | OutOfFuel \<Rightarrow> OutOfFuel)"

definition reads :: "(parser \<Rightarrow> 'a) \<Rightarrow> 'a step" where
  "reads f s = Ret (f s) s"

definition modify :: "(parser \<Rightarrow> parser) \<Rightarrow> unit step" where
  "modify f s = Ret () (f s)"

definition needing :: "'a option \<Rightarrow> 'a step" where
  "needing x = (case x of None \<Rightarrow> undef | Some y \<Rightarrow> ret y)"

text \<open>A call into the runtime.\<close>

definition on_vm :: "(vm \<Rightarrow> ('a \<times> vm) option) \<Rightarrow> 'a step" where
  "on_vm f s = (case f (p_vm s) of None \<Rightarrow> Undefined | Some (x, v) \<Rightarrow> Ret x (s\<lparr>p_vm := v\<rparr>))"

primrec each :: "('a \<Rightarrow> unit step) \<Rightarrow> 'a list \<Rightarrow> unit step" where
  "each f [] = ret ()"
| "each f (x # xs) = bind_step (f x) (\<lambda>_. each f xs)"


text \<open>Steps one after the other.\<close>

primrec steps :: "unit step list \<Rightarrow> unit step" where
  "steps [] = ret ()"
| "steps (m # ms) = bind_step m (\<lambda>_. steps ms)"

section \<open>Tokens\<close>

definition moreTokens :: "bool step" where
  "moreTokens = reads (\<lambda>s. m_pos s < length (m_tokens s))"

text \<open>Reading a token behind the last one is outside the vector.\<close>

definition nextToken :: "Token step" where
  "nextToken s =
     (if m_pos s < length (m_tokens s) then Ret (m_tokens s ! m_pos s) (s\<lparr>m_pos := m_pos s + 1\<rparr>)
      else Undefined)"

definition rewind :: "nat \<Rightarrow> unit step" where
  "rewind k = modify (\<lambda>s. s\<lparr>m_pos := m_pos s - k\<rparr>)"

definition expect :: "TokenType \<Rightarrow> Token step" where
  "expect ty = bind_step nextToken (\<lambda>t. if tok_type t \<noteq> ty then failing else ret t)"

section \<open>Allocation and access\<close>

definition getNode :: "addr \<Rightarrow> pexpr step" where
  "getNode x s = (if x < length (p_nodes s) \<and> x \<notin> set (p_dead s) then Ret (p_nodes s ! x) s else Undefined)"

definition setNode :: "addr \<Rightarrow> pexpr \<Rightarrow> unit step" where
  "setNode x e = modify (\<lambda>s. s\<lparr>p_nodes := (p_nodes s)[x := e]\<rparr>)"

definition updNode :: "addr \<Rightarrow> (pexpr \<Rightarrow> pexpr) \<Rightarrow> unit step" where
  "updNode x f = bind_step (getNode x) (\<lambda>e. setNode x (f e))"

definition setParent :: "addr \<Rightarrow> addr \<Rightarrow> unit step" where
  "setParent x p = updNode x (\<lambda>e. e\<lparr>e_parent := Some p\<rparr>)"

text \<open>The constructors of \<open>Expression\<close>: no parent, \<open>VALUE_UNKNOWN\<close>.\<close>

definition newExpr :: "addr \<Rightarrow> pnode \<Rightarrow> ValueType \<Rightarrow> addr step" where
  "newExpr block n ty s =
     Ret (length (p_nodes s))
       (s\<lparr>p_nodes := p_nodes s @ [\<lparr>e_parent = None, e_block = block, e_valueType = ty, e_node = n\<rparr>]\<rparr>)"

definition listExpr :: "addr \<Rightarrow> unit step" where
  "listExpr x = modify (\<lambda>s. s\<lparr>m_expressions := m_expressions s @ [x]\<rparr>)"

definition newListed :: "addr \<Rightarrow> pnode \<Rightarrow> ValueType \<Rightarrow> addr step" where
  "newListed block n ty =
     bind_step (newExpr block n ty) (\<lambda>x. bind_step (listExpr x) (\<lambda>_. ret x))"

definition getBlock :: "addr \<Rightarrow> pblock step" where
  "getBlock b s = (if b < length (p_blocks s) \<and> b \<notin> set (p_freed s) then Ret (p_blocks s ! b) s else Undefined)"

definition updBlock :: "addr \<Rightarrow> (pblock \<Rightarrow> pblock) \<Rightarrow> unit step" where
  "updBlock b f = bind_step (getBlock b) (\<lambda>k. modify (\<lambda>s. s\<lparr>p_blocks := (p_blocks s)[b := f k]\<rparr>))"

text \<open>\<open>CodeBlock::CodeBlock\<close>.\<close>

definition newBlock :: "ptr \<Rightarrow> addr step" where
  "newBlock f s =
     Ret (length (p_blocks s))
       (s\<lparr>p_blocks := p_blocks s @
          [\<lparr>b_function = f, b_parent = None, b_startingVarId = 0, b_maxVarId = 0, b_varTypes = None,
            b_vars = [], b_code = [], b_childBlocks = []\<rparr>]\<rparr>)"

definition addStatement :: "addr \<Rightarrow> addr \<Rightarrow> unit step" where
  "addStatement b x = updBlock b (\<lambda>k. k\<lparr>b_code := b_code k @ [x]\<rparr>)"

definition addVar :: "addr \<Rightarrow> wstring \<Rightarrow> unit step" where
  "addVar b v = updBlock b (\<lambda>k. k\<lparr>b_vars := b_vars k @ [v]\<rparr>)"

definition adopt :: "addr \<Rightarrow> addr \<Rightarrow> unit step" where
  "adopt b child =
     bind_step (updBlock child (\<lambda>k. k\<lparr>b_parent := Some b\<rparr>)) (\<lambda>_.
       updBlock b (\<lambda>k. k\<lparr>b_childBlocks := b_childBlocks k @ [child]\<rparr>))"

text \<open>The next unused address, for a C++ object outside the parser's store.\<close>

definition new_ptr :: "ptr step" where
  "new_ptr = on_vm (\<lambda>v. Some (of_nat (rt_nextNative (rt v)),
     v\<lparr>rt := (rt v)\<lparr>rt_nextNative := rt_nextNative (rt v) + 1\<rparr>\<rparr>))"

definition getFunction :: "ptr \<Rightarrow> pfunction step" where
  "getFunction p s = (case map_of (p_funcs s) p of None \<Rightarrow> Undefined | Some f \<Rightarrow> Ret f s)"

definition updFunction :: "ptr \<Rightarrow> (pfunction \<Rightarrow> pfunction) \<Rightarrow> unit step" where
  "updFunction p f = modify (\<lambda>s. s\<lparr>p_funcs := map (\<lambda>(q, k). (q, if q = p then f k else k)) (p_funcs s)\<rparr>)"

section \<open>Deletion\<close>

text \<open>
  The destructors: a block deletes its child blocks and its statements, an expression the operands
  its class's destructor names. The lifetime of an object ends when its destructor is called, so to
  delete it again, from inside its own destructor or later, has no defined result. The first argument
  bounds the depth of the calls, and to exceed it is \<open>OutOfFuel\<close>; theory ParserFacts shows that this
  does not happen.
\<close>

fun owned :: "pnode \<Rightarrow> addr list" where
  "owned (PCall c f ps) = ps"
| "owned (PNew c ps) = ps"
| "owned (POper oper d l r) = (case l of None \<Rightarrow> [] | Some y \<Rightarrow> [y]) @ (case r of None \<Rightarrow> [] | Some y \<Rightarrow> [y])"
| "owned (PIf t a b) = (case t of None \<Rightarrow> [] | Some y \<Rightarrow> [y])"
| "owned (PFor i t k b) = (case i of None \<Rightarrow> [] | Some y \<Rightarrow> [y]) @ (case t of None \<Rightarrow> [] | Some y \<Rightarrow> [y])
     @ (case k of None \<Rightarrow> [] | Some y \<Rightarrow> [y])"
| "owned n = []"

fun deleteExpr :: "nat \<Rightarrow> addr \<Rightarrow> unit step" where
  "deleteExpr 0 x = starved"
| "deleteExpr (Suc n) x =
     bind_step (getNode x) (\<lambda>e.
       bind_step (modify (\<lambda>s. s\<lparr>p_dead := x # p_dead s\<rparr>)) (\<lambda>_.
       each (deleteExpr n) (owned (e_node e))))"

fun deleteBlock :: "nat \<Rightarrow> addr \<Rightarrow> unit step" where
  "deleteBlock 0 b = starved"
| "deleteBlock (Suc n) b =
     bind_step (getBlock b) (\<lambda>k.
       bind_step (modify (\<lambda>s. s\<lparr>p_freed := b # p_freed s\<rparr>)) (\<lambda>_.
       bind_step (each (deleteBlock n) (b_childBlocks k)) (\<lambda>_.
         bind_step (reads (\<lambda>s. length (p_nodes s))) (\<lambda>m. each (deleteExpr (Suc m)) (b_code k)))))"

end
