(* ===== verification/Parser.thy ===== *)
theory Parser
  imports Nodes
begin

text \<open>
  The parser (src/libb0rk/parser.cpp). Functions that call each other or loop take fuel: one unit
  for every call and every turn of a loop. Finding a class may load and parse another file, so
  \<open>Runtime::findClass\<close> is a member of the environment; theory Loader supplies it. Error messages and
  the logger's indentation are not modelled.
\<close>

record penv =
  pe_env :: env
  pe_load :: loader

section \<open>Identifiers and token lists\<close>

fun identifier_rest :: "nat \<Rightarrow> wstring list \<Rightarrow> wstring list step" where
  "identifier_rest 0 ids = starved"
| "identifier_rest (Suc n) ids =
     bind_step moreTokens (\<lambda>more.
       if \<not> more then ret ids
       else bind_step nextToken (\<lambda>token.
         if tok_type token \<noteq> TOK_DOT then bind_step (rewind 1) (\<lambda>_. ret ids)
         else bind_step (expect TOK_IDENTIFIER) (\<lambda>token.
           identifier_rest n (ids @ [tok_string token]))))"

definition parseIdentifier :: "nat \<Rightarrow> wstring list step" where
  "parseIdentifier n = bind_step (expect TOK_IDENTIFIER) (\<lambda>token. identifier_rest n [tok_string token])"

definition identifier_end :: "wstring list \<Rightarrow> wstring" where
  "identifier_end ids = last ids"

fun split_dots :: "wstring \<Rightarrow> wstring \<Rightarrow> wstring list" where
  "split_dots buf [] = (if buf \<noteq> [] then [buf] else [])"
| "split_dots buf (c # cs) =
     (if c = 46 then (if buf \<noteq> [] then buf # split_dots [] cs else split_dots [] cs)
      else split_dots (buf @ [c]) cs)"

definition makeIdentifier :: "wstring \<Rightarrow> wstring list" where
  "makeIdentifier name = split_dots [] name"

definition identifier_string :: "wstring list \<Rightarrow> wstring" where
  "identifier_string ids = (case ids of [] \<Rightarrow> [] | p # ps \<Rightarrow> p @ concat (map (\<lambda>q. 46 # q) ps))"

text \<open>\<open>m_imports\<close> is a \<open>std::map\<close>: \<open>insert\<close> keeps an entry that is there.\<close>

definition addImport :: "wstring \<Rightarrow> wstring list \<Rightarrow> unit step" where
  "addImport k ids = modify (\<lambda>s.
     case map_of (m_imports s) k of
       None \<Rightarrow> s\<lparr>m_imports := m_imports s @ [(k, ids)]\<rparr>
     | Some _ \<Rightarrow> s)"

definition imported :: "wstring \<Rightarrow> wstring list option step" where
  "imported k = reads (\<lambda>s. map_of (m_imports s) k)"

text \<open>A class name of one part is looked up among the imports.\<close>

definition resolve_import :: "wstring list \<Rightarrow> wstring list step" where
  "resolve_import ids =
     (case ids of
        [x] \<Rightarrow> bind_step (imported x) (\<lambda>i. ret (case i of None \<Rightarrow> ids | Some full \<Rightarrow> full))
      | _ \<Rightarrow> ret ids)"

fun list_items :: "nat \<Rightarrow> TokenType \<Rightarrow> Token list \<Rightarrow> Token list step" where
  "list_items 0 ty acc = starved"
| "list_items (Suc n) ty acc =
     bind_step moreTokens (\<lambda>more.
       if \<not> more then ret acc
       else bind_step nextToken (\<lambda>token.
         if tok_type token = TOK_BRACKET_RIGHT then ret acc
         else if tok_type token \<noteq> ty then failing
         else bind_step nextToken (\<lambda>sep.
           if tok_type sep = TOK_BRACKET_RIGHT then ret (acc @ [token])
           else if tok_type sep \<noteq> TOK_COMMA then failing
           else list_items n ty (acc @ [token]))))"

definition parseList :: "nat \<Rightarrow> TokenType \<Rightarrow> Token list step" where
  "parseList n ty = bind_step (expect TOK_BRACKET_LEFT) (\<lambda>_. list_items n ty [])"

section \<open>Operators\<close>

definition op_desc :: "TokenType \<Rightarrow> OpType \<Rightarrow> bool \<Rightarrow> bool \<Rightarrow> OpDesc" where
  "op_desc t oper l r = \<lparr>od_token = t, od_oper = oper, od_hasLeft = l, od_hasRight = r\<rparr>"

definition opTable :: "OpDesc list" where
  "opTable =
    [op_desc TOK_ASSIGN OPR_SET True True,
     op_desc TOK_PLUS OPR_ADD True True,
     op_desc TOK_MINUS OPR_SUB True True,
     op_desc TOK_NOT OPR_NOT False True,
     op_desc TOK_ASTERISK OPR_MULTIPLY True True,
     op_desc TOK_SLASH_FORWARD OPR_DIVIDE True True,
     op_desc TOK_LOGICAL_AND OPR_LOGICAL_AND True True,
     op_desc TOK_ADD_ASSIGN OPR_SET True True,
     op_desc TOK_SUB_ASSIGN OPR_SET True True,
     op_desc TOK_EQUALS OPR_EQUALS True True,
     op_desc TOK_NOT_EQUAL OPR_NOT_EQUAL True True,
     op_desc TOK_LESS_THAN OPR_LESS_THAN True True,
     op_desc TOK_LESS_THAN_EQUAL OPR_LESS_THAN_EQUAL True True,
     op_desc TOK_GREATER_THAN OPR_GREATER_THAN True True,
     op_desc TOK_GREATER_THAN_EQUAL OPR_GREATER_THAN_EQUAL True True,
     op_desc TOK_INCREMENT OPR_INCREMENT True False,
     op_desc TOK_DECREMENT OPR_DECREMENT True False,
     op_desc TOK_DOT OPR_REFERENCE True True]"

definition find_op :: "TokenType \<Rightarrow> OpDesc option" where
  "find_op ty = find (\<lambda>d. od_token d = ty) opTable"

text \<open>\<open>OperationExpression::resolveType\<close>; a null \<open>left\<close> beside a null \<open>right\<close> is followed.\<close>

definition resolveType :: "addr \<Rightarrow> unit step" where
  "resolveType x =
     bind_step (getNode x) (\<lambda>e.
       case e_node e of
         POper oper desc l r \<Rightarrow>
           if e_valueType e \<noteq> VALUE_UNKNOWN then ret ()
           else (case r of
             None \<Rightarrow> bind_step (needing l) (\<lambda>lx. bind_step (getNode lx) (\<lambda>le.
               updNode x (\<lambda>e. e\<lparr>e_valueType := e_valueType le\<rparr>)))
           | Some rx \<Rightarrow>
               (case l of
                  None \<Rightarrow> ret ()
                | Some lx \<Rightarrow>
                    bind_step (getNode lx) (\<lambda>le. bind_step (getNode rx) (\<lambda>re.
                      if e_valueType le = e_valueType re
                      then updNode x (\<lambda>e. e\<lparr>e_valueType := e_valueType le\<rparr>)
                      else if oper = OPR_SET \<and> e_valueType re \<noteq> VALUE_UNKNOWN
                      then bind_step (updNode lx (\<lambda>e. e\<lparr>e_valueType := e_valueType re\<rparr>)) (\<lambda>_.
                        updNode x (\<lambda>e. e\<lparr>e_valueType := e_valueType re\<rparr>))
                      else ret ()))))
       | _ \<Rightarrow> undef)"

definition set_left :: "addr \<Rightarrow> addr \<Rightarrow> unit step" where
  "set_left x y = updNode x (\<lambda>e.
     case e_node e of POper oper d l r \<Rightarrow> e\<lparr>e_node := POper oper d (Some y) r\<rparr> | _ \<Rightarrow> e)"

definition set_right :: "addr \<Rightarrow> addr \<Rightarrow> unit step" where
  "set_right x y = updNode x (\<lambda>e.
     case e_node e of POper oper d l r \<Rightarrow> e\<lparr>e_node := POper oper d l (Some y)\<rparr> | _ \<Rightarrow> e)"

text \<open>Folding of \<open>+\<close> and \<open>*\<close> on two literals: a new literal, not listed in \<open>m_expressions\<close>.\<close>

definition fold_literals :: "addr \<Rightarrow> addr \<Rightarrow> OpType \<Rightarrow> addr \<Rightarrow> addr \<Rightarrow> addr step" where
  "fold_literals code x oper lx rx =
     bind_step (getNode lx) (\<lambda>le. bind_step (getNode rx) (\<lambda>re. bind_step (getNode x) (\<lambda>e.
       case (e_node le, e_node re) of
         (PDouble a, PDouble b) \<Rightarrow>
           bind_step (newExpr code (PDouble (if oper = OPR_ADD then d_add a b else d_mul a b)) VALUE_UNKNOWN)
             (\<lambda>y. bind_step (updNode y (\<lambda>k. k\<lparr>e_parent := e_parent e\<rparr>)) (\<lambda>_. ret y))
       | (PInteger a, PInteger b) \<Rightarrow>
           bind_step (newExpr code (PInteger (if oper = OPR_ADD then a + b else a * b)) VALUE_UNKNOWN)
             (\<lambda>y. bind_step (updNode y (\<lambda>k. k\<lparr>e_parent := e_parent e\<rparr>)) (\<lambda>_. ret y))
       | _ \<Rightarrow> ret x)))"

text \<open>\<open>l += r\<close> becomes \<open>l = l + r\<close>, for a variable \<open>l\<close>; the copy of \<open>l\<close> keeps the name only.\<close>

definition expand_assign :: "addr \<Rightarrow> addr \<Rightarrow> TokenType \<Rightarrow> addr \<Rightarrow> addr \<Rightarrow> addr step" where
  "expand_assign code x token lx rx =
     bind_step (getNode lx) (\<lambda>le.
       case e_node le of
         PVar clazz var \<Rightarrow>
           bind_step (newListed code (PVar 0 var) VALUE_UNKNOWN) (\<lambda>copy.
             let oper = (if token = TOK_ADD_ASSIGN then OPR_ADD else OPR_SUB) in
             bind_step (newListed code (POper oper (op_desc TOK_PLUS oper True False) None None) VALUE_UNKNOWN)
               (\<lambda>addExpr.
                 bind_step (steps [set_left addExpr copy, setParent copy addExpr, set_right addExpr rx,
                     setParent rx addExpr, resolveType addExpr, set_right x addExpr, setParent addExpr x])
                   (\<lambda>_. ret x)))
       | _ \<Rightarrow> failing)"

text \<open>
  \<open>Parser::buildTree\<close> takes its queue from the back; the list has the back element first. An entry
  is null for a bracket that was never closed. The result is the expression with what is left of
  the queue.
\<close>

fun buildTree :: "nat \<Rightarrow> addr \<Rightarrow> addr option list \<Rightarrow> (addr \<times> addr option list) step" where
  "buildTree 0 code q = starved"
| "buildTree (Suc n) code q =
     (case q of
        [] \<Rightarrow> failing
      | None # q1 \<Rightarrow> failing
      | Some x # q1 \<Rightarrow>
          bind_step (getNode x) (\<lambda>e.
            case e_node e of
              POper oper desc l0 r0 \<Rightarrow>
                bind_step (if od_hasRight desc
                  then bind_step (buildTree n code q1) (\<lambda>(rx, q2).
                    bind_step (steps [set_right x rx, setParent rx x]) (\<lambda>_. ret (Some rx, q2)))
                  else ret (r0, q1)) (\<lambda>(r, q2).
                bind_step (if od_hasLeft desc
                  then bind_step (buildTree n code q2) (\<lambda>(lx, q3).
                    bind_step (steps [set_left x lx, setParent lx x]) (\<lambda>_. ret (Some lx, q3)))
                  else ret (l0, q2)) (\<lambda>(l, q3).
                if oper = OPR_MULTIPLY \<or> oper = OPR_ADD
                then bind_step (needing l) (\<lambda>lx. bind_step (needing r) (\<lambda>rx.
                  bind_step (fold_literals code x oper lx rx) (\<lambda>y. ret (y, q3))))
                else if od_token desc = TOK_ADD_ASSIGN \<or> od_token desc = TOK_SUB_ASSIGN
                then bind_step (needing l) (\<lambda>lx. bind_step (needing r) (\<lambda>rx.
                  bind_step (expand_assign code x (od_token desc) lx rx) (\<lambda>y. ret (y, q3))))
                else ret (x, q3)))
            | _ \<Rightarrow> ret (x, q1)))"

section \<open>Names of classes in expressions\<close>

text \<open>\<open>findClass (..., true)\<close> from inside the parser.\<close>

definition lookup_class :: "penv \<Rightarrow> wstring \<Rightarrow> ptr step" where
  "lookup_class pe name = on_vm (findClass (pe_load pe) name True)"

text \<open>
  Behind \<open>a.\<close>: lengthen the dotted name until it is a class. The result is the class and \<open>count\<close>,
  the number of tokens read since \<open>a\<close>; \<open>token\<close> is the one read last.
\<close>

fun dotted_class :: "nat \<Rightarrow> penv \<Rightarrow> wstring \<Rightarrow> nat \<Rightarrow> Token \<Rightarrow> (ptr \<times> nat) step" where
  "dotted_class 0 pe name count token = starved"
| "dotted_class (Suc n) pe name count token =
     (if tok_type token \<noteq> TOK_IDENTIFIER then ret (0, count)
      else let name' = name @ [46] @ tok_string token in
        bind_step (lookup_class pe name') (\<lambda>clazz.
          if clazz \<noteq> 0 then ret (clazz, count)
          else bind_step nextToken (\<lambda>dot.
            if tok_type dot \<noteq> TOK_DOT then ret (0, count + 1)
            else bind_step nextToken (\<lambda>token'. dotted_class n pe name' (count + 2) token'))))"

text \<open>
  The part of \<open>parseExpressionValue\<close> behind an identifier followed by a dot: the class, the
  identifier meant and the token behind it.
\<close>

definition class_prefix :: "nat \<Rightarrow> penv \<Rightarrow> wstring \<Rightarrow> (ptr \<times> wstring \<times> Token) step" where
  "class_prefix n pe ident =
     bind_step nextToken (\<lambda>token.
     bind_step (imported ident) (\<lambda>imp.
     bind_step
       (case imp of
          Some full \<Rightarrow>
            bind_step (lookup_class pe (identifier_string full)) (\<lambda>clazz.
              if clazz = 0 then failing
              else bind_step (rewind 2) (\<lambda>_. ret (clazz, 2)))
        | None \<Rightarrow> dotted_class n pe ident 2 token) (\<lambda>(clazz, count).
     if clazz \<noteq> 0
     then bind_step nextToken (\<lambda>_. bind_step nextToken (\<lambda>name. bind_step nextToken (\<lambda>after.
       ret (clazz, tok_string name, after))))
     else bind_step (rewind count) (\<lambda>_. bind_step nextToken (\<lambda>after. ret (0, ident, after))))))"

section \<open>The shunting yard\<close>

text \<open>
  One operator: the operator on top of the stack moves to the queue when it binds at least as
  tightly; only one does. The stack has its top first, the queue its back.
\<close>

definition push_operator ::
    "addr \<Rightarrow> OpType \<Rightarrow> addr option list \<Rightarrow> addr option list \<Rightarrow> (addr option list \<times> addr option list) step" where
  "push_operator x oper q ops =
     (case ops of
        Some y # ops' \<Rightarrow>
          bind_step (getNode y) (\<lambda>e.
            case e_node e of
              POper oper2 _ _ _ \<Rightarrow>
                if oper \<le> oper2 then ret (Some y # q, Some x # ops') else ret (q, Some x # ops)
            | _ \<Rightarrow> undef)
      | _ \<Rightarrow> ret (q, Some x # ops))"

text \<open>A closing bracket: move operators up to the null that stands for the opening one.\<close>

fun pop_bracket :: "addr option list \<Rightarrow> addr option list \<Rightarrow> (addr option list \<times> addr option list) option" where
  "pop_bracket q [] = None"
| "pop_bracket q (None # ops) = Some (q, ops)"
| "pop_bracket q (Some x # ops) = pop_bracket (Some x # q) ops"

definition finish_expression :: "addr \<Rightarrow> addr option list \<Rightarrow> addr option list \<Rightarrow> addr step" where
  "finish_expression code q ops =
     (let queue = rev ops @ q in
      bind_step (buildTree (Suc (length queue)) code queue) (\<lambda>(x, _). ret x))"

section \<open>Expressions, statements and functions\<close>

text \<open>Constructors for the statements, and their members set one by one.\<close>

definition set_if :: "addr \<Rightarrow> (addr option \<times> addr option \<times> addr option \<Rightarrow> addr option \<times> addr option \<times> addr option) \<Rightarrow> unit step" where
  "set_if x f = updNode x (\<lambda>e.
     case e_node e of PIf t a b \<Rightarrow> (let (t', a', b') = f (t, a, b) in e\<lparr>e_node := PIf t' a' b'\<rparr>) | _ \<Rightarrow> e)"

definition set_for :: "addr \<Rightarrow> (pnode \<Rightarrow> pnode) \<Rightarrow> unit step" where
  "set_for x f = updNode x (\<lambda>e. e\<lparr>e_node := f (e_node e)\<rparr>)"

fun for_init :: "addr \<Rightarrow> pnode \<Rightarrow> pnode" where
  "for_init y (PFor i t k b) = PFor (Some y) t k b" | "for_init y n = n"

fun for_test :: "addr \<Rightarrow> pnode \<Rightarrow> pnode" where
  "for_test y (PFor i t k b) = PFor i (Some y) k b" | "for_test y n = n"

fun for_inc :: "addr \<Rightarrow> pnode \<Rightarrow> pnode" where
  "for_inc y (PFor i t k b) = PFor i t (Some y) b" | "for_inc y n = n"

fun for_body :: "addr \<Rightarrow> pnode \<Rightarrow> pnode" where
  "for_body y (PFor i t k b) = PFor i t k (Some y)" | "for_body y n = n"

text \<open>
  \<open>CodeBlock::setStartingVarId\<close>. The first argument bounds the nesting, and to exceed it is
  \<open>OutOfFuel\<close>; theory ParserFacts shows that there are never more levels than blocks.
\<close>

fun number_block :: "nat \<Rightarrow> int \<Rightarrow> addr \<Rightarrow> int step"
  and number_blocks :: "nat \<Rightarrow> int \<Rightarrow> int \<Rightarrow> addr list \<Rightarrow> int step" where
  "number_block 0 i b = starved"
| "number_block (Suc n) i b =
     bind_step (getBlock b) (\<lambda>k.
       let m = i + int (length (b_vars k)) in
       bind_step (updBlock b (\<lambda>k. k\<lparr>b_startingVarId := i, b_maxVarId := m,
           b_varTypes := Some (replicate (length (b_vars k)) VALUE_UNKNOWN)\<rparr>)) (\<lambda>_.
       bind_step (number_blocks n m m (b_childBlocks k)) (\<lambda>mx.
       bind_step (updBlock b (\<lambda>k. k\<lparr>b_maxVarId := mx\<rparr>)) (\<lambda>_. ret mx))))"
| "number_blocks n i mx [] = ret mx"
| "number_blocks n i mx (c # cs) =
     bind_step (number_block n i c) (\<lambda>cm. number_blocks n i (if cm > mx then cm else mx) cs)"

definition setStartingVarIds :: "int \<Rightarrow> addr \<Rightarrow> unit step" where
  "setStartingVarIds i b =
     bind_step (reads (\<lambda>s. length (p_blocks s))) (\<lambda>n. bind_step (number_block (Suc n) i b) (\<lambda>_. ret ()))"

definition delete_block :: "addr \<Rightarrow> unit step" where
  "delete_block b = bind_step (reads (\<lambda>s. length (p_blocks s))) (\<lambda>n. deleteBlock (Suc n) b)"

definition set_node :: "addr \<Rightarrow> pnode \<Rightarrow> unit step" where
  "set_node x n = updNode x (\<lambda>e. e\<lparr>e_node := n\<rparr>)"

text \<open>The value of a token that is an expression by itself.\<close>

definition literal_value :: "addr \<Rightarrow> Token \<Rightarrow> addr step" where
  "literal_value code token =
     (case tok_type token of
        TOK_LITERAL \<Rightarrow>
          if tok_string token = wstr ''true'' \<or> tok_string token = wstr ''false''
          then newListed code (PInteger (if tok_string token = wstr ''true'' then 1 else 0)) VALUE_INTEGER
          else failing
      | TOK_STRING \<Rightarrow> newListed code (PString (tok_string token)) VALUE_OBJECT
      | TOK_INTEGER \<Rightarrow> newListed code (PInteger (word_of_int (tok_i token))) VALUE_INTEGER
      | TOK_DOUBLE \<Rightarrow> newListed code (PDouble (tok_d token)) VALUE_DOUBLE
      | _ \<Rightarrow> failing)"

text \<open>
  The branches of \<open>Parser::parseStatement\<close>, with the calls back into the parser as arguments: an
  expression, a code block of the same function, another statement.
\<close>

definition statement_var :: "addr step \<Rightarrow> addr \<Rightarrow> bool step" where
  "statement_var parseExpr code =
     bind_step (expect TOK_IDENTIFIER) (\<lambda>name.
       bind_step (addVar code (tok_string name)) (\<lambda>_.
       bind_step nextToken (\<lambda>token.
       bind_step (if tok_type token = TOK_ASSIGN
           then bind_step (rewind 2) (\<lambda>_.
             bind_step parseExpr (\<lambda>x.
             bind_step (addStatement code x) (\<lambda>_.
             nextToken)))
           else ret token) (\<lambda>token.
       if tok_type token \<noteq> TOK_SEMICOLON then failing else ret False))))"

definition statement_else :: "(addr \<Rightarrow> bool step) \<Rightarrow> addr step \<Rightarrow> pblock \<Rightarrow> addr step" where
  "statement_else parseStmt parseBlock blk =
     bind_step nextToken (\<lambda>token.
       if tok_type token \<noteq> TOK_IF \<and> tok_type token \<noteq> TOK_BRACE_LEFT then failing
         else if tok_type token = TOK_IF
         then bind_step (rewind 1) (\<lambda>_.
           bind_step (newBlock (b_function blk)) (\<lambda>elseIf.
           bind_step (attempt (parseStmt elseIf)) (\<lambda>r.
           (case r of
                     Some _ \<Rightarrow> ret elseIf
                   | None \<Rightarrow> bind_step (delete_block elseIf) (\<lambda>_.
                     failing)))))
         else parseBlock)"

definition statement_if :: "addr step \<Rightarrow> (addr \<Rightarrow> bool step) \<Rightarrow> addr step \<Rightarrow> addr \<Rightarrow> pblock \<Rightarrow> bool step" where
  "statement_if parseExpr parseStmt parseBlock code blk =
     bind_step (expect TOK_BRACKET_LEFT) (\<lambda>_.
       bind_step (newListed code (PIf None None None) VALUE_UNKNOWN) (\<lambda>ifExpr.
       bind_step parseExpr (\<lambda>test.
       bind_step (set_if ifExpr (\<lambda>(_, a, b). (Some test, a, b))) (\<lambda>_.
       bind_step (expect TOK_BRACKET_RIGHT) (\<lambda>_.
       bind_step (expect TOK_BRACE_LEFT) (\<lambda>_.
       bind_step parseBlock (\<lambda>tb.
       bind_step (set_if ifExpr (\<lambda>(t, _, b). (t, Some tb, b))) (\<lambda>_.
       bind_step (adopt code tb) (\<lambda>_.
       bind_step nextToken (\<lambda>token.
       bind_step (if tok_type token = TOK_ELSE
          then bind_step (statement_else parseStmt parseBlock blk) (\<lambda>fb.
            bind_step (set_if ifExpr (\<lambda>(t, a, _). (t, a, Some fb))) (\<lambda>_.
            adopt code fb))
          else rewind 1) (\<lambda>_.
       bind_step (addStatement code ifExpr) (\<lambda>_.
       ret False))))))))))))"

definition statement_for :: "addr step \<Rightarrow> addr step \<Rightarrow> addr \<Rightarrow> bool step" where
  "statement_for parseExpr parseBlock code =
     bind_step (expect TOK_BRACKET_LEFT) (\<lambda>_.
       bind_step (newListed code (PFor None None None None) VALUE_UNKNOWN) (\<lambda>forExpr.
       bind_step parseExpr (\<lambda>ini.
       bind_step (steps [set_for forExpr (for_init ini), setParent ini forExpr]) (\<lambda>_.
       bind_step (expect TOK_SEMICOLON) (\<lambda>_.
       bind_step parseExpr (\<lambda>test.
       bind_step (steps [set_for forExpr (for_test test), setParent test forExpr]) (\<lambda>_.
       bind_step (expect TOK_SEMICOLON) (\<lambda>_.
       bind_step parseExpr (\<lambda>inc.
       bind_step (steps [set_for forExpr (for_inc inc), setParent inc forExpr]) (\<lambda>_.
       bind_step (expect TOK_BRACKET_RIGHT) (\<lambda>_.
       bind_step (expect TOK_BRACE_LEFT) (\<lambda>_.
       bind_step parseBlock (\<lambda>body.
       bind_step (steps [set_for forExpr (for_body body), adopt code body, addStatement code forExpr]) (\<lambda>_.
       ret False))))))))))))))"

definition statement_while :: "addr step \<Rightarrow> addr step \<Rightarrow> addr \<Rightarrow> bool step" where
  "statement_while parseExpr parseBlock code =
     bind_step (expect TOK_BRACKET_LEFT) (\<lambda>_.
       bind_step (newListed code (PFor None None None None) VALUE_UNKNOWN) (\<lambda>forExpr.
       bind_step parseExpr (\<lambda>test.
       bind_step (steps [set_for forExpr (for_test test), setParent test forExpr]) (\<lambda>_.
       bind_step (expect TOK_BRACKET_RIGHT) (\<lambda>_.
       bind_step (expect TOK_BRACE_LEFT) (\<lambda>_.
       bind_step parseBlock (\<lambda>body.
       bind_step (steps [set_for forExpr (for_body body), adopt code body, addStatement code forExpr]) (\<lambda>_.
       ret False))))))))"

text \<open>A value that cannot be parsed is not an error of the statement; it returns nothing.\<close>

definition statement_return :: "addr step \<Rightarrow> addr \<Rightarrow> bool step" where
  "statement_return parseExpr code =
     bind_step (newListed code (PReturn None) VALUE_UNKNOWN) (\<lambda>retExpr.
       bind_step (addStatement code retExpr) (\<lambda>_.
       bind_step nextToken (\<lambda>token.
       if tok_type token = TOK_SEMICOLON then ret False
         else bind_step (rewind 1) (\<lambda>_.
           bind_step (attempt parseExpr) (\<lambda>r.
           bind_step (set_node retExpr (PReturn r)) (\<lambda>_.
           bind_step (expect TOK_SEMICOLON) (\<lambda>_.
           ret False)))))))"

definition statement_try :: "addr step \<Rightarrow> addr \<Rightarrow> bool step" where
  "statement_try parseBlock code =
     bind_step (newListed code (PTry None [] None) VALUE_UNKNOWN) (\<lambda>tryExpr.
       bind_step (addStatement code tryExpr) (\<lambda>_.
       bind_step (expect TOK_BRACE_LEFT) (\<lambda>_.
       bind_step parseBlock (\<lambda>tb.
       bind_step (set_node tryExpr (PTry (Some tb) [] None)) (\<lambda>_.
       bind_step (updBlock tb (\<lambda>k. k\<lparr>b_parent := Some code\<rparr>)) (\<lambda>_.
       bind_step (expect TOK_CATCH) (\<lambda>_.
       bind_step (expect TOK_BRACKET_LEFT) (\<lambda>_.
       bind_step (expect TOK_IDENTIFIER) (\<lambda>name.
       bind_step (set_node tryExpr (PTry (Some tb) (tok_string name) None)) (\<lambda>_.
       bind_step (expect TOK_BRACKET_RIGHT) (\<lambda>_.
       bind_step (expect TOK_BRACE_LEFT) (\<lambda>_.
       bind_step parseBlock (\<lambda>cb.
       bind_step (steps [set_node tryExpr (PTry (Some tb) (tok_string name) (Some cb)),
           updBlock cb (\<lambda>k. k\<lparr>b_parent := Some code\<rparr>), addVar cb (tok_string name)]) (\<lambda>_.
       ret False))))))))))))))"

definition statement_throw :: "addr step \<Rightarrow> addr \<Rightarrow> bool step" where
  "statement_throw parseExpr code =
     bind_step (newExpr code (PThrow None) VALUE_UNKNOWN) (\<lambda>throwExpr.
       bind_step parseExpr (\<lambda>x.
       bind_step (steps [set_node throwExpr (PThrow (Some x)), listExpr throwExpr, addStatement code throwExpr]) (\<lambda>_.
       bind_step (expect TOK_SEMICOLON) (\<lambda>_.
       ret False))))"

definition statement_expression :: "addr step \<Rightarrow> addr \<Rightarrow> bool step" where
  "statement_expression parseExpr code =
     bind_step (rewind 1) (\<lambda>_.
       bind_step parseExpr (\<lambda>x.
       bind_step (expect TOK_SEMICOLON) (\<lambda>_.
       bind_step (addStatement code x) (\<lambda>_.
       ret False))))"

text \<open>Expression values behind \<open>new\<close> and behind an identifier.\<close>

definition value_new :: "wstring list step \<Rightarrow> addr list step \<Rightarrow> addr \<Rightarrow> addr step" where
  "value_new parseIdent parseParams code =
     bind_step parseIdent (\<lambda>ids0.
       bind_step (resolve_import ids0) (\<lambda>ids.
       bind_step parseParams (\<lambda>params.
       newListed code (PNew ids params) VALUE_OBJECT)))"

definition value_identifier ::
    "(wstring \<Rightarrow> (ptr \<times> wstring \<times> Token) step) \<Rightarrow> addr list step \<Rightarrow> addr step \<Rightarrow> addr \<Rightarrow> Token \<Rightarrow> addr step" where
  "value_identifier classPrefix parseParams parseIndex code token =
     bind_step nextToken (\<lambda>nxt.
       bind_step (if tok_type nxt = TOK_DOT then classPrefix (tok_string token)
           else ret (0, tok_string token, nxt)) (\<lambda>(clazz, name, after).
       if tok_type after = TOK_BRACKET_LEFT
         then bind_step (rewind 1) (\<lambda>_.
           bind_step parseParams (\<lambda>params.
           newListed code (PCall clazz name params) VALUE_UNKNOWN))
         else if tok_type after = TOK_SQUARE_BRACKET_LEFT
         then bind_step (newListed code (PArray clazz name None) VALUE_UNKNOWN) (\<lambda>arr.
           bind_step parseIndex (\<lambda>idx.
           bind_step (set_node arr (PArray clazz name (Some idx))) (\<lambda>_.
           bind_step (expect TOK_SQUARE_BRACKET_RIGHT) (\<lambda>_.
           ret arr))))
         else bind_step (newListed code (PVar clazz name) VALUE_UNKNOWN) (\<lambda>x.
           bind_step (rewind 1) (\<lambda>_.
           ret x))))"

definition new_function :: "ptr \<Rightarrow> Token list \<Rightarrow> ptr step" where
  "new_function clazz params =
     bind_step new_ptr (\<lambda>f.
       bind_step (modify (\<lambda>s. s\<lparr>p_funcs := p_funcs s @ [(f,
           \<lparr>f_name = wstr ''<anonymous>'', f_static = False, f_class = clazz,
            f_args = map tok_string params, f_code = None\<rparr>)]\<rparr>)) (\<lambda>_.
       ret f))"

text \<open>Where an expression ends: in front of the token.\<close>

definition ends_expression :: "TokenType \<Rightarrow> TokenType \<Rightarrow> int \<Rightarrow> bool" where
  "ends_expression endToken ty brackets \<longleftrightarrow>
     ty = TOK_BRACKET_RIGHT \<and> brackets < 0 \<or> ty = TOK_SEMICOLON \<or> ty = TOK_COMMA
     \<or> ty \<noteq> TOK_BRACKET_LEFT \<and> ty \<noteq> TOK_BRACKET_RIGHT \<and> ty \<noteq> TOK_ANY \<and> ty = endToken"

function (sequential) parseExpression :: "nat \<Rightarrow> penv \<Rightarrow> addr \<Rightarrow> TokenType \<Rightarrow> addr step"
  and expression_loop :: "nat \<Rightarrow> penv \<Rightarrow> addr \<Rightarrow> TokenType \<Rightarrow> addr option list \<Rightarrow> addr option list \<Rightarrow> int \<Rightarrow> addr step"
  and parseExpressionValue :: "nat \<Rightarrow> penv \<Rightarrow> addr \<Rightarrow> addr step"
  and parseExpressionList :: "nat \<Rightarrow> penv \<Rightarrow> addr \<Rightarrow> addr list step"
  and expression_items :: "nat \<Rightarrow> penv \<Rightarrow> addr \<Rightarrow> addr list \<Rightarrow> addr list step"
  and parseFunction :: "nat \<Rightarrow> penv \<Rightarrow> ptr \<Rightarrow> ptr step"
  and parseCodeBlock :: "nat \<Rightarrow> penv \<Rightarrow> ptr \<Rightarrow> addr step"
  and block_loop :: "nat \<Rightarrow> penv \<Rightarrow> addr \<Rightarrow> unit step"
  and parseStatement :: "nat \<Rightarrow> penv \<Rightarrow> addr \<Rightarrow> bool step" where
  "parseExpression 0 pe code endToken = starved"
| "parseExpression (Suc n) pe code endToken = expression_loop n pe code endToken [] [] 0"
| "expression_loop 0 pe code endToken q ops brackets = starved"
| "expression_loop (Suc n) pe code endToken q ops brackets =
     bind_step nextToken (\<lambda>token.
       let ty = tok_type token in
       let brackets' = (if ty = TOK_BRACKET_LEFT then brackets + 1
             else if ty = TOK_BRACKET_RIGHT then brackets - 1 else brackets) in
       if ends_expression endToken ty brackets'
         then bind_step (rewind 1) (\<lambda>_.
           finish_expression code q ops)
         else case find_op ty of
           Some entry \<Rightarrow>
             bind_step (newListed code (POper (od_oper entry) entry None None) VALUE_UNKNOWN) (\<lambda>o1.
               bind_step (push_operator o1 (od_oper entry) q ops) (\<lambda>(q1, ops1).
               expression_loop n pe code endToken q1 ops1 brackets'))
         | None \<Rightarrow>
             if ty = TOK_BRACKET_LEFT then expression_loop n pe code endToken q (None # ops) brackets'
             else if ty = TOK_BRACKET_RIGHT
             then (case pop_bracket q ops of
                 None \<Rightarrow> failing
               | Some (q1, ops1) \<Rightarrow> expression_loop n pe code endToken q1 ops1 brackets')
             else bind_step (rewind 1) (\<lambda>_.
               bind_step (parseExpressionValue n pe code) (\<lambda>x.
               expression_loop n pe code endToken (Some x # q) ops brackets')))"
| "parseExpressionValue 0 pe code = starved"
| "parseExpressionValue (Suc n) pe code =
     bind_step nextToken (\<lambda>token.
       if tok_type token = TOK_NEW
         then value_new (parseIdentifier n) (parseExpressionList n pe code) code
         else if tok_type token = TOK_IDENTIFIER
         then value_identifier (class_prefix n pe) (parseExpressionList n pe code)
           (parseExpression n pe code TOK_SQUARE_BRACKET_RIGHT) code token
         else if tok_type token = TOK_FUNCTION
         then bind_step (attempt (parseFunction n pe 0)) (\<lambda>f.
           newListed code (PFunction (case f of None \<Rightarrow> 0 | Some p \<Rightarrow> p)) VALUE_OBJECT)
         else literal_value code token)"
| "parseExpressionList 0 pe code = starved"
| "parseExpressionList (Suc n) pe code = bind_step (expect TOK_BRACKET_LEFT) (\<lambda>_.
  expression_items n pe code [])"
| "expression_items 0 pe code acc = starved"
| "expression_items (Suc n) pe code acc =
     bind_step moreTokens (\<lambda>more.
       if \<not> more then ret acc
         else bind_step nextToken (\<lambda>token.
           if tok_type token = TOK_BRACKET_RIGHT then ret acc
                  else bind_step (rewind 1) (\<lambda>_.
                    bind_step (parseExpression n pe code TOK_ANY) (\<lambda>x.
                    bind_step nextToken (\<lambda>sep.
                    if tok_type sep = TOK_BRACKET_RIGHT then ret (acc @ [x])
                           else if tok_type sep \<noteq> TOK_COMMA then failing
                           else expression_items n pe code (acc @ [x]))))))"
| "parseFunction 0 pe clazz = starved"
| "parseFunction (Suc n) pe clazz =
     bind_step (parseList n TOK_IDENTIFIER) (\<lambda>params.
       bind_step (new_function clazz params) (\<lambda>f.
       bind_step nextToken (\<lambda>token.
       bind_step (if tok_type token = TOK_STATIC
           then bind_step (updFunction f (\<lambda>k. k\<lparr>f_static := True\<rparr>)) (\<lambda>_.
             nextToken)
           else ret token) (\<lambda>token.
       if tok_type token \<noteq> TOK_BRACE_LEFT then failing
         else bind_step (parseCodeBlock n pe f) (\<lambda>code.
           bind_step (setStartingVarIds (int (length params) + 1) code) (\<lambda>_.
           bind_step (updFunction f (\<lambda>k. k\<lparr>f_code := Some code\<rparr>)) (\<lambda>_.
           ret f)))))))"
| "parseCodeBlock 0 pe f = starved"
| "parseCodeBlock (Suc n) pe f =
     bind_step (newBlock f) (\<lambda>code.
       bind_step (attempt (block_loop n pe code)) (\<lambda>r.
       case r of
           Some _ \<Rightarrow> ret code
         | None \<Rightarrow> bind_step (delete_block code) (\<lambda>_.
           failing)))"
| "block_loop 0 pe code = starved"
| "block_loop (Suc n) pe code =
     bind_step moreTokens (\<lambda>more.
       if \<not> more then ret ()
         else bind_step (parseStatement n pe code) (\<lambda>stop.
           if stop then ret () else block_loop n pe code))"
| "parseStatement 0 pe code = starved"
| "parseStatement (Suc n) pe code =
     bind_step nextToken (\<lambda>token.
       bind_step (getBlock code) (\<lambda>blk.
       let parseExpr = parseExpression n pe code TOK_ANY in
       let parseBlock = parseCodeBlock n pe (b_function blk) in
       case tok_type token of
           TOK_BRACE_RIGHT \<Rightarrow> ret True
         | TOK_VAR \<Rightarrow> statement_var parseExpr code
         | TOK_IF \<Rightarrow> statement_if parseExpr (parseStatement n pe) parseBlock code blk
         | TOK_FOR \<Rightarrow> statement_for parseExpr parseBlock code
         | TOK_WHILE \<Rightarrow> statement_while parseExpr parseBlock code
         | TOK_RETURN \<Rightarrow> statement_return parseExpr code
         | TOK_TRY \<Rightarrow> statement_try parseBlock code
         | TOK_THROW \<Rightarrow> statement_throw parseExpr code
         | _ \<Rightarrow> statement_expression parseExpr code))"
  by pat_completeness auto
termination
  by (relation "measure (case_sum (case_sum (case_sum fst fst) (case_sum fst fst))
        (case_sum (case_sum fst fst) (case_sum fst (case_sum fst fst))))") simp_all

end
