(* ===== verification/ClassParser.thy ===== *)
theory ClassParser
  imports Parser
begin

text \<open>
  The rest of the parser (src/libb0rk/parser.cpp): classes, imports, whole files and the inference
  of types, and the trees handed on to the assembler.
\<close>

section \<open>Type inference\<close>

text \<open>
  \<open>CodeBlock::getVarId\<close>, \<open>setVarType\<close> and \<open>getVarType\<close> on the store. The first argument
  bounds the chain of parents, which is never longer than the number of blocks (theory ParserFacts).
  Following a null parent or a null \<open>m_varTypes\<close>, or leaving the array, has
  no defined result.
\<close>

fun block_getVarId :: "nat \<Rightarrow> addr \<Rightarrow> wstring \<Rightarrow> int step" where
  "block_getVarId 0 b v = starved"
| "block_getVarId (Suc n) b v =
     bind_step (getBlock b) (\<lambda>k.
       case var_index (b_vars k) v of
           Some i \<Rightarrow> ret (int i + b_startingVarId k)
         | None \<Rightarrow>
             (case b_parent k of
                Some p \<Rightarrow> block_getVarId n p v
              | None \<Rightarrow>
                  if b_function k \<noteq> 0
                  then bind_step (getFunction (b_function k)) (\<lambda>f.
                    ret (getArgId (f_args f) v))
                  else ret (- 1)))"

fun setVarType :: "nat \<Rightarrow> addr \<Rightarrow> int \<Rightarrow> ValueType \<Rightarrow> unit step" where
  "setVarType 0 b i ty = starved"
| "setVarType (Suc n) b i ty =
     bind_step (getBlock b) (\<lambda>k.
       if i < b_startingVarId k then bind_step (needing (b_parent k)) (\<lambda>p.
           setVarType n p i ty)
         else bind_step (needing (b_varTypes k)) (\<lambda>ts.
           bind_step (needing (idx ts (i - b_startingVarId k))) (\<lambda>old.
           if old \<noteq> VALUE_UNKNOWN then ret ()
                  else updBlock b (\<lambda>k. k\<lparr>b_varTypes := Some (ts[nat (i - b_startingVarId k) := ty])\<rparr>))))"

fun getVarType :: "nat \<Rightarrow> addr \<Rightarrow> int \<Rightarrow> ValueType step" where
  "getVarType 0 b i = starved"
| "getVarType (Suc n) b i =
     bind_step (getBlock b) (\<lambda>k.
       if i < b_startingVarId k
         then (case b_parent k of Some p \<Rightarrow> getVarType n p i | None \<Rightarrow> ret VALUE_UNKNOWN)
         else case b_varTypes k of
           None \<Rightarrow> ret VALUE_UNKNOWN
         | Some ts \<Rightarrow> needing (idx ts (i - b_startingVarId k)))"

definition chain_fuel :: "nat step" where
  "chain_fuel = reads (\<lambda>s. Suc (length (p_blocks s)))"

text \<open>The three passes of \<open>Parser::resolveTypes\<close>, each on one expression of \<open>m_expressions\<close>.\<close>

definition infer_operation :: "addr \<Rightarrow> unit step" where
  "infer_operation x =
     bind_step (getNode x) (\<lambda>e.
       case e_node e of
           POper oper desc l r \<Rightarrow>
             if e_valueType e \<noteq> VALUE_UNKNOWN
             then (if oper = OPR_SET
               then bind_step (needing l) (\<lambda>lx.
                 bind_step (getNode lx) (\<lambda>le.
                 case e_node le of
                          PVar clazz var \<Rightarrow>
                            bind_step chain_fuel (\<lambda>n.
                              bind_step (block_getVarId n (e_block le) var) (\<lambda>i.
                              if i \<noteq> - 1 then setVarType n (e_block le) i (e_valueType e) else ret ()))
                        | _ \<Rightarrow> ret ()))
               else ret ())
             else (case (l, r) of
                 (Some lx, Some rx) \<Rightarrow>
                   bind_step (getNode lx) (\<lambda>le.
                     bind_step (getNode rx) (\<lambda>re.
                     if e_valueType le \<noteq> VALUE_UNKNOWN \<and> e_valueType le = e_valueType re
                       then updNode x (\<lambda>e. e\<lparr>e_valueType := e_valueType le\<rparr>)
                       else ret ()))
               | _ \<Rightarrow> ret ())
         | _ \<Rightarrow> ret ())"

definition infer_variable :: "addr \<Rightarrow> unit step" where
  "infer_variable x =
     bind_step (getNode x) (\<lambda>e.
       case (e_node e, e_parent e) of
           (PVar clazz var, Some p) \<Rightarrow>
             bind_step (getNode p) (\<lambda>pe.
               if (case e_node pe of POper oper _ _ _ \<Rightarrow> oper = OPR_REFERENCE | _ \<Rightarrow> False) then ret ()
                 else bind_step chain_fuel (\<lambda>n.
                   bind_step (block_getVarId n (e_block e) var) (\<lambda>i.
                   if i = - 1 then ret ()
                          else bind_step (getVarType n (e_block e) i) (\<lambda>ty.
                            updNode x (\<lambda>e. e\<lparr>e_valueType := ty\<rparr>)))))
         | _ \<Rightarrow> ret ())"

definition infer_result :: "addr \<Rightarrow> unit step" where
  "infer_result x =
     bind_step (getNode x) (\<lambda>e.
       case e_node e of POper _ _ _ _ \<Rightarrow> resolveType x | _ \<Rightarrow> ret ())"

definition resolveTypes :: "unit step" where
  "resolveTypes =
     bind_step (reads m_expressions) (\<lambda>xs.
       bind_step (each infer_operation xs) (\<lambda>_.
       bind_step (each infer_variable xs) (\<lambda>_.
       each infer_result xs)))"

section \<open>Trees\<close>

text \<open>
  The tree at an address; the fuel is the depth of the tree. \<open>None\<close> where a pointer the assembler
  follows unconditionally is null.
\<close>

definition under_reference :: "parser \<Rightarrow> pexpr \<Rightarrow> bool" where
  "under_reference s e =
     (case e_parent e of
        None \<Rightarrow> False
      | Some p \<Rightarrow>
          p < length (p_nodes s) \<and>
          (case e_node (p_nodes s ! p) of POper oper _ _ _ \<Rightarrow> oper = OPR_REFERENCE | _ \<Rightarrow> False))"

fun option_tree :: "('a \<Rightarrow> 'b option) \<Rightarrow> 'a option \<Rightarrow> 'b option option" where
  "option_tree f None = Some None"
| "option_tree f (Some x) = map_option Some (f x)"

fun expr_tree :: "nat \<Rightarrow> parser \<Rightarrow> addr \<Rightarrow> expr option"
  and block_tree :: "nat \<Rightarrow> parser \<Rightarrow> addr \<Rightarrow> codeblock option" where
  "expr_tree 0 s x = None"
| "expr_tree (Suc n) s x =
     (if \<not> x < length (p_nodes s) \<or> x \<in> set (p_dead s) then None
      else let e = p_nodes s ! x in
       case e_node e of
         PCall clazz f ps \<Rightarrow>
           map_option (CallExpression (under_reference s e) clazz f) (those (map (expr_tree n s) ps))
       | PNew clazz ps \<Rightarrow> map_option (NewExpression clazz) (those (map (expr_tree n s) ps))
       | POper oper desc l r \<Rightarrow> do {
           l' \<leftarrow> option_tree (expr_tree n s) l;
           r' \<leftarrow> option_tree (expr_tree n s) r;
           Some (OperationExpression oper desc (e_valueType e) l' r') }
       | PIf t a b \<Rightarrow> do {
           t' \<leftarrow> t; t'' \<leftarrow> expr_tree n s t';
           a' \<leftarrow> a; a'' \<leftarrow> block_tree n s a';
           b' \<leftarrow> option_tree (block_tree n s) b;
           Some (IfExpression t'' a'' b') }
       | PFor i t k b \<Rightarrow> do {
           i' \<leftarrow> option_tree (expr_tree n s) i;
           t' \<leftarrow> t; t'' \<leftarrow> expr_tree n s t';
           k' \<leftarrow> option_tree (expr_tree n s) k;
           b' \<leftarrow> b; b'' \<leftarrow> block_tree n s b';
           Some (ForExpression i' t'' k' b'') }
       | PReturn v \<Rightarrow> map_option ReturnExpression (option_tree (expr_tree n s) v)
       | PVar clazz v \<Rightarrow> Some (VarExpression clazz v (e_valueType e))
       | PArray clazz v i \<Rightarrow> do { i' \<leftarrow> i; i'' \<leftarrow> expr_tree n s i'; Some (ArrayExpression clazz v i'') }
       | PString str \<Rightarrow> Some (StringExpression str)
       | PInteger i \<Rightarrow> Some (IntegerExpression i)
       | PDouble d \<Rightarrow> Some (DoubleExpression d)
       | PFunction f \<Rightarrow> Some (FunctionExpression f)
       | PThrow v \<Rightarrow> do { v' \<leftarrow> v; v'' \<leftarrow> expr_tree n s v'; Some (ThrowExpression v'') }
       | PTry a v b \<Rightarrow> do {
           a' \<leftarrow> a; a'' \<leftarrow> block_tree n s a';
           b' \<leftarrow> b; b'' \<leftarrow> block_tree n s b';
           Some (TryExpression a'' v b'') })"
| "block_tree 0 s b = None"
| "block_tree (Suc n) s b =
     (if \<not> b < length (p_blocks s) \<or> b \<in> set (p_freed s) then None
      else let k = p_blocks s ! b in
        map_option (CodeBlock (b_startingVarId k) (b_maxVarId k) (b_vars k))
          (those (map (expr_tree n s) (b_code k))))"

definition tree_fuel :: "parser \<Rightarrow> nat" where
  "tree_fuel s = Suc (length (p_nodes s) + length (p_blocks s))"

text \<open>
  The functions the parser made, as the interpreter sees them from then on. Nothing executes while
  a file is being parsed, so they are handed over at its end.
\<close>

definition register_function :: "parser \<Rightarrow> ptr \<times> pfunction \<Rightarrow> (ptr \<Rightarrow> Function option) \<Rightarrow> (ptr \<Rightarrow> Function option)" where
  "register_function s pf fs =
     (case pf of (p, f) \<Rightarrow>
        (case Option.bind (f_code f) (block_tree (tree_fuel s) s) of
           None \<Rightarrow> fs
         | Some t \<Rightarrow> fs(p \<mapsto> \<lparr>fn_name = f_name f, fn_static = f_static f, fn_class = f_class f,
             fn_args = f_args f, fn_kind = ScriptFunction t None\<rparr>)))"

definition finished_vm :: "parser \<Rightarrow> vm" where
  "finished_vm s =
     (let v = p_vm s
      in v\<lparr>rt := (rt v)\<lparr>rt_func := fold (register_function s) (p_funcs s) (rt_func (rt v))\<rparr>\<rparr>)"

section \<open>Classes\<close>

definition update_class :: "ptr \<Rightarrow> (Class \<Rightarrow> Class option) \<Rightarrow> unit step" where
  "update_class p f = on_vm (\<lambda>v. do {
     c \<leftarrow> rt_class (rt v) p;
     c' \<leftarrow> f c;
     Some ((), set_class p c' v) })"

text \<open>
  \<open>delete clazz\<close>. The registry keeps its pointer to the class. The methods go with the class; only
  the class refers to them.
\<close>

definition delete_class :: "ptr \<Rightarrow> unit step" where
  "delete_class p = modify (\<lambda>s.
     let v = p_vm s
     in s\<lparr>p_vm := v\<lparr>rt := (rt v)\<lparr>rt_class := (rt_class (rt v))(p := None)\<rparr>\<rparr>,
          p_funcs := filter (\<lambda>(q, f). f_class f \<noteq> p) (p_funcs s)\<rparr>)"

text \<open>The initial value of a static variable; a double is converted and kept in the member \<open>i\<close>.\<close>

definition static_value :: "penv \<Rightarrow> Token \<Rightarrow> Value step" where
  "static_value pe token =
     (case tok_type token of
        TOK_STRING \<Rightarrow>
          bind_step (on_vm (createString (pe_env pe) (tok_string token))) (\<lambda>p.
            ret \<lparr>v_type = VALUE_OBJECT, v_bits = p\<rparr>)
      | TOK_INTEGER \<Rightarrow> ret \<lparr>v_type = VALUE_INTEGER, v_bits = word_of_int (tok_i token)\<rparr>
      | TOK_DOUBLE \<Rightarrow>
          bind_step (needing (d_to_int64 (tok_d token))) (\<lambda>i.
            ret \<lparr>v_type = VALUE_DOUBLE, v_bits = word_of_int i\<rparr>)
      | _ \<Rightarrow> failing)"

definition add_static :: "wstring \<Rightarrow> Value option \<Rightarrow> Class \<Rightarrow> Class option" where
  "add_static name v c =
     (let (i, c') = addStaticField name c
      in case v of None \<Rightarrow> Some c' | Some w \<Rightarrow> setStaticField i w c')"

definition member_var :: "penv \<Rightarrow> ptr \<Rightarrow> unit step" where
  "member_var pe clazz =
     bind_step nextToken (\<lambda>name.
       bind_step nextToken (\<lambda>token.
       bind_step (if tok_type token = TOK_STATIC
           then bind_step nextToken (\<lambda>token.
             if tok_type token = TOK_ASSIGN
                    then bind_step nextToken (\<lambda>token.
                      bind_step (static_value pe token) (\<lambda>v.
                      bind_step nextToken (\<lambda>token.
                      ret (True, Some v, token))))
                    else ret (True, None, token))
           else ret (False, None, token)) (\<lambda>(isStatic, staticValue, token).
       bind_step (if isStatic then update_class clazz (add_static (tok_string name) staticValue)
          else update_class clazz (\<lambda>c. Some (addField (tok_string name) c))) (\<lambda>_.
       if tok_type token \<noteq> TOK_SEMICOLON then failing else ret ()))))"

definition member_function :: "nat \<Rightarrow> penv \<Rightarrow> ptr \<Rightarrow> unit step" where
  "member_function n pe clazz =
     bind_step nextToken (\<lambda>name.
       bind_step (parseFunction n pe clazz) (\<lambda>f.
       bind_step (updFunction f (\<lambda>k. k\<lparr>f_name := tok_string name\<rparr>)) (\<lambda>_.
       update_class clazz (\<lambda>c. Some (addMethod (tok_string name) f c)))))"

fun class_members :: "nat \<Rightarrow> penv \<Rightarrow> ptr \<Rightarrow> unit step" where
  "class_members 0 pe clazz = starved"
| "class_members (Suc n) pe clazz =
     bind_step moreTokens (\<lambda>more.
       if \<not> more then ret ()
         else bind_step nextToken (\<lambda>token.
           case tok_type token of
                    TOK_BRACE_RIGHT \<Rightarrow> ret ()
                  | TOK_VAR \<Rightarrow> bind_step (member_var pe clazz) (\<lambda>_.
                    class_members n pe clazz)
                  | TOK_FUNCTION \<Rightarrow> bind_step (member_function n pe clazz) (\<lambda>_.
                    class_members n pe clazz)
                  | _ \<Rightarrow> failing))"

definition set_state :: "ClassState \<Rightarrow> Class \<Rightarrow> Class option" where
  "set_state st c = Some (c\<lparr>cl_state := st\<rparr>)"

definition class_of :: "ptr \<Rightarrow> Class step" where
  "class_of p s = (case rt_class (rt (p_vm s)) p of None \<Rightarrow> Undefined | Some c \<Rightarrow> Ret c s)"

text \<open>\<open>new Class(superClass, name)\<close> and its registration, whose result is not looked at.\<close>

definition new_script_class :: "penv \<Rightarrow> ptr \<Rightarrow> wstring \<Rightarrow> ptr step" where
  "new_script_class pe superClass name =
     bind_step new_ptr (\<lambda>p.
       bind_step (if superClass = 0 then ret None
           else bind_step (class_of superClass) (\<lambda>c.
             ret (Some (superClass, c)))) (\<lambda>super.
       bind_step (on_vm (\<lambda>v. Some ((), set_class p (new_class super name) v))) (\<lambda>_.
       bind_step (on_vm (addClass (pe_load pe) (pe_env pe) p False)) (\<lambda>_.
       ret p))))"

definition parseClass :: "nat \<Rightarrow> penv \<Rightarrow> bool \<Rightarrow> ptr step" where
  "parseClass n pe addToExisting =
     bind_step (parseIdentifier n) (\<lambda>classId.
       bind_step (addImport (identifier_end classId) classId) (\<lambda>_.
       let name = identifier_string classId in
       bind_step nextToken (\<lambda>token.
       bind_step (if tok_type token = TOK_EXTENDS
           then bind_step (parseIdentifier n) (\<lambda>ids0.
             bind_step (resolve_import ids0) (\<lambda>ids.
             bind_step (lookup_class pe (identifier_string ids)) (\<lambda>super.
             if super = 0 then failing
                    else bind_step nextToken (\<lambda>token.
                      ret (super, token)))))
           else bind_step (reads (\<lambda>s. objectClass (rt (p_vm s)))) (\<lambda>obj.
             ret (obj, token))) (\<lambda>(superClass, token).
       if tok_type token \<noteq> TOK_BRACE_LEFT then failing
         else bind_step (on_vm (findClass (pe_load pe) name False)) (\<lambda>existing.
           bind_step (if existing = 0 then ret None
                    else bind_step (class_of existing) (\<lambda>c.
                      ret (Some (cl_state c)))) (\<lambda>state.
           if state = Some PARSING then ret existing
                  else if state \<noteq> None \<and> \<not> addToExisting then failing
                  else bind_step (if existing = 0 then new_script_class pe superClass name
                             else ret existing) (\<lambda>clazz.
                    bind_step (update_class clazz (set_state PARSING)) (\<lambda>_.
                    bind_step (attempt (class_members n pe clazz)) (\<lambda>r.
                    case r of
                             None \<Rightarrow> bind_step (delete_class clazz) (\<lambda>_.
                               failing)
                           | Some _ \<Rightarrow>
                               bind_step (update_class clazz (set_state COMPLETE)) (\<lambda>_.
                                 ret clazz))))))))))"

section \<open>Files\<close>

fun parse_imports :: "nat \<Rightarrow> unit step" where
  "parse_imports 0 = starved"
| "parse_imports (Suc n) =
     bind_step moreTokens (\<lambda>more.
       if \<not> more then ret ()
         else bind_step nextToken (\<lambda>token.
           if tok_type token = TOK_IMPORT
                  then bind_step (parseIdentifier n) (\<lambda>ids.
                    bind_step (addImport (identifier_end ids) ids) (\<lambda>_.
                    bind_step (expect TOK_SEMICOLON) (\<lambda>_.
                    parse_imports n)))
                  else rewind 1))"

fun parse_classes :: "nat \<Rightarrow> penv \<Rightarrow> bool \<Rightarrow> unit step" where
  "parse_classes 0 pe addToExisting = starved"
| "parse_classes (Suc n) pe addToExisting =
     bind_step moreTokens (\<lambda>more.
       if \<not> more then ret ()
         else bind_step nextToken (\<lambda>token.
           if tok_type token = TOK_CLASS
                  then bind_step (parseClass n pe addToExisting) (\<lambda>_.
                    parse_classes n pe addToExisting)
                  else failing))"

definition parse_tokens :: "nat \<Rightarrow> penv \<Rightarrow> bool \<Rightarrow> unit step" where
  "parse_tokens n pe addToExisting =
     bind_step (addImport (wstr ''Runtime'') (makeIdentifier (wstr ''system.lang.Runtime''))) (\<lambda>_.
       bind_step (parse_imports n) (\<lambda>_.
       bind_step (parse_classes n pe addToExisting) (\<lambda>_.
       resolveTypes)))"

definition new_parser :: "Token list \<Rightarrow> vm \<Rightarrow> parser" where
  "new_parser tokens v =
     \<lparr>m_pos = 0, m_tokens = tokens, m_imports = [], m_expressions = [], p_nodes = [], p_blocks = [],
      p_dead = [], p_freed = [], p_funcs = [], p_vm = v\<rparr>"

text \<open>
  \<open>Parser::parse\<close> of a fresh parser: its result and the runtime afterwards. Fuel that runs out is
  stack that runs out.
\<close>

definition parse :: "nat \<Rightarrow> penv \<Rightarrow> Token list \<Rightarrow> bool \<Rightarrow> vm \<Rightarrow> (bool \<times> vm) option" where
  "parse n pe tokens addToExisting v =
     (case parse_tokens n pe addToExisting (new_parser tokens v) of
        Ret _ s \<Rightarrow> Some (True, finished_vm s)
      | Failed s \<Rightarrow> Some (False, finished_vm s)
      | Undefined \<Rightarrow> None
      | OutOfFuel \<Rightarrow> None)"

end
