(* ===== verification/Loader.thy ===== *)
theory Loader
  imports Lexer ClassParser Linker
begin

text \<open>
  \<open>Runtime::loadClass\<close> (src/libb0rk/runtime.cpp): find the file of a class on the class path, lex it
  and parse it. Lexer, parser, assembler and interpreter call each other through the runtime; here
  they are tied together. The number bounds the depth of the C stack that is left.

  The files are a parameter: a partial map from path names to contents.
\<close>

record host =
  h_files :: "byte list \<Rightarrow> byte list option"
  h_classpath :: "wstring list"
  h_random :: "nat \<Rightarrow> int \<Rightarrow> int \<Rightarrow> u64"
  h_steps :: nat

text \<open>\<open>char c = name[i]\<close>, dots to slashes, appended as wide characters again.\<close>

definition class_path_name :: "wstring \<Rightarrow> wstring" where
  "class_path_name name =
     map (\<lambda>c. let b = (ucast c :: byte) in if b = 46 then 47 else scast b) name @ wstr ''.bs''"

fun open_first :: "(byte list \<Rightarrow> byte list option) \<Rightarrow> wstring \<Rightarrow> wstring list \<Rightarrow> byte list option" where
  "open_first files path [] = None"
| "open_first files path (dir # dirs) =
     (case files (wstring2string (dir @ [47] @ path)) of
        Some content \<Rightarrow> Some content
      | None \<Rightarrow> open_first files path dirs)"

text \<open>
  Fuel for the parser: more than it can use on that many tokens.
\<close>

definition parse_fuel :: "Token list \<Rightarrow> nat" where
  "parse_fuel tokens = 6 * length tokens + 8"

definition load_source :: "penv \<Rightarrow> wstring \<Rightarrow> bool \<Rightarrow> byte list \<Rightarrow> vm \<Rightarrow> (ptr \<times> vm) option" where
  "load_source pe name addToExisting content s =
     (case lexer (Some (content @ replicate 128 0)) (length content) of
        Inl _ \<Rightarrow> None
      | Inr (False, _) \<Rightarrow> Some (0, s)
      | Inr (True, tokens) \<Rightarrow> do {
          (res, t) \<leftarrow> parse (parse_fuel tokens) pe tokens addToExisting s;
          Some (if res then findClass_loaded name (rt t) else 0, t) })"

definition loadClass_with :: "host \<Rightarrow> penv \<Rightarrow> loader" where
  "loadClass_with h pe name addToExisting s =
     (case open_first (h_files h) (class_path_name name) (h_classpath h) of
        None \<Rightarrow> Some (0, s)
      | Some content \<Rightarrow> load_source pe name addToExisting content s)"

text \<open>
  The environment of the interpreter and the loader at a given depth. \<open>assembling\<close> is
  \<open>Assembler::assemble\<close> with the loader behind \<open>findClass\<close>.
\<close>

definition assembling :: "host \<Rightarrow> env \<Rightarrow> loader \<Rightarrow> nat \<Rightarrow> env" where
  "assembling h e ld n =
     \<lparr>ev_call = (\<lambda>_ _ _ _. None),
      ev_assemble = (\<lambda>f. assemble \<lparr>ae_env = e, ae_findClass = (\<lambda>name. findClass ld name True), ae_function = f\<rparr>),
      ev_stack = n, ev_steps = h_steps h, ev_random = h_random h\<rparr>"

fun machine :: "host \<Rightarrow> nat \<Rightarrow> env \<times> loader" where
  "machine h 0 = (assembling h \<lparr>ev_call = (\<lambda>_ _ _ _. None), ev_assemble = (\<lambda>_ _. None), ev_stack = 0,
      ev_steps = h_steps h, ev_random = h_random h\<rparr> (\<lambda>_ _ _. None) 0, (\<lambda>_ _ _. None))"
| "machine h (Suc n) =
     (let (e, ld) = machine h n;
          base = assembling h e ld n;
          e' = base\<lparr>ev_call := interp base n\<rparr>
      in (e', loadClass_with h \<lparr>pe_env = e', pe_load = ld\<rparr>))"

definition loadClass :: "host \<Rightarrow> nat \<Rightarrow> loader" where
  "loadClass h n = snd (machine h n)"

end
