(* ===== verification/BlockOrder.thy ===== *)
theory BlockOrder
  imports ClassParser
begin

text \<open>
  The order of the parser's block store: the parent of a block is older and its child blocks are
  younger. With it the walks up and down the blocks end (\<open>setStartingVarId\<close>, \<open>getVarId\<close>,
  \<open>setVarType\<close>, \<open>getVarType\<close>); the destructors end because each call ends the lifetime of an
  object. \<open>quiet\<close> are the parser's steps that keep this order and the position.
\<close>

section \<open>The order of the blocks\<close>

definition shape :: "parser \<Rightarrow> (addr option \<times> addr list) list" where
  "shape s = map (\<lambda>k. (b_parent k, b_childBlocks k)) (p_blocks s)"

definition ordered :: "(addr option \<times> addr list) list \<Rightarrow> bool" where
  "ordered bs \<longleftrightarrow> (\<forall>b < length bs.
     (\<forall>p. fst (bs ! b) = Some p \<longrightarrow> p < b) \<and> (\<forall>c \<in> set (snd (bs ! b)). b < c \<and> c < length bs))"

definition lined :: "parser \<Rightarrow> bool" where
  "lined s \<longleftrightarrow> ordered (shape s)"

lemma orderedD:
  assumes "ordered bs" and "b < length bs"
  shows "fst (bs ! b) = Some p \<Longrightarrow> p < b" and "c \<in> set (snd (bs ! b)) \<Longrightarrow> b < c \<and> c < length bs"
  using assms unfolding ordered_def by blast+

lemma orderedI:
  assumes "\<And>b p. b < length bs \<Longrightarrow> fst (bs ! b) = Some p \<Longrightarrow> p < b"
    and "\<And>b c. b < length bs \<Longrightarrow> c \<in> set (snd (bs ! b)) \<Longrightarrow> b < c \<and> c < length bs"
  shows "ordered bs"
  using assms unfolding ordered_def by blast

lemma shape_length [simp]: "length (shape s) = length (p_blocks s)"
  by (simp add: shape_def)

lemma shape_eqD: "shape t = shape s \<Longrightarrow> length (p_blocks t) = length (p_blocks s) \<and> (lined t = lined s)"
  using shape_length [of s] shape_length [of t] by (simp add: lined_def del: shape_length)

lemma linedD:
  assumes "lined s" and "b < length (p_blocks s)"
  shows "b_parent (p_blocks s ! b) = Some p \<Longrightarrow> p < b"
    and "c \<in> set (b_childBlocks (p_blocks s ! b)) \<Longrightarrow> b < c \<and> c < length (p_blocks s)"
  using orderedD [OF assms(1) [unfolded lined_def], of b] assms(2) by (simp_all add: shape_def)

lemma shape_update: "b < length (p_blocks s) \<Longrightarrow>
    shape (s\<lparr>p_blocks := (p_blocks s)[b := k]\<rparr>) = (shape s)[b := (b_parent k, b_childBlocks k)]"
  by (simp add: shape_def map_update)

lemma ordered_update:
  assumes "ordered bs" and "\<And>p. q = Some p \<Longrightarrow> p < b" and "\<And>c. c \<in> set cs \<Longrightarrow> b < c \<and> c < length bs"
  shows "ordered (bs[b := (q, cs)])"
proof (rule orderedI)
  fix d p assume d: "d < length (bs[b := (q, cs)])" "fst (bs[b := (q, cs)] ! d) = Some p"
  then show "p < d" using orderedD(1) [OF assms(1), of d p] assms(2) by (cases "d = b") simp_all
next
  fix d c assume d: "d < length (bs[b := (q, cs)])" "c \<in> set (snd (bs[b := (q, cs)] ! d))"
  then show "d < c \<and> c < length (bs[b := (q, cs)])" using orderedD(2) [OF assms(1), of d c] assms(3) by (cases "d = b") simp_all
qed

lemma ordered_new:
  assumes "ordered bs"
  shows "ordered (bs @ [(None, [])])"
proof (rule orderedI)
  fix b p assume "b < length (bs @ [(None, [])])" "fst ((bs @ [(None, [])]) ! b) = Some p"
  then show "p < b" using orderedD(1) [OF assms, of b p] by (cases "b < length bs") (simp_all add: nth_append less_Suc_eq)
next
  fix b c assume "b < length (bs @ [(None, [])])" "c \<in> set (snd ((bs @ [(None, [])]) ! b))"
  then show "b < c \<and> c < length (bs @ [(None, [])])" using orderedD(2) [OF assms, of b c]
    by (cases "b < length bs") (auto simp: nth_append less_Suc_eq)
qed

lemma lined_update:
  assumes "lined s" and "b < length (p_blocks s)" and "\<And>p. b_parent k = Some p \<Longrightarrow> p < b"
    and "\<And>c. c \<in> set (b_childBlocks k) \<Longrightarrow> b < c \<and> c < length (p_blocks s)"
  shows "lined (s\<lparr>p_blocks := (p_blocks s)[b := k]\<rparr>)"
  unfolding lined_def shape_update [OF assms(2)]
  by (rule ordered_update) (use assms in \<open>simp_all add: lined_def\<close>)

section \<open>Steps that leave the position alone\<close>

definition kept :: "parser \<Rightarrow> parser \<Rightarrow> bool" where
  "kept s t \<longleftrightarrow> m_tokens t = m_tokens s \<and> m_pos t = m_pos s \<and> lined t \<and> length (p_blocks s) \<le> length (p_blocks t)"

lemma kept_trans: "kept s t \<Longrightarrow> kept t u \<Longrightarrow> kept s u"
  by (simp add: kept_def)

lemma kept_same: "lined s \<Longrightarrow> m_tokens t = m_tokens s \<Longrightarrow> m_pos t = m_pos s \<Longrightarrow> shape t = shape s \<Longrightarrow> kept s t"
  using shape_eqD [of t s] by (simp add: kept_def)

definition quiet :: "'a step \<Rightarrow> bool" where
  "quiet m \<longleftrightarrow> (\<forall>s. lined s \<longrightarrow> (case m s of
     Ret _ t \<Rightarrow> kept s t
   | Failed t \<Rightarrow> kept s t
   | Undefined \<Rightarrow> True
   | OutOfFuel \<Rightarrow> False))"

named_theorems quiets \<open>steps that leave the position alone\<close>

lemma kept_lined: "kept s t \<Longrightarrow> lined t"
  by (simp add: kept_def)

lemma quiet_bind [quiets]: "quiet m \<Longrightarrow> (\<And>x. quiet (f x)) \<Longrightarrow> quiet (bind_step m f)"
proof (unfold quiet_def, intro allI impI)
  fix s assume m: "\<forall>s. lined s \<longrightarrow> (case m s of Ret _ t \<Rightarrow> kept s t | Failed t \<Rightarrow> kept s t | Undefined \<Rightarrow> True | OutOfFuel \<Rightarrow> False)"
    and f: "\<And>x. \<forall>s. lined s \<longrightarrow> (case f x s of Ret _ t \<Rightarrow> kept s t | Failed t \<Rightarrow> kept s t | Undefined \<Rightarrow> True | OutOfFuel \<Rightarrow> False)"
    and s: "lined s"
  from m s have "case m s of Ret _ t \<Rightarrow> kept s t | Failed t \<Rightarrow> kept s t | Undefined \<Rightarrow> True | OutOfFuel \<Rightarrow> False" by blast
  then show "case bind_step m f s of Ret _ t \<Rightarrow> kept s t | Failed t \<Rightarrow> kept s t | Undefined \<Rightarrow> True | OutOfFuel \<Rightarrow> False"
  proof (cases "m s")
    case (Ret x t)
    with \<open>case m s of Ret _ t \<Rightarrow> kept s t | Failed t \<Rightarrow> kept s t | Undefined \<Rightarrow> True | OutOfFuel \<Rightarrow> False\<close>
    have k: "kept s t" by simp
    from f [of x] kept_lined [OF k] have "case f x t of Ret _ u \<Rightarrow> kept t u | Failed u \<Rightarrow> kept t u | Undefined \<Rightarrow> True | OutOfFuel \<Rightarrow> False" by blast
    with Ret kept_trans [OF k] show ?thesis by (cases "f x t") (simp_all add: bind_step_def)
  qed (simp_all add: bind_step_def)
qed

lemma shape_vm [simp]: "shape (s\<lparr>p_vm := v\<rparr>) = shape s" "shape (s\<lparr>m_pos := p\<rparr>) = shape s"
  "lined (s\<lparr>m_pos := p\<rparr>) = lined s"
  by (simp_all add: shape_def lined_def)

lemma quiet_basic [quiets]:
  "quiet (ret x)" "quiet failing" "quiet undef" "quiet (reads g)" "quiet (needing y)" "quiet (on_vm h)"
  by (auto simp: quiet_def ret_def failing_def undef_def reads_def needing_def on_vm_def
      split: option.splits outcome.splits intro!: kept_same)

lemma quiet_modify: "(\<And>s. m_tokens (g s) = m_tokens s \<and> m_pos (g s) = m_pos s \<and> p_blocks (g s) = p_blocks s) \<Longrightarrow> quiet (modify g)"
  by (auto simp: quiet_def modify_def shape_def intro!: kept_same)

lemma quiet_attempt [quiets]: "quiet m \<Longrightarrow> quiet (attempt m)"
  unfolding quiet_def attempt_def by (fastforce split: outcome.splits)

lemma quiet_each [quiets]: "(\<And>x. quiet (f x)) \<Longrightarrow> quiet (each f xs)"
  by (induction xs) (auto intro: quiets)

lemma quiet_steps [quiets]: "(\<And>m. m \<in> set ms \<Longrightarrow> quiet m) \<Longrightarrow> quiet (steps ms)"
  by (induction ms) (auto intro: quiets)

lemma quiet_newBlock [quiets]: "quiet (newBlock f)"
  by (auto simp: quiet_def newBlock_def kept_def lined_def shape_def intro: ordered_new)

lemma quiet_store [quiets]:
  "quiet (getNode x)" "quiet (setNode x e)" "quiet (newExpr b n ty)" "quiet (listExpr x)"
  "quiet (getBlock b)" "quiet (newBlock p)" "quiet (getFunction p)" "quiet (updFunction p g)"
  by (auto simp: quiet_def getNode_def setNode_def newExpr_def listExpr_def getBlock_def
      getFunction_def updFunction_def modify_def shape_def split: option.splits intro!: kept_same quiet_newBlock [unfolded quiet_def, rule_format])

lemma quiet_updBlock [quiets]:
  assumes "\<And>k. b_parent (g k) = b_parent k \<and> b_childBlocks (g k) = b_childBlocks k"
  shows "quiet (updBlock b g)"
proof -
  have "shape (s\<lparr>p_blocks := (p_blocks s)[b := g (p_blocks s ! b)]\<rparr>) = shape s" if "b < length (p_blocks s)" for s
    using that assms by (simp add: shape_update) (simp add: shape_def list_eq_iff_nth_eq nth_list_update)
  then show ?thesis
    by (auto simp: quiet_def updBlock_def getBlock_def bind_step_def modify_def intro!: kept_same)
qed

lemma quiet_derived [quiets]:
  "quiet (updNode x h)" "quiet (setParent x y)" "quiet (newListed b n ty)"
  "quiet (addStatement b x)" "quiet (addVar b v)" "quiet new_ptr"
  "quiet (set_node x n)" "quiet (set_left x y)" "quiet (set_right x y)" "quiet (set_if x k)" "quiet (set_for x u)"
  unfolding updNode_def setParent_def newListed_def addStatement_def addVar_def new_ptr_def
    set_node_def set_left_def set_right_def set_if_def set_for_def
  by (intro quiets; simp)+

section \<open>The destructors\<close>

text \<open>The expressions, and the blocks, that have not been deleted.\<close>

definition living :: "parser \<Rightarrow> nat" where
  "living s = card ({..<length (p_nodes s)} - set (p_dead s))"

definition housed :: "parser \<Rightarrow> nat" where
  "housed s = card ({..<length (p_blocks s)} - set (p_freed s))"

lemma living_le: "living s \<le> length (p_nodes s)"
  unfolding living_def by (rule order_trans [OF card_mono [of "{..<length (p_nodes s)}"]]) auto

lemma housed_le: "housed s \<le> length (p_blocks s)"
  unfolding housed_def by (rule order_trans [OF card_mono [of "{..<length (p_blocks s)}"]]) auto

lemma living_less:
  assumes "x < length (p_nodes s)" and "x \<notin> set (p_dead s)"
  shows "living (s\<lparr>p_dead := x # p_dead s\<rparr>) < living s"
  unfolding living_def by (rule psubset_card_mono) (use assms in auto)

lemma housed_less:
  assumes "b < length (p_blocks s)" and "b \<notin> set (p_freed s)"
  shows "housed (s\<lparr>p_freed := b # p_freed s\<rparr>) < housed s"
  unfolding housed_def by (rule psubset_card_mono) (use assms in auto)

definition drains :: "(parser \<Rightarrow> nat) \<Rightarrow> nat \<Rightarrow> unit step \<Rightarrow> bool" where
  "drains f n m \<longleftrightarrow> (\<forall>s. lined s \<longrightarrow> f s < n \<longrightarrow> (case m s of
     Ret _ t \<Rightarrow> kept s t \<and> living t \<le> living s \<and> housed t \<le> housed s
   | Failed t \<Rightarrow> kept s t
   | Undefined \<Rightarrow> True
   | OutOfFuel \<Rightarrow> False))"

lemma drainsD:
  assumes "drains f n m" and "lined s" and "f s < n"
  shows "m s \<noteq> OutOfFuel" and "m s = Ret x t \<Longrightarrow> kept s t \<and> living t \<le> living s \<and> housed t \<le> housed s"
    and "m s = Failed t \<Longrightarrow> kept s t"
  using assms by (auto simp: drains_def)

lemma drains_each:
  assumes m: "\<And>x. drains f n (g x)" and f: "f = living \<or> f = housed"
  shows "drains f n (each g xs)"
proof (induction xs)
  case Nil
  show ?case by (auto simp: drains_def ret_def kept_def)
next
  case (Cons x xs)
  show ?case unfolding drains_def
  proof (intro allI impI)
    fix s assume s: "lined s" "f s < n"
    note D = drainsD [OF m [of x] s]
    show "case each g (x # xs) s of Ret _ t \<Rightarrow> kept s t \<and> living t \<le> living s \<and> housed t \<le> housed s
        | Failed t \<Rightarrow> kept s t | Undefined \<Rightarrow> True | OutOfFuel \<Rightarrow> False"
    proof (cases "g x s")
      case (Ret u t)
      with D(2) have t: "kept s t" "living t \<le> living s" "housed t \<le> housed s" by auto
      with f s have "lined t" "f t < n" by (auto dest: kept_lined)
      from drainsD [OF Cons this] t show ?thesis
        by (cases "each g xs t") (auto simp: bind_step_def Ret intro: kept_trans order_trans)
    qed (use D in \<open>auto simp: bind_step_def\<close>)
  qed
qed

lemma drains_expr: "drains living n (deleteExpr n x)"
proof (induction n arbitrary: x)
  case 0
  show ?case by (simp add: drains_def)
next
  case (Suc n)
  show ?case unfolding drains_def
  proof (intro allI impI)
    fix s assume s: "lined s" "living s < Suc n"
    show "case deleteExpr (Suc n) x s of Ret _ t \<Rightarrow> kept s t \<and> living t \<le> living s \<and> housed t \<le> housed s
        | Failed t \<Rightarrow> kept s t | Undefined \<Rightarrow> True | OutOfFuel \<Rightarrow> False"
    proof (cases "x < length (p_nodes s) \<and> x \<notin> set (p_dead s)")
      case True
      let ?s = "s\<lparr>p_dead := x # p_dead s\<rparr>" and ?xs = "owned (e_node (p_nodes s ! x))"
      have l: "living ?s < living s" using living_less True by blast
      have k: "kept s ?s" using s(1) by (auto simp: shape_def intro!: kept_same)
      have h: "housed ?s = housed s" by (simp add: housed_def)
      have "lined ?s" "living ?s < n" using k l s(2) by (auto dest: kept_lined)
      from drainsD [OF drains_each [of living n "deleteExpr n", OF Suc] this, of ?xs] k l h show ?thesis
        using True by (cases "each (deleteExpr n) ?xs ?s")
          (auto simp: getNode_def bind_step_def modify_def intro: kept_trans)
    qed (auto simp: getNode_def bind_step_def)
  qed
qed

lemma drains_exprs: "drains f n (bind_step (reads (\<lambda>s. length (p_nodes s))) (\<lambda>m. each (deleteExpr (Suc m)) xs))"
proof -
  have "living s < Suc (length (p_nodes s))" for s using living_le [of s] by simp
  then show ?thesis
    using drains_each [of living _ "deleteExpr _", OF drains_expr]
    by (auto simp: drains_def bind_step_def reads_def)
qed

lemma drains_block: "drains housed n (deleteBlock n b)"
proof (induction n arbitrary: b)
  case 0
  show ?case by (simp add: drains_def)
next
  case (Suc n)
  show ?case unfolding drains_def
  proof (intro allI impI)
    fix s assume s: "lined s" "housed s < Suc n"
    show "case deleteBlock (Suc n) b s of Ret _ t \<Rightarrow> kept s t \<and> living t \<le> living s \<and> housed t \<le> housed s
        | Failed t \<Rightarrow> kept s t | Undefined \<Rightarrow> True | OutOfFuel \<Rightarrow> False"
    proof (cases "b < length (p_blocks s) \<and> b \<notin> set (p_freed s)")
      case True
      let ?s = "s\<lparr>p_freed := b # p_freed s\<rparr>" and ?k = "p_blocks s ! b"
      let ?e = "bind_step (reads (\<lambda>s. length (p_nodes s))) (\<lambda>m. each (deleteExpr (Suc m)) (b_code ?k))"
      have l: "housed ?s < housed s" using housed_less True by blast
      have k: "kept s ?s" using s(1) by (auto simp: shape_def intro!: kept_same)
      have h: "living ?s = living s" by (simp add: living_def)
      have "lined ?s" "housed ?s < n" using k l s(2) by (auto dest: kept_lined)
      note D = drainsD [OF drains_each [of housed n "deleteBlock n", OF Suc] this, of "b_childBlocks ?k"]
      show ?thesis
      proof (cases "each (deleteBlock n) (b_childBlocks ?k) ?s")
        case (Ret u t)
        with D(2) k h l have t: "kept s t" "living t \<le> living s" "housed t \<le> housed s" by (auto intro: kept_trans)
        from drainsD [OF drains_exprs [of "\<lambda>_. 0" 1 "b_code ?k"] kept_lined [OF t(1)]] t True Ret show ?thesis
          by (cases "?e t") (auto simp: getBlock_def bind_step_def modify_def intro: kept_trans order_trans)
      qed (use D k True in \<open>auto simp: getBlock_def bind_step_def modify_def intro: kept_trans\<close>)
    qed (auto simp: getBlock_def bind_step_def)
  qed
qed

lemma quiet_delete [quiets]: "quiet (delete_block b)"
  unfolding quiet_def
proof (intro allI impI)
  fix s assume s: "lined s"
  have "housed s < Suc (length (p_blocks s))" using housed_le [of s] by simp
  from drainsD [OF drains_block s this, of b]
  show "case delete_block b s of Ret _ t \<Rightarrow> kept s t | Failed t \<Rightarrow> kept s t | Undefined \<Rightarrow> True | OutOfFuel \<Rightarrow> False"
    by (cases "deleteBlock (Suc (length (p_blocks s))) b s") (simp_all add: delete_block_def bind_step_def reads_def)
qed

section \<open>Walking the blocks\<close>

text \<open>A step that keeps the shape of the block store as well.\<close>

definition steady :: "nat \<Rightarrow> 'a step \<Rightarrow> bool" where
  "steady N m \<longleftrightarrow> (\<forall>s. lined s \<longrightarrow> length (p_blocks s) = N \<longrightarrow> (case m s of
     Ret _ t \<Rightarrow> m_tokens t = m_tokens s \<and> m_pos t = m_pos s \<and> shape t = shape s
   | Failed t \<Rightarrow> m_tokens t = m_tokens s \<and> m_pos t = m_pos s \<and> shape t = shape s
   | Undefined \<Rightarrow> True
   | OutOfFuel \<Rightarrow> False))"

named_theorems steadies \<open>steps that keep the shape of the block store\<close>

lemma steady_bind [steadies]:
  assumes "steady N m" and "\<And>x. steady N (f x)"
  shows "steady N (bind_step m f)"
  unfolding steady_def
proof (intro allI impI)
  fix s assume s: "lined s" "length (p_blocks s) = N"
  show "case bind_step m f s of Ret _ t \<Rightarrow> m_tokens t = m_tokens s \<and> m_pos t = m_pos s \<and> shape t = shape s
    | Failed t \<Rightarrow> m_tokens t = m_tokens s \<and> m_pos t = m_pos s \<and> shape t = shape s | Undefined \<Rightarrow> True | OutOfFuel \<Rightarrow> False"
  proof (cases "m s")
    case (Ret x t)
    with assms(1) s have t: "m_tokens t = m_tokens s" "m_pos t = m_pos s" "shape t = shape s" by (auto simp: steady_def)
    with s shape_eqD [OF t(3)] have "lined t" "length (p_blocks t) = N" by auto
    with assms(2) [of x] t Ret show ?thesis by (cases "f x t") (auto simp: steady_def bind_step_def)
  qed (use assms(1) s in \<open>auto simp: steady_def bind_step_def\<close>)
qed

lemma steady_basic [steadies]:
  "steady N (ret x)" "steady N undef" "steady N (needing y)" "steady N (getNode z)" "steady N (getFunction p)"
  "steady N (updNode z h)"
  by (auto simp: steady_def ret_def undef_def needing_def getNode_def getFunction_def updNode_def setNode_def modify_def
      bind_step_def shape_def split: option.splits)

lemma steady_needing: "(\<And>y. x = Some y \<Longrightarrow> steady N (f y)) \<Longrightarrow> steady N (bind_step (needing x) f)"
  by (cases x) (auto simp: steady_def needing_def bind_step_def undef_def ret_def)

lemma steady_updBlock [steadies]:
  assumes "\<And>k. b_parent (g k) = b_parent k \<and> b_childBlocks (g k) = b_childBlocks k"
  shows "steady N (updBlock b g)"
proof -
  have "shape (s\<lparr>p_blocks := (p_blocks s)[b := g (p_blocks s ! b)]\<rparr>) = shape s" if "b < length (p_blocks s)" for s
    using that assms by (simp add: shape_update) (simp add: shape_def list_eq_iff_nth_eq nth_list_update)
  then show ?thesis by (auto simp: steady_def updBlock_def getBlock_def bind_step_def modify_def)
qed

lemma steady_getBlock:
  assumes "\<And>k. b < N \<Longrightarrow> (\<And>p. b_parent k = Some p \<Longrightarrow> p < b) \<Longrightarrow>
      (\<And>c. c \<in> set (b_childBlocks k) \<Longrightarrow> b < c \<and> c < N) \<Longrightarrow> steady N (f k)"
  shows "steady N (bind_step (getBlock b) f)"
  unfolding steady_def
proof (intro allI impI)
  fix s assume s: "lined s" "length (p_blocks s) = N"
  show "case bind_step (getBlock b) f s of Ret _ t \<Rightarrow> m_tokens t = m_tokens s \<and> m_pos t = m_pos s \<and> shape t = shape s
    | Failed t \<Rightarrow> m_tokens t = m_tokens s \<and> m_pos t = m_pos s \<and> shape t = shape s | Undefined \<Rightarrow> True | OutOfFuel \<Rightarrow> False"
  proof (cases "b < N \<and> b \<notin> set (p_freed s)")
    case True
    with assms [of "p_blocks s ! b"] linedD [OF s(1), of b] s(2) have "steady N (f (p_blocks s ! b))" by simp
    with True s show ?thesis by (auto simp: steady_def bind_step_def getBlock_def)
  qed (use s(2) in \<open>auto simp: bind_step_def getBlock_def\<close>)
qed

lemma steady_getBlock' [steadies]: "steady N (getBlock b)"
  by (auto simp: steady_def getBlock_def)

lemma steady_number:
  "N < n + b \<Longrightarrow> 0 < n \<Longrightarrow> steady N (number_block n i b)"
  "\<forall>c \<in> set bs. N < n + c \<and> 0 < n \<Longrightarrow> steady N (number_blocks n i mx bs)"
proof (induction n i b and n i mx bs rule: number_block_number_blocks.induct)
  case (1 i b)
  then show ?case by (auto simp: steady_def bind_step_def starved_def)
next
  case (2 n i b)
  then show ?case by (auto simp: Let_def intro!: steady_getBlock steadies 2(1))
next
  case (3 n i mx)
  then show ?case by (auto intro!: steadies)
next
  case (4 n i mx c cs)
  then show ?case by (auto intro!: steadies)
qed

lemma steady_chain:
  "b < n \<or> N \<le> b \<and> 0 < n \<Longrightarrow> steady N (block_getVarId n b v)"
  "b < n \<or> N \<le> b \<and> 0 < n \<Longrightarrow> steady N (setVarType n b i ty)"
  "b < n \<or> N \<le> b \<and> 0 < n \<Longrightarrow> steady N (getVarType n b i)"
proof -
  show "b < n \<or> N \<le> b \<and> 0 < n \<Longrightarrow> steady N (block_getVarId n b v)"
    by (induction n arbitrary: b) (auto intro!: steady_getBlock steadies split: option.split)
  show "b < n \<or> N \<le> b \<and> 0 < n \<Longrightarrow> steady N (setVarType n b i ty)"
    by (induction n arbitrary: b) (auto intro!: steady_getBlock steady_needing steadies)
  show "b < n \<or> N \<le> b \<and> 0 < n \<Longrightarrow> steady N (getVarType n b i)"
    by (induction n arbitrary: b) (auto intro!: steady_getBlock steadies split: option.split)
qed

lemma quiet_steady:
  assumes "\<And>N. steady N (f N)"
  shows "quiet (bind_step (reads (\<lambda>s. length (p_blocks s))) f)"
  unfolding quiet_def
proof (intro allI impI)
  fix s assume s: "lined s"
  let ?m = "f (length (p_blocks s)) s"
  from assms [of "length (p_blocks s)"] s
  have "case ?m of Ret _ t \<Rightarrow> m_tokens t = m_tokens s \<and> m_pos t = m_pos s \<and> shape t = shape s
    | Failed t \<Rightarrow> m_tokens t = m_tokens s \<and> m_pos t = m_pos s \<and> shape t = shape s | Undefined \<Rightarrow> True | OutOfFuel \<Rightarrow> False"
    unfolding steady_def by blast
  with kept_same [OF s] show "case bind_step (reads (\<lambda>s. length (p_blocks s))) f s of Ret _ t \<Rightarrow> kept s t
    | Failed t \<Rightarrow> kept s t | Undefined \<Rightarrow> True | OutOfFuel \<Rightarrow> False"
    by (cases ?m) (simp_all add: bind_step_def reads_def)
qed

lemma quiet_numbering [quiets]: "quiet (setStartingVarIds i b)"
  unfolding setStartingVarIds_def by (intro quiet_steady steadies steady_number) auto

lemma quiet_chain:
  assumes "\<And>N. steady N (f (Suc N))"
  shows "quiet (bind_step chain_fuel f)"
proof -
  have "bind_step chain_fuel f = bind_step (reads (\<lambda>s. length (p_blocks s))) (\<lambda>N. f (Suc N))"
    by (simp add: chain_fuel_def bind_step_def reads_def fun_eq_iff)
  then show ?thesis using quiet_steady [of "\<lambda>N. f (Suc N)"] assms by simp
qed

end
