(* ===== verification/ParserFacts.thy ===== *)
theory ParserFacts
  imports Loader Sample BlockOrder
begin

text \<open>
  The parser does not loop: whatever the tokens, \<open>parse_fuel\<close> is enough. The proof follows the position in
  the token list through the parser with a weakest-precondition predicate, which keeps the order of
  the blocks (theory BlockOrder) at each step.
\<close>

section \<open>Trees, names and types\<close>

lemma quiet_resolveType [quiets]: "quiet (resolveType x)"
  unfolding resolveType_def by (auto intro!: quiets split: pnode.split option.split)

lemma quiet_tree [quiets]: "quiet (fold_literals b x oper l r)" "quiet (expand_assign b x t l r)"
  unfolding fold_literals_def expand_assign_def
  by (auto simp: Let_def intro!: quiets split: pnode.split prod.split)

lemma quiet_names [quiets]:
  "quiet (addImport k ids)" "quiet (imported k)" "quiet (resolve_import ids)" "quiet (lookup_class pe name)"
  "quiet (push_operator x oper q ops)" "quiet (literal_value code token)" "quiet (new_function p ts)"
  unfolding addImport_def imported_def resolve_import_def lookup_class_def push_operator_def
    literal_value_def new_function_def
  by (auto intro!: quiets quiet_modify split: list.split option.split pnode.split TokenType.split)

lemma quiet_resolveTypes [quiets]: "quiet resolveTypes"
proof -
  have c: "b < Suc N \<or> N \<le> b \<and> 0 < Suc N" for N b :: nat by linarith
  have "quiet (infer_operation x)" "quiet (infer_variable x)" "quiet (infer_result x)" for x
    unfolding infer_operation_def infer_variable_def infer_result_def
    by (auto simp del: block_getVarId.simps setVarType.simps getVarType.simps
        intro!: quiets quiet_chain steadies steady_chain [OF c] split: pnode.split option.split prod.split)
  then show ?thesis unfolding resolveTypes_def by (intro quiets)
qed

section \<open>Following the position\<close>

text \<open>
  \<open>wpp m Q F B ts p\<close>: started at position \<open>p\<close> of the tokens \<open>ts\<close> with at least \<open>B\<close> blocks, in order, the
  step does not run out of fuel and keeps the order, a result satisfies \<open>Q\<close> with the new position, and
  a failure leaves a position in \<open>F\<close>.
\<close>

definition placed :: "nat \<Rightarrow> Token list \<Rightarrow> parser \<Rightarrow> bool" where
  "placed B ts s \<longleftrightarrow> m_tokens s = ts \<and> lined s \<and> B \<le> length (p_blocks s)"

fun outcome_ok :: "('a \<Rightarrow> nat \<Rightarrow> bool) \<Rightarrow> (nat \<Rightarrow> bool) \<Rightarrow> nat \<Rightarrow> Token list \<Rightarrow> 'a outcome \<Rightarrow> bool" where
  "outcome_ok Q F B ts (Ret x t) \<longleftrightarrow> placed B ts t \<and> Q x (m_pos t)"
| "outcome_ok Q F B ts (Failed t) \<longleftrightarrow> placed B ts t \<and> F (m_pos t)"
| "outcome_ok Q F B ts Undefined \<longleftrightarrow> True"
| "outcome_ok Q F B ts OutOfFuel \<longleftrightarrow> False"

definition wpp :: "'a step \<Rightarrow> ('a \<Rightarrow> nat \<Rightarrow> bool) \<Rightarrow> (nat \<Rightarrow> bool) \<Rightarrow> nat \<Rightarrow> Token list \<Rightarrow> nat \<Rightarrow> bool" where
  "wpp m Q F B ts p \<longleftrightarrow> (\<forall>s. placed B ts s \<longrightarrow> m_pos s = p \<longrightarrow> outcome_ok Q F B ts (m s))"

named_theorems wpps \<open>rules for following the position\<close>

lemma wppI: "(\<And>s. placed B ts s \<Longrightarrow> m_pos s = p \<Longrightarrow> outcome_ok Q F B ts (m s)) \<Longrightarrow> wpp m Q F B ts p"
  by (simp add: wpp_def)

lemma wppD: "wpp m Q F B ts p \<Longrightarrow> placed B ts s \<Longrightarrow> m_pos s = p \<Longrightarrow> outcome_ok Q F B ts (m s)"
  by (simp add: wpp_def)

lemma outcome_ok_mono:
  "outcome_ok Q F B ts r \<Longrightarrow> (\<And>x q. Q x q \<Longrightarrow> Q' x q) \<Longrightarrow> (\<And>q. F q \<Longrightarrow> F' q) \<Longrightarrow> outcome_ok Q' F' B ts r"
  by (cases r) auto

lemma wpp_mono:
  "wpp m Q F B ts p \<Longrightarrow> (\<And>x q. Q x q \<Longrightarrow> Q' x q) \<Longrightarrow> (\<And>q. F q \<Longrightarrow> F' q) \<Longrightarrow> wpp m Q' F' B ts p"
  by (rule wppI, rule outcome_ok_mono, erule (2) wppD) blast+

lemma wpp_bind [wpps]:
  assumes "wpp m (\<lambda>x q. wpp (f x) Q F B ts q) F B ts p"
  shows "wpp (bind_step m f) Q F B ts p"
proof (rule wppI)
  fix s :: parser
  assume s: "placed B ts s" "m_pos s = p"
  from wppD [OF assms s] show "outcome_ok Q F B ts (bind_step m f s)"
    by (cases "m s") (auto simp: bind_step_def dest: wppD)
qed

lemma wpp_attempt [wpps]:
  assumes "wpp m (\<lambda>x. Q (Some x)) (Q None) B ts p"
  shows "wpp (attempt m) Q F B ts p"
proof (rule wppI)
  fix s :: parser
  assume s: "placed B ts s" "m_pos s = p"
  from wppD [OF assms s] show "outcome_ok Q F B ts (attempt m s)"
    by (cases "m s") (auto simp: attempt_def)
qed

lemma placed_moved [simp]: "placed B ts (s\<lparr>m_pos := p\<rparr>) = placed B ts s"
  by (simp add: placed_def)

lemma wpp_basic [wpps]:
  "Q x p \<Longrightarrow> wpp (ret x) Q F B ts p"
  "F p \<Longrightarrow> wpp failing Q F B ts p"
  "wpp undef Q F B ts p"
  by (auto simp: wpp_def ret_def failing_def undef_def)

lemma wpp_moving [wpps]:
  "(p < length ts \<Longrightarrow> Q (ts ! p) (Suc p)) \<Longrightarrow> wpp nextToken Q F B ts p"
  "R () (p - k) \<Longrightarrow> wpp (rewind k) R F B ts p"
  "S (p < length ts) p \<Longrightarrow> wpp moreTokens S F B ts p"
  by (auto simp: wpp_def ret_def failing_def undef_def nextToken_def rewind_def modify_def moreTokens_def reads_def placed_def)

lemma wpp_expect [wpps]: "(p < length ts \<Longrightarrow> Q (ts ! p) (Suc p) \<and> F (Suc p)) \<Longrightarrow> wpp (expect ty) Q F B ts p"
  unfolding expect_def by (intro wpps) (auto intro: wpps)

lemma wpp_quiet:
  assumes "quiet m" and "\<And>x. Q x p" and "F p"
  shows "wpp m Q F B ts p"
proof (rule wppI)
  fix s :: parser
  assume "placed B ts s" "m_pos s = p"
  with assms show "outcome_ok Q F B ts (m s)"
    by (cases "m s") (auto simp: quiet_def kept_def placed_def dest!: spec [of _ s])
qed

text \<open>A new block is younger than those there are; a block can become the child of an older one.\<close>

lemma wpp_newBlock: "(\<And>b. B \<le> b \<Longrightarrow> Q b p) \<Longrightarrow> wpp (newBlock f) Q F B ts p"
  by (auto simp: wpp_def placed_def newBlock_def lined_def shape_def intro: ordered_new)

lemma wpp_parent:
  assumes "c < b" and "Q () p"
  shows "wpp (updBlock b (\<lambda>k. k\<lparr>b_parent := Some c\<rparr>)) Q F B ts p"
proof (rule wppI)
  fix s assume s: "placed B ts s" "m_pos s = p"
  have l: "lined s" using s(1) by (simp add: placed_def)
  then have "lined (s\<lparr>p_blocks := (p_blocks s)[b := (p_blocks s ! b)\<lparr>b_parent := Some c\<rparr>]\<rparr>)" if b: "b < length (p_blocks s)"
    by (rule lined_update [OF _ b]) (use assms(1) linedD(2) [OF l b] in simp_all)
  then show "outcome_ok Q F B ts (updBlock b (\<lambda>k. k\<lparr>b_parent := Some c\<rparr>) s)"
    using s assms(2) by (auto simp: updBlock_def getBlock_def bind_step_def modify_def placed_def)
qed

lemma wpp_adopt:
  assumes "c < b" and "Q () p"
  shows "wpp (adopt c b) Q F B ts p"
proof (rule wppI)
  fix s assume s: "placed B ts s" "m_pos s = p"
  show "outcome_ok Q F B ts (adopt c b s)"
  proof (cases "b < length (p_blocks s) \<and> b \<notin> set (p_freed s) \<and> c \<notin> set (p_freed s)")
    case True
    let ?k = "p_blocks s ! b" and ?l = "p_blocks s ! c"
    let ?t = "s\<lparr>p_blocks := (p_blocks s)[b := ?k\<lparr>b_parent := Some c\<rparr>]\<rparr>"
    let ?u = "?t\<lparr>p_blocks := (p_blocks ?t)[c := ?l\<lparr>b_childBlocks := b_childBlocks ?l @ [b]\<rparr>]\<rparr>"
    have len: "b < length (p_blocks s)" "c < length (p_blocks ?t)" using True assms(1) by simp_all
    have l: "lined s" using s(1) by (simp add: placed_def)
    have t: "lined ?t" by (rule lined_update [OF l len(1)]) (use assms(1) linedD(2) [OF l len(1)] in simp_all)
    have c: "c < length (p_blocks s)" using len(2) by simp
    have "lined ?u"
    proof (rule lined_update [OF t len(2)])
      show "p < c" if "b_parent (?l\<lparr>b_childBlocks := b_childBlocks ?l @ [b]\<rparr>) = Some p" for p
        using linedD(1) [OF l c] that by simp
      show "c < d \<and> d < length (p_blocks ?t)" if "d \<in> set (b_childBlocks (?l\<lparr>b_childBlocks := b_childBlocks ?l @ [b]\<rparr>))" for d
        using linedD(2) [OF l c, of d] assms(1) len(1) that by (cases "d = b") simp_all
    qed
    moreover have "adopt c b s = Ret () ?u"
      using True assms(1) by (simp add: adopt_def updBlock_def getBlock_def bind_step_def modify_def)
    ultimately show ?thesis using s assms(2) by (simp add: placed_def)
  qed (use assms(1) in \<open>auto simp: adopt_def updBlock_def getBlock_def bind_step_def modify_def\<close>)
qed

lemma wpp_getBlock:
  assumes "\<And>k. wpp (f k) Q F (max B (Suc b)) ts p"
  shows "wpp (bind_step (getBlock b) f) Q F B ts p"
proof (rule wppI)
  fix s assume s: "placed B ts s" "m_pos s = p"
  have weaken: "outcome_ok Q F (max B C) ts r \<Longrightarrow> outcome_ok Q F B ts r" for C r
    by (cases r) (auto simp: placed_def)
  show "outcome_ok Q F B ts (bind_step (getBlock b) f s)"
  proof (cases "b < length (p_blocks s) \<and> b \<notin> set (p_freed s)")
    case True
    with s(1) have "placed (max B (Suc b)) ts s" by (simp add: placed_def)
    from weaken [OF wppD [OF assms this s(2)]] True show ?thesis by (simp add: getBlock_def bind_step_def)
  qed (auto simp: getBlock_def bind_step_def)
qed

text \<open>The form in which the results about the parser's functions are stated and used.\<close>

definition moves :: "'a step \<Rightarrow> nat \<Rightarrow> Token list \<Rightarrow> nat \<Rightarrow> bool" where
  "moves m k ts p \<longleftrightarrow> (\<forall>B. wpp m (\<lambda>x q. p + k \<le> q \<and> q \<le> length ts) (\<lambda>q. p \<le> q \<and> q \<le> length ts) B ts p)"

text \<open>The result is a new block.\<close>

definition builds :: "addr step \<Rightarrow> Token list \<Rightarrow> nat \<Rightarrow> bool" where
  "builds m ts p \<longleftrightarrow> (\<forall>B. wpp m (\<lambda>b q. B \<le> b \<and> p \<le> q \<and> q \<le> length ts) (\<lambda>q. p \<le> q \<and> q \<le> length ts) B ts p)"

lemma wpp_moves:
  "moves m k ts p \<Longrightarrow> (\<And>x q. p + k \<le> q \<Longrightarrow> q \<le> length ts \<Longrightarrow> Q x q) \<Longrightarrow> (\<And>q. p \<le> q \<Longrightarrow> q \<le> length ts \<Longrightarrow> F q) \<Longrightarrow> wpp m Q F B ts p"
  unfolding moves_def by (erule allE, erule wpp_mono) auto

lemma wpp_builds:
  "builds m ts p \<Longrightarrow> (\<And>b q. B \<le> b \<Longrightarrow> p \<le> q \<Longrightarrow> q \<le> length ts \<Longrightarrow> Q b q) \<Longrightarrow> (\<And>q. p \<le> q \<Longrightarrow> q \<le> length ts \<Longrightarrow> F q) \<Longrightarrow> wpp m Q F B ts p"
  unfolding builds_def by (erule allE, erule wpp_mono) auto

lemma buildsI: "(\<And>B. wpp m (\<lambda>b q. B \<le> b \<and> p \<le> q \<and> q \<le> length ts) (\<lambda>q. p \<le> q \<and> q \<le> length ts) B ts p) \<Longrightarrow> builds m ts p"
  by (simp add: builds_def)

lemma wpp_cases [wpps]:
  "(b \<Longrightarrow> wpp m1 Q F B ts p) \<Longrightarrow> (\<not> b \<Longrightarrow> wpp m2 Q F B ts p) \<Longrightarrow> wpp (if b then m1 else m2) Q F B ts p"
  "(x = None \<Longrightarrow> wpp m1 Q F B ts p) \<Longrightarrow> (\<And>y. x = Some y \<Longrightarrow> wpp (g y) Q F B ts p) \<Longrightarrow>
     wpp (case x of None \<Rightarrow> m1 | Some y \<Rightarrow> g y) Q F B ts p"
  "(\<And>y z. w = (y, z) \<Longrightarrow> wpp (h y z) Q F B ts p) \<Longrightarrow> wpp (case w of (y, z) \<Rightarrow> h y z) Q F B ts p"
  by (auto split: option.split prod.split)

lemma movesI: "(\<And>B. wpp m (\<lambda>x q. p + k \<le> q \<and> q \<le> length ts) (\<lambda>q. p \<le> q \<and> q \<le> length ts) B ts p) \<Longrightarrow> moves m k ts p"
  by (simp add: moves_def)

lemma moves_quiet: "quiet m \<Longrightarrow> p \<le> length ts \<Longrightarrow> moves m 0 ts p"
  by (rule movesI, rule wpp_quiet) auto

section \<open>Lists, identifiers and trees\<close>

lemma moves_identifier_rest:
  "length ts - p < n \<Longrightarrow> p \<le> length ts \<Longrightarrow> moves (identifier_rest n ids) 0 ts p"
proof (induction n arbitrary: ids p)
  case (Suc n)
  note ih = wpp_moves [OF Suc.IH]
  from Suc.prems show ?case
    by (intro movesI) (auto intro!: wpps ih)
qed simp

lemma moves_identifier:
  "length ts - p \<le> n \<Longrightarrow> p \<le> length ts \<Longrightarrow> moves (parseIdentifier n) 1 ts p"
  unfolding parseIdentifier_def
  by (intro movesI wpps) (auto intro!: wpp_moves [OF moves_identifier_rest])

lemma moves_list_items:
  "length ts - p < n \<Longrightarrow> p \<le> length ts \<Longrightarrow> moves (list_items n ty acc) 0 ts p"
proof (induction n arbitrary: acc p ty)
  case (Suc n)
  note ih = wpp_moves [OF Suc.IH]
  from Suc.prems show ?case
    by (intro movesI) (auto intro!: wpps ih)
qed simp

lemma moves_list:
  "length ts - p \<le> n \<Longrightarrow> p \<le> length ts \<Longrightarrow> moves (parseList n ty) 1 ts p"
  unfolding parseList_def
  by (intro movesI wpps) (auto intro!: wpp_moves [OF moves_list_items])

lemma moves_dotted_class:
  "length ts - p < n \<Longrightarrow> p \<le> length ts \<Longrightarrow>
     wpp (dotted_class n pe name count token) (\<lambda>(c, k) q. p \<le> q \<and> q \<le> length ts \<and> q + count = p + k) (\<lambda>q. p \<le> q \<and> q \<le> length ts) B ts p"
proof (induction n arbitrary: name count token p)
  case (Suc n)
  note ih = wpp_mono [OF Suc.IH]
  from Suc.prems show ?case
    by (auto simp: Let_def intro!: wpps wpp_quiet [OF quiet_names(4)] ih)
qed simp

lemma moves_class_prefix:
  "length ts - p \<le> n \<Longrightarrow> p \<le> length ts \<Longrightarrow> 1 \<le> p \<Longrightarrow> moves (class_prefix n pe ident) 0 ts p"
  unfolding class_prefix_def
  by (auto intro!: movesI wpps wpp_quiet [OF quiet_names(4)] wpp_quiet [OF quiet_names(2)] wpp_mono [OF moves_dotted_class])

text \<open>\<open>buildTree\<close> takes one entry of the queue at least, so the length of the queue bounds it.\<close>

lemma wpp_operation [wpps]:
  "(\<And>oper d l r. n = POper oper d l r \<Longrightarrow> wpp (f oper d l r) Q F B ts p) \<Longrightarrow>
   ((\<And>oper d l r. n \<noteq> POper oper d l r) \<Longrightarrow> wpp g Q F B ts p) \<Longrightarrow>
     wpp (case n of POper oper d l r \<Rightarrow> f oper d l r | _ \<Rightarrow> g) Q F B ts p"
  by (cases n) auto

lemma tree_quiet:
  "length q < n \<Longrightarrow> wpp (buildTree n code q) (\<lambda>(x, q') k. k = p \<and> length q' < length q) (\<lambda>k. k = p) B ts p"
proof (induction n arbitrary: q)
  case (Suc n)
  note ih = wpp_mono [OF Suc.IH]
  have qt: "quiet (steps [set_right x r, setParent r x])" "quiet (steps [set_left x l, setParent l x])" for x l r
    by (intro quiets; auto intro: quiets)+
  show ?case
  proof (cases q)
    case (Cons a q1)
    with Suc.prems show ?thesis
      by (cases a) (auto simp del: steps.simps intro!: wpps ih
          wpp_quiet [OF quiet_store(1)] wpp_quiet [OF quiet_basic(5)]
          wpp_quiet [OF qt(1)] wpp_quiet [OF qt(2)] wpp_quiet [OF quiet_tree(1)] wpp_quiet [OF quiet_tree(2)])
  qed (auto intro!: wpps)
qed simp

lemma moves_finish: "p \<le> length ts \<Longrightarrow> moves (finish_expression code q ops) 0 ts p"
  unfolding finish_expression_def Let_def
  by (intro movesI wpps) (rule wpp_mono [OF tree_quiet], auto intro!: wpps)

section \<open>Statements\<close>

text \<open>
  Behind the statement's first token, at position \<open>p\<close>, given what the calls back into the parser do
  from there on; the block \<open>code\<close> is there. An expression statement steps back over that token first.
\<close>

definition moves_after :: "addr \<Rightarrow> 'a step \<Rightarrow> Token list \<Rightarrow> nat \<Rightarrow> bool" where
  "moves_after code m ts p \<longleftrightarrow>
     (\<forall>B > code. wpp m (\<lambda>x q. p \<le> q \<and> q \<le> length ts) (\<lambda>q. p - 1 \<le> q \<and> q \<le> length ts) B ts p)"

lemma moves_afterI:
  "(\<And>B. code < B \<Longrightarrow> wpp m (\<lambda>x q. p \<le> q \<and> q \<le> length ts) (\<lambda>q. p - 1 \<le> q \<and> q \<le> length ts) B ts p) \<Longrightarrow> moves_after code m ts p"
  by (simp add: moves_after_def)

lemmas wpp_quiets = wpp_quiet [OF quiet_store(1)] wpp_quiet [OF quiet_store(3)] wpp_quiet [OF quiet_store(5)]
  wpp_quiet [OF quiet_store(8)] wpp_quiet [OF quiet_derived(3)] wpp_quiet [OF quiet_derived(4)]
  wpp_quiet [OF quiet_derived(5)] wpp_quiet [OF quiet_derived(7)]
  wpp_quiet [OF quiet_derived(10)] wpp_quiet [OF quiet_delete] wpp_quiet [OF quiet_numbering]
  wpp_quiet [OF quiet_names(3)] wpp_quiet [OF quiet_names(5)] wpp_quiet [OF quiet_names(6)] wpp_quiet [OF quiet_names(7)]

lemma quiet_groups:
  "quiet (steps [set_for x f, setParent y x])" "quiet (steps [set_node x n, listExpr x, addStatement b x])"
  by (intro quiets; auto intro: quiets)+

lemma wpp_groups:
  "c < b \<Longrightarrow> Q () p \<Longrightarrow> F p \<Longrightarrow> wpp (steps [set_for x f, adopt c b, addStatement c x]) Q F B ts p"
  "c < b \<Longrightarrow> Q () p \<Longrightarrow> F p \<Longrightarrow>
     wpp (steps [set_node x n, updBlock b (\<lambda>k. k\<lparr>b_parent := Some c\<rparr>), addVar b v]) Q F B ts p"
  by (auto intro!: wpps wpp_adopt wpp_parent quiet_derived [THEN wpp_quiet])

lemmas wpp_linked = quiet_groups [THEN wpp_quiet] wpp_groups wpp_adopt wpp_parent

definition calls_ok :: "addr step \<Rightarrow> addr step \<Rightarrow> (addr \<Rightarrow> bool step) \<Rightarrow> Token list \<Rightarrow> nat \<Rightarrow> bool" where
  "calls_ok parseExpr parseBlock parseStmt ts p \<longleftrightarrow> 1 \<le> p \<and> p \<le> length ts
     \<and> (\<forall>q. p - 1 \<le> q \<longrightarrow> q \<le> length ts \<longrightarrow> moves parseExpr 0 ts q)
     \<and> (\<forall>q. p \<le> q \<longrightarrow> q \<le> length ts \<longrightarrow> builds parseBlock ts q)
     \<and> (\<forall>q b. p \<le> q \<longrightarrow> q \<le> length ts \<longrightarrow> moves (parseStmt b) 1 ts q)"

lemma calls_okD:
  assumes "calls_ok parseExpr parseBlock parseStmt ts p"
  shows "1 \<le> p" "p \<le> length ts"
    "p - 1 \<le> q \<Longrightarrow> q \<le> length ts \<Longrightarrow> moves parseExpr 0 ts q"
    "p \<le> q \<Longrightarrow> q \<le> length ts \<Longrightarrow> builds parseBlock ts q"
    "p \<le> q \<Longrightarrow> q \<le> length ts \<Longrightarrow> moves (parseStmt b) 1 ts q"
  using assms by (auto simp: calls_ok_def)

lemmas calls = wpp_moves [OF calls_okD(3)] wpp_builds [OF calls_okD(4)] wpp_moves [OF calls_okD(5)]

lemma moves_statement_var:
  assumes c: "calls_ok parseExpr parseBlock parseStmt ts p"
  shows "moves_after code (statement_var parseExpr code) ts p"
  unfolding statement_var_def using c calls_okD(1,2) [OF c] by (auto intro!: moves_afterI wpps wpp_quiets wpp_linked calls [OF c])

lemma moves_statement_else:
  assumes c: "calls_ok parseExpr parseBlock parseStmt ts p"
  shows "p \<le> q \<Longrightarrow> q \<le> length ts \<Longrightarrow> builds (statement_else parseStmt parseBlock blk) ts q"
  unfolding statement_else_def using c calls_okD(1,2) [OF c] by (auto intro!: buildsI wpps wpp_newBlock wpp_quiets calls [OF c])

lemma moves_statement_if:
  assumes c: "calls_ok parseExpr parseBlock parseStmt ts p"
  shows "moves_after code (statement_if parseExpr parseStmt parseBlock code blk) ts p"
  unfolding statement_if_def using c calls_okD(1,2) [OF c]
  by (auto intro!: moves_afterI wpps wpp_quiets wpp_linked calls [OF c] wpp_builds [OF moves_statement_else [OF c]])

lemma moves_statement_for:
  assumes c: "calls_ok parseExpr parseBlock parseStmt ts p"
  shows "moves_after code (statement_for parseExpr parseBlock code) ts p"
  unfolding statement_for_def using c calls_okD(1,2) [OF c]
  by (auto simp del: steps.simps intro!: moves_afterI wpps wpp_quiets wpp_linked calls [OF c])

lemma moves_statement_while:
  assumes c: "calls_ok parseExpr parseBlock parseStmt ts p"
  shows "moves_after code (statement_while parseExpr parseBlock code) ts p"
  unfolding statement_while_def using c calls_okD(1,2) [OF c]
  by (auto simp del: steps.simps intro!: moves_afterI wpps wpp_quiets wpp_linked calls [OF c])

lemma moves_statement_return:
  assumes c: "calls_ok parseExpr parseBlock parseStmt ts p"
  shows "moves_after code (statement_return parseExpr code) ts p"
  unfolding statement_return_def using c calls_okD(1,2) [OF c] by (auto intro!: moves_afterI wpps wpp_quiets wpp_linked calls [OF c])

lemma moves_statement_try:
  assumes c: "calls_ok parseExpr parseBlock parseStmt ts p"
  shows "moves_after code (statement_try parseBlock code) ts p"
  unfolding statement_try_def using c calls_okD(1,2) [OF c]
  by (auto simp del: steps.simps intro!: moves_afterI wpps wpp_quiets wpp_linked calls [OF c])

lemma moves_statement_throw:
  assumes c: "calls_ok parseExpr parseBlock parseStmt ts p"
  shows "moves_after code (statement_throw parseExpr code) ts p"
  unfolding statement_throw_def using c calls_okD(1,2) [OF c]
  by (auto simp del: steps.simps intro!: moves_afterI wpps wpp_quiets wpp_linked calls [OF c])

lemma moves_statement_expression:
  assumes c: "calls_ok parseExpr parseBlock parseStmt ts p"
  shows "moves_after code (statement_expression parseExpr code) ts p"
  unfolding statement_expression_def using c calls_okD(1,2) [OF c] by (auto intro!: moves_afterI wpps wpp_quiets wpp_linked calls [OF c])

section \<open>The parser's functions\<close>

text \<open>
  Every function with the fuel it needs for the \<open>r\<close> tokens left: 6 for each of them, and a little
  more for those further up in the call order.
\<close>

lemma quiet_setStatic: "quiet (updFunction f g)"
  by (rule quiets)

lemma moves_value_identifier:
  assumes "\<And>q x. p < q \<Longrightarrow> q \<le> length ts \<Longrightarrow> moves (cp x) 0 ts q"
    and "\<And>q. p \<le> q \<Longrightarrow> q \<le> length ts \<Longrightarrow> moves pl 0 ts q"
    and "\<And>q. p < q \<Longrightarrow> q \<le> length ts \<Longrightarrow> moves pi 0 ts q" and "p \<le> length ts"
  shows "moves (value_identifier cp pl pi code token) 0 ts p"
  using assms(4) unfolding value_identifier_def
  by (auto intro!: movesI wpps wpp_quiets wpp_moves [OF assms(1)] wpp_moves [OF assms(2)] wpp_moves [OF assms(3)])

lemma moves_value_new:
  assumes "moves pi 1 ts p" and "\<And>q. p \<le> q \<Longrightarrow> q \<le> length ts \<Longrightarrow> moves pl 0 ts q"
  shows "moves (value_new pi pl code) 0 ts p"
  unfolding value_new_def
  by (auto intro!: movesI wpps wpp_quiets wpp_moves [OF assms(1)] wpp_moves [OF assms(2)])

lemma parser_moves:
  "p \<le> length ts \<Longrightarrow> 6 * (length ts - p) + 3 \<le> n \<Longrightarrow> moves (parseExpression n pe code et) 0 ts p"
  "p \<le> length ts \<Longrightarrow> 6 * (length ts - p) + 2 \<le> n \<Longrightarrow> moves (expression_loop n pe code et q ops br) 0 ts p"
  "p \<le> length ts \<Longrightarrow> 6 * (length ts - p) + 1 \<le> n \<Longrightarrow> moves (parseExpressionValue n pe code) 1 ts p"
  "p \<le> length ts \<Longrightarrow> 6 * (length ts - p) + 1 \<le> n \<Longrightarrow> moves (parseExpressionList n pe code) 1 ts p"
  "p \<le> length ts \<Longrightarrow> 6 * (length ts - p) + 4 \<le> n \<Longrightarrow> moves (expression_items n pe code acc) 0 ts p"
  "p \<le> length ts \<Longrightarrow> 6 * (length ts - p) + 2 \<le> n \<Longrightarrow> moves (parseFunction n pe f) 1 ts p"
  "p \<le> length ts \<Longrightarrow> 6 * (length ts - p) + 6 \<le> n \<Longrightarrow> builds (parseCodeBlock n pe f) ts p"
  "p \<le> length ts \<Longrightarrow> 6 * (length ts - p) + 5 \<le> n \<Longrightarrow> moves (block_loop n pe code) 0 ts p"
  "p \<le> length ts \<Longrightarrow> 6 * (length ts - p) + 4 \<le> n \<Longrightarrow> moves (parseStatement n pe code) 1 ts p"
proof (induction n arbitrary: p code et q ops br acc f)
  case (Suc n)
  note E = wpp_moves [OF Suc.IH(1)] and L = wpp_moves [OF Suc.IH(2)] and V = wpp_moves [OF Suc.IH(3)]
    and PL = wpp_moves [OF Suc.IH(4)] and I = wpp_moves [OF Suc.IH(5)] and F = wpp_moves [OF Suc.IH(6)]
    and B = wpp_builds [OF Suc.IH(7)] and BL = wpp_moves [OF Suc.IH(8)] and S = wpp_moves [OF Suc.IH(9)]
  {
    case 1
    then show ?case by (auto intro!: movesI L)
  next
    case 2
    then show ?case
      by (auto simp: Let_def intro!: movesI wpps wpp_quiets wpp_moves [OF moves_finish] V L)
  next
    case 3
    then show ?case
      by (auto intro!: movesI wpps wpp_quiets F PL E wpp_moves [OF moves_value_new] wpp_moves [OF moves_value_identifier]
          wpp_moves [OF moves_identifier] wpp_moves [OF moves_class_prefix])
  next
    case 4
    then show ?case by (auto intro!: movesI wpps I)
  next
    case 5
    then show ?case by (auto intro!: movesI wpps E I)
  next
    case 6
    then show ?case
      by (auto intro!: movesI wpps wpp_quiets B wpp_moves [OF moves_list])
  next
    case 7
    then show ?case by (auto intro!: buildsI wpps wpp_quiets wpp_newBlock BL)
  next
    case 8
    then show ?case by (auto intro!: movesI wpps S BL)
  next
    case 9
    have stm: "p < length ts \<Longrightarrow> wpp m Q F B ts (Suc p)" if "moves_after code m ts (Suc p)"
      "\<And>x q. p < q \<Longrightarrow> q \<le> length ts \<Longrightarrow> Q x q" "\<And>q. p \<le> q \<Longrightarrow> q \<le> length ts \<Longrightarrow> F q"
      "code < B" for m :: "bool step" and Q F B
    proof (rule wpp_mono)
      show "wpp m (\<lambda>x q. Suc p \<le> q \<and> q \<le> length ts) (\<lambda>q. Suc p - 1 \<le> q \<and> q \<le> length ts) B ts (Suc p)"
        using that(1,4) by (simp add: moves_after_def)
    qed (use that in auto)
    have c: "calls_ok (parseExpression n pe code TOK_ANY) (parseCodeBlock n pe b) (parseStatement n pe) ts (Suc p)"
      if "p < length ts" for b
      unfolding calls_ok_def using 9 that by (auto intro!: Suc.IH(1) Suc.IH(7) Suc.IH(9) [unfolded One_nat_def])
    have r: "p < length ts \<Longrightarrow> moves_after code (ret True) ts (Suc p)"
      by (auto intro!: moves_afterI wpps)
    show ?case unfolding parseStatement.simps Let_def
      by (rule movesI, rule wpp_bind, rule wpp_moving(1), rule wpp_getBlock)
        (use 9 in \<open>auto simp: max_def intro!: stm split: TokenType.split
          intro!: r moves_statement_var [OF c] moves_statement_if [OF c] moves_statement_for [OF c] moves_statement_while [OF c]
          moves_statement_return [OF c] moves_statement_try [OF c] moves_statement_throw [OF c] moves_statement_expression [OF c]\<close>)
  }
qed simp_all

section \<open>Files\<close>

lemma quiet_classes [quiets]:
  "quiet (update_class c g)" "quiet (delete_class c)" "quiet (static_value pe t)" "quiet (class_of c)"
  "quiet (new_script_class pe c name)"
proof -
  show u: "quiet (update_class c g)" unfolding update_class_def by (intro quiets)
  show "quiet (delete_class c)" unfolding delete_class_def by (intro quiet_modify) (simp add: Let_def)
  show "quiet (static_value pe t)"
    unfolding static_value_def by (auto intro!: quiets split: TokenType.split)
  show c: "quiet (class_of c)" for c by (auto simp: quiet_def class_of_def split: option.split intro: kept_same)
  show "quiet (new_script_class pe c name)"
    unfolding new_script_class_def by (auto intro!: quiets c)
qed

lemmas wpp_class_quiets = quiet_classes [THEN wpp_quiet] wpp_quiet [OF quiet_names(1)]
  wpp_quiet [OF quiet_names(4)] wpp_quiet [OF quiet_basic(4)] wpp_quiet [OF quiet_basic(6)] wpp_quiet [OF quiet_resolveTypes]

lemma moves_member_var: "p \<le> length ts \<Longrightarrow> moves (member_var pe c) 0 ts p"
  unfolding member_var_def by (auto intro!: movesI wpps wpp_quiets wpp_class_quiets)

lemma moves_member_function:
  "p \<le> length ts \<Longrightarrow> 6 * (length ts - p) + 2 \<le> n \<Longrightarrow> moves (member_function n pe c) 0 ts p"
  unfolding member_function_def
  by (auto intro!: movesI wpps wpp_quiets wpp_class_quiets wpp_moves [OF parser_moves(6)])

lemma moves_class_members:
  "p \<le> length ts \<Longrightarrow> 6 * (length ts - p) + 3 \<le> n \<Longrightarrow> moves (class_members n pe c) 0 ts p"
proof (induction n arbitrary: p)
  case (Suc n)
  note ih = wpp_moves [OF Suc.IH] wpp_moves [OF moves_member_var] wpp_moves [OF moves_member_function]
  from Suc.prems show ?case
    by (cases "tok_type (ts ! p)") (auto intro!: movesI wpps ih)
qed simp

lemma moves_parseClass:
  "p \<le> length ts \<Longrightarrow> 6 * (length ts - p) + 3 \<le> n \<Longrightarrow> moves (parseClass n pe add) 0 ts p"
  unfolding parseClass_def Let_def
  by (auto intro!: movesI wpps wpp_quiets wpp_class_quiets wpp_moves [OF moves_identifier] wpp_moves [OF moves_class_members])

lemma moves_imports:
  "p \<le> length ts \<Longrightarrow> length ts - p < n \<Longrightarrow> moves (parse_imports n) 0 ts p"
proof (induction n arbitrary: p)
  case (Suc n)
  from Suc.prems show ?case
    by (auto intro!: movesI wpps wpp_class_quiets wpp_moves [OF Suc.IH] wpp_moves [OF moves_identifier])
qed simp

lemma moves_classes:
  "p \<le> length ts \<Longrightarrow> 6 * (length ts - p) + 3 \<le> n \<Longrightarrow> moves (parse_classes n pe add) 0 ts p"
proof (induction n arbitrary: p)
  case (Suc n)
  from Suc.prems show ?case
    by (auto intro!: movesI wpps wpp_moves [OF Suc.IH] wpp_moves [OF moves_parseClass])
qed simp


text \<open>\<open>class C { function f(a) { while (a) { var x; } } }\<close>.\<close>

definition class_tokens :: "Token list" where
  "class_tokens =
    (let tk = (\<lambda>ty. blank_token ty 1); name = (\<lambda>x. (blank_token TOK_IDENTIFIER 1)\<lparr>tok_string := wstr x\<rparr>)
     in [tk TOK_CLASS, name ''C'', tk TOK_BRACE_LEFT, tk TOK_FUNCTION, name ''f'', tk TOK_BRACKET_LEFT, name ''a'',
      tk TOK_BRACKET_RIGHT, tk TOK_BRACE_LEFT, tk TOK_WHILE, tk TOK_BRACKET_LEFT, name ''a'', tk TOK_BRACKET_RIGHT,
      tk TOK_BRACE_LEFT, tk TOK_VAR, name ''x'', tk TOK_SEMICOLON, tk TOK_BRACE_RIGHT, tk TOK_BRACE_RIGHT, tk TOK_BRACE_RIGHT])"

definition no_loader :: penv where
  "no_loader = \<lparr>pe_env = sample_env, pe_load = \<lambda>_ _ s. Some (0, s)\<rparr>"


end
