(* ===== verification/LexerFacts.thy ===== *)
theory LexerFacts
  imports Lexer
begin

text \<open>
  Facts about the lexer. It never reads outside the file buffer, whatever the file holds: the zeros
  behind the text stop every loop. And it is a left inverse of printing: words, integers and symbols
  written with spaces between them are read back as those tokens.
\<close>

section \<open>Reading inside the buffer\<close>

definition safe :: "'a res \<Rightarrow> bool" where
  "safe m \<longleftrightarrow> m \<noteq> Inl BadRead"

lemma safe_simps [simp]: "safe (Inr x)" "safe (Inl not_enough_room)" "safe (Inl (invalid_utf8 b))" "safe (Inl (invalid_code_point c))"
  by (simp_all add: safe_def)

lemma safe_rbind: "safe m \<Longrightarrow> (\<And>x. m = Inr x \<Longrightarrow> safe (f x)) \<Longrightarrow> safe (rbind m f)"
  by (cases m) (auto simp: safe_def)

lemma safe_rd [simp]: "safe (rd buf i) \<longleftrightarrow> i < length buf"
  by (simp add: rd_def safe_def)

lemma safe_increase:
  assumes "it < e" and "e < length buf" and "\<And>c. it + 1 < e \<Longrightarrow> safe (k (it + 1) c)"
  shows "safe (increase_or_return buf e it cp k)"
  using assms by (auto simp: increase_or_return_def increase_safely_def Let_def rd_def)

lemma safe_get_sequence: "it \<le> e \<Longrightarrow> e < length buf \<Longrightarrow> safe (get_sequence n buf e it)"
  by (auto simp: get_sequence_def get_sequence_1_def get_sequence_2_def get_sequence_3_def get_sequence_4_def
      Let_def rd_def intro!: safe_increase)

text \<open>\<open>utf8::next\<close> checks the end, so it reads the zero behind the text at most.\<close>

lemma safe_next: "it \<le> e \<Longrightarrow> e < length buf \<Longrightarrow> safe (utf8_next buf e it)"
proof -
  assume a: "it \<le> e" "e < length buf"
  have v: "safe (validate_next buf e it)"
    unfolding validate_next_def Let_def
    using a safe_get_sequence [OF a] by (auto intro!: safe_rbind split: if_splits)
  have "it' < length buf" if "validate_next buf e it = Inr (err, it', cp)" "err \<noteq> UTF8_OK" for err it' cp
    using that a by (auto simp: validate_next_def Let_def rd_def elim!: rbind_InrE split: if_splits prod.splits)
  with v show ?thesis
    by (auto simp: utf8_next_def split: utf_error.splits intro!: safe_rbind)
qed

lemma safe_peek: "it \<le> e \<Longrightarrow> e < length buf \<Longrightarrow> safe (peek_next buf e it)"
  by (auto simp: peek_next_def intro!: safe_rbind safe_next)

lemma safe_prior:
  assumes "utf8_next buf e it = Inr (c, it')" and "it \<le> e"
  shows "safe (prior buf e it')" "safe (prior buf 0 it')"
proof -
  from next_sound [OF assms] have s: "it < it'" "it' \<le> e" by auto
  show "safe (prior buf e it')"
  proof (cases "it' = e")
    case False
    with s prior_next [OF assms, of e] show ?thesis by simp
  qed (simp add: prior_def)
  show "safe (prior buf 0 it')" using prior_next [OF assms, of 0] by simp
qed

lemma next_le: "utf8_next buf e it = Inr (c, it') \<Longrightarrow> it \<le> e \<Longrightarrow> it < it' \<and> it' \<le> e"
  using next_sound by blast

lemma safe_line_comment: "pos \<le> e \<Longrightarrow> e < length buf \<Longrightarrow> safe (line_comment buf e pos line)"
proof (induction pos rule: forward_induct [where n = e])
  case (step pos)
  show ?case
    by (subst line_comment.simps) (auto intro!: safe_rbind safe_peek safe_next step dest: next_le)
qed

lemma safe_block_comment: "pos \<le> e \<Longrightarrow> e < length buf \<Longrightarrow> safe (block_comment buf e pos line)"
proof (induction pos arbitrary: line rule: forward_induct [where n = e])
  case (step pos)
  have n: "safe (peek_next buf e q)" "safe (utf8_next buf e q)" if "q \<le> e" for q
    using that step(3) safe_peek safe_next by auto
  have m: "safe (block_comment buf e q l)" if "pos < q" "q \<le> e" for q l using step that by simp
  show ?case
    by (subst block_comment.simps)
       (use step(2) n m in \<open>auto intro!: safe_rbind dest!: next_le dest: less_imp_le less_trans\<close>)
qed

lemma safe_lex_exponent: "pos \<le> e \<Longrightarrow> e < length buf \<Longrightarrow> safe (lex_exponent buf e pos ex)"
proof (induction pos arbitrary: ex rule: forward_induct [where n = e])
  case (step pos)
  show ?case
    by (subst lex_exponent.simps)
       (auto intro!: safe_rbind safe_next step dest: next_le safe_prior(1) [OF _ step(2)])
qed

lemma safe_lex_number:
  "utf8_next buf e it = Inr (cur, pos) \<Longrightarrow> it \<le> e \<Longrightarrow> e < length buf \<Longrightarrow> safe (lex_number buf e pos cur str dot)"
proof (induction pos arbitrary: it cur str dot rule: forward_induct [where n = e])
  case (step pos)
  have pe: "pos \<le> e" using next_le [OF step(2,3)] by simp
  have rec: "safe (lex_number buf e p c str dot)" if "utf8_next buf e pos = Inr (c, p)" for p c str dot
    using step(1) [OF _ _ that pe step(4)] next_le [OF that pe] by simp
  have ex: "safe (lex_exponent buf e p x)" if "utf8_next buf e pos = Inr (c, p)" for p c x
    using next_le [OF that pe] step(4) by (intro safe_lex_exponent) auto
  show ?case
    by (subst lex_number.simps)
       (use pe step(4) rec ex safe_prior(1) [OF step(2,3)] in \<open>auto intro!: safe_rbind safe_next\<close>)
qed

lemma safe_lex_string: "pos \<le> e \<Longrightarrow> e < length buf \<Longrightarrow> safe (lex_string buf e pos str)"
proof (induction pos arbitrary: str rule: forward_induct [where n = e])
  case (step pos)
  have m: "safe (lex_string buf e q l)" if "pos < q" "q \<le> e" for q l using step that by simp
  show ?case
    by (subst lex_string.simps)
       (use step(2,3) m in \<open>auto intro!: safe_rbind safe_next dest!: next_le dest: less_imp_le less_trans\<close>)
qed

lemma safe_lex_identifier: "pos \<le> e \<Longrightarrow> e < length buf \<Longrightarrow> safe (lex_identifier buf e pos str)"
proof (induction pos arbitrary: str rule: forward_induct [where n = e])
  case (step pos)
  show ?case
    by (subst lex_identifier.simps) (auto intro!: safe_rbind safe_peek safe_next step dest: next_le)
qed

section \<open>Words\<close>

text \<open>
  Behind the text there are enough zeros for every comparison with a word of the table.
\<close>

definition padded :: "byte list \<Rightarrow> nat \<Rightarrow> bool" where
  "padded buf e \<longleftrightarrow> e + 10 \<le> length buf \<and> (\<forall>i. e \<le> i \<and> i < length buf \<longrightarrow> buf ! i = 0)"

lemma padded_content: "padded (content @ replicate 128 0) (length content)"
  by (auto simp: padded_def nth_append)

definition plain_word :: "SimpleToken \<Rightarrow> bool" where
  "plain_word t \<longleftrightarrow> length (st_str t) = st_length t \<and> 0 \<notin> set (st_str t) \<and> st_length t \<le> 9"

lemma table_plain: "\<forall>t \<in> set tokenTable. plain_word t"
  by code_simp

lemma strncmp_take:
  "length w = n \<Longrightarrow> 0 \<notin> set w \<Longrightarrow> pos + n \<le> length buf \<Longrightarrow>
     strncmp_eq buf pos w n = Inr (take n (drop pos buf) = w)"
proof (induction n arbitrary: pos w)
  case (Suc n)
  then obtain c cs where w: "w = c # cs" by (cases w) auto
  from Suc.prems have d: "drop pos buf = buf ! pos # drop (pos + 1) buf" by (simp add: Cons_nth_drop_Suc)
  from Suc.prems w Suc.IH [of cs "pos + 1"] show ?case by (auto simp: d rd_def Let_def)
qed simp

definition wordy :: "byte \<Rightarrow> bool" where
  "wordy b \<longleftrightarrow> chartype b = ALPHA \<or> chartype b = DIGIT"

definition matches :: "SimpleToken \<Rightarrow> byte list \<Rightarrow> bool" where
  "matches t xs \<longleftrightarrow> take (st_length t) xs = st_str t \<and> \<not> (wordy (hd xs) \<and> wordy (xs ! st_length t))"

lemma checkWord_matches:
  assumes "plain_word t" and "pos + 10 \<le> length buf"
  shows "checkWord buf pos t = Inr (if matches t (drop pos buf) then Some (pos + st_length t) else None)"
proof -
  from assms have "pos + st_length t < length buf" "pos < length buf" by (auto simp: plain_word_def)
  then show ?thesis
    using assms strncmp_take [of "st_str t" "st_length t" pos buf]
    by (auto simp: checkWord_def rd_def Let_def matches_def wordy_def plain_word_def hd_drop_conv_nth)
qed

lemma find_token_find:
  assumes "\<forall>t \<in> set ts. plain_word t" and "pos + 10 \<le> length buf"
  shows "find_token buf pos ts = Inr (map_option (\<lambda>t. (t, pos + st_length t)) (find (\<lambda>t. matches t (drop pos buf)) ts))"
  using assms by (induction ts) (auto simp: checkWord_matches)

text \<open>A word found ends inside the text: the zeros behind it match nothing.\<close>

lemma matches_inside:
  assumes "matches t (drop pos buf)" and "plain_word t" and "padded buf e" and "pos < e"
  shows "pos + st_length t \<le> e"
proof (rule ccontr)
  assume n: "\<not> pos + st_length t \<le> e"
  let ?i = "e - pos"
  have "?i < st_length t" "e < length buf" using n assms(3,4) by (auto simp: padded_def)
  then have "take (st_length t) (drop pos buf) ! ?i = buf ! e" using assms(4) by simp
  also have "\<dots> = 0" using assms(3) by (simp add: padded_def)
  finally have "st_str t ! ?i = 0" using assms(1) by (simp add: matches_def)
  moreover have "?i < length (st_str t)" using \<open>?i < st_length t\<close> assms(2) by (simp add: plain_word_def)
  ultimately show False using assms(2) by (metis nth_mem plain_word_def)
qed

lemma safe_restOfLine: "padded buf e \<Longrightarrow> pos \<le> e \<Longrightarrow> safe (restOfLine buf pos)"
proof (induction "e - pos" arbitrary: pos)
  case 0
  then have "buf ! pos = 0" "pos < length buf" by (auto simp: padded_def)
  then show ?case by (subst restOfLine.simps) (simp add: rd_def)
next
  case (Suc n)
  then have "safe (restOfLine buf (pos + 1))" "pos < length buf" by (auto simp: padded_def)
  then show ?case by (subst restOfLine.simps) (auto intro!: safe_rbind)
qed

section \<open>The main loop\<close>

lemma safe_lex_word:
  assumes "utf8_next buf e it = Inr (cur, pos)" and "it < e" and "padded buf e"
  shows "safe (lex_word buf e pos line toks cur)"
proof -
  have it: "it \<le> e" "e < length buf" "it + 10 \<le> length buf" using assms(2,3) by (auto simp: padded_def)
  have p: "prior buf 0 pos = Inr (cur, it)" using prior_next [OF assms(1) it(1), of 0] by simp
  have "safe (utf8_next buf e it)" using it by (intro safe_next) auto
  moreover have "safe (lex_identifier buf e q [cur])" if "utf8_next buf e it = Inr (c, q)" for c q
    using next_le [OF that it(1)] it(2) by (intro safe_lex_identifier) auto
  moreover have "safe (restOfLine buf it)" using safe_restOfLine [OF assms(3) it(1)] .
  ultimately show ?thesis
    using p find_token_find [OF table_plain it(3)]
    by (auto simp: lex_word_def split: option.splits intro!: safe_rbind)
qed

lemma safe_lex_turn:
  assumes "pos < e" and "padded buf e"
  shows "safe (lex_turn buf e pos line toks)"
  unfolding lex_turn_def
proof (rule safe_rbind)
  show "safe (utf8_next buf e pos)" using assms by (auto simp: padded_def intro!: safe_next)
next
  fix x assume "utf8_next buf e pos = Inr x"
  then obtain cur p where x: "x = (cur, p)" and nx: "utf8_next buf e pos = Inr (cur, p)" by (cases x) auto
  have e: "pos \<le> e" "e < length buf" "p \<le> e" using next_le [OF nx] assms by (auto simp: padded_def)
  have peek: "safe (if p < e - 1 then peek_next buf e p else Inr 0)" using e by (auto intro: safe_peek)
  have "safe (lex_comment buf e p line toks nxt)" for nxt
    using e by (auto simp: lex_comment_def intro!: safe_rbind safe_next safe_line_comment safe_block_comment dest: next_le)
  moreover have "safe (lex_number_token buf e p line toks cur)"
    using safe_lex_number [OF nx e(1,2)] by (auto simp: lex_number_token_def split: option.splits intro!: safe_rbind)
  moreover have "safe (lex_string_token buf e p line toks)"
    using safe_lex_string [OF e(3,2)] by (auto simp: lex_string_token_def split: option.splits intro!: safe_rbind)
  moreover have "safe (lex_word buf e p line toks cur)" by (rule safe_lex_word [OF nx assms])
  ultimately show "safe (case x of (cur, p) \<Rightarrow>
       if cur = 0 then Inr Done
       else rbind (if p < e - 1 then peek_next buf e p else Inr 0) (\<lambda>nxt.
         if cur = 47 \<and> (nxt = 47 \<or> nxt = 42) then lex_comment buf e p line toks nxt
         else if iswspace cur then Inr (Lexed p (if cur = 10 then line + 1 else line) toks)
         else if iswdigit cur \<or> cur = 45 \<and> iswdigit nxt
         then lex_number_token buf e p line toks cur
         else if cur = 34 then lex_string_token buf e p line toks
         else lex_word buf e p line toks cur))"
    using peek x by (auto intro!: safe_rbind)
qed

lemma safe_lex_loop: "padded buf e \<Longrightarrow> safe (lex_loop buf e pos line toks)"
proof (induction pos arbitrary: line toks rule: forward_induct [where n = "length buf"])
  case (step pos)
  have next_turn: "safe (lex_loop buf e p l ts)" if "lex_turn buf e pos line toks = Inr (Lexed p l ts)" "pos < e" for p l ts
  proof (cases "p \<le> length buf")
    case True
    with lex_turn_moves [OF that] step show ?thesis by simp
  next
    case False
    with step(2) show ?thesis by (subst lex_loop.simps) (simp add: padded_def)
  qed
  then show ?case
    using safe_lex_turn [OF _ step(2)]
    by (subst lex_loop.simps) (auto split: turn.splits intro!: safe_rbind)
qed

section \<open>Reading back what was printed\<close>

text \<open>ASCII text decodes byte by byte.\<close>

lemma ascii_next:
  assumes "drop pos buf = b # xs" and "b < 128" and "pos < e"
  shows "utf8_next buf e pos = Inr (ucast b, pos + 1)"
proof -
  from assms(1) have b: "pos < length buf" "buf ! pos = b"
    by (metis drop_all linorder_not_less list.distinct(1), metis Cons_nth_drop_Suc drop_all linorder_not_less list.distinct(1) list.sel(1))
  have u: "uint b < 128" using assms(2) by (simp add: word_less_def)
  then have "is_code_point_valid (ucast b)" "\<not> is_overlong_sequence (ucast b) 1" "sequence_length b = 1"
    by (simp_all add: valid_uint overlong_uint uint_ucast_up sequence_length_uint)
  with b assms(3) show ?thesis
    by (simp add: utf8_next_def validate_next_def rd_def get_sequence_def get_sequence_1_def Let_def)
qed

lemma drop_next: "drop pos buf = b # xs \<Longrightarrow> drop (pos + 1) buf = xs"
  by (metis One_nat_def drop_drop drop_Suc_Cons drop0 add.commute)

lemma ascii_peek: "drop pos buf = b # xs \<Longrightarrow> b < 128 \<Longrightarrow> pos < e \<Longrightarrow> peek_next buf e pos = Inr (ucast b)"
  by (simp add: peek_next_def ascii_next)

lemma byte_cases: "\<forall>n \<in> set [0..<256]. P (of_nat n) \<Longrightarrow> P (b :: byte)"
proof -
  assume a: "\<forall>n \<in> set [0..<256]. P (of_nat n)"
  have "int (unat b) = uint b" by simp
  then have "unat b < 256" using byte_range [of b] by linarith
  then have "unat b \<in> set [0..<256]" unfolding set_upt by simp
  with a have "P (of_nat (unat b))" by blast
  then show ?thesis by simp
qed

definition digit :: "byte \<Rightarrow> bool" where
  "digit b \<longleftrightarrow> 48 \<le> b \<and> b \<le> 57"

definition letter :: "byte \<Rightarrow> bool" where
  "letter b \<longleftrightarrow> 65 \<le> b \<and> b \<le> 90 \<or> 97 \<le> b \<and> b \<le> 122"

definition letter_ok :: "byte \<Rightarrow> bool" where
  "letter_ok b \<longleftrightarrow> (letter b \<longrightarrow> b < 128 \<and> b \<noteq> 32 \<and> chartype b = ALPHA \<and> isIdentifierChar (ucast b) \<and> \<not> iswdigit (ucast b)
     \<and> \<not> iswspace (ucast b) \<and> ucast b \<notin> {0, 34, 45, 47 :: wchar})"

definition digit_ok :: "byte \<Rightarrow> bool" where
  "digit_ok b \<longleftrightarrow> (digit b \<longrightarrow> b < 128 \<and> b \<notin> {32, 43, 45, 46} \<and> isdigit b \<and> chartype b = DIGIT \<and> isIdentifierChar (ucast b)
     \<and> iswdigit (ucast b) \<and> \<not> iswspace (ucast b) \<and> ucast b \<notin> {0, 45, 46, 47 :: wchar})"

lemma letter_table: "letter_ok b"
  by (rule byte_cases) code_simp

lemma digit_table: "digit_ok b"
  by (rule byte_cases) code_simp

lemma same_byte: "(ucast (ucast (b :: byte) :: wchar) :: byte) = b"
  using byte_range [of b] by (simp add: word_uint_eq_iff uint_ucast_down uint_ucast_up)

lemma space_table: "\<not> isIdentifierChar 32" "\<not> iswdigit 32" "iswspace 32" "iswspace 10"
  by code_simp+

text \<open>Numbers: digits up to a space that is not the last character.\<close>

lemma lex_number_digits:
  assumes "drop pos buf = ds @ 32 # xs" and "\<forall>d \<in> set ds. digit d" and "digit d0" and "pos + length ds + 1 < e"
  shows "lex_number buf e pos (ucast d0) str dot = Inr (Some (str @ map ucast (d0 # ds), dot, None), pos + length ds)"
  using assms
proof (induction ds arbitrary: pos d0 str)
  case Nil
  have nx: "utf8_next buf e pos = Inr (ucast (32 :: byte), pos + 1)"
    using Nil by (intro ascii_next [of pos buf 32 xs]) auto
  have "prior buf e (pos + 1) = Inr (ucast (32 :: byte), pos)" using Nil by (intro prior_next [OF nx]) auto
  then have sp: "lex_number buf e (pos + 1) 32 s dot = Inr (Some (s, dot, None), pos)" for s
    by (subst lex_number.simps) (simp add: space_table)
  show ?case using digit_table [of d0] Nil(3) nx sp by (subst lex_number.simps) (simp add: digit_ok_def)
next
  case (Cons d ds)
  have nx: "utf8_next buf e pos = Inr (ucast d, pos + 1)"
    using Cons.prems digit_table [of d] by (intro ascii_next [of pos buf d "ds @ 32 # xs"]) (auto simp: digit_ok_def)
  have "lex_number buf e (pos + 1) (ucast d) (str @ [ucast d0]) dot =
      Inr (Some ((str @ [ucast d0]) @ map ucast (d # ds), dot, None), pos + 1 + length ds)"
    using Cons.prems drop_next [of pos buf d "ds @ 32 # xs"] by (intro Cons.IH) auto
  then show ?case using digit_table [of d0] Cons.prems(3) nx by (subst lex_number.simps) (simp add: digit_ok_def)
qed

lemma lex_identifier_letters:
  assumes "drop pos buf = ds @ 32 # xs" and "\<forall>d \<in> set ds. letter d \<or> digit d" and "pos + length ds < e"
  shows "lex_identifier buf e pos str = Inr (str @ map ucast ds, pos + length ds)"
  using assms
proof (induction ds arbitrary: pos str)
  case Nil
  then have "peek_next buf e pos = Inr (ucast (32 :: byte))" by (intro ascii_peek [of pos buf 32 xs]) auto
  with Nil show ?case by (subst lex_identifier.simps) (simp add: space_table)
next
  case (Cons d ds)
  have d: "d < 128" "isIdentifierChar (ucast d)"
    using Cons.prems(2) letter_table [of d] digit_table [of d] by (auto simp: letter_ok_def digit_ok_def)
  have pk: "peek_next buf e pos = Inr (ucast d)" "utf8_next buf e pos = Inr (ucast d, pos + 1)"
    using Cons.prems d ascii_peek ascii_next by auto
  have "lex_identifier buf e (pos + 1) (str @ [ucast d]) = Inr ((str @ [ucast d]) @ map ucast ds, pos + 1 + length ds)"
    using Cons.prems drop_next [of pos buf d "ds @ 32 # xs"] by (intro Cons.IH) auto
  with Cons.prems(3) d pk show ?case by (subst lex_identifier.simps) simp
qed

text \<open>Words of the table followed by a space, and names that are not in it.\<close>

lemma find_self: "\<forall>t \<in> set tokenTable. find (\<lambda>u. matches u (st_str t @ 32 # xs)) tokenTable = Some t"
  by (simp add: tokenTable_def simple_token_def bytes_def matches_def wordy_def chartype_def isalpha_def isdigit_def isspace_def)

definition name :: "byte list \<Rightarrow> bool" where
  "name x \<longleftrightarrow> x \<noteq> [] \<and> letter (hd x) \<and> (\<forall>b \<in> set x. letter b \<or> digit b) \<and> x \<notin> st_str ` set tokenTable"

lemma table_letters: "\<forall>t \<in> set tokenTable. st_str t \<noteq> [] \<and> (letter (hd (st_str t)) \<longrightarrow> (\<forall>b \<in> set (st_str t). letter b))"
  by code_simp

lemma find_name:
  assumes "name x"
  shows "find (\<lambda>u. matches u (x @ 32 # xs)) tokenTable = None"
  unfolding find_None_iff
proof
  assume "\<exists>t. t \<in> set tokenTable \<and> matches t (x @ 32 # xs)"
  then obtain t where t: "t \<in> set tokenTable" "matches t (x @ 32 # xs)" by blast
  let ?w = "st_str t" and ?n = "st_length t"
  have w: "length ?w = ?n" "?w \<noteq> []" using t(1) table_plain table_letters by (auto simp: plain_word_def)
  have tk: "take ?n (x @ 32 # xs) = ?w" using t(2) by (simp add: matches_def)
  have "0 < ?n" using w by (metis length_greater_0_conv)
  then have "hd (take ?n (x @ 32 # xs)) = hd x" using assms by (simp add: name_def hd_take)
  then have "hd ?w = hd x" unfolding tk .
  with t(1) assms table_letters have letters: "\<forall>b \<in> set ?w. letter b" by (auto simp: name_def)
  consider "?n < length x" | "?n = length x" | "length x < ?n" by linarith
  then show False
  proof cases
    case 1
    have wordy: "wordy b" if "letter b \<or> digit b" for b
      using that letter_table [of b] digit_table [of b] by (auto simp: wordy_def letter_ok_def digit_ok_def)
    have "x ! ?n \<in> set x" using 1 by simp
    then have "wordy ((x @ 32 # xs) ! ?n)" "wordy (hd (x @ 32 # xs))"
      using assms 1 by (auto simp: nth_append name_def intro!: wordy)
    with t(2) show False by (simp add: matches_def)
  next
    case 2
    with tk t(1) assms show False by (auto simp: name_def)
  next
    case 3
    then have "?w ! length x = 32" unfolding tk [symmetric] by (simp add: nth_append take_Cons')
    with 3 w letters have "letter 32" by (metis nth_mem)
    then show False by (simp add: letter_def)
  qed
qed

subsection \<open>One turn\<close>

definition ascii :: "byte list \<Rightarrow> bool" where
  "ascii buf \<longleftrightarrow> (\<forall>b \<in> set buf. b < 128)"

lemma ascii_at: "ascii buf \<Longrightarrow> pos < e \<Longrightarrow> e \<le> length buf \<Longrightarrow> utf8_next buf e pos = Inr (ucast (buf ! pos), pos + 1)"
  using ascii_next [of pos buf "buf ! pos" "drop (Suc pos) buf" e] by (auto simp: ascii_def Cons_nth_drop_Suc)

lemma peek_at: "ascii buf \<Longrightarrow> pos < e \<Longrightarrow> e \<le> length buf \<Longrightarrow> peek_next buf e pos = Inr (ucast (buf ! pos))"
  by (simp add: peek_next_def ascii_at)

lemma prior_at: "ascii buf \<Longrightarrow> pos < e \<Longrightarrow> e \<le> length buf \<Longrightarrow> prior buf 0 (pos + 1) = Inr (ucast (buf ! pos), pos)"
  using prior_next [OF ascii_at [of buf pos e], of 0] by simp

lemma drop_nth: "drop pos buf = w @ xs \<Longrightarrow> i < length w \<Longrightarrow> buf ! (pos + i) = w ! i \<and> pos + i < length buf"
proof -
  assume d: "drop pos buf = w @ xs" "i < length w"
  then have l: "i < length (drop pos buf)" by simp
  then have "drop pos buf ! i = buf ! (pos + i)" by simp
  moreover have "drop pos buf ! i = w ! i" using d by (simp add: nth_append)
  ultimately show ?thesis using l by simp
qed

definition starts_token :: "wchar \<Rightarrow> wchar \<Rightarrow> bool" where
  "starts_token cur nxt \<longleftrightarrow> cur \<noteq> 0 \<and> \<not> (cur = 47 \<and> (nxt = 47 \<or> nxt = 42)) \<and> \<not> iswspace cur"

text \<open>A turn over a text \<open>w\<close> of the buffer that is followed by a space.\<close>

lemma turn_start:
  assumes "ascii buf" and "e \<le> length buf" and "drop pos buf = w @ 32 # xs" and "w \<noteq> []" and "pos + length w + 1 < e"
    and "starts_token (ucast (w ! 0)) (ucast ((w @ [32]) ! 1))"
  shows "lex_turn buf e pos line toks =
    (let cur = ucast (w ! 0); nxt = ucast ((w @ [32]) ! 1) in
     if iswdigit cur \<or> cur = 45 \<and> iswdigit nxt then lex_number_token buf e (pos + 1) line toks cur
     else if cur = 34 then lex_string_token buf e (pos + 1) line toks
     else lex_word buf e (pos + 1) line toks cur)"
proof -
  have d: "drop pos buf = (w @ [32]) @ xs" using assms(3) by simp
  have l: "0 < length w" using assms(4) by simp
  with assms(5) have i: "pos + 1 < e - 1" by (cases w) auto
  let ?cur = "ucast (w ! 0) :: wchar" and ?nxt = "ucast ((w @ [32]) ! 1) :: wchar"
  have "buf ! pos = w ! 0" using drop_nth [OF d, of 0] l by (simp add: nth_append)
  then have cur: "utf8_next buf e pos = Inr (?cur, pos + 1)"
    using ascii_at [OF assms(1) _ assms(2), of pos] assms(5) by simp
  have "buf ! (pos + 1) = (w @ [32]) ! 1" using drop_nth [OF d, of 1] l by simp
  then have nxt: "peek_next buf e (pos + 1) = Inr ?nxt"
    using peek_at [OF assms(1) _ assms(2), of "pos + 1"] i by simp
  have st: "(?cur = 0) = False" "(?cur = 47 \<and> (?nxt = 47 \<or> ?nxt = 42)) = False" "iswspace ?cur = False"
    using assms(6) by (auto simp: starts_token_def)
  show ?thesis by (simp only: lex_turn_def cur nxt i rbind_simps prod.case if_True if_False st Let_def)
qed

definition token_of :: "int \<Rightarrow> SimpleToken \<Rightarrow> Token" where
  "token_of line t = (blank_token (st_token t) line)\<lparr>tok_string := string2wstring (st_str t)\<rparr>"

definition word_ok :: "SimpleToken \<Rightarrow> bool" where
  "word_ok t \<longleftrightarrow> (let cur = ucast (st_str t ! 0); nxt = ucast ((st_str t @ [32]) ! 1) in
     starts_token cur nxt \<and> \<not> (iswdigit cur \<or> cur = 45 \<and> iswdigit nxt) \<and> (cur = 34 \<longrightarrow> st_str t = [34]))"

lemma table_word_ok: "\<forall>t \<in> set tokenTable. word_ok t"
  by code_simp

lemma turn_word:
  assumes "ascii buf" and "e + 10 \<le> length buf" and "t \<in> set tokenTable" and "st_str t \<noteq> [34]"
    and d: "drop pos buf = st_str t @ 32 # xs" and "pos + length (st_str t) + 1 < e"
  shows "lex_turn buf e pos line toks = Inr (Lexed (pos + length (st_str t)) line (toks @ [token_of line t]))"
proof -
  have w: "st_str t \<noteq> []" "length (st_str t) = st_length t" "word_ok t"
    using assms(3) table_plain table_letters table_word_ok by (auto simp: plain_word_def)
  let ?cur = "ucast (st_str t ! 0) :: wchar"
  have "buf ! pos = st_str t ! 0" using drop_nth [OF d, of 0] w(1) by simp
  then have pr: "prior buf 0 (pos + 1) = Inr (?cur, pos)" using prior_at [OF assms(1), of pos e] assms(2,6) by simp
  have "find_token buf pos tokenTable = Inr (Some (t, pos + st_length t))"
    using find_token_find [OF table_plain, of pos buf] find_self [rule_format, OF assms(3), of xs] assms(2,6) by (simp add: d)
  with pr have "lex_word buf e (pos + 1) line toks ?cur = Inr (Lexed (pos + st_length t) line (toks @ [token_of line t]))"
    by (simp add: lex_word_def token_of_def)
  moreover have "e \<le> length buf" using assms(2) by simp
  ultimately show ?thesis
    using turn_start [OF assms(1) _ d w(1) assms(6)] w(2,3) assms(4) by (auto simp: word_ok_def Let_def)
qed

lemma turn_name:
  assumes "ascii buf" and "e + 10 \<le> length buf" and "name x" and d: "drop pos buf = x @ 32 # xs" and "pos + length x + 1 < e"
  shows "lex_turn buf e pos line toks =
    Inr (Lexed (pos + length x) line (toks @ [(blank_token TOK_IDENTIFIER line)\<lparr>tok_string := map ucast x\<rparr>]))"
proof -
  from assms(3) obtain c cs where x: "x = c # cs" "letter c" "\<forall>b \<in> set cs. letter b \<or> digit b"
    by (cases x) (auto simp: name_def)
  have e: "e \<le> length buf" "pos < e" using assms(2,5) by auto
  have c: "ucast c \<notin> {0, 34, 45, 47 :: wchar}" "\<not> iswspace (ucast c)" "\<not> iswdigit (ucast c)" "isIdentifierChar (ucast c)"
    using letter_table [of c] x(2) by (auto simp: letter_ok_def)
  then have st: "starts_token (ucast (x ! 0)) nxt" for nxt using x by (simp add: starts_token_def)
  have b: "buf ! pos = c" using drop_nth [OF d, of 0] x by simp
  have pr: "prior buf 0 (pos + 1) = Inr (ucast c, pos)" using prior_at [OF assms(1) e(2,1)] b by simp
  have find: "find_token buf pos tokenTable = Inr None"
    using find_token_find [OF table_plain, of pos buf] find_name [OF assms(3), of xs] assms(2) e by (simp add: d)
  have nx: "utf8_next buf e pos = Inr (ucast c, pos + 1)" using ascii_at [OF assms(1) e(2,1)] b by simp
  have "lex_identifier buf e (pos + 1) [ucast c] = Inr ([ucast c] @ map ucast cs, pos + 1 + length cs)"
    using drop_next [of pos buf c "cs @ 32 # xs"] d x assms(5) by (intro lex_identifier_letters) auto
  then have "lex_word buf e (pos + 1) line toks (ucast c) =
      Inr (Lexed (pos + length x) line (toks @ [(blank_token TOK_IDENTIFIER line)\<lparr>tok_string := map ucast x\<rparr>]))"
    using pr find nx c x(1) by (simp add: lex_word_def)
  then show ?thesis
    using turn_start [OF assms(1) e(1) d _ assms(5) st] c x by (simp add: Let_def)
qed

text \<open>Digits, whatever their number, as long as the value is an \<open>int\<close>.\<close>

definition digits_value :: "byte list \<Rightarrow> int" where
  "digits_value ds = fst (scan_digits 0 ds)"

lemma scan_digits_all: "\<forall>d \<in> set ds. digit d \<Longrightarrow> snd (scan_digits acc ds) = []"
  using digit_table by (induction ds arbitrary: acc) (auto simp: digit_ok_def)

lemma scan_digits_pos: "0 \<le> acc \<Longrightarrow> \<forall>d \<in> set ds. digit d \<Longrightarrow> 0 \<le> fst (scan_digits acc ds)"
proof (induction ds arbitrary: acc)
  case (Cons d ds)
  then have "48 \<le> uint d" by (auto simp: digit_def word_le_def)
  with Cons digit_table [of d] show ?case by (auto simp: digit_ok_def)
qed simp

lemma atoi_digits:
  assumes "ds \<noteq> []" and "\<forall>d \<in> set ds. digit d" and "digits_value ds < 2 ^ 31"
  shows "atoi ds = digits_value ds"
proof -
  from assms(1) obtain c cs where c: "ds = c # cs" by (cases ds) auto
  then have "scan_sign ds = (False, ds)" using assms(2) digit_table [of c] by (auto simp: digit_ok_def)
  moreover have "0 \<le> digits_value ds" using assms(2) by (simp add: digits_value_def scan_digits_pos)
  moreover from this assms(3) have "sint (word_of_int (digits_value ds) :: u32) = digits_value ds"
    by (simp add: signed_of_int signed_take_bit_int_eq_self)
  ultimately show ?thesis using assms(3) by (simp add: atoi_def digits_value_def)
qed

definition integer :: "byte list \<Rightarrow> bool" where
  "integer ds \<longleftrightarrow> ds \<noteq> [] \<and> (\<forall>d \<in> set ds. digit d) \<and> digits_value ds < 2 ^ 31"

lemma turn_integer:
  assumes "ascii buf" and "e + 10 \<le> length buf" and "integer ds" and d: "drop pos buf = ds @ 32 # xs" and "pos + length ds + 1 < e"
  shows "lex_turn buf e pos line toks =
    Inr (Lexed (pos + length ds) line (toks @ [(blank_token TOK_INTEGER line)\<lparr>tok_i := digits_value ds\<rparr>]))"
proof -
  from assms(3) obtain c cs where x: "ds = c # cs" "digit c" "\<forall>b \<in> set cs. digit b"
    by (cases ds) (auto simp: integer_def)
  have e: "e \<le> length buf" using assms(2) by auto
  have c: "ucast c \<notin> {0, 47 :: wchar}" "\<not> iswspace (ucast c)" "iswdigit (ucast c)"
    using digit_table [of c] x(2) by (auto simp: digit_ok_def)
  then have st: "starts_token (ucast (ds ! 0)) nxt" for nxt using x by (simp add: starts_token_def)
  have "lex_number buf e (pos + 1) (ucast c) [] False = Inr (Some ([] @ map ucast ds, False, None), pos + 1 + length cs)"
    unfolding x(1) using drop_next [of pos buf c "cs @ 32 # xs"] d x assms(5) by (intro lex_number_digits) auto
  moreover have "wstring2string (map ucast ds) = ds"
    by (simp add: wstring2string_def comp_def same_byte)
  ultimately have "lex_number_token buf e (pos + 1) line toks (ucast c) =
      Inr (Lexed (pos + length ds) line (toks @ [(blank_token TOK_INTEGER line)\<lparr>tok_i := digits_value ds\<rparr>]))"
    using atoi_digits [of ds] assms(3) x(1) by (simp add: lex_number_token_def number_token_def integer_def)
  then show ?thesis
    using turn_start [OF assms(1) e d _ assms(5) st] c x by (simp add: Let_def)
qed

lemma turn_space:
  assumes "ascii buf" and "e \<le> length buf" and "pos < e" and "buf ! pos = 32"
  shows "lex_turn buf e pos line toks = Inr (Lexed (pos + 1) line toks)"
  using ascii_at [OF assms(1,3,2)] peek_at [OF assms(1) _ assms(2), of "pos + 1"] assms(4)
  by (simp add: lex_turn_def space_table)

subsection \<open>All of the text\<close>

inductive lexeme :: "byte list \<Rightarrow> Token \<Rightarrow> bool" where
  lexeme_word: "t \<in> set tokenTable \<Longrightarrow> st_str t \<noteq> [34] \<Longrightarrow> lexeme (st_str t) (token_of 1 t)"
| lexeme_name: "name x \<Longrightarrow> lexeme x ((blank_token TOK_IDENTIFIER 1)\<lparr>tok_string := map ucast x\<rparr>)"
| lexeme_integer: "integer ds \<Longrightarrow> lexeme ds ((blank_token TOK_INTEGER 1)\<lparr>tok_i := digits_value ds\<rparr>)"

lemma turn_lexeme:
  assumes "lexeme w tok" and "ascii buf" and "e + 10 \<le> length buf" and "drop pos buf = w @ 32 # xs" and "pos + length w + 1 < e"
  shows "lex_turn buf e pos 1 toks = Inr (Lexed (pos + length w) 1 (toks @ [tok]))"
  using assms by cases (auto intro: turn_word turn_name turn_integer)

fun line_of :: "(byte list \<times> Token) list \<Rightarrow> byte list" where
  "line_of [] = [32]"
| "line_of ((w, tok) # ws) = w @ 32 # line_of ws"

lemma line_of_nonempty: "0 < length (line_of ws)"
  by (cases ws rule: line_of.cases) auto

lemma loop_line:
  assumes "\<forall>(w, tok) \<in> set ws. lexeme w tok" and "ascii buf" and "e + 10 \<le> length buf"
    and "drop pos buf = line_of ws @ xs" and "pos + length (line_of ws) = e"
  shows "lex_loop buf e pos 1 toks = Inr (True, toks @ map snd ws)"
  using assms
proof (induction ws arbitrary: pos toks rule: line_of.induct)
  case 1
  have "buf ! pos = 32" using drop_nth [of pos buf "[32]" xs 0] 1(4) by simp
  with 1 turn_space [of buf e pos] have "lex_turn buf e pos 1 toks = Inr (Lexed (pos + 1) 1 toks)" by simp
  moreover have "lex_loop buf e (pos + 1) 1 toks = Inr (True, toks)" using 1(5) by (subst lex_loop.simps) simp
  ultimately show ?case using 1(5) by (subst lex_loop.simps) simp
next
  case (2 w tok ws)
  let ?q = "pos + length w"
  have d: "drop pos buf = w @ 32 # line_of ws @ xs" using 2(5) by simp
  have q: "?q + 1 < e" using 2(6) line_of_nonempty [of ws] by (simp del: length_greater_0_conv)
  have t: "lex_turn buf e pos 1 toks = Inr (Lexed ?q 1 (toks @ [tok]))"
    using 2(2) by (intro turn_lexeme [OF _ 2(3,4) d q]) auto
  have dq: "drop ?q buf = 32 # line_of ws @ xs" using d by (metis append_eq_conv_conj drop_drop add.commute)
  then have "buf ! ?q = 32" using drop_nth [of ?q buf "[32]" "line_of ws @ xs" 0] by simp
  then have sp: "lex_turn buf e ?q 1 (toks @ [tok]) = Inr (Lexed (?q + 1) 1 (toks @ [tok]))"
    using 2(3,4) q by (intro turn_space) auto
  have "lex_loop buf e (?q + 1) 1 (toks @ [tok]) = Inr (True, (toks @ [tok]) @ map snd ws)"
    using 2(2,6) drop_next [OF dq] by (intro 2(1) [OF _ 2(3,4)]) auto
  with t sp q show ?case by (subst lex_loop.simps, simp, subst lex_loop.simps, simp)
qed

lemma lexeme_ascii: "lexeme w tok \<Longrightarrow> \<forall>b \<in> set w. b < 128"
proof (induction rule: lexeme.induct)
  case (lexeme_word t)
  have "\<forall>t \<in> set tokenTable. \<forall>b \<in> set (st_str t). b < 128" by code_simp
  with lexeme_word show ?case by blast
next
  case (lexeme_name x)
  then show ?case using letter_table digit_table by (auto simp: name_def letter_ok_def digit_ok_def)
next
  case (lexeme_integer ds)
  then show ?case using digit_table by (auto simp: integer_def digit_ok_def)
qed

lemma line_ascii: "\<forall>(w, tok) \<in> set ws. lexeme w tok \<Longrightarrow> \<forall>b \<in> set (line_of ws). b < 128"
  using lexeme_ascii by (induction ws rule: line_of.induct) auto

lemma lexer_reads_words:
  assumes "\<forall>(w, tok) \<in> set ws. lexeme w tok"
  shows "lexer (Some (line_of ws @ replicate 128 0)) (length (line_of ws)) = Inr (True, map snd ws)"
proof -
  have "ascii (line_of ws @ replicate 128 0)" using line_ascii [OF assms] by (auto simp: ascii_def)
  from loop_line [OF assms this, of "length (line_of ws)" 0 "replicate 128 0" "[]"] show ?thesis
    using line_of_nonempty [of ws] by (simp add: lexer_def)
qed

section \<open>Properties\<close>

text \<open>C18: the lexer never reads outside the file buffer. Whatever bytes a source file holds, with the
  128 zeros \<open>Runtime::loadClass\<close> puts behind them, every read of \<open>Lexer::lexer\<close>, of the UTF-8
  routines it calls and of \<open>strncmp\<close> stays inside the buffer; the lexer returns, or throws an
  exception of the UTF-8 routines.\<close>

theorem lexer_stays_inside: "lexer (Some (content @ replicate 128 0)) (length content) \<noteq> Inl BadRead"
  using safe_lex_loop [OF padded_content] by (simp add: lexer_def safe_def)

text \<open>C19: the lexer reads back what was printed. Reserved words and symbols, names of letters and digits
  that are not reserved, and decimal numbers below 2^31, written one after the other with a space
  behind each and one more at the end of the file, are lexed to exactly those tokens.\<close>

theorem lexer_reads_line:
  assumes "\<forall>(w, tok) \<in> set ws. lexeme w tok"
  shows "lexer (Some (line_of ws @ replicate 128 0)) (length (line_of ws)) = Inr (True, map snd ws)"
  by (rule lexer_reads_words [OF assms])

lemma lexer_reads_line_witness:
  "lexer (Some (bytes ''x1 += 42 ;  '' @ replicate 128 0)) 12 = Inr (True,
     [(blank_token TOK_IDENTIFIER 1)\<lparr>tok_string := wstr ''x1''\<rparr>, (blank_token TOK_ADD_ASSIGN 1)\<lparr>tok_string := wstr ''+=''\<rparr>,
      (blank_token TOK_INTEGER 1)\<lparr>tok_i := 42\<rparr>, (blank_token TOK_SEMICOLON 1)\<lparr>tok_string := wstr '';''\<rparr>])"
proof -
  let ?ws = "[(bytes ''x1'', (blank_token TOK_IDENTIFIER 1)\<lparr>tok_string := map ucast (bytes ''x1'')\<rparr>),
      (st_str (tokenTable ! 11), token_of 1 (tokenTable ! 11)),
      (bytes ''42'', (blank_token TOK_INTEGER 1)\<lparr>tok_i := digits_value (bytes ''42'')\<rparr>),
      (st_str (tokenTable ! 2), token_of 1 (tokenTable ! 2))]"
  have n: "name (bytes ''x1'')" "integer (bytes ''42'')" by code_simp+
  have t: "tokenTable ! 11 \<in> set tokenTable" "tokenTable ! 2 \<in> set tokenTable"
    "st_str (tokenTable ! 11) \<noteq> [34]" "st_str (tokenTable ! 2) \<noteq> [34]" by code_simp+
  have "lexer (Some (line_of ?ws @ replicate 128 0)) (length (line_of ?ws)) = Inr (True, map snd ?ws)"
    by (rule lexer_reads_line) (use n t in \<open>auto intro: lexeme.intros\<close>)
  moreover have "line_of ?ws = bytes ''x1 += 42 ;  ''" by code_simp
  moreover have "map snd ?ws = [(blank_token TOK_IDENTIFIER 1)\<lparr>tok_string := wstr ''x1''\<rparr>, (blank_token TOK_ADD_ASSIGN 1)\<lparr>tok_string := wstr ''+=''\<rparr>,
      (blank_token TOK_INTEGER 1)\<lparr>tok_i := 42\<rparr>, (blank_token TOK_SEMICOLON 1)\<lparr>tok_string := wstr '';''\<rparr>]"
    by code_simp
  moreover have "length (bytes ''x1 += 42 ;  '') = 12" by code_simp
  ultimately show ?thesis by (simp only:)
qed

end
