(* ===== verification/ExpressionFacts.thy ===== *)
theory ExpressionFacts
  imports ParserFacts
begin

text \<open>
  What the expression parser builds. Bracketed expressions with calls are parsed into the tree they
  spell, with additions and multiplications of literals folded; without brackets the operators group
  differently from what their precedence suggests.
\<close>

section \<open>Bracketed expressions and their spelling\<close>

datatype source = Name wstring | Number int | Binary OpType source source | Negate source | Call wstring "source list"

definition binary_descs :: "OpDesc list" where
  "binary_descs = filter (\<lambda>d. od_hasLeft d \<and> od_hasRight d \<and> od_oper d \<noteq> OPR_SET \<and> od_oper d \<noteq> OPR_REFERENCE) opTable"

definition binary_desc :: "OpType \<Rightarrow> OpDesc option" where
  "binary_desc oper = find (\<lambda>d. od_oper d = oper) binary_descs"

definition not_desc :: OpDesc where
  "not_desc = op_desc TOK_NOT OPR_NOT False True"

fun well_spelt :: "source \<Rightarrow> bool" where
  "well_spelt (Binary oper a b) \<longleftrightarrow> binary_desc oper \<noteq> None \<and> well_spelt a \<and> well_spelt b"
| "well_spelt (Negate e) \<longleftrightarrow> well_spelt e"
| "well_spelt (Call f es) \<longleftrightarrow> (\<forall>e \<in> set es. well_spelt e)"
| "well_spelt e \<longleftrightarrow> True"

definition op_token :: "OpType \<Rightarrow> TokenType" where
  "op_token oper = od_token (the (binary_desc oper))"

text \<open>\<open>tk\<close> gives the tokens their lines and texts, which the expression parser does not look at.\<close>

definition gives_types :: "(TokenType \<Rightarrow> Token) \<Rightarrow> bool" where
  "gives_types tk \<longleftrightarrow> (\<forall>ty. tok_type (tk ty) = ty)"

fun spell :: "(TokenType \<Rightarrow> Token) \<Rightarrow> source \<Rightarrow> Token list"
  and spell_args :: "(TokenType \<Rightarrow> Token) \<Rightarrow> source list \<Rightarrow> Token list" where
  "spell tk (Name x) = [(tk TOK_IDENTIFIER)\<lparr>tok_string := x\<rparr>]"
| "spell tk (Number i) = [(tk TOK_INTEGER)\<lparr>tok_i := i\<rparr>]"
| "spell tk (Binary oper a b) =
     tk TOK_BRACKET_LEFT # spell tk a @ tk (op_token oper) # spell tk b @ [tk TOK_BRACKET_RIGHT]"
| "spell tk (Negate e) = tk TOK_BRACKET_LEFT # tk TOK_NOT # spell tk e @ [tk TOK_BRACKET_RIGHT]"
| "spell tk (Call f es) =
     (tk TOK_IDENTIFIER)\<lparr>tok_string := f\<rparr> # tk TOK_BRACKET_LEFT # spell_args tk es @ [tk TOK_BRACKET_RIGHT]"
| "spell_args tk [] = []"
| "spell_args tk (e # es) = spell tk e @ (if es = [] then [] else tk TOK_COMMA # spell_args tk es)"

text \<open>The tree meant.\<close>

fun fold_sum :: "OpType \<Rightarrow> OpDesc \<Rightarrow> expr \<Rightarrow> expr \<Rightarrow> expr" where
  "fold_sum oper d (IntegerExpression i) (IntegerExpression j) =
     (if oper = OPR_ADD then IntegerExpression (i + j)
      else if oper = OPR_MULTIPLY then IntegerExpression (i * j)
      else OperationExpression oper d VALUE_UNKNOWN (Some (IntegerExpression i)) (Some (IntegerExpression j)))"
| "fold_sum oper d a b = OperationExpression oper d VALUE_UNKNOWN (Some a) (Some b)"

fun tree_of :: "source \<Rightarrow> expr" where
  "tree_of (Name x) = VarExpression 0 x VALUE_UNKNOWN"
| "tree_of (Number i) = IntegerExpression (word_of_int i)"
| "tree_of (Binary oper a b) = fold_sum oper (the (binary_desc oper)) (tree_of a) (tree_of b)"
| "tree_of (Negate e) = OperationExpression OPR_NOT not_desc VALUE_UNKNOWN None (Some (tree_of e))"
| "tree_of (Call f es) = CallExpression False 0 f (map tree_of es)"

text \<open>The depth of a tree, which is the fuel that reading it off the store takes.\<close>

fun depth :: "expr \<Rightarrow> nat"
  and depths :: "expr list \<Rightarrow> nat"
  and block_depth :: "codeblock \<Rightarrow> nat" where
  "depth (CallExpression inRef clazz f es) = Suc (depths es)"
| "depth (NewExpression clazz es) = Suc (depths es)"
| "depth (OperationExpression oper d ty l r) =
     Suc (max (case l of None \<Rightarrow> 0 | Some a \<Rightarrow> depth a) (case r of None \<Rightarrow> 0 | Some b \<Rightarrow> depth b))"
| "depth (IfExpression t a b) = Suc (max (depth t) (max (block_depth a) (case b of None \<Rightarrow> 0 | Some c \<Rightarrow> block_depth c)))"
| "depth (ForExpression i t k b) = Suc (max (max (case i of None \<Rightarrow> 0 | Some a \<Rightarrow> depth a) (depth t))
     (max (case k of None \<Rightarrow> 0 | Some a \<Rightarrow> depth a) (block_depth b)))"
| "depth (ReturnExpression v) = Suc (case v of None \<Rightarrow> 0 | Some a \<Rightarrow> depth a)"
| "depth (ArrayExpression clazz v i) = Suc (depth i)"
| "depth (ThrowExpression v) = Suc (depth v)"
| "depth (TryExpression a v b) = Suc (max (block_depth a) (block_depth b))"
| "depth e = 1"
| "depths [] = 0"
| "depths (e # es) = max (depth e) (depths es)"
| "block_depth (CodeBlock s m vs code) = Suc (depths code)"

lemma depths_le: "T \<in> set Ts \<Longrightarrow> depth T \<le> depths Ts"
  by (induction Ts) auto

section \<open>Moving through the store\<close>

definition fresh :: "addr \<Rightarrow> pnode \<Rightarrow> ValueType \<Rightarrow> pexpr" where
  "fresh code n ty = \<lparr>e_parent = None, e_block = code, e_valueType = ty, e_node = n\<rparr>"

text \<open>From address \<open>k\<close> on no node is a reference or has a parent below \<open>k\<close>.\<close>

fun is_dot :: "pnode \<Rightarrow> bool" where
  "is_dot (POper oper d l r) \<longleftrightarrow> oper = OPR_REFERENCE"
| "is_dot n \<longleftrightarrow> False"

definition clean :: "addr \<Rightarrow> parser \<Rightarrow> bool" where
  "clean k s \<longleftrightarrow> (\<forall>i. k \<le> i \<and> i < length (p_nodes s) \<longrightarrow>
     \<not> is_dot (e_node (p_nodes s ! i)) \<and> (\<forall>p. e_parent (p_nodes s ! i) = Some p \<longrightarrow> k \<le> p))"

definition alive :: "parser \<Rightarrow> bool" where
  "alive s \<longleftrightarrow> set (p_dead s) \<subseteq> {..<length (p_nodes s)}"

text \<open>A parser that has read \<open>j\<close> tokens and allocated nodes, and changed nothing else.\<close>

definition moved :: "nat \<Rightarrow> parser \<Rightarrow> parser \<Rightarrow> bool" where
  "moved j s t \<longleftrightarrow> t\<lparr>m_pos := m_pos s, p_nodes := p_nodes s, m_expressions := m_expressions s\<rparr> = s
     \<and> m_pos t = m_pos s + j \<and> take (length (p_nodes s)) (p_nodes t) = p_nodes s
     \<and> (\<exists>xs. m_expressions t = m_expressions s @ xs \<and> set xs \<subseteq> {length (p_nodes s)..<length (p_nodes t)})
     \<and> clean (length (p_nodes s)) t"

lemma movedD:
  assumes "moved j s t"
  shows "m_tokens t = m_tokens s" "p_dead t = p_dead s" "p_blocks t = p_blocks s" "p_funcs t = p_funcs s"
    "p_vm t = p_vm s" "m_imports t = m_imports s" "m_pos t = m_pos s + j"
    "length (p_nodes s) \<le> length (p_nodes t)" "clean (length (p_nodes s)) t"
    "i < length (p_nodes s) \<Longrightarrow> p_nodes t ! i = p_nodes s ! i"
proof -
  from assms have e: "t\<lparr>m_pos := m_pos s, p_nodes := p_nodes s, m_expressions := m_expressions s\<rparr> = s"
    and p: "take (length (p_nodes s)) (p_nodes t) = p_nodes s" by (auto simp: moved_def)
  show "m_tokens t = m_tokens s" "p_dead t = p_dead s" "p_blocks t = p_blocks s" "p_funcs t = p_funcs s"
    "p_vm t = p_vm s" "m_imports t = m_imports s"
    using e by (cases s; cases t; simp)+
  show "m_pos t = m_pos s + j" "clean (length (p_nodes s)) t" using assms by (auto simp: moved_def)
  show "length (p_nodes s) \<le> length (p_nodes t)" using arg_cong [OF p, of length] by simp
  show "i < length (p_nodes s) \<Longrightarrow> p_nodes t ! i = p_nodes s ! i" using nth_take [of i "length (p_nodes s)" "p_nodes t"] p by simp
qed

lemma clean_end [simp]: "length (p_nodes s) \<le> k \<Longrightarrow> clean k s"
  by (auto simp: clean_def)

lemma moved_refl [simp]: "moved 0 s s"
  by (simp add: moved_def)

lemma moved_alive: "moved j s t \<Longrightarrow> alive s \<Longrightarrow> alive t"
  using movedD(2,8) [of j s t] by (auto simp: alive_def)

lemma moved_trans:
  assumes st: "moved j s t" and tu: "moved k t u"
  shows "moved (j + k) s u"
proof -
  note S = movedD [OF st] and T = movedD [OF tu]
  have "clean (length (p_nodes s)) u"
    unfolding clean_def
  proof (intro allI impI)
    fix i assume i: "length (p_nodes s) \<le> i \<and> i < length (p_nodes u)"
    show "\<not> is_dot (e_node (p_nodes u ! i)) \<and> (\<forall>p. e_parent (p_nodes u ! i) = Some p \<longrightarrow> length (p_nodes s) \<le> p)"
    proof (cases "i < length (p_nodes t)")
      case True
      then show ?thesis using T(10) [OF True] S(9) i by (auto simp: clean_def)
    next
      case False
      with i have "length (p_nodes t) \<le> i \<and> i < length (p_nodes u)" by simp
      with T(9) have "\<not> is_dot (e_node (p_nodes u ! i)) \<and> (\<forall>p. e_parent (p_nodes u ! i) = Some p \<longrightarrow> length (p_nodes t) \<le> p)"
        unfolding clean_def by blast
      with S(8) show ?thesis by (meson order_trans)
    qed
  qed
  moreover have "take (length (p_nodes s)) (p_nodes u) = p_nodes s"
    using S(8,10) T(8,10) by (intro nth_equalityI) auto
  moreover have "u\<lparr>m_pos := m_pos s, p_nodes := p_nodes s, m_expressions := m_expressions s\<rparr> = s"
    using st tu by (cases s; cases t; cases u) (auto simp: moved_def)
  ultimately show ?thesis using st tu S(8) T(8) by (fastforce simp: moved_def)
qed

definition skip :: "nat \<Rightarrow> parser \<Rightarrow> parser" where
  "skip j s = s\<lparr>m_pos := m_pos s + j\<rparr>"

lemma skip_sel [simp]:
  "m_tokens (skip j s) = m_tokens s" "m_pos (skip j s) = m_pos s + j" "p_nodes (skip j s) = p_nodes s"
  "p_dead (skip j s) = p_dead s" "p_blocks (skip j s) = p_blocks s" "p_funcs (skip j s) = p_funcs s"
  "m_expressions (skip j s) = m_expressions s" "skip i (skip j s) = skip (j + i) s" "skip 0 s = s"
  by (simp_all add: skip_def add.assoc)

lemma moved_skip: "moved j s (skip j s)"
  by (simp add: moved_def) (simp add: skip_def)

lemma moved_skip1: "moved (Suc 0) s (skip (Suc 0) s)"
  by (rule moved_skip)

lemma rewind_skip: "(skip (Suc j) s)\<lparr>m_pos := m_pos s + j\<rparr> = skip j s"
  by (simp add: skip_def)

definition alloc :: "pexpr \<Rightarrow> parser \<Rightarrow> parser" where
  "alloc e s = s\<lparr>p_nodes := p_nodes s @ [e], m_expressions := m_expressions s @ [length (p_nodes s)]\<rparr>"

lemma alloc_sel [simp]:
  "m_tokens (alloc e s) = m_tokens s" "m_pos (alloc e s) = m_pos s" "p_nodes (alloc e s) = p_nodes s @ [e]"
  "p_dead (alloc e s) = p_dead s" "p_blocks (alloc e s) = p_blocks s" "p_funcs (alloc e s) = p_funcs s"
  by (simp_all add: alloc_def)

lemma new_alloc: "newListed code n ty s = Ret (length (p_nodes s)) (alloc (fresh code n ty) s)"
  by (simp add: newListed_def newExpr_def listExpr_def bind_step_def modify_def ret_def alloc_def fresh_def)

lemma moved_alloc: "\<not> is_dot n \<Longrightarrow> moved 0 s (alloc (fresh code n ty) s)"
  by (simp add: moved_def clean_def nth_append fresh_def) (simp add: alloc_def)

text \<open>The tokens ahead.\<close>

definition ahead :: "Token list \<Rightarrow> parser \<Rightarrow> bool" where
  "ahead ts s \<longleftrightarrow> (\<exists>rest. drop (m_pos s) (m_tokens s) = ts @ rest)"

lemma ahead_next:
  assumes "ahead (t # ts) s"
  shows "nextToken s = Ret t (skip (Suc 0) s)"
proof -
  from assms obtain rest where d: "drop (m_pos s) (m_tokens s) = t # ts @ rest" by (auto simp: ahead_def)
  then have "m_pos s < length (m_tokens s)" by (metis drop_all list.distinct(1) not_le)
  moreover from this d have "m_tokens s ! m_pos s = t" by (simp add: Cons_nth_drop_Suc [symmetric])
  ultimately show ?thesis by (simp add: nextToken_def skip_def)
qed

lemma ahead_moved: "ahead (us @ ts) s \<Longrightarrow> moved (length us) s t \<Longrightarrow> ahead ts t"
proof -
  assume "ahead (us @ ts) s" and m: "moved (length us) s t"
  then obtain rest where "drop (m_pos s) (m_tokens s) = us @ ts @ rest" by (auto simp: ahead_def)
  then have "drop (length us) (drop (m_pos s) (m_tokens s)) = ts @ rest" by simp
  then show ?thesis using movedD(1,7) [OF m] by (auto simp: ahead_def add.commute)
qed

lemma ahead_tl: "ahead (t # ts) s \<Longrightarrow> moved (Suc 0) s u \<Longrightarrow> ahead ts u"
  using ahead_moved [of "[t]" ts s u] by simp

lemma ahead_same: "ahead ts s \<Longrightarrow> moved 0 s u \<Longrightarrow> ahead ts u"
  using ahead_moved [of "[]" ts s u] by simp

lemma ahead_more: "ahead (t # ts) s \<Longrightarrow> moreTokens s = Ret True s"
proof -
  assume "ahead (t # ts) s"
  then have "drop (m_pos s) (m_tokens s) \<noteq> []" by (auto simp: ahead_def)
  then show ?thesis by (simp add: moreTokens_def reads_def)
qed

lemma step_simps:
  "bind_step (ret x) f = f x" "bind_step m f s = (case m s of Ret x t \<Rightarrow> f x t | Failed t \<Rightarrow> Failed t
     | Undefined \<Rightarrow> Undefined | OutOfFuel \<Rightarrow> OutOfFuel)"
  "ret x s = Ret x s" "rewind k s = Ret () (s\<lparr>m_pos := m_pos s - k\<rparr>)"
  by (auto simp: bind_step_def ret_def rewind_def modify_def fun_eq_iff)


section \<open>What a store holds\<close>

text \<open>What a store says of an address, and the expression a part of a store holds.\<close>

type_synonym part = "addr \<Rightarrow> (pnode \<times> ValueType) option"

definition seen :: "parser \<Rightarrow> part" where
  "seen s x = (if x < length (p_nodes s) \<and> x \<notin> set (p_dead s)
     then Some (e_node (p_nodes s ! x), e_valueType (p_nodes s ! x)) else None)"

inductive holds :: "part \<Rightarrow> addr \<Rightarrow> expr \<Rightarrow> bool" for M :: part where
  holds_var: "M x = Some (PVar c v, ty) \<Longrightarrow> holds M x (VarExpression c v ty)"
| holds_int: "M x = Some (PInteger i, ty) \<Longrightarrow> holds M x (IntegerExpression i)"
| holds_oper: "M x = Some (POper oper d (Some l) (Some r), ty) \<Longrightarrow> oper \<noteq> OPR_REFERENCE \<Longrightarrow> holds M l L \<Longrightarrow> holds M r R \<Longrightarrow>
    holds M x (OperationExpression oper d ty (Some L) (Some R))"
| holds_right: "M x = Some (POper oper d None (Some r), ty) \<Longrightarrow> oper \<noteq> OPR_REFERENCE \<Longrightarrow> holds M r R \<Longrightarrow>
    holds M x (OperationExpression oper d ty None (Some R))"
| holds_call: "M x = Some (PCall c f xs, ty) \<Longrightarrow> list_all2 (holds M) xs Ts \<Longrightarrow> holds M x (CallExpression False c f Ts)"
monos list_all2_mono

lemma holds_mono: "holds M x T \<Longrightarrow> M \<subseteq>\<^sub>m M' \<Longrightarrow> holds M' x T"
proof (induction rule: holds.induct)
  case (holds_call x c f xs ty Ts)
  then have "list_all2 (holds M') xs Ts" by (auto elim!: list_all2_mono)
  with holds_call show ?case by (auto simp: map_le_def dom_def intro!: holds.holds_call)
qed (auto simp: map_le_def dom_def intro: holds.intros)

lemma seen_moved:
  assumes "moved j s t" and "i < length (p_nodes s)"
  shows "seen t i = seen s i"
  using movedD(2,8) [OF assms(1)] movedD(10) [OF assms] assms(2) by (auto simp: seen_def)

lemma seen_bound: "M \<subseteq>\<^sub>m seen s \<Longrightarrow> x \<in> dom M \<Longrightarrow> x < length (p_nodes s)"
  by (force simp: map_le_def seen_def split: if_splits)

lemma map_le_moved: "moved j s t \<Longrightarrow> M \<subseteq>\<^sub>m seen s \<Longrightarrow> M \<subseteq>\<^sub>m seen t"
  using seen_moved [of j s t] seen_bound [of M s] by (simp add: map_le_def)

lemma seen_alloc: "alive s \<Longrightarrow> seen (alloc (fresh code n ty) s) = (seen s)(length (p_nodes s) \<mapsto> (n, ty))"
  by (auto simp: seen_def fun_eq_iff nth_append fresh_def alive_def)

lemma those_trees: "list_all2 (\<lambda>x T. f x = Some T) xs Ts \<Longrightarrow> those (map f xs) = Some Ts"
  by (induction rule: list_all2_induct) auto

lemma holds_tree:
  assumes "clean k s" "M \<subseteq>\<^sub>m seen s" "dom M \<subseteq> {k..}"
  shows "holds M x T \<Longrightarrow> depth T \<le> n \<Longrightarrow> expr_tree n s x = Some T"
proof (induction arbitrary: n rule: holds.induct)
  case (holds_var x c v ty)
  with assms(2) have "seen s x = Some (PVar c v, ty)" by (force simp: map_le_def)
  with holds_var.prems show ?case by (cases n) (auto simp: seen_def split: if_splits)
next
  case (holds_int x i ty)
  with assms(2) have "seen s x = Some (PInteger i, ty)" by (force simp: map_le_def)
  with holds_int.prems show ?case by (cases n) (auto simp: seen_def split: if_splits)
next
  case (holds_oper x oper d l r ty L R)
  from holds_oper(1) assms(2) have "seen s x = Some (POper oper d (Some l) (Some r), ty)" by (force simp: map_le_def)
  with holds_oper show ?case by (cases n) (auto simp: seen_def split: if_splits)
next
  case (holds_right x oper d r ty R)
  from holds_right(1) assms(2) have "seen s x = Some (POper oper d None (Some r), ty)" by (force simp: map_le_def)
  with holds_right show ?case by (cases n) (auto simp: seen_def split: if_splits)
next
  case (holds_call x c f xs ty Ts)
  from holds_call(1) assms(2) have s: "seen s x = Some (PCall c f xs, ty)" by (force simp: map_le_def)
  have x: "k \<le> x" using holds_call(1) assms(3) by auto
  have "\<not> under_reference s (p_nodes s ! x)"
    using assms(1) x s by (auto simp: clean_def under_reference_def seen_def split: option.splits pnode.splits if_splits)
      (metis is_dot.simps(1))
  moreover obtain m where m: "n = Suc m" "depths Ts \<le> m" using holds_call.prems by (cases n) auto
  have "list_all2 (\<lambda>x T. expr_tree m s x = Some T) xs Ts"
  proof (rule list.rel_mono_strong [OF holds_call(2)])
    fix y U assume "y \<in> set xs" "U \<in> set Ts" and y: "holds M y U \<and> (\<forall>n\<ge>depth U. expr_tree n s y = Some U)"
    then show "expr_tree m s y = Some U" using depths_le [of U Ts] m(2) by (meson order_trans)
  qed
  then have "those (map (expr_tree m s) xs) = Some Ts" by (rule those_trees)
  ultimately show ?case using s m by (auto simp: seen_def split: if_splits)
qed

lemma holds_dom: "holds M x T \<Longrightarrow> x \<in> dom M"
  by (cases rule: holds.cases) auto

section \<open>Building the tree\<close>

text \<open>A step that changes nodes from address \<open>k\<close> on and adds new ones.\<close>

definition nearby :: "addr \<Rightarrow> parser \<Rightarrow> parser \<Rightarrow> bool" where
  "nearby k s t \<longleftrightarrow> t\<lparr>p_nodes := p_nodes s\<rparr> = s \<and> length (p_nodes s) \<le> length (p_nodes t)
     \<and> take k (p_nodes t) = take k (p_nodes s) \<and> (clean k s \<longrightarrow> clean k t)"

lemma nearby_refl [simp]: "nearby k s s"
  by (simp add: nearby_def)

lemma nearby_trans: "nearby k s t \<Longrightarrow> nearby k t u \<Longrightarrow> nearby k s u"
  by (cases s; cases t; cases u) (auto simp: nearby_def)

lemma nearbyD:
  assumes "nearby k s t"
  shows "p_dead t = p_dead s" "length (p_nodes s) \<le> length (p_nodes t)" "alive s \<Longrightarrow> alive t"
proof -
  show d: "p_dead t = p_dead s" using assms by (cases s; cases t) (auto simp: nearby_def)
  show l: "length (p_nodes s) \<le> length (p_nodes t)" using assms by (simp add: nearby_def)
  show "alive s \<Longrightarrow> alive t" using d l by (auto simp: alive_def)
qed

lemma moved_nearby:
  assumes "moved j s t" and "nearby (length (p_nodes s)) t u"
  shows "moved j s u"
proof -
  have "m_pos u = m_pos t" "m_expressions u = m_expressions t"
    "u\<lparr>m_pos := m_pos s, p_nodes := p_nodes s, m_expressions := m_expressions s\<rparr> =
     t\<lparr>m_pos := m_pos s, p_nodes := p_nodes s, m_expressions := m_expressions s\<rparr>"
    using assms(2) by (cases s; cases t; cases u; simp add: nearby_def)+
  with assms show ?thesis by (fastforce simp: moved_def nearby_def)
qed

lemma getNode_seen: "seen s x = Some (n, ty) \<Longrightarrow> \<exists>e. getNode x s = Ret e s \<and> e_node e = n \<and> e_valueType e = ty"
  by (auto simp: seen_def getNode_def split: if_splits)

lemma updNode_seen:
  assumes x: "seen s x = Some (n, ty)" "k \<le> x"
    and f: "\<And>e. e_node e = n \<Longrightarrow> e_valueType e = ty \<Longrightarrow> e_node (f e) = n' \<and> e_valueType (f e) = ty
      \<and> (e_parent (f e) = e_parent e \<or> (\<forall>p. e_parent (f e) = Some p \<longrightarrow> k \<le> p))" and "\<not> is_dot n'"
  shows "\<exists>t. updNode x f s = Ret () t \<and> nearby k s t \<and> length (p_nodes t) = length (p_nodes s)
    \<and> seen t = (seen s)(x \<mapsto> (n', ty))"
proof -
  from x(1) have x1: "x < length (p_nodes s)" "x \<notin> set (p_dead s)" by (auto simp: seen_def split: if_splits)
  let ?e = "p_nodes s ! x"
  let ?t = "s\<lparr>p_nodes := (p_nodes s)[x := f ?e]\<rparr>"
  have e: "e_node ?e = n" "e_valueType ?e = ty" using x(1) by (auto simp: seen_def split: if_splits)
  have "updNode x f s = Ret () ?t"
    using x1 by (simp add: updNode_def bind_step_def getNode_def setNode_def modify_def)
  moreover have "seen ?t = (seen s)(x \<mapsto> (n', ty))"
    using f [OF e] x1 by (auto simp: seen_def fun_eq_iff nth_list_update)
  moreover have "clean k s \<longrightarrow> clean k ?t"
    using f [OF e] assms(4) x1(1) x(2) by (auto simp: clean_def nth_list_update)
  ultimately show ?thesis using x(2) by (auto simp: nearby_def)
qed

lemma steps_bind: "steps [m1, m2] s = (case m1 s of Ret _ t \<Rightarrow> m2 t | r \<Rightarrow> r)"
  by (auto simp: bind_step_def ret_def fun_eq_iff split: outcome.split)

text \<open>Linking an operand: the operator's node changes, everything else is seen as before.\<close>

lemma link_steps:
  assumes f: "\<And>e. e_node (f e) = (case e_node e of POper oper d l r \<Rightarrow> g oper d l r | n \<Rightarrow> n) \<and> e_valueType (f e) = e_valueType e
      \<and> e_parent (f e) = e_parent e"
    and x: "seen s x = Some (POper oper d l r, ty)" "k \<le> x" "\<not> is_dot (g oper d l r)"
    and y: "seen s y = Some z" "\<not> is_dot (fst z)" "x \<noteq> y" "k \<le> y"
  shows "\<exists>t. steps [updNode x f, setParent y x] s = Ret () t \<and> nearby k s t
      \<and> length (p_nodes t) = length (p_nodes s) \<and> seen t = (seen s)(x \<mapsto> (g oper d l r, ty))"
proof -
  obtain n ty' where z: "z = (n, ty')" by (cases z)
  obtain t1 where t1: "updNode x f s = Ret () t1" "nearby k s t1" "length (p_nodes t1) = length (p_nodes s)"
    "seen t1 = (seen s)(x \<mapsto> (g oper d l r, ty))"
    using updNode_seen [OF x(1,2), of f "g oper d l r"] f x(3) by auto
  have "seen t1 y = Some (n, ty')" using t1(4) y z by simp
  then obtain t2 where t2: "setParent y x t1 = Ret () t2" "nearby k t1 t2" "length (p_nodes t2) = length (p_nodes t1)"
    "seen t2 = (seen t1)(y \<mapsto> (n, ty'))"
    using updNode_seen [of t1 y n ty' k "\<lambda>e. e\<lparr>e_parent := Some x\<rparr>" n] y z x(2) by (auto simp: setParent_def)
  then have "seen t2 = seen t1" using \<open>seen t1 y = _\<close> by (simp add: map_upd_triv)
  with t1 t2 nearby_trans show ?thesis unfolding steps_bind by auto
qed

lemma link_right:
  assumes "seen s x = Some (POper oper d l r, ty)" "k \<le> x" "oper \<noteq> OPR_REFERENCE"
    "seen s y = Some z" "\<not> is_dot (fst z)" "x \<noteq> y" "k \<le> y"
  shows "\<exists>t. steps [set_right x y, setParent y x] s = Ret () t \<and> nearby k s t
      \<and> length (p_nodes t) = length (p_nodes s) \<and> seen t = (seen s)(x \<mapsto> (POper oper d l (Some y), ty))"
  unfolding set_right_def using link_steps [of _ "\<lambda>oper d l r. POper oper d l (Some y)", OF _ assms(1,2) _ assms(4-)] assms(3)
  by (auto split: pnode.split)

lemma link_left:
  assumes "seen s x = Some (POper oper d l r, ty)" "k \<le> x" "oper \<noteq> OPR_REFERENCE"
    "seen s y = Some z" "\<not> is_dot (fst z)" "x \<noteq> y" "k \<le> y"
  shows "\<exists>t. steps [set_left x y, setParent y x] s = Ret () t \<and> nearby k s t
      \<and> length (p_nodes t) = length (p_nodes s) \<and> seen t = (seen s)(x \<mapsto> (POper oper d (Some y) r, ty))"
  unfolding set_left_def using link_steps [of _ "\<lambda>oper d l r. POper oper d (Some y) r", OF _ assms(1,2) _ assms(4-)] assms(3)
  by (auto split: pnode.split)

text \<open>Folding: on two integers a new node, otherwise nothing.\<close>

definition no_double :: "pnode \<Rightarrow> bool" where
  "no_double n \<longleftrightarrow> (\<forall>d. n \<noteq> PDouble d)"

lemma fold_literals_steps:
  assumes "seen s x = Some (xn, xt)" "k \<le> x" "seen s l = Some (ln, lt)" "seen s r = Some (rn, rt')"
    and "no_double ln" and dead: "alive s"
  shows "(\<exists>a b t. ln = PInteger a \<and> rn = PInteger b
       \<and> fold_literals code x oper l r s = Ret (length (p_nodes s)) t \<and> nearby k s t
       \<and> length (p_nodes t) = Suc (length (p_nodes s))
       \<and> seen t = (seen s)(length (p_nodes s) \<mapsto> (PInteger (if oper = OPR_ADD then a + b else a * b), VALUE_UNKNOWN)))
    \<or> \<not> (\<exists>a b. ln = PInteger a \<and> rn = PInteger b) \<and> fold_literals code x oper l r s = Ret x s"
proof -
  obtain le where le: "getNode l s = Ret le s" "e_node le = ln" using getNode_seen [OF assms(3)] by auto
  obtain re where re: "getNode r s = Ret re s" "e_node re = rn" using getNode_seen [OF assms(4)] by auto
  obtain e where e: "getNode x s = Ret e s" using getNode_seen [OF assms(1)] by auto
  show ?thesis
  proof (cases "\<exists>a b. ln = PInteger a \<and> rn = PInteger b")
    case False
    then have "fold_literals code x oper l r s = Ret x s"
      using le re e assms(5) by (auto simp: fold_literals_def bind_step_def ret_def no_double_def split: pnode.splits)
    with False show ?thesis by auto
  next
    case True
    then obtain a b where ab: "ln = PInteger a" "rn = PInteger b" by auto
    let ?n = "PInteger (if oper = OPR_ADD then a + b else a * b)" and ?k = "length (p_nodes s)"
    let ?t = "s\<lparr>p_nodes := p_nodes s @ [(fresh code ?n VALUE_UNKNOWN)\<lparr>e_parent := e_parent e\<rparr>]\<rparr>"
    have x: "x < ?k" "e = p_nodes s ! x" using e by (auto simp: getNode_def split: if_splits)
    have k: "?k \<notin> set (p_dead s)" using dead by (auto simp: alive_def)
    have "fold_literals code x oper l r s = Ret ?k ?t"
      using le re e ab k by (simp add: fold_literals_def bind_step_def ret_def newExpr_def updNode_def getNode_def setNode_def modify_def fresh_def)
    moreover have "seen ?t = (seen s)(?k \<mapsto> (?n, VALUE_UNKNOWN))"
      using k by (auto simp: seen_def fun_eq_iff nth_append fresh_def)
    moreover have "clean k s \<longrightarrow> clean k ?t" using x assms(2) by (auto simp: clean_def nth_append fresh_def)
    ultimately show ?thesis using ab x assms(2) by (auto simp: nearby_def)
  qed
qed

lemma holds_node:
  assumes "holds M x T"
  shows "\<exists>n ty. M x = Some (n, ty) \<and> no_double n \<and> \<not> is_dot n \<and> (\<forall>i. n = PInteger i \<longleftrightarrow> T = IntegerExpression i)"
  using assms by (cases rule: holds.cases) (auto simp: no_double_def)

lemma fold_sum_other:
  "\<not> (\<exists>i j. A = IntegerExpression i \<and> B = IntegerExpression j) \<or> oper \<noteq> OPR_ADD \<and> oper \<noteq> OPR_MULTIPLY \<Longrightarrow>
     fold_sum oper d A B = OperationExpression oper d VALUE_UNKNOWN (Some A) (Some B)"
  by (cases "(oper, d, A, B)" rule: fold_sum.cases) auto

text \<open>The end of \<open>buildTree\<close> for an operator whose operands are linked.\<close>

definition finish_operator :: "addr \<Rightarrow> addr \<Rightarrow> OpType \<Rightarrow> addr \<Rightarrow> addr \<Rightarrow> addr option list \<Rightarrow> (addr \<times> addr option list) step" where
  "finish_operator code x oper l r rest =
     (if oper = OPR_MULTIPLY \<or> oper = OPR_ADD
      then bind_step (fold_literals code x oper l r) (\<lambda>y. ret (y, rest)) else ret (x, rest))"

text \<open>What a step makes of the part \<open>M\<close> of the store: an address that holds \<open>T\<close>.\<close>

definition builds :: "addr \<Rightarrow> part \<Rightarrow> parser \<Rightarrow> addr \<Rightarrow> expr \<Rightarrow> parser \<Rightarrow> part \<Rightarrow> bool" where
  "builds k M s x T t M' \<longleftrightarrow> nearby k s t \<and> holds M' x T \<and> M' \<subseteq>\<^sub>m seen t
     \<and> dom M' \<subseteq> dom M \<union> {length (p_nodes s)..<length (p_nodes t)}
     \<and> (\<forall>i < length (p_nodes s). i \<notin> dom M \<longrightarrow> seen t i = seen s i)"

lemma restrict_part: "M \<subseteq>\<^sub>m seen s \<Longrightarrow> dom M \<subseteq> D \<Longrightarrow> M \<subseteq>\<^sub>m seen s |` D" "dom (seen s |` D) \<subseteq> D" "seen s |` D \<subseteq>\<^sub>m seen s"
  by (auto simp: map_le_def restrict_map_def split: if_splits)

lemma finish_operator_holds:
  assumes x: "seen s x = Some (POper oper d (Some l) (Some r), VALUE_UNKNOWN)" "k \<le> x"
    and "oper \<noteq> OPR_REFERENCE"
    and l: "holds L l A" "L \<subseteq>\<^sub>m seen s" and r: "holds R r B" "R \<subseteq>\<^sub>m seen s" and dead: "alive s"
    and D: "dom L \<subseteq> D" "dom R \<subseteq> D" "x \<in> D"
  shows "\<exists>y t M. finish_operator code x oper l r rest s = Ret (y, rest) t \<and> nearby k s t
    \<and> holds M y (fold_sum oper d A B) \<and> M \<subseteq>\<^sub>m seen t
    \<and> dom M \<subseteq> D \<union> {length (p_nodes s)..<length (p_nodes t)}
    \<and> (\<forall>i < length (p_nodes s). seen t i = seen s i)"
proof -
  let ?T = "OperationExpression oper d VALUE_UNKNOWN (Some A) (Some B)"
  let ?M = "seen s |` D"
  note L = holds_mono [OF l(1) restrict_part(1) [OF l(2) D(1)]]
  note R = holds_mono [OF r(1) restrict_part(1) [OF r(2) D(2)]]
  have plain: "holds ?M x ?T"
    by (rule holds_oper [OF _ assms(3) L R]) (use x D in \<open>simp add: restrict_map_def\<close>)
  obtain ln lt where ln: "L l = Some (ln, lt)" "no_double ln" "\<And>i. ln = PInteger i \<longleftrightarrow> A = IntegerExpression i"
    using holds_node [OF l(1)] by auto
  obtain rn rt' where rn: "R r = Some (rn, rt')" "\<And>i. rn = PInteger i \<longleftrightarrow> B = IntegerExpression i"
    using holds_node [OF r(1)] by auto
  have sl: "seen s l = Some (ln, lt)" "seen s r = Some (rn, rt')"
    using l(2) r(2) ln(1) rn(1) by (force simp: map_le_def)+
  have keep: ?thesis if "finish_operator code x oper l r rest s = Ret (x, rest) s" "fold_sum oper d A B = ?T"
    using that plain restrict_part(2,3) [of s D] by (intro exI [of _ x] exI [of _ s] exI [of _ ?M]) simp
  show ?thesis
  proof (cases "oper = OPR_MULTIPLY \<or> oper = OPR_ADD")
    case False
    then show ?thesis by (intro keep) (auto simp: finish_operator_def ret_def intro: fold_sum_other)
  next
    case True
    from fold_literals_steps [OF x sl ln(2) dead, of code oper] show ?thesis
    proof (elim disjE exE conjE)
      fix a b t
      assume ab: "ln = PInteger a" "rn = PInteger b" and f: "fold_literals code x oper l r s = Ret (length (p_nodes s)) t"
        and t: "nearby k s t" "length (p_nodes t) = Suc (length (p_nodes s))"
          "seen t = (seen s)(length (p_nodes s) \<mapsto> (PInteger (if oper = OPR_ADD then a + b else a * b), VALUE_UNKNOWN))"
      let ?k = "length (p_nodes s)"
      let ?N = "[?k \<mapsto> (PInteger (if oper = OPR_ADD then a + b else a * b), VALUE_UNKNOWN)]"
      have AB: "A = IntegerExpression a" "B = IntegerExpression b" using ab ln(3) rn(2) by auto
      have "holds ?N ?k (fold_sum oper d A B)" using True AB by (auto intro!: holds_int [of _ _ _ VALUE_UNKNOWN])
      moreover have "?N \<subseteq>\<^sub>m seen t" "dom ?N \<subseteq> {?k..<length (p_nodes t)}" using t by (auto simp: map_le_def)
      ultimately show ?thesis
        using f t True by (intro exI [of _ ?k] exI [of _ t] exI [of _ ?N]) (auto simp: finish_operator_def bind_step_def ret_def)
    next
      assume no: "\<not> (\<exists>a b. ln = PInteger a \<and> rn = PInteger b)" and f: "fold_literals code x oper l r s = Ret x s"
      have "fold_sum oper d A B = ?T" using no ln(3) rn(2) by (intro fold_sum_other) auto
      with True f show ?thesis by (intro keep) (simp_all add: finish_operator_def bind_step_def ret_def)
    qed
  qed
qed

lemma binary_descs_ok:
  "list_all (\<lambda>d. od_hasLeft d \<and> od_hasRight d \<and> find_op (od_token d) = Some d \<and> od_oper d \<noteq> OPR_REFERENCE
     \<and> od_token d \<notin> {TOK_BRACKET_LEFT, TOK_BRACKET_RIGHT, TOK_ADD_ASSIGN, TOK_SUB_ASSIGN, TOK_DOT,
        TOK_SQUARE_BRACKET_LEFT, TOK_SEMICOLON, TOK_COMMA}) binary_descs"
  by code_simp

lemma binary_desc_cases:
  assumes "binary_desc oper = Some d"
  shows "od_oper d = oper" "od_hasLeft d" "od_hasRight d" "find_op (od_token d) = Some d"
    "\<not> ends_expression TOK_ANY (od_token d) br" "od_token d \<noteq> TOK_BRACKET_LEFT" "od_token d \<noteq> TOK_BRACKET_RIGHT"
    "od_token d \<noteq> TOK_ADD_ASSIGN" "od_token d \<noteq> TOK_SUB_ASSIGN"
    "od_token d \<noteq> TOK_DOT" "od_token d \<noteq> TOK_SQUARE_BRACKET_LEFT" "oper \<noteq> OPR_REFERENCE"
proof -
  from assms have "d \<in> set binary_descs" and o: "od_oper d = oper"
    unfolding binary_desc_def by (auto simp: find_Some_iff)
  with binary_descs_ok have d: "od_hasLeft d \<and> od_hasRight d \<and> find_op (od_token d) = Some d \<and> od_oper d \<noteq> OPR_REFERENCE
     \<and> od_token d \<notin> {TOK_BRACKET_LEFT, TOK_BRACKET_RIGHT, TOK_ADD_ASSIGN, TOK_SUB_ASSIGN, TOK_DOT,
        TOK_SQUARE_BRACKET_LEFT, TOK_SEMICOLON, TOK_COMMA}"
    by (auto simp: list_all_iff)
  show "od_oper d = oper" by (rule o)
  show "od_hasLeft d" "od_hasRight d" "find_op (od_token d) = Some d" "od_token d \<noteq> TOK_BRACKET_LEFT"
    "od_token d \<noteq> TOK_BRACKET_RIGHT" "od_token d \<noteq> TOK_ADD_ASSIGN" "od_token d \<noteq> TOK_SUB_ASSIGN"
    "od_token d \<noteq> TOK_DOT" "od_token d \<noteq> TOK_SQUARE_BRACKET_LEFT" "oper \<noteq> OPR_REFERENCE"
    "\<not> ends_expression TOK_ANY (od_token d) br"
    using d o by (auto simp: ends_expression_def)
qed

text \<open>An operator with two operands that are linked and nothing more.\<close>

definition two_sided :: "OpType \<Rightarrow> OpDesc \<Rightarrow> bool" where
  "two_sided oper d \<longleftrightarrow> od_hasLeft d \<and> od_hasRight d \<and> od_token d \<noteq> TOK_ADD_ASSIGN \<and> od_token d \<noteq> TOK_SUB_ASSIGN
     \<and> oper \<noteq> OPR_REFERENCE"

lemma binary_two_sided: "binary_desc oper = Some d \<Longrightarrow> two_sided oper d"
  using binary_desc_cases [of oper d] by (simp add: two_sided_def)

text \<open>Queues of nodes that are still to be linked, and the expressions they spell.\<close>

inductive pend :: "part \<Rightarrow> addr list \<Rightarrow> expr \<Rightarrow> bool" where
  pend_done: "holds M x T \<Longrightarrow> M x = Some (n, ty) \<Longrightarrow> (\<forall>oper d l r. n \<noteq> POper oper d l r) \<Longrightarrow> pend M [x] T"
| pend_not: "pend M Q T \<Longrightarrow> M \<subseteq>\<^sub>m N \<Longrightarrow> m \<notin> dom M \<Longrightarrow> N m = Some (POper OPR_NOT not_desc None None, VALUE_UNKNOWN)
    \<Longrightarrow> pend N (Q @ [m]) (OperationExpression OPR_NOT not_desc VALUE_UNKNOWN None (Some T))"
| pend_oper: "pend L P A \<Longrightarrow> pend R Q B \<Longrightarrow> L \<subseteq>\<^sub>m N \<Longrightarrow> R \<subseteq>\<^sub>m N \<Longrightarrow> dom L \<inter> dom R = {} \<Longrightarrow> m \<notin> dom L \<union> dom R
    \<Longrightarrow> two_sided oper d \<Longrightarrow> N m = Some (POper oper d None None, VALUE_UNKNOWN)
    \<Longrightarrow> pend N (P @ Q @ [m]) (fold_sum oper d A B)"

lemma buildsD:
  assumes "builds k M s x T t M'"
  shows "nearby k s t" "holds M' x T" "M' \<subseteq>\<^sub>m seen t" "dom M' \<subseteq> dom M \<union> {length (p_nodes s)..<length (p_nodes t)}"
    "\<And>i. i < length (p_nodes s) \<Longrightarrow> i \<notin> dom M \<Longrightarrow> seen t i = seen s i"
  using assms by (auto simp: builds_def)

lemma map_le_same: "M \<subseteq>\<^sub>m seen s \<Longrightarrow> (\<And>i. i \<in> dom M \<Longrightarrow> seen t i = seen s i) \<Longrightarrow> M \<subseteq>\<^sub>m seen t"
  by (simp add: map_le_def)

lemma seen_holds:
  assumes "holds M x T" "M \<subseteq>\<^sub>m seen s"
  obtains z where "seen s x = Some z" "\<not> is_dot (fst z)"
proof -
  from holds_node [OF assms(1)] obtain n ty where "M x = Some (n, ty)" "\<not> is_dot n" by auto
  with assms(2) that show thesis by (force simp: map_le_def)
qed

lemma tree_step:
  assumes "seen s m = Some (POper oper d None None, VALUE_UNKNOWN)" and d: "two_sided oper d"
    and right: "buildTree n code q s = Ret (xr, q2) t1" "steps [set_right m xr, setParent xr m] t1 = Ret () t2"
    and left: "buildTree n code q2 t2 = Ret (xl, q3) t3" "steps [set_left m xl, setParent xl m] t3 = Ret () t4"
  shows "buildTree (Suc n) code (Some m # q) s = finish_operator code m oper xl xr q3 t4"
proof -
  from getNode_seen [OF assms(1)] obtain e where e: "getNode m s = Ret e s" "e_node e = POper oper d None None" by auto
  note b = d [unfolded two_sided_def]
  show ?thesis
    using e b right left
    by (simp del: steps.simps add: step_simps needing_def finish_operator_def split: outcome.split)
qed

lemma not_step:
  assumes "seen s m = Some (POper OPR_NOT not_desc None None, VALUE_UNKNOWN)"
    and right: "buildTree n code q s = Ret (xr, q2) t1" "steps [set_right m xr, setParent xr m] t1 = Ret () t2"
  shows "buildTree (Suc n) code (Some m # q) s = Ret (m, q2) t2"
proof -
  from getNode_seen [OF assms(1)] obtain e where e: "getNode m s = Ret e s" "e_node e = POper OPR_NOT not_desc None None" by auto
  show ?thesis using e right by (simp del: steps.simps add: step_simps not_desc_def op_desc_def)
qed

lemma build_pend:
  assumes "pend M Q T" and "M \<subseteq>\<^sub>m seen s" and "dom M \<subseteq> {k..}" and "alive s" and "length Q < n"
  shows "\<exists>x t M'. buildTree n code (rev (map Some Q) @ rest) s = Ret (x, rest) t \<and> builds k M s x T t M'"
  using assms
proof (induction arbitrary: s n rest)
  case (pend_done M x T e ty)
  then have "seen s x = Some (e, ty)" by (force simp: map_le_def)
  then obtain k where "getNode x s = Ret k s" "e_node k = e" using getNode_seen by blast
  moreover obtain j where "n = Suc j" using pend_done.prems(4) by (cases n) auto
  ultimately have "buildTree n code (rev (map Some [x]) @ rest) s = Ret (x, rest) s"
    using pend_done.hyps(3) by (simp add: step_simps split: pnode.split)
  moreover have "builds k M s x T s M" for k using pend_done by (simp add: builds_def)
  ultimately show ?case by blast
next
  case (pend_not M Q T N m)
  obtain j where n: "n = Suc j" "length Q < j" using pend_not.prems(4) by (cases n) auto
  have M: "M \<subseteq>\<^sub>m seen s" "dom M \<subseteq> dom N" using pend_not.hyps(2) pend_not.prems(1) map_le_trans map_le_implies_dom_le by blast+
  have m: "seen s m = Some (POper OPR_NOT not_desc None None, VALUE_UNKNOWN)" "m \<in> dom N"
    using pend_not.hyps(4) pend_not.prems(1) by (force simp: map_le_def)+
  have k: "k \<le> m" "dom M \<subseteq> {k..}" using m(2) M(2) pend_not.prems(2) by auto
  obtain x t M' where b: "buildTree j code (rev (map Some Q) @ rest) s = Ret (x, rest) t" "builds k M s x T t M'"
    using pend_not.IH [OF M(1) k(2) pend_not.prems(3) n(2)] by blast
  note B = buildsD [OF b(2)]
  have mlt: "m < length (p_nodes s)" by (rule seen_bound [OF pend_not.prems(1) m(2)])
  have mx: "m \<notin> dom M'" using B(4) pend_not.hyps(3) mlt by auto
  then have "m \<noteq> x" using holds_dom [OF B(2)] by blast
  moreover have "x \<in> dom M \<union> {length (p_nodes s)..<length (p_nodes t)}" using holds_dom [OF B(2)] B(4) by blast
  then have "k \<le> x" using k mlt by auto
  moreover obtain z where "seen t x = Some z" "\<not> is_dot (fst z)" by (rule seen_holds [OF B(2,3)])
  moreover have "seen t m = Some (POper OPR_NOT not_desc None None, VALUE_UNKNOWN)"
    using B(5) [OF mlt pend_not.hyps(3)] m(1) by simp
  ultimately obtain u where u: "steps [set_right m x, setParent x m] t = Ret () u" "nearby k t u"
    "length (p_nodes u) = length (p_nodes t)" "seen u = (seen t)(m \<mapsto> (POper OPR_NOT not_desc None (Some x), VALUE_UNKNOWN))"
    using link_right [of t m OPR_NOT not_desc None None VALUE_UNKNOWN k x] k(1) by auto
  have M': "M' \<subseteq>\<^sub>m seen u" using B(3) u(4) mx by (auto simp: map_le_def)
  let ?D = "dom N \<union> {length (p_nodes s)..<length (p_nodes u)}"
  have "dom M' \<subseteq> ?D" using B(4) M(2) u(3) by auto
  from holds_mono [OF B(2) restrict_part(1) [OF M' this]]
  have "holds (seen u |` ?D) m (OperationExpression OPR_NOT not_desc VALUE_UNKNOWN None (Some T))"
    by (rule holds_right [rotated 2]) (use u(4) m(2) in \<open>auto simp: restrict_map_def\<close>)
  moreover have "seen u i = seen s i" if "i < length (p_nodes s)" "i \<notin> dom N" for i
    using that B(5) [of i] M(2) u(4) m(2) by auto
  ultimately have "builds k N s m (OperationExpression OPR_NOT not_desc VALUE_UNKNOWN None (Some T)) u (seen u |` ?D)"
    using nearby_trans [OF B(1) u(2)] restrict_part(2,3) [of u ?D] by (simp add: builds_def)
  moreover have "buildTree n code (rev (map Some (Q @ [m])) @ rest) s = Ret (m, rest) u"
    using not_step [OF m(1) b(1) u(1)] n(1) by simp
  ultimately show ?case by blast
next
  case (pend_oper L P A R Q B N m oper d)
  obtain j where n: "n = Suc j" "length P < j" "length Q < j" using pend_oper.prems(4) by (cases n) auto
  have L: "L \<subseteq>\<^sub>m seen s" "dom L \<subseteq> dom N" and R: "R \<subseteq>\<^sub>m seen s" "dom R \<subseteq> dom N"
    using pend_oper.hyps(3,4) pend_oper.prems(1) map_le_trans map_le_implies_dom_le by blast+
  have m: "seen s m = Some (POper oper d None None, VALUE_UNKNOWN)" "m \<in> dom N"
    using pend_oper.hyps(8) pend_oper.prems(1) by (force simp: map_le_def)+
  have k: "k \<le> m" "dom L \<subseteq> {k..}" "dom R \<subseteq> {k..}" using m(2) L(2) R(2) pend_oper.prems(2) by auto
  have bd: "oper \<noteq> OPR_REFERENCE" using pend_oper.hyps(7) by (simp add: two_sided_def)
  have mlt: "m < length (p_nodes s)" by (rule seen_bound [OF pend_oper.prems(1) m(2)])
  obtain xr t1 R' where r: "buildTree j code (rev (map Some Q) @ rev (map Some P) @ rest) s = Ret (xr, rev (map Some P) @ rest) t1"
    "builds k R s xr B t1 R'"
    using pend_oper.IH(2) [OF R(1) k(3) pend_oper.prems(3) n(3)] by blast
  note RB = buildsD [OF r(2)] and near1 = nearbyD [OF buildsD(1) [OF r(2)]]
  have mR: "m \<notin> dom R'" using RB(4) pend_oper.hyps(6) mlt by auto
  then have "m \<noteq> xr" using holds_dom [OF RB(2)] by blast
  moreover have "xr \<in> dom R \<union> {length (p_nodes s)..<length (p_nodes t1)}" using holds_dom [OF RB(2)] RB(4) by blast
  then have "k \<le> xr" using k mlt by auto
  moreover obtain z where "seen t1 xr = Some z" "\<not> is_dot (fst z)" by (rule seen_holds [OF RB(2,3)])
  moreover have "seen t1 m = Some (POper oper d None None, VALUE_UNKNOWN)"
    using RB(5) [OF mlt] pend_oper.hyps(6) m(1) by simp
  ultimately obtain t2 where t2: "steps [set_right m xr, setParent xr m] t1 = Ret () t2" "nearby k t1 t2"
    "length (p_nodes t2) = length (p_nodes t1)" "seen t2 = (seen t1)(m \<mapsto> (POper oper d None (Some xr), VALUE_UNKNOWN))"
    using link_right [of t1 m oper d None None VALUE_UNKNOWN k xr] k(1) bd by auto
  have apart: "i \<notin> dom R" "i \<noteq> m" "i < length (p_nodes s)" if "i \<in> dom L" for i
    using that pend_oper.hyps(5,6) seen_bound [OF L(1)] by auto
  have "L \<subseteq>\<^sub>m seen t2" using apart RB(5) t2(4) by (intro map_le_same [OF L(1)]) simp
  moreover have near2: "alive t2" using near1 nearbyD [OF t2(2)] pend_oper.prems(3) by simp
  ultimately obtain xl t3 L' where l: "buildTree j code (rev (map Some P) @ rest) t2 = Ret (xl, rest) t3" "builds k L t2 xl A t3 L'"
    using pend_oper.IH(1) [OF _ k(2) _ n(2)] by blast
  note LB = buildsD [OF l(2)] and near3 = nearbyD [OF buildsD(1) [OF l(2)]]
  have mL: "m \<notin> dom L'" "m \<notin> dom L" "m < length (p_nodes t2)" using LB(4) pend_oper.hyps(6) mlt near1 t2(3) by auto
  then have "m \<noteq> xl" using holds_dom [OF LB(2)] by blast
  moreover have "xl \<in> dom L \<union> {length (p_nodes t2)..<length (p_nodes t3)}" using holds_dom [OF LB(2)] LB(4) by blast
  then have "k \<le> xl" using k mL(3) by auto
  moreover obtain z where "seen t3 xl = Some z" "\<not> is_dot (fst z)" by (rule seen_holds [OF LB(2,3)])
  moreover have "seen t3 m = Some (POper oper d None (Some xr), VALUE_UNKNOWN)"
    using LB(5) [OF mL(3,2)] t2(4) by simp
  ultimately obtain t4 where t4: "steps [set_left m xl, setParent xl m] t3 = Ret () t4" "nearby k t3 t4"
    "length (p_nodes t4) = length (p_nodes t3)" "seen t4 = (seen t3)(m \<mapsto> (POper oper d (Some xl) (Some xr), VALUE_UNKNOWN))"
    using link_left [of t3 m oper d None "Some xr" VALUE_UNKNOWN k xl] k(1) bd by auto
  have L4: "L' \<subseteq>\<^sub>m seen t4" using mL(1) t4(4) by (intro map_le_same [OF LB(3)]) auto
  have R4: "R' \<subseteq>\<^sub>m seen t4"
  proof (rule map_le_same [OF RB(3)])
    fix i assume i: "i \<in> dom R'"
    have "i < length (p_nodes t2)" using seen_bound [OF RB(3) i] t2(3) by simp
    moreover have "i \<notin> dom L" using apart RB(4) i by fastforce
    ultimately show "seen t4 i = seen t1 i" using LB(5) t2(4) t4(4) mR i by auto
  qed
  let ?D = "dom N \<union> {length (p_nodes s)..<length (p_nodes t4)}"
  have len: "length (p_nodes s) \<le> length (p_nodes t1)" "length (p_nodes t1) = length (p_nodes t2)"
    "length (p_nodes t2) \<le> length (p_nodes t3)" "length (p_nodes t3) = length (p_nodes t4)"
    using near1(2) t2(3) near3(2) t4(3) by auto
  then have "{length (p_nodes s)..<length (p_nodes t1)} \<subseteq> {length (p_nodes s)..<length (p_nodes t4)}"
    "{length (p_nodes t2)..<length (p_nodes t3)} \<subseteq> {length (p_nodes s)..<length (p_nodes t4)}" by auto
  then have D: "dom L' \<subseteq> ?D" "dom R' \<subseteq> ?D" "m \<in> ?D" using LB(4) RB(4) L(2) R(2) m(2) by blast+
  have "alive t4" using near2 near3 nearbyD [OF t4(2)] by simp
  moreover have "seen t4 m = Some (POper oper d (Some xl) (Some xr), VALUE_UNKNOWN)"
    using t4(4) by simp
  ultimately obtain y t M where f: "finish_operator code m oper xl xr rest t4 = Ret (y, rest) t" "nearby k t4 t"
    "holds M y (fold_sum oper d A B)" "M \<subseteq>\<^sub>m seen t" "dom M \<subseteq> ?D \<union> {length (p_nodes t4)..<length (p_nodes t)}"
    "\<And>i. i < length (p_nodes t4) \<Longrightarrow> seen t i = seen t4 i"
    using finish_operator_holds [OF _ k(1) bd LB(2) L4 RB(2) R4 _ D] by blast
  have "buildTree n code (rev (map Some (P @ Q @ [m])) @ rest) s = Ret (y, rest) t"
    using tree_step [OF m(1) pend_oper.hyps(7) r(1) t2(1) l(1) t4(1)] f(1) n(1) by simp
  moreover have "builds k N s y (fold_sum oper d A B) t M"
    unfolding builds_def
  proof (intro conjI allI impI)
    show "nearby k s t" using RB(1) t2(2) LB(1) t4(2) f(2) nearby_trans by blast
    have "{length (p_nodes s)..<length (p_nodes t4)} \<subseteq> {length (p_nodes s)..<length (p_nodes t)}"
      "{length (p_nodes t4)..<length (p_nodes t)} \<subseteq> {length (p_nodes s)..<length (p_nodes t)}"
      using len nearbyD(2) [OF f(2)] by auto
    then show "dom M \<subseteq> dom N \<union> {length (p_nodes s)..<length (p_nodes t)}" using f(5) by blast
    fix i assume i: "i < length (p_nodes s)" "i \<notin> dom N"
    then have "i \<notin> dom L" "i \<notin> dom R" "i \<noteq> m" using L(2) R(2) m(2) by auto
    then show "seen t i = seen s i" using f(6) t4(4) LB(5) t2(4) RB(5) len i by simp
  qed (use f in simp_all)
  ultimately show ?case by blast
qed

section \<open>The loop\<close>

text \<open>A token behind which a name stands for itself, and the tokens that end an expression.\<close>

definition plain_token :: "Token \<Rightarrow> bool" where
  "plain_token t \<longleftrightarrow> tok_type t \<noteq> TOK_DOT \<and> tok_type t \<noteq> TOK_BRACKET_LEFT \<and> tok_type t \<noteq> TOK_SQUARE_BRACKET_LEFT"

definition stop_token :: "Token \<Rightarrow> bool" where
  "stop_token t \<longleftrightarrow> tok_type t \<in> {TOK_SEMICOLON, TOK_COMMA, TOK_BRACKET_RIGHT}"

lemma stop_plain: "stop_token t \<Longrightarrow> plain_token t"
  by (auto simp: stop_token_def plain_token_def)

lemma find_op_values: "find_op TOK_IDENTIFIER = None" "find_op TOK_INTEGER = None"
  "find_op TOK_BRACKET_LEFT = None" "find_op TOK_BRACKET_RIGHT = None" "find_op TOK_NOT = Some not_desc"
  by code_simp+

lemma rewind_back: "(skip (Suc 0) s)\<lparr>m_pos := m_pos s\<rparr> = s"
  "(alloc e (skip (Suc (Suc 0)) s))\<lparr>m_pos := Suc (m_pos s)\<rparr> = alloc e (skip (Suc 0) s)"
  by (simp_all add: skip_def alloc_def)

declare expression_loop.simps [simp del] parseExpressionValue.simps [simp del] expression_items.simps [simp del]
  parseExpression.simps [simp del] parseExpressionList.simps [simp del]

lemma loop_value:
  assumes "ahead (t # ts) s" and "tok_type t \<in> {TOK_IDENTIFIER, TOK_INTEGER}" and "parseExpressionValue n pe code s = Ret x u"
  shows "expression_loop (Suc n) pe code TOK_ANY q ops br s = expression_loop n pe code TOK_ANY (Some x # q) ops br u"
  using assms ahead_next [OF assms(1)]
  by (subst expression_loop.simps(2)) (auto simp: step_simps ends_expression_def find_op_values rewind_back)

lemma value_name:
  assumes tk: "gives_types tk" and "ahead ((tk TOK_IDENTIFIER)\<lparr>tok_string := x\<rparr> # t # ts) s" and "plain_token t"
  shows "parseExpressionValue (Suc n) pe code s =
      Ret (length (p_nodes s)) (alloc (fresh code (PVar 0 x) VALUE_UNKNOWN) (skip (Suc 0) s))"
proof -
  note n1 = ahead_next [OF assms(2)]
  have "ahead (t # ts) (skip (Suc 0) s)" by (rule ahead_tl [OF assms(2) moved_skip1])
  note n2 = ahead_next [OF this]
  show ?thesis
    using assms(3) by (subst parseExpressionValue.simps(2))
      (simp add: step_simps n1 n2 value_identifier_def new_alloc plain_token_def tk [unfolded gives_types_def] rewind_back)
qed

lemma value_number:
  assumes tk: "gives_types tk" and "ahead ((tk TOK_INTEGER)\<lparr>tok_i := i\<rparr> # ts) s"
  shows "parseExpressionValue (Suc n) pe code s =
      Ret (length (p_nodes s)) (alloc (fresh code (PInteger (word_of_int i)) VALUE_INTEGER) (skip (Suc 0) s))"
  using ahead_next [OF assms(2)]
  by (subst parseExpressionValue.simps(2)) (simp add: step_simps literal_value_def new_alloc tk [unfolded gives_types_def])

lemma loop_open:
  assumes tk: "gives_types tk" and "ahead (tk TOK_BRACKET_LEFT # ts) s"
  shows "expression_loop (Suc n) pe code TOK_ANY q ops br s =
    expression_loop n pe code TOK_ANY q (None # ops) (br + 1) (skip (Suc 0) s)"
  using ahead_next [OF assms(2)]
  by (subst expression_loop.simps(2)) (simp add: step_simps ends_expression_def find_op_values tk [unfolded gives_types_def])

lemma loop_operator:
  assumes tk: "gives_types tk" and "ahead (tk (op_token oper) # ts) s" and "binary_desc oper = Some d"
  shows "expression_loop (Suc n) pe code TOK_ANY q (None # ops) br s =
    expression_loop n pe code TOK_ANY q (Some (length (p_nodes s)) # None # ops) br
      (alloc (fresh code (POper oper d None None) VALUE_UNKNOWN) (skip (Suc 0) s))"
  using ahead_next [OF assms(2)] binary_desc_cases [OF assms(3)]
  by (subst expression_loop.simps(2)) (simp add: step_simps op_token_def assms(3) new_alloc push_operator_def tk [unfolded gives_types_def])

lemma loop_not:
  assumes tk: "gives_types tk" and "ahead (tk TOK_NOT # ts) s"
  shows "expression_loop (Suc n) pe code TOK_ANY q (None # ops) br s =
    expression_loop n pe code TOK_ANY q (Some (length (p_nodes s)) # None # ops) br
      (alloc (fresh code (POper OPR_NOT not_desc None None) VALUE_UNKNOWN) (skip (Suc 0) s))"
proof -
  have "od_oper not_desc = OPR_NOT" by (simp add: not_desc_def op_desc_def)
  with ahead_next [OF assms(2)] show ?thesis
    by (subst expression_loop.simps(2)) (simp add: step_simps ends_expression_def find_op_values new_alloc push_operator_def tk [unfolded gives_types_def])
qed

lemma loop_close:
  assumes tk: "gives_types tk" and "ahead (tk TOK_BRACKET_RIGHT # ts) s" and "0 < br"
  shows "expression_loop (Suc n) pe code TOK_ANY q (Some x # None # ops) br s =
    expression_loop n pe code TOK_ANY (Some x # q) ops (br - 1) (skip (Suc 0) s)"
  using ahead_next [OF assms(2)] assms(3)
  by (subst expression_loop.simps(2)) (simp add: step_simps ends_expression_def find_op_values tk [unfolded gives_types_def])

lemma loop_stop:
  assumes "ahead (t # ts) s" and "stop_token t"
  shows "expression_loop (Suc n) pe code TOK_ANY q ops 0 s = finish_expression code q ops s"
  using ahead_next [OF assms(1)] assms(2)
  by (subst expression_loop.simps(2)) (auto simp: step_simps ends_expression_def stop_token_def rewind_back)

text \<open>The whole of an expression: when the loop is past it, its nodes are queued.\<close>

definition grew :: "nat \<Rightarrow> nat \<Rightarrow> parser \<Rightarrow> parser \<Rightarrow> bool" where
  "grew j d s u \<longleftrightarrow> moved j s u \<and> length (p_nodes s) + d \<le> length (p_nodes u)"

definition looped :: "(TokenType \<Rightarrow> Token) \<Rightarrow> penv \<Rightarrow> addr \<Rightarrow> source \<Rightarrow> bool" where
  "looped tk pe code e \<longleftrightarrow> (\<forall>s t ts n q ops br. ahead (spell tk e @ t # ts) s \<longrightarrow> plain_token t \<longrightarrow> 0 \<le> br
     \<longrightarrow> 3 * length (spell tk e) + 2 \<le> n \<longrightarrow> alive s \<longrightarrow>
     (\<exists>n' Q M u. expression_loop n pe code TOK_ANY q ops br s = expression_loop n' pe code TOK_ANY (rev (map Some Q) @ q) ops br u
        \<and> n \<le> n' + length (spell tk e) \<and> pend M Q (tree_of e) \<and> M \<subseteq>\<^sub>m seen u \<and> dom M \<subseteq> {length (p_nodes s)..}
        \<and> grew (length (spell tk e)) (depth (tree_of e)) s u))"

text \<open>What a step that parses leaves: an address that holds the tree, in the new part of the store.\<close>

definition above :: "addr \<Rightarrow> parser \<Rightarrow> part" where
  "above k s = seen s |` {k..}"

definition parsed :: "nat \<Rightarrow> parser \<Rightarrow> addr \<Rightarrow> expr \<Rightarrow> parser \<Rightarrow> bool" where
  "parsed j s x T u \<longleftrightarrow> grew j (depth T) s u \<and> holds (above (length (p_nodes s)) u) x T"

lemma above_le: "above k s \<subseteq>\<^sub>m seen s" "dom (above k s) \<subseteq> {k..}"
  by (auto simp: above_def map_le_def restrict_map_def split: if_splits)

lemma le_above: "M \<subseteq>\<^sub>m seen s \<Longrightarrow> dom M \<subseteq> {k..} \<Longrightarrow> M \<subseteq>\<^sub>m above k s"
  unfolding above_def by (rule restrict_part(1))

lemma above_moved: "moved j s t \<Longrightarrow> k \<le> l \<Longrightarrow> above l s \<subseteq>\<^sub>m above k t"
proof (rule le_above)
  assume m: "moved j s t" and "k \<le> l"
  show "above l s \<subseteq>\<^sub>m seen t" by (rule map_le_moved [OF m above_le(1)])
  have "{l..} \<subseteq> {k..}" using \<open>k \<le> l\<close> by auto
  with above_le(2) show "dom (above l s) \<subseteq> {k..}" by (rule order_trans)
qed

lemma finish_pend:
  assumes "pend M Q T" "M \<subseteq>\<^sub>m seen u" "dom M \<subseteq> {length (p_nodes s)..}" "grew j (depth T) s u" "alive s"
  shows "\<exists>x v. finish_expression code (rev (map Some Q)) [] u = Ret x v \<and> parsed j s x T v"
proof -
  have mu: "moved j s u" using assms(4) by (simp add: grew_def)
  obtain x v M' where b: "buildTree (Suc (length Q)) code (rev (map Some Q) @ []) u = Ret (x, []) v" "builds (length (p_nodes s)) M u x T v M'"
    using build_pend [OF assms(1-3) moved_alive [OF mu assms(5)]] by blast
  note B = buildsD [OF b(2)]
  have "dom M' \<subseteq> {length (p_nodes s)..}" using B(4) assms(3) movedD(8) [OF mu] by fastforce
  from holds_mono [OF B(2) le_above [OF B(3) this]] moved_nearby [OF mu B(1)] b(1) nearbyD(2) [OF B(1)] assms(4) show ?thesis
    by (auto simp: parsed_def grew_def finish_expression_def step_simps simp del: buildTree.simps)
qed

lemma parse_looped:
  assumes "looped tk pe code e" and "ahead (spell tk e @ t # ts) s" and "stop_token t" and "3 * length (spell tk e) + 4 \<le> n" and "alive s"
  shows "\<exists>x u. parseExpression n pe code TOK_ANY s = Ret x u \<and> parsed (length (spell tk e)) s x (tree_of e) u"
proof -
  obtain m where n: "n = Suc m" "3 * length (spell tk e) + 3 \<le> m" using assms(4) by (cases n) auto
  then obtain n' Q M u where l: "expression_loop m pe code TOK_ANY [] [] 0 s = expression_loop n' pe code TOK_ANY (rev (map Some Q)) [] 0 u"
    "m \<le> n' + length (spell tk e)" "pend M Q (tree_of e)" "M \<subseteq>\<^sub>m seen u" "dom M \<subseteq> {length (p_nodes s)..}"
    "grew (length (spell tk e)) (depth (tree_of e)) s u"
    using assms(1) [unfolded looped_def, rule_format, OF assms(2) stop_plain [OF assms(3)] _ _ assms(5), of 0 m "[]" "[]"] by auto
  have mu: "moved (length (spell tk e)) s u" using l(6) by (simp add: grew_def)
  obtain k where k: "n' = Suc k" using l(2) n(2) by (cases n') auto
  have "ahead (t # ts) u" by (rule ahead_moved [OF assms(2) mu])
  from loop_stop [OF this assms(3)] l(1) k n(1)
  have run: "parseExpression n pe code TOK_ANY s = finish_expression code (rev (map Some Q)) [] u" by (simp add: parseExpression.simps)
  from finish_pend [OF l(3-6) assms(5)] show ?thesis unfolding run by auto
qed

text \<open>The arguments of a call.\<close>

definition spelt_start :: "Token \<Rightarrow> bool" where
  "spelt_start t \<longleftrightarrow> tok_type t \<in> {TOK_IDENTIFIER, TOK_INTEGER, TOK_BRACKET_LEFT}"

lemma spell_start: "gives_types tk \<Longrightarrow> \<exists>t ts. spell tk e = t # ts \<and> spelt_start t"
  by (cases e) (auto simp: spelt_start_def gives_types_def)

lemma items_looped:
  assumes tk: "gives_types tk"
  shows "\<forall>e \<in> set es. looped tk pe code e \<Longrightarrow> ahead (spell_args tk es @ tk TOK_BRACKET_RIGHT # ts) s
    \<Longrightarrow> 3 * length (spell_args tk es) + 5 \<le> n \<Longrightarrow> alive s \<Longrightarrow>
    \<exists>xs u. expression_items n pe code acc s = Ret (acc @ xs) u
      \<and> grew (length (spell_args tk es) + 1) (depths (map tree_of es)) s u
      \<and> list_all2 (holds (above (length (p_nodes s)) u)) xs (map tree_of es)"
proof (induction es arbitrary: s n acc)
  case Nil
  then obtain m where n: "n = Suc m" by (cases n) auto
  have ah: "ahead (tk TOK_BRACKET_RIGHT # ts) s" using Nil by simp
  have "expression_items n pe code acc s = Ret (acc @ []) (skip (Suc 0) s)"
    by (simp add: n expression_items.simps step_simps ahead_more [OF ah] ahead_next [OF ah] tk [unfolded gives_types_def])
  moreover have "list_all2 (holds (above (length (p_nodes s)) (skip (Suc 0) s))) [] (map tree_of [])" by simp
  ultimately show ?case using moved_skip1 [of s] by (auto simp: grew_def)
next
  case (Cons e es)
  let ?rb = "tk TOK_BRACKET_RIGHT" and ?k = "length (p_nodes s)"
  let ?rest = "if es = [] then ?rb # ts else tk TOK_COMMA # spell_args tk es @ ?rb # ts"
  obtain m where n: "n = Suc m" "3 * length (spell tk e) + 4 \<le> m" using Cons.prems(3) by (cases n) auto
  have ah: "ahead (spell tk e @ ?rest) s" using Cons.prems(2) by (simp split: if_splits)
  obtain t us where start: "spell tk e = t # us" "spelt_start t" using spell_start [OF tk] by blast
  then have ah1: "ahead (t # us @ ?rest) s" using ah by simp
  note first = ahead_more [OF ah1] ahead_next [OF ah1]
  have no_rb: "tok_type t \<noteq> TOK_BRACKET_RIGHT" using start(2) by (auto simp: spelt_start_def)
  obtain st sts where st: "?rest = st # sts" "stop_token st"
    by (cases "es = []") (auto simp: stop_token_def tk [unfolded gives_types_def])
  obtain x u where x: "parseExpression m pe code TOK_ANY s = Ret x u" "parsed (length (spell tk e)) s x (tree_of e) u"
    using parse_looped [of tk pe code e st sts s m] Cons.prems(1,4) ah st n(2) by auto
  have mu: "moved (length (spell tk e)) s u" and hx: "holds (above ?k u) x (tree_of e)"
    and dx: "?k + depth (tree_of e) \<le> length (p_nodes u)" using x(2) by (auto simp: parsed_def grew_def)
  have ahu: "ahead (st # sts) u" using ahead_moved [OF ah mu] st(1) by simp
  show ?case
  proof (cases "es = []")
    case True
    then have "tok_type st = TOK_BRACKET_RIGHT" using st(1) tk by (auto simp: gives_types_def)
    then have "expression_items n pe code acc s = Ret (acc @ [x]) (skip (Suc 0) u)"
      using ahead_next [OF ahu] no_rb
      by (simp add: n(1) expression_items.simps step_simps first rewind_back x(1))
    moreover have "holds (above ?k (skip (Suc 0) u)) x (tree_of e)"
      by (rule holds_mono [OF hx above_moved [OF moved_skip1]]) simp
    ultimately show ?thesis using True moved_trans [OF mu moved_skip1] dx by (auto simp: grew_def)
  next
    case False
    then have c: "tok_type st = TOK_COMMA" "sts = spell_args tk es @ ?rb # ts" using st(1) tk by (auto simp: gives_types_def)
    let ?v = "skip (Suc 0) u"
    have mv: "moved (length (spell tk e) + 1) s ?v" using moved_trans [OF mu moved_skip1] by simp
    have ahv: "ahead (spell_args tk es @ ?rb # ts) ?v" using ahead_tl [OF ahu moved_skip1] c(2) by simp
    have fuel: "3 * length (spell_args tk es) + 5 \<le> m" using Cons.prems(3) False n(1) by simp
    obtain xs w where w: "expression_items m pe code (acc @ [x]) ?v = Ret ((acc @ [x]) @ xs) w"
      "grew (length (spell_args tk es) + 1) (depths (map tree_of es)) ?v w" "list_all2 (holds (above (length (p_nodes ?v)) w)) xs (map tree_of es)"
      using Cons.IH [OF _ ahv fuel moved_alive [OF mv Cons.prems(4)], of "acc @ [x]"] Cons.prems(1) by auto
    have mw: "moved (length (spell_args tk es) + 1) ?v w" and dw: "length (p_nodes u) + depths (map tree_of es) \<le> length (p_nodes w)"
      using w(2) by (simp_all add: grew_def)
    have "expression_items n pe code acc s = Ret (acc @ x # xs) w"
      using ahead_next [OF ahu] no_rb c(1) w(1)
      by (simp add: n(1) expression_items.simps step_simps first rewind_back x(1))
    moreover have "holds (above ?k w) x (tree_of e)"
      by (rule holds_mono [OF hx above_moved [OF moved_trans [OF moved_skip1 mw]]]) simp
    moreover have "list_all2 (holds (above ?k w)) xs (map tree_of es)"
    proof (rule list_all2_mono [OF w(3)])
      fix y T assume "holds (above (length (p_nodes ?v)) w) y T"
      then show "holds (above ?k w) y T"
        by (rule holds_mono) (use movedD(8) [OF mv] in \<open>auto intro!: above_moved [OF moved_refl]\<close>)
    qed
    moreover have "grew (length (spell_args tk (e # es)) + 1) (depths (map tree_of (e # es))) s w"
      using moved_trans [OF mv mw] False dx dw movedD(8) [OF mu] by (simp add: ac_simps grew_def)
    ultimately show ?thesis by auto
  qed
qed

lemma value_call:
  assumes tk: "gives_types tk" and "\<forall>e \<in> set es. looped tk pe code e" and ah: "ahead (spell tk (Call f es) @ ts) s"
    and "3 * length (spell_args tk es) + 7 \<le> n" and "alive s"
  shows "\<exists>x u. parseExpressionValue n pe code s = Ret x u \<and> grew (length (spell tk (Call f es))) (depth (tree_of (Call f es))) s u
    \<and> pend (above (length (p_nodes s)) u) [x] (tree_of (Call f es))"
proof -
  let ?lb = "tk TOK_BRACKET_LEFT" and ?rb = "tk TOK_BRACKET_RIGHT"
  obtain m where n: "n = Suc (Suc m)" "3 * length (spell_args tk es) + 5 \<le> m"
    using assms(4) by (cases n; cases "n - 1") auto
  have ah0: "ahead ((tk TOK_IDENTIFIER)\<lparr>tok_string := f\<rparr> # ?lb # spell_args tk es @ ?rb # ts) s" using ah by simp
  have ah1: "ahead (?lb # spell_args tk es @ ?rb # ts) (skip (Suc 0) s)" by (rule ahead_tl [OF ah0 moved_skip1])
  have ah2: "ahead (spell_args tk es @ ?rb # ts) (skip (Suc (Suc 0)) s)"
    using ahead_tl [OF ah1 moved_skip1] by simp
  obtain xs u where u: "expression_items m pe code [] (skip (Suc (Suc 0)) s) = Ret xs u"
    "grew (length (spell_args tk es) + 1) (depths (map tree_of es)) (skip (Suc (Suc 0)) s) u"
    "list_all2 (holds (above (length (p_nodes s)) u)) xs (map tree_of es)"
    using items_looped [OF tk assms(2) ah2 n(2), of "[]"] assms(5) by (auto simp: alive_def)
  let ?n = "PCall 0 f xs"
  let ?v = "alloc (fresh code ?n VALUE_UNKNOWN) u" and ?x = "length (p_nodes u)"
  have mu: "moved (Suc (Suc 0) + (length (spell_args tk es) + 1)) s u"
    by (rule moved_trans [OF moved_skip]) (use u(2) in \<open>simp add: grew_def\<close>)
  have "rewind 1 (skip (Suc (Suc 0)) s) = Ret () (skip (Suc 0) s)" by (simp add: step_simps skip_def)
  then have "parseExpressionValue n pe code s = Ret ?x ?v"
    using ahead_next [OF ah0] ahead_next [OF ah1] u(1)
    by (simp add: n(1) parseExpressionValue.simps parseExpressionList.simps value_identifier_def expect_def bind_step_def ret_def
        new_alloc tk [unfolded gives_types_def])
  moreover have mv: "grew (length (spell tk (Call f es))) (depth (tree_of (Call f es))) s ?v"
    using moved_trans [OF mu moved_alloc] u(2) by (simp add: grew_def)
  moreover have "pend (above (length (p_nodes s)) ?v) [?x] (tree_of (Call f es))"
  proof (rule pend_done)
    have "seen ?v ?x = Some (?n, VALUE_UNKNOWN)" using seen_alloc [OF moved_alive [OF mu assms(5)]] by simp
    then show x: "above (length (p_nodes s)) ?v ?x = Some (?n, VALUE_UNKNOWN)"
      using movedD(8) [OF mu] by (simp add: above_def)
    have "list_all2 (holds (above (length (p_nodes s)) ?v)) xs (map tree_of es)"
      by (rule list_all2_mono [OF u(3)]) (erule holds_mono, rule above_moved [OF moved_alloc], simp_all)
    with x show "holds (above (length (p_nodes s)) ?v) ?x (tree_of (Call f es))" by (auto intro!: holds_call)
  qed simp
  ultimately show ?thesis by blast
qed

lemma looped_value:
  assumes "spell tk e = t # us" and "tok_type t \<in> {TOK_IDENTIFIER, TOK_INTEGER}"
    and v: "\<And>s t ts n. ahead (spell tk e @ t # ts) s \<Longrightarrow> plain_token t \<Longrightarrow> 3 * length (spell tk e) + 1 \<le> n \<Longrightarrow> alive s
      \<Longrightarrow> \<exists>x u. parseExpressionValue n pe code s = Ret x u \<and> grew (length (spell tk e)) (depth (tree_of e)) s u
        \<and> pend (above (length (p_nodes s)) u) [x] (tree_of e)"
  shows "looped tk pe code e"
  unfolding looped_def
proof (intro allI impI)
  fix s tt ts n q ops and br :: int
  assume ah: "ahead (spell tk e @ tt # ts) s" and "plain_token tt" and n: "3 * length (spell tk e) + 2 \<le> n" and "alive s"
  then obtain m where m: "n = Suc m" "3 * length (spell tk e) + 1 \<le> m" by (cases n) auto
  with v [OF ah] \<open>plain_token tt\<close> \<open>alive s\<close> obtain x u where x: "parseExpressionValue m pe code s = Ret x u"
    "grew (length (spell tk e)) (depth (tree_of e)) s u" "pend (above (length (p_nodes s)) u) [x] (tree_of e)" by blast
  have "ahead (t # us @ tt # ts) s" using ah assms(1) by simp
  from loop_value [OF this assms(2) x(1)] x(2,3) m(1) assms(1) above_le
  show "\<exists>n' Q M u. expression_loop n pe code TOK_ANY q ops br s = expression_loop n' pe code TOK_ANY (rev (map Some Q) @ q) ops br u
        \<and> n \<le> n' + length (spell tk e) \<and> pend M Q (tree_of e) \<and> M \<subseteq>\<^sub>m seen u \<and> dom M \<subseteq> {length (p_nodes s)..}
        \<and> grew (length (spell tk e)) (depth (tree_of e)) s u"
    by (intro exI [of _ m] exI [of _ "[x]"] exI [of _ "above (length (p_nodes s)) u"] exI [of _ u]) simp
qed

lemma above_alloc: "alive s \<Longrightarrow> above (length (p_nodes s)) (alloc (fresh code n ty) s) (length (p_nodes s)) = Some (n, ty)"
  by (simp add: above_def seen_alloc)

lemma looped_name: "gives_types tk \<Longrightarrow> looped tk pe code (Name x)"
proof (rule looped_value)
  fix s t ts n
  assume tk: "gives_types tk" and ah: "ahead (spell tk (Name x) @ t # ts) s" and "plain_token t" "3 * length (spell tk (Name x)) + 1 \<le> n" "alive s"
  then obtain m where m: "n = Suc m" by (cases n) auto
  have ah: "ahead ((tk TOK_IDENTIFIER)\<lparr>tok_string := x\<rparr> # t # ts) s" using ah by simp
  let ?u = "alloc (fresh code (PVar 0 x) VALUE_UNKNOWN) (skip (Suc 0) s)"
  have "grew (length (spell tk (Name x))) (depth (tree_of (Name x))) s ?u"
    using moved_trans [OF moved_skip1 moved_alloc] by (simp add: grew_def)
  moreover have "above (length (p_nodes s)) ?u (length (p_nodes s)) = Some (PVar 0 x, VALUE_UNKNOWN)"
    using above_alloc [of "skip (Suc 0) s"] \<open>alive s\<close> by (simp add: alive_def)
  then have "pend (above (length (p_nodes s)) ?u) [length (p_nodes s)] (tree_of (Name x))"
    by (auto intro!: pend_done holds_var)
  ultimately show "\<exists>y u. parseExpressionValue n pe code s = Ret y u \<and> grew (length (spell tk (Name x))) (depth (tree_of (Name x))) s u
      \<and> pend (above (length (p_nodes s)) u) [y] (tree_of (Name x))"
    using value_name [OF tk ah \<open>plain_token t\<close>] m by blast
qed (auto simp: gives_types_def)

lemma looped_number: "gives_types tk \<Longrightarrow> looped tk pe code (Number i)"
proof (rule looped_value)
  fix s t ts n
  assume tk: "gives_types tk" and ah: "ahead (spell tk (Number i) @ t # ts) s" and "3 * length (spell tk (Number i)) + 1 \<le> n" "alive s"
  then obtain m where m: "n = Suc m" by (cases n) auto
  have ah: "ahead ((tk TOK_INTEGER)\<lparr>tok_i := i\<rparr> # t # ts) s" using ah by simp
  let ?u = "alloc (fresh code (PInteger (word_of_int i)) VALUE_INTEGER) (skip (Suc 0) s)"
  have "grew (length (spell tk (Number i))) (depth (tree_of (Number i))) s ?u"
    using moved_trans [OF moved_skip1 moved_alloc] by (simp add: grew_def)
  moreover have "above (length (p_nodes s)) ?u (length (p_nodes s)) = Some (PInteger (word_of_int i), VALUE_INTEGER)"
    using above_alloc [of "skip (Suc 0) s"] \<open>alive s\<close> by (simp add: alive_def)
  then have "pend (above (length (p_nodes s)) ?u) [length (p_nodes s)] (tree_of (Number i))"
    by (auto intro!: pend_done holds_int)
  ultimately show "\<exists>y u. parseExpressionValue n pe code s = Ret y u \<and> grew (length (spell tk (Number i))) (depth (tree_of (Number i))) s u
      \<and> pend (above (length (p_nodes s)) u) [y] (tree_of (Number i))"
    using value_number [OF tk ah] m by blast
qed (auto simp: gives_types_def)

lemma looped_call:
  assumes tk: "gives_types tk" and es: "\<forall>e \<in> set es. looped tk pe code e"
  shows "looped tk pe code (Call f es)"
proof (rule looped_value)
  fix s t ts n
  assume ah: "ahead (spell tk (Call f es) @ t # ts) s" and n: "3 * length (spell tk (Call f es)) + 1 \<le> n" "alive s"
  then have "3 * length (spell_args tk es) + 7 \<le> n" by simp
  from value_call [OF tk es ah this n(2)]
  show "\<exists>x u. parseExpressionValue n pe code s = Ret x u \<and> grew (length (spell tk (Call f es))) (depth (tree_of (Call f es))) s u
      \<and> pend (above (length (p_nodes s)) u) [x] (tree_of (Call f es))" .
qed (use tk in \<open>auto simp: gives_types_def\<close>)

lemma loopedE:
  assumes "looped tk pe code e" "ahead (spell tk e @ t # ts) s" "plain_token t" "0 \<le> br" "3 * length (spell tk e) + 2 \<le> n" "alive s"
  obtains n' Q M u where "expression_loop n pe code TOK_ANY q ops br s = expression_loop n' pe code TOK_ANY (rev (map Some Q) @ q) ops br u"
    "n \<le> n' + length (spell tk e)" "pend M Q (tree_of e)" "M \<subseteq>\<^sub>m seen u" "dom M \<subseteq> {length (p_nodes s)..}"
    "grew (length (spell tk e)) (depth (tree_of e)) s u"
  using assms(1) [unfolded looped_def, rule_format, OF assms(2-6), of q ops] by blast

lemma looped_not:
  assumes tk: "gives_types tk" and e: "looped tk pe code e"
  shows "looped tk pe code (Negate e)"
  unfolding looped_def
proof (intro allI impI)
  fix s t ts n q ops and br :: int
  assume ah: "ahead (spell tk (Negate e) @ t # ts) s" and "plain_token t" and br: "0 \<le> br"
    and n: "3 * length (spell tk (Negate e)) + 2 \<le> n" and al: "alive s"
  let ?lb = "tk TOK_BRACKET_LEFT" and ?rb = "tk TOK_BRACKET_RIGHT" and ?l = "length (spell tk e)" and ?k = "length (p_nodes s)"
  obtain m where m: "n = Suc (Suc m)" "3 * ?l + 3 \<le> m" using n by (cases n; cases "n - 1") auto
  have ah0: "ahead (?lb # tk TOK_NOT # spell tk e @ ?rb # t # ts) s" using ah by simp
  let ?s1 = "skip (Suc 0) s"
  have ah1: "ahead (tk TOK_NOT # spell tk e @ ?rb # t # ts) ?s1" by (rule ahead_tl [OF ah0 moved_skip1])
  let ?n = "POper OPR_NOT not_desc None None"
  let ?s2 = "alloc (fresh code ?n VALUE_UNKNOWN) (skip (Suc 0) ?s1)"
  have "moved 0 (skip (Suc 0) ?s1) ?s2" by (rule moved_alloc) simp
  from moved_trans [OF moved_skip1 this] have m2: "moved (Suc 0) ?s1 ?s2" by simp
  have ah2: "ahead (spell tk e @ ?rb # t # ts) ?s2" by (rule ahead_tl [OF ah1 m2])
  have ms: "moved (Suc (Suc 0)) s ?s2" using moved_trans [OF moved_skip1 m2] by simp
  have rb: "plain_token ?rb" by (simp add: plain_token_def tk [unfolded gives_types_def])
  have f: "0 \<le> br + 1" "3 * ?l + 2 \<le> m" using br m(2) by simp_all
  obtain n' Q M u where l: "expression_loop m pe code TOK_ANY q (Some ?k # None # ops) (br + 1) ?s2
      = expression_loop n' pe code TOK_ANY (rev (map Some Q) @ q) (Some ?k # None # ops) (br + 1) u"
    "m \<le> n' + ?l" "pend M Q (tree_of e)" "M \<subseteq>\<^sub>m seen u" "dom M \<subseteq> {length (p_nodes ?s2)..}" "grew ?l (depth (tree_of e)) ?s2 u"
    by (rule loopedE [OF e ah2 rb f moved_alive [OF ms al]])
  have l6: "moved ?l ?s2 u" using l(6) by (simp add: grew_def)
  obtain j where j: "n' = Suc j" using l(2) m(2) by (cases n') auto
  have ahu: "ahead (?rb # t # ts) u" by (rule ahead_moved [OF ah2 l6])
  let ?v = "skip (Suc 0) u"
  have mv: "moved (Suc ?l) ?s2 ?v" using moved_trans [OF l6 moved_skip1] by simp
  have msv: "grew (length (spell tk (Negate e))) (depth (tree_of (Negate e))) s ?v"
    using moved_trans [OF ms mv] l(6) by (simp add: grew_def)
  have "expression_loop n pe code TOK_ANY q ops br s = expression_loop j pe code TOK_ANY (rev (map Some (Q @ [?k])) @ q) ops br ?v"
    using loop_open [OF tk ah0] loop_not [OF tk ah1] l(1) loop_close [OF tk ahu, of "br + 1"] br by (simp add: m(1) j)
  moreover have "pend (above ?k ?v) (Q @ [?k]) (tree_of (Negate e))"
    unfolding tree_of.simps
  proof (rule pend_not [OF l(3)])
    have "M \<subseteq>\<^sub>m seen ?v" using map_le_moved [OF moved_skip1 l(4)] .
    moreover have "dom M \<subseteq> {?k..}" using l(5) by auto
    ultimately show "M \<subseteq>\<^sub>m above ?k ?v" by (rule le_above)
    show "?k \<notin> dom M" using l(5) by auto
    have "seen ?v ?k = Some (?n, VALUE_UNKNOWN)"
      using seen_moved [OF mv, of ?k] seen_alloc [of "skip (Suc 0) ?s1" code ?n] al by (simp add: alive_def)
    then show "above ?k ?v ?k = Some (?n, VALUE_UNKNOWN)" by (simp add: above_def)
  qed
  moreover have "n \<le> j + length (spell tk (Negate e))" using l(2) m(1) j by simp
  ultimately show "\<exists>n' Q M u. expression_loop n pe code TOK_ANY q ops br s = expression_loop n' pe code TOK_ANY (rev (map Some Q) @ q) ops br u
        \<and> n \<le> n' + length (spell tk (Negate e)) \<and> pend M Q (tree_of (Negate e)) \<and> M \<subseteq>\<^sub>m seen u \<and> dom M \<subseteq> {?k..}
        \<and> grew (length (spell tk (Negate e))) (depth (tree_of (Negate e))) s u"
    using above_le msv by blast
qed

lemma depth_fold: "depth (fold_sum oper d A B) \<le> Suc (depth A + depth B)"
  by (cases "(oper, d, A, B)" rule: fold_sum.cases) auto

lemma looped_binary:
  assumes tk: "gives_types tk" and a: "looped tk pe code a" and b: "looped tk pe code b" and d: "binary_desc oper = Some d"
  shows "looped tk pe code (Binary oper a b)"
  unfolding looped_def
proof (intro allI impI)
  fix s t ts n q ops and br :: int
  assume ah: "ahead (spell tk (Binary oper a b) @ t # ts) s" and "plain_token t" and br: "0 \<le> br"
    and n: "3 * length (spell tk (Binary oper a b)) + 2 \<le> n" and al: "alive s"
  let ?lb = "tk TOK_BRACKET_LEFT" and ?rb = "tk TOK_BRACKET_RIGHT" and ?op = "tk (op_token oper)"
  let ?i = "length (spell tk a)" and ?j = "length (spell tk b)" and ?k = "length (p_nodes s)"
  obtain m where m: "n = Suc m" "3 * ?i + 3 * ?j + 10 \<le> m" using n by (cases n) auto
  have ah0: "ahead (?lb # spell tk a @ ?op # spell tk b @ ?rb # t # ts) s" using ah by simp
  let ?s1 = "skip (Suc 0) s"
  have ah1: "ahead (spell tk a @ ?op # spell tk b @ ?rb # t # ts) ?s1" by (rule ahead_tl [OF ah0 moved_skip1])
  have op: "plain_token ?op"
    using binary_desc_cases [OF d] by (simp add: plain_token_def op_token_def d tk [unfolded gives_types_def])
  have f: "0 \<le> br + 1" "3 * ?i + 2 \<le> m" using br m(2) by simp_all
  obtain n1 P L u where l: "expression_loop m pe code TOK_ANY q (None # ops) (br + 1) ?s1
      = expression_loop n1 pe code TOK_ANY (rev (map Some P) @ q) (None # ops) (br + 1) u"
    "m \<le> n1 + ?i" "pend L P (tree_of a)" "L \<subseteq>\<^sub>m seen u" "dom L \<subseteq> {length (p_nodes ?s1)..}" "grew ?i (depth (tree_of a)) ?s1 u"
    by (rule loopedE [OF a ah1 op f moved_alive [OF moved_skip1 al]])
  have l6: "moved ?i ?s1 u" using l(6) by (simp add: grew_def)
  have su: "moved (Suc ?i) s u" using moved_trans [OF moved_skip1 l6] by simp
  have ahu: "ahead (?op # spell tk b @ ?rb # t # ts) u" by (rule ahead_moved [OF ah1 l6])
  obtain m1 where m1: "n1 = Suc m1" "3 * ?j + 2 \<le> m1" using l(2) m(2) by (cases n1) auto
  let ?n = "POper oper d None None" and ?x = "length (p_nodes u)"
  let ?v = "alloc (fresh code ?n VALUE_UNKNOWN) (skip (Suc 0) u)"
  have "moved 0 (skip (Suc 0) u) ?v" by (rule moved_alloc) (use binary_desc_cases(12) [OF d] in simp)
  from moved_trans [OF moved_skip1 this] have uv: "moved (Suc 0) u ?v" by simp
  have sv: "moved (Suc (Suc ?i)) s ?v" using moved_trans [OF su uv] by simp
  have ahv: "ahead (spell tk b @ ?rb # t # ts) ?v" by (rule ahead_tl [OF ahu uv])
  have rb: "plain_token ?rb" by (simp add: plain_token_def tk [unfolded gives_types_def])
  obtain n2 Q R w where r: "expression_loop m1 pe code TOK_ANY (rev (map Some P) @ q) (Some ?x # None # ops) (br + 1) ?v
      = expression_loop n2 pe code TOK_ANY (rev (map Some Q) @ rev (map Some P) @ q) (Some ?x # None # ops) (br + 1) w"
    "m1 \<le> n2 + ?j" "pend R Q (tree_of b)" "R \<subseteq>\<^sub>m seen w" "dom R \<subseteq> {length (p_nodes ?v)..}" "grew ?j (depth (tree_of b)) ?v w"
    by (rule loopedE [OF b ahv rb f(1) m1(2) moved_alive [OF sv al]])
  have r6: "moved ?j ?v w" using r(6) by (simp add: grew_def)
  have ahw: "ahead (?rb # t # ts) w" by (rule ahead_moved [OF ahv r6])
  obtain j where j: "n2 = Suc j" using r(2) m1(2) by (cases n2) auto
  let ?z = "skip (Suc 0) w"
  have vz: "moved (Suc ?j) ?v ?z" using moved_trans [OF r6 moved_skip1] by simp
  have sz: "grew (length (spell tk (Binary oper a b))) (depth (tree_of (Binary oper a b))) s ?z"
    using moved_trans [OF sv vz] l(6) r(6) depth_fold [of oper "the (binary_desc oper)" "tree_of a" "tree_of b"] by (simp add: grew_def)
  have "expression_loop n pe code TOK_ANY q ops br s = expression_loop j pe code TOK_ANY (rev (map Some (P @ Q @ [?x])) @ q) ops br ?z"
    using loop_open [OF tk ah0] l(1) loop_operator [OF tk ahu d] r(1) loop_close [OF tk ahw, of "br + 1"] br
    by (simp add: m(1) m1(1) j)
  moreover have "pend (above ?k ?z) (P @ Q @ [?x]) (tree_of (Binary oper a b))"
    unfolding tree_of.simps
  unfolding d option.sel
  proof (rule pend_oper [OF l(3) r(3) _ _ _ _ binary_two_sided [OF d]])
    have ks: "?k \<le> ?x" "length (p_nodes ?v) = Suc ?x" using movedD(8) [OF su] by simp_all
    have L: "dom L \<subseteq> {..<?x}" using seen_bound [OF l(4)] by auto
    have "L \<subseteq>\<^sub>m seen ?z" by (rule map_le_moved [OF vz map_le_moved [OF uv l(4)]])
    then show "L \<subseteq>\<^sub>m above ?k ?z" using l(5) by (intro le_above) auto
    have "R \<subseteq>\<^sub>m seen ?z" by (rule map_le_moved [OF moved_skip1 r(4)])
    then show "R \<subseteq>\<^sub>m above ?k ?z" using r(5) ks by (intro le_above) (auto dest!: subsetD)
    have "{..<?x} \<inter> {length (p_nodes ?v)..} = {}" "?x \<notin> {..<?x} \<union> {length (p_nodes ?v)..}" using ks by auto
    with L r(5) show "dom L \<inter> dom R = {}" "?x \<notin> dom L \<union> dom R" by blast+
    have "seen ?z ?x = Some (?n, VALUE_UNKNOWN)"
      using seen_moved [OF vz, of ?x] seen_alloc [of "skip (Suc 0) u" code ?n] moved_alive [OF su al] by (simp add: alive_def)
    then show "above ?k ?z ?x = Some (?n, VALUE_UNKNOWN)" using ks by (simp add: above_def)
  qed
  moreover have "n \<le> j + length (spell tk (Binary oper a b))" using l(2) r(2) m(1) m1(1) j by simp
  ultimately show "\<exists>n' Q M u. expression_loop n pe code TOK_ANY q ops br s = expression_loop n' pe code TOK_ANY (rev (map Some Q) @ q) ops br u
        \<and> n \<le> n' + length (spell tk (Binary oper a b)) \<and> pend M Q (tree_of (Binary oper a b)) \<and> M \<subseteq>\<^sub>m seen u \<and> dom M \<subseteq> {?k..}
        \<and> grew (length (spell tk (Binary oper a b))) (depth (tree_of (Binary oper a b))) s u"
    using above_le sz by blast
qed

lemma spelt_looped:
  assumes tk: "gives_types tk"
  shows "well_spelt e \<Longrightarrow> looped tk pe code e"
proof (induction e)
  case (Binary oper a b)
  then show ?case using looped_binary [OF tk] by auto
next
  case (Call f es)
  then show ?case by (intro looped_call [OF tk]) auto
qed (auto intro: looped_name [OF tk] looped_number [OF tk] looped_not [OF tk])

text \<open>\<open>parseExpression\<close> on an expression as it is spelt.\<close>

lemma expression_parsed:
  assumes "gives_types tk" and "well_spelt e" and "ahead (spell tk e @ t # ts) s" and "stop_token t"
    and "3 * length (spell tk e) + 4 \<le> n" and "alive s"
  shows "\<exists>x u. parseExpression n pe code TOK_ANY s = Ret x u \<and> parsed (length (spell tk e)) s x (tree_of e) u"
  by (rule parse_looped [OF spelt_looped [OF assms(1,2)] assms(3-)])

lemma parsed_tree: "parsed j s x T u \<Longrightarrow> expr_tree (tree_fuel u) u x = Some T"
  unfolding parsed_def grew_def tree_fuel_def
  by (elim conjE, rule holds_tree [OF movedD(9) above_le]) auto

lemma expression_spelt:
  assumes tk: "gives_types tk" and "well_spelt e" and "drop (m_pos s) (m_tokens s) = spell tk e @ tk TOK_SEMICOLON # ts"
    and "set (p_dead s) \<subseteq> {..<length (p_nodes s)}" and "3 * length (spell tk e) + 4 \<le> n"
  shows "\<exists>x t. parseExpression n pe code TOK_ANY s = Ret x t
    \<and> m_pos t = m_pos s + length (spell tk e)
    \<and> expr_tree (tree_fuel t) t x = Some (tree_of e)"
proof -
  have "ahead (spell tk e @ tk TOK_SEMICOLON # ts) s" using assms(3) by (auto simp: ahead_def)
  moreover have "stop_token (tk TOK_SEMICOLON)" by (simp add: stop_token_def tk [unfolded gives_types_def])
  moreover have "alive s" using assms(4) by (simp add: alive_def)
  ultimately obtain x t where "parseExpression n pe code TOK_ANY s = Ret x t" and p: "parsed (length (spell tk e)) s x (tree_of e) t"
    using expression_parsed [OF tk assms(2) _ _ assms(5)] by blast
  moreover have "m_pos t = m_pos s + length (spell tk e)" using p movedD(7) by (auto simp: parsed_def grew_def)
  ultimately show ?thesis using parsed_tree [OF p] by auto
qed

section \<open>Properties\<close>

text \<open>C17: the expression parser is right on fully bracketed expressions. For every expression over names,
  integer literals, the binary operators, \<open>!\<close> and calls, written with brackets around each operation and
  followed by a semicolon, on whatever lines, \<open>parseExpression\<close> consumes exactly the expression, and the
  address it returns holds the tree that was spelt, with sums and products of literals folded.\<close>

theorem parseExpression_spell:
  assumes tk: "gives_types tk" and "well_spelt e" and "drop (m_pos s) (m_tokens s) = spell tk e @ tk TOK_SEMICOLON # ts"
    and "set (p_dead s) \<subseteq> {..<length (p_nodes s)}" and "3 * length (spell tk e) + 4 \<le> n"
  shows "\<exists>x t. parseExpression n pe code TOK_ANY s = Ret x t
    \<and> m_pos t = m_pos s + length (spell tk e)
    \<and> expr_tree (tree_fuel t) t x = Some (tree_of e)"
  by (rule expression_spelt [OF assms])

text \<open>\<open>((2 * 3) - f(x))\<close>.\<close>

definition sample_source :: source where
  "sample_source = Binary OPR_SUB (Binary OPR_MULTIPLY (Number 2) (Number 3)) (Call (wstr ''f'') [Name (wstr ''x'')])"

definition sample_parser :: "Token list \<Rightarrow> parser" where
  "sample_parser ts = new_parser ts (sample_vm [] [] [])"

definition sample_penv :: penv where
  "sample_penv = \<lparr>pe_env = sample_env, pe_load = (\<lambda>_ _ _. None)\<rparr>"

lemma sample_parser_sel [simp]:
  "m_pos (sample_parser ts) = 0" "m_tokens (sample_parser ts) = ts" "p_dead (sample_parser ts) = []"
  by (simp_all add: sample_parser_def new_parser_def)

theorem parseExpression_spell_witness:
  "\<exists>x t. parseExpression 40 sample_penv 0 TOK_ANY (sample_parser (spell (\<lambda>ty. blank_token ty 7) sample_source @ [blank_token TOK_SEMICOLON 7])) = Ret x t
    \<and> m_pos t = 12 \<and> expr_tree (tree_fuel t) t x = Some (OperationExpression OPR_SUB (op_desc TOK_MINUS OPR_SUB True True) VALUE_UNKNOWN
       (Some (IntegerExpression 6)) (Some (CallExpression False 0 (wstr ''f'') [VarExpression 0 (wstr ''x'') VALUE_UNKNOWN])))"
proof -
  have len: "length (spell (\<lambda>ty. blank_token ty 7) sample_source) = 12" by code_simp
  have tree: "tree_of sample_source = OperationExpression OPR_SUB (op_desc TOK_MINUS OPR_SUB True True) VALUE_UNKNOWN
       (Some (IntegerExpression 6)) (Some (CallExpression False 0 (wstr ''f'') [VarExpression 0 (wstr ''x'') VALUE_UNKNOWN]))"
    by code_simp
  have well: "well_spelt sample_source" by code_simp
  have tk: "gives_types (\<lambda>ty. blank_token ty 7)" by (simp add: gives_types_def blank_token_def)
  have "\<exists>x t. parseExpression 40 sample_penv 0 TOK_ANY (sample_parser (spell (\<lambda>ty. blank_token ty 7) sample_source @ [blank_token TOK_SEMICOLON 7])) = Ret x t
    \<and> m_pos t = m_pos (sample_parser (spell (\<lambda>ty. blank_token ty 7) sample_source @ [blank_token TOK_SEMICOLON 7])) + length (spell (\<lambda>ty. blank_token ty 7) sample_source)
    \<and> expr_tree (tree_fuel t) t x = Some (tree_of sample_source)"
    by (rule parseExpression_spell [OF tk well, of _ "[]"]) (simp_all only: sample_parser_sel len drop_0, simp_all)
  then show ?thesis by (simp only: len sample_parser_sel tree [symmetric] add_0)
qed

end
