(* ===== verification/SourceText.thy ===== *)
theory SourceText
  imports LexerFacts ExpressionFacts
begin

text \<open>
  From the bytes of a source text to the expression tree: lexer and expression parser together.
\<close>

section \<open>Writing an expression\<close>

fun decimal :: "nat \<Rightarrow> byte list" where
  "decimal n = (if n < 10 then [of_nat (48 + n)] else decimal (n div 10) @ [of_nat (48 + n mod 10)])"

declare decimal.simps [simp del]

definition symbol :: "TokenType \<Rightarrow> SimpleToken option" where
  "symbol ty = find (\<lambda>t. st_token t = ty) tokenTable"

definition on_line :: "TokenType \<Rightarrow> Token" where
  "on_line ty = (case symbol ty of None \<Rightarrow> blank_token ty 1 | Some t \<Rightarrow> token_of 1 t)"

definition symbol_text :: "TokenType \<Rightarrow> byte list \<times> Token" where
  "symbol_text ty = (st_str (the (symbol ty)), on_line ty)"

definition name_text :: "wstring \<Rightarrow> byte list \<times> Token" where
  "name_text x = (wstring2string x, (on_line TOK_IDENTIFIER)\<lparr>tok_string := x\<rparr>)"

fun write_source :: "source \<Rightarrow> (byte list \<times> Token) list"
  and write_args :: "source list \<Rightarrow> (byte list \<times> Token) list" where
  "write_source (Name x) = [name_text x]"
| "write_source (Number i) = [(decimal (nat i), (on_line TOK_INTEGER)\<lparr>tok_i := i\<rparr>)]"
| "write_source (Binary oper a b) =
     symbol_text TOK_BRACKET_LEFT # write_source a @ symbol_text (op_token oper) # write_source b @ [symbol_text TOK_BRACKET_RIGHT]"
| "write_source (Negate e) = symbol_text TOK_BRACKET_LEFT # symbol_text TOK_NOT # write_source e @ [symbol_text TOK_BRACKET_RIGHT]"
| "write_source (Call f es) = name_text f # symbol_text TOK_BRACKET_LEFT # write_args es @ [symbol_text TOK_BRACKET_RIGHT]"
| "write_args [] = []"
| "write_args (e # es) = write_source e @ (if es = [] then [] else symbol_text TOK_COMMA # write_args es)"

definition source_text :: "source \<Rightarrow> byte list" where
  "source_text e = line_of (write_source e @ [symbol_text TOK_SEMICOLON])"

definition writable_name :: "wstring \<Rightarrow> bool" where
  "writable_name x \<longleftrightarrow> name (wstring2string x) \<and> map ucast (wstring2string x) = x"

fun writable :: "source \<Rightarrow> bool" where
  "writable (Name x) \<longleftrightarrow> writable_name x"
| "writable (Number i) \<longleftrightarrow> 0 \<le> i \<and> i < 2 ^ 31"
| "writable (Binary oper a b) \<longleftrightarrow> writable a \<and> writable b"
| "writable (Negate e) \<longleftrightarrow> writable e"
| "writable (Call f es) \<longleftrightarrow> writable_name f \<and> (\<forall>e \<in> set es. writable e)"

section \<open>The written expression is lexed as it is spelt\<close>

lemma scan_digits_append:
  "\<forall>d \<in> set ds. isdigit d \<Longrightarrow> scan_digits acc (ds @ es) = scan_digits (fst (scan_digits acc ds)) es"
  by (induction ds arbitrary: acc) auto

lemma digit_of_nat: "n < 10 \<Longrightarrow> digit (of_nat (48 + n)) \<and> uint (of_nat (48 + n) :: byte) = 48 + int n"
proof -
  have "\<forall>n \<in> set [0..<10]. digit (of_nat (48 + n)) \<and> uint (of_nat (48 + n) :: byte) = 48 + int n" by code_simp
  moreover assume "n < 10"
  then have "n \<in> set [0..<10]" by simp
  ultimately show ?thesis by blast
qed

lemma decimal_digits: "decimal n \<noteq> [] \<and> (\<forall>d \<in> set (decimal n). digit d) \<and> digits_value (decimal n) = int n"
proof (induction n rule: decimal.induct)
  case (1 n)
  show ?case
  proof (cases "n < 10")
    case True
    with digit_of_nat [OF True] digit_table [of "of_nat (48 + n)"] show ?thesis
      by (subst (1 2 3) decimal.simps) (auto simp: digits_value_def digit_ok_def)
  next
    case False
    let ?d = "of_nat (48 + n mod 10) :: byte"
    have d: "digit ?d" "uint ?d = 48 + int (n mod 10)" using digit_of_nat [of "n mod 10"] by auto
    have "\<forall>d \<in> set (decimal (n div 10)). isdigit d" using 1 False digit_table by (auto simp: digit_ok_def)
    then have "digits_value (decimal (n div 10) @ [?d]) = int (n div 10) * 10 + int (n mod 10)"
      using 1 False d digit_table [of ?d] by (simp add: digits_value_def scan_digits_append digit_ok_def)
    also have "\<dots> = int n" by (metis div_mult_mod_eq mult.commute of_nat_add of_nat_mult of_nat_numeral)
    finally show ?thesis using 1 False d(1) by (subst (1 2 3) decimal.simps) simp
  qed
qed

lemma symbol_lexeme: "symbol ty = Some t \<Longrightarrow> st_str t \<noteq> [34] \<Longrightarrow> lexeme (fst (symbol_text ty)) (snd (symbol_text ty))"
proof -
  assume t: "symbol ty = Some t" "st_str t \<noteq> [34]"
  then have "t \<in> set tokenTable" by (auto simp: symbol_def find_Some_iff)
  with t lexeme_word [of t] show ?thesis by (simp add: symbol_text_def on_line_def)
qed

lemma symbol_type: "symbol ty = Some t \<Longrightarrow> st_token t = ty"
  by (auto simp: symbol_def find_Some_iff)

definition word_tokens :: "TokenType list" where
  "word_tokens = [TOK_BRACKET_LEFT, TOK_BRACKET_RIGHT, TOK_SEMICOLON, TOK_COMMA, TOK_NOT] @ map od_token binary_descs"

lemma word_symbols: "list_all (\<lambda>ty. case symbol ty of None \<Rightarrow> False | Some t \<Rightarrow> st_str t \<noteq> [34]) word_tokens"
  by code_simp

lemma word_lexeme: "ty \<in> set word_tokens \<Longrightarrow> lexeme (fst (symbol_text ty)) (snd (symbol_text ty))"
  using word_symbols symbol_lexeme [of ty] unfolding list_all_iff by (force split: option.splits)

lemma op_token_word: "binary_desc oper \<noteq> None \<Longrightarrow> op_token oper \<in> set word_tokens"
proof -
  assume "binary_desc oper \<noteq> None"
  then obtain d where d: "binary_desc oper = Some d" by auto
  then have "d \<in> set binary_descs" by (auto simp: binary_desc_def find_Some_iff)
  with d show ?thesis by (simp add: op_token_def word_tokens_def)
qed

lemma on_line_types: "gives_types on_line"
  using symbol_type by (auto simp: gives_types_def on_line_def blank_token_def token_of_def split: option.splits)

lemma on_line_plain: "on_line TOK_IDENTIFIER = blank_token TOK_IDENTIFIER 1" "on_line TOK_INTEGER = blank_token TOK_INTEGER 1"
  by code_simp+

lemma name_lexeme: "writable_name x \<Longrightarrow> lexeme (fst (name_text x)) (snd (name_text x))"
  using lexeme_name [of "wstring2string x"] by (simp add: on_line_plain name_text_def writable_name_def)

lemma write_spell: "map snd (write_source e) = spell on_line e" "map snd (write_args es) = spell_args on_line es"
  by (induction e and es rule: write_source_write_args.induct) (simp_all add: symbol_text_def name_text_def)

lemma write_lexemes:
  "well_spelt e \<Longrightarrow> writable e \<Longrightarrow> \<forall>p \<in> set (write_source e). lexeme (fst p) (snd p)"
  "\<forall>e \<in> set es. well_spelt e \<and> writable e \<Longrightarrow> \<forall>p \<in> set (write_args es). lexeme (fst p) (snd p)"
proof (induction e and es rule: write_source_write_args.induct)
  case (1 x)
  then show ?case using name_lexeme by simp
next
  case (2 i)
  with decimal_digits [of "nat i"] lexeme_integer [of "decimal (nat i)"] show ?case
    by (simp add: on_line_plain integer_def)
next
  case (3 oper a b)
  then show ?case using word_lexeme op_token_word [of oper] by (auto simp: word_tokens_def)
next
  case (4 e)
  then show ?case using word_lexeme by (auto simp: word_tokens_def)
next
  case (5 f es)
  then show ?case using word_lexeme name_lexeme by (auto simp: word_tokens_def)
next
  case 6
  then show ?case by simp
next
  case (7 e es)
  then show ?case using word_lexeme [of TOK_COMMA] by (auto simp: word_tokens_def)
qed

section \<open>Properties\<close>

text \<open>C12: from text to tree. For every expression over names, decimal integers, the binary operators, \<open>!\<close> and calls,
  written with brackets around each operation, a space behind each word and a semicolon at the end, the
  lexer returns the tokens of that text, and the expression parser turns these tokens into the tree that
  was written (sums and products of literals folded), stopping at the semicolon.\<close>

theorem expression_text_parses:
  assumes "well_spelt e" and "writable e" and "3 * length (spell on_line e) + 4 \<le> n"
  shows "\<exists>tokens x t. lexer (Some (source_text e @ replicate 128 0)) (length (source_text e)) = Inr (True, tokens)
    \<and> parseExpression n pe code TOK_ANY (new_parser tokens v) = Ret x t
    \<and> m_pos t + 1 = length tokens \<and> expr_tree (tree_fuel t) t x = Some (tree_of e)"
proof -
  let ?ws = "write_source e @ [symbol_text TOK_SEMICOLON]" and ?semi = "on_line TOK_SEMICOLON"
  have "\<forall>(w, tok) \<in> set ?ws. lexeme w tok"
    using write_lexemes(1) [OF assms(1,2)] word_lexeme [of TOK_SEMICOLON] by (auto simp: case_prod_beta word_tokens_def)
  from lexer_reads_words [OF this] have lx: "lexer (Some (source_text e @ replicate 128 0)) (length (source_text e)) =
      Inr (True, spell on_line e @ [?semi])"
    by (simp add: source_text_def write_spell symbol_text_def)
  let ?s = "new_parser (spell on_line e @ [?semi]) v"
  have s: "m_pos ?s = 0" "m_tokens ?s = spell on_line e @ [?semi]" "p_dead ?s = []" by (simp_all add: new_parser_def)
  then have "drop (m_pos ?s) (m_tokens ?s) = spell on_line e @ on_line TOK_SEMICOLON # []"
    "set (p_dead ?s) \<subseteq> {..<length (p_nodes ?s)}" by simp_all
  from expression_spelt [OF on_line_types assms(1) this assms(3)] s show ?thesis
    using lx by (metis One_nat_def add_0 length_append length_Cons list.size(3))
qed

lemma expression_text_parses_witness:
  "\<exists>tokens x t. lexer (Some (bytes ''( ( 2 * 3 ) - f ( x ) ) ;  '' @ replicate 128 0)) 27 = Inr (True, tokens)
    \<and> parseExpression 40 sample_penv 0 TOK_ANY (new_parser tokens (sample_vm [] [] [])) = Ret x t
    \<and> expr_tree (tree_fuel t) t x =
        Some (OperationExpression OPR_SUB (op_desc TOK_MINUS OPR_SUB True True) VALUE_UNKNOWN
          (Some (IntegerExpression 6)) (Some (CallExpression False 0 (wstr ''f'') [VarExpression 0 (wstr ''x'') VALUE_UNKNOWN])))"
proof -
  have written: "source_text sample_source = bytes ''( ( 2 * 3 ) - f ( x ) ) ;  ''" by code_simp
  have len: "length (bytes ''( ( 2 * 3 ) - f ( x ) ) ;  '') = 27" by code_simp
  have tree: "tree_of sample_source = OperationExpression OPR_SUB (op_desc TOK_MINUS OPR_SUB True True) VALUE_UNKNOWN
       (Some (IntegerExpression 6)) (Some (CallExpression False 0 (wstr ''f'') [VarExpression 0 (wstr ''x'') VALUE_UNKNOWN]))"
    by code_simp
  have ok: "well_spelt sample_source" "writable sample_source" "3 * length (spell on_line sample_source) + 4 \<le> 40"
    by code_simp+
  from expression_text_parses [OF ok, of sample_penv 0 "sample_vm [] [] []", unfolded written len]
  show ?thesis unfolding tree [symmetric] by blast
qed

end
