(* ===== verification/Statements.thy ===== *)
theory Statements
  imports ExpressionFacts
begin

text \<open>
  Statements: how they are spelt, the trees they mean, what it takes for a store to hold such a tree,
  and the single steps on nodes and blocks the statement parser consists of.
\<close>

section \<open>Statements and their spelling\<close>

text \<open>\<open>ElseIf\<close> is an \<open>if\<close> whose \<open>else\<close> is followed by another \<open>if\<close>.\<close>

datatype stmt =
    Declare wstring "source option"
  | Assign wstring source
  | Invoke wstring "source list"
  | Return source
  | Throw source
  | If source "stmt list" "stmt list option"
  | ElseIf source "stmt list" stmt
  | While source "stmt list"
  | For wstring source source wstring source "stmt list"
  | Try "stmt list" wstring "stmt list"

fun is_if :: "stmt \<Rightarrow> bool" where
  "is_if (If e a b) \<longleftrightarrow> True"
| "is_if (ElseIf e a s) \<longleftrightarrow> True"
| "is_if s \<longleftrightarrow> False"

fun well_formed :: "stmt \<Rightarrow> bool" where
  "well_formed (Declare x e) \<longleftrightarrow> (case e of None \<Rightarrow> True | Some f \<Rightarrow> well_spelt f)"
| "well_formed (Assign x e) \<longleftrightarrow> well_spelt e"
| "well_formed (Invoke f es) \<longleftrightarrow> (\<forall>e \<in> set es. well_spelt e)"
| "well_formed (Return e) \<longleftrightarrow> well_spelt e"
| "well_formed (Throw e) \<longleftrightarrow> well_spelt e"
| "well_formed (If e a b) \<longleftrightarrow> well_spelt e \<and> (\<forall>s \<in> set a. well_formed s)
     \<and> (case b of None \<Rightarrow> True | Some c \<Rightarrow> \<forall>s \<in> set c. well_formed s)"
| "well_formed (ElseIf e a s) \<longleftrightarrow> well_spelt e \<and> (\<forall>s \<in> set a. well_formed s) \<and> is_if s \<and> well_formed s"
| "well_formed (While e a) \<longleftrightarrow> well_spelt e \<and> (\<forall>s \<in> set a. well_formed s)"
| "well_formed (For x e t y f a) \<longleftrightarrow> well_spelt e \<and> well_spelt t \<and> well_spelt f \<and> (\<forall>s \<in> set a. well_formed s)"
| "well_formed (Try a v b) \<longleftrightarrow> (\<forall>s \<in> set a. well_formed s) \<and> (\<forall>s \<in> set b. well_formed s)"

definition spell_name :: "(TokenType \<Rightarrow> Token) \<Rightarrow> wstring \<Rightarrow> Token" where
  "spell_name tk x = (tk TOK_IDENTIFIER)\<lparr>tok_string := x\<rparr>"

definition spell_assign :: "(TokenType \<Rightarrow> Token) \<Rightarrow> wstring \<Rightarrow> source \<Rightarrow> Token list" where
  "spell_assign tk x e = spell_name tk x # tk TOK_ASSIGN # spell tk e"

fun spell_stmt :: "(TokenType \<Rightarrow> Token) \<Rightarrow> stmt \<Rightarrow> Token list"
  and spell_stmts :: "(TokenType \<Rightarrow> Token) \<Rightarrow> stmt list \<Rightarrow> Token list" where
  "spell_stmt tk (Declare x e) = tk TOK_VAR # spell_name tk x #
     (case e of None \<Rightarrow> [] | Some f \<Rightarrow> tk TOK_ASSIGN # spell tk f) @ [tk TOK_SEMICOLON]"
| "spell_stmt tk (Assign x e) = spell_name tk x # tk TOK_ASSIGN # spell tk e @ [tk TOK_SEMICOLON]"
| "spell_stmt tk (Invoke f es) = spell tk (Call f es) @ [tk TOK_SEMICOLON]"
| "spell_stmt tk (Return e) = tk TOK_RETURN # spell tk e @ [tk TOK_SEMICOLON]"
| "spell_stmt tk (Throw e) = tk TOK_THROW # spell tk e @ [tk TOK_SEMICOLON]"
| "spell_stmt tk (If e a b) =
     tk TOK_IF # tk TOK_BRACKET_LEFT # spell tk e @ tk TOK_BRACKET_RIGHT # tk TOK_BRACE_LEFT # spell_stmts tk a
     @ (case b of None \<Rightarrow> [] | Some c \<Rightarrow> tk TOK_ELSE # tk TOK_BRACE_LEFT # spell_stmts tk c)"
| "spell_stmt tk (ElseIf e a s) =
     tk TOK_IF # tk TOK_BRACKET_LEFT # spell tk e @ tk TOK_BRACKET_RIGHT # tk TOK_BRACE_LEFT # spell_stmts tk a
     @ tk TOK_ELSE # spell_stmt tk s"
| "spell_stmt tk (While e a) =
     tk TOK_WHILE # tk TOK_BRACKET_LEFT # spell tk e @ tk TOK_BRACKET_RIGHT # tk TOK_BRACE_LEFT # spell_stmts tk a"
| "spell_stmt tk (For x e t y f a) =
     tk TOK_FOR # tk TOK_BRACKET_LEFT # spell_assign tk x e @ tk TOK_SEMICOLON # spell tk t @ tk TOK_SEMICOLON
     # spell_assign tk y f @ tk TOK_BRACKET_RIGHT # tk TOK_BRACE_LEFT # spell_stmts tk a"
| "spell_stmt tk (Try a v b) =
     tk TOK_TRY # tk TOK_BRACE_LEFT # spell_stmts tk a @ tk TOK_CATCH # tk TOK_BRACKET_LEFT # spell_name tk v
     # tk TOK_BRACKET_RIGHT # tk TOK_BRACE_LEFT # spell_stmts tk b"
| "spell_stmts tk [] = [tk TOK_BRACE_RIGHT]"
| "spell_stmts tk (s # ss) = spell_stmt tk s @ spell_stmts tk ss"

text \<open>The tree meant, with its variables not yet numbered. The variable of a \<open>catch\<close> is the last of its block.\<close>

definition set_desc :: OpDesc where
  "set_desc = op_desc TOK_ASSIGN OPR_SET True True"

definition assign_tree :: "wstring \<Rightarrow> source \<Rightarrow> expr" where
  "assign_tree x e = OperationExpression OPR_SET set_desc VALUE_UNKNOWN (Some (VarExpression 0 x VALUE_UNKNOWN)) (Some (tree_of e))"

fun vars_of :: "stmt list \<Rightarrow> wstring list" where
  "vars_of [] = []"
| "vars_of (Declare x e # ss) = x # vars_of ss"
| "vars_of (s # ss) = vars_of ss"

fun stmt_trees :: "stmt \<Rightarrow> expr list"
  and stmts_trees :: "stmt list \<Rightarrow> expr list" where
  "stmt_trees (Declare x e) = (case e of None \<Rightarrow> [] | Some f \<Rightarrow> [assign_tree x f])"
| "stmt_trees (Assign x e) = [assign_tree x e]"
| "stmt_trees (Invoke f es) = [tree_of (Call f es)]"
| "stmt_trees (Return e) = [ReturnExpression (Some (tree_of e))]"
| "stmt_trees (Throw e) = [ThrowExpression (tree_of e)]"
| "stmt_trees (If e a b) = [IfExpression (tree_of e) (CodeBlock 0 0 (vars_of a) (stmts_trees a))
     (case b of None \<Rightarrow> None | Some c \<Rightarrow> Some (CodeBlock 0 0 (vars_of c) (stmts_trees c)))]"
| "stmt_trees (ElseIf e a s) = [IfExpression (tree_of e) (CodeBlock 0 0 (vars_of a) (stmts_trees a))
     (Some (CodeBlock 0 0 [] (stmt_trees s)))]"
| "stmt_trees (While e a) = [ForExpression None (tree_of e) None (CodeBlock 0 0 (vars_of a) (stmts_trees a))]"
| "stmt_trees (For x e t y f a) = [ForExpression (Some (assign_tree x e)) (tree_of t) (Some (assign_tree y f))
     (CodeBlock 0 0 (vars_of a) (stmts_trees a))]"
| "stmt_trees (Try a v b) = [TryExpression (CodeBlock 0 0 (vars_of a) (stmts_trees a)) v
     (CodeBlock 0 0 (vars_of b @ [v]) (stmts_trees b))]"
| "stmts_trees [] = []"
| "stmts_trees (s # ss) = stmt_trees s @ stmts_trees ss"

definition block_of :: "stmt list \<Rightarrow> codeblock" where
  "block_of ss = CodeBlock 0 0 (vars_of ss) (stmts_trees ss)"

section \<open>What a store holds\<close>

text \<open>
  What matters of a block: its numbers, its variables, its code and its children. The blocks of a
  statement are allocated one after the other, so they fill an interval of addresses.
\<close>

type_synonym bpart = "addr \<Rightarrow> (int \<times> int \<times> wstring list \<times> addr list \<times> addr list) option"

definition blocks_of :: "parser \<Rightarrow> bpart" where
  "blocks_of s b = (if b < length (p_blocks s) \<and> b \<notin> set (p_freed s)
     then let k = p_blocks s ! b in Some (b_startingVarId k, b_maxVarId k, b_vars k, b_code k, b_childBlocks k) else None)"

inductive stands :: "part \<Rightarrow> bpart \<Rightarrow> addr \<Rightarrow> addr \<Rightarrow> addr \<Rightarrow> expr \<Rightarrow> addr list \<Rightarrow> bool"
  and stand :: "part \<Rightarrow> bpart \<Rightarrow> addr \<Rightarrow> addr \<Rightarrow> addr list \<Rightarrow> expr list \<Rightarrow> addr list \<Rightarrow> bool"
  and block :: "part \<Rightarrow> bpart \<Rightarrow> addr \<Rightarrow> addr \<Rightarrow> codeblock \<Rightarrow> bool"
  for M :: part and B :: bpart where
  stands_expr: "holds M x T \<Longrightarrow> stands M B l l x T []"
| stands_return: "M x = Some (PReturn (Some y), ty) \<Longrightarrow> holds M y T \<Longrightarrow> stands M B l l x (ReturnExpression (Some T)) []"
| stands_throw: "M x = Some (PThrow (Some y), ty) \<Longrightarrow> holds M y T \<Longrightarrow> stands M B l l x (ThrowExpression T) []"
| stands_if: "M x = Some (PIf (Some t) (Some a) None, ty) \<Longrightarrow> holds M t T \<Longrightarrow> block M B a h A
    \<Longrightarrow> stands M B a h x (IfExpression T A None) [a]"
| stands_else: "M x = Some (PIf (Some t) (Some a) (Some b), ty) \<Longrightarrow> holds M t T \<Longrightarrow> block M B a b A \<Longrightarrow> block M B b h C
    \<Longrightarrow> stands M B a h x (IfExpression T A (Some C)) [a, b]"
| stands_while: "M x = Some (PFor None (Some t) None (Some a), ty) \<Longrightarrow> holds M t T \<Longrightarrow> block M B a h A
    \<Longrightarrow> stands M B a h x (ForExpression None T None A) [a]"
| stands_for: "M x = Some (PFor (Some i) (Some t) (Some k) (Some a), ty) \<Longrightarrow> holds M i I \<Longrightarrow> holds M t T \<Longrightarrow> holds M k K \<Longrightarrow> block M B a h A
    \<Longrightarrow> stands M B a h x (ForExpression (Some I) T (Some K) A) [a]"
| stands_try: "M x = Some (PTry (Some a) v (Some b), ty) \<Longrightarrow> block M B a b A \<Longrightarrow> block M B b h C
    \<Longrightarrow> stands M B a h x (TryExpression A v C) []"
| stand_nil: "stand M B l l [] [] []"
| stand_cons: "stands M B l m x T cs \<Longrightarrow> stand M B m h xs Ts ds \<Longrightarrow> stand M B l h (x # xs) (T # Ts) (cs @ ds)"
| block_at: "B b = Some (i, m, vs, xs, cs) \<Longrightarrow> stand M B (Suc b) h xs Ts cs \<Longrightarrow> block M B b h (CodeBlock i m vs Ts)"

lemmas standing = stands_stand_block.intros

lemma stand_mono:
  assumes M: "M \<subseteq>\<^sub>m M'"
  shows "stands M B l h x T cs \<Longrightarrow> l \<le> h \<and> ((\<forall>i. l \<le> i \<and> i < h \<longrightarrow> B' i = B i) \<longrightarrow> stands M' B' l h x T cs)"
    and "stand M B l h xs Ts cs \<Longrightarrow> l \<le> h \<and> ((\<forall>i. l \<le> i \<and> i < h \<longrightarrow> B' i = B i) \<longrightarrow> stand M' B' l h xs Ts cs)"
    and "block M B l h K \<Longrightarrow> l < h \<and> ((\<forall>i. l \<le> i \<and> i < h \<longrightarrow> B' i = B i) \<longrightarrow> block M' B' l h K)"
proof (induction rule: stands_stand_block.inducts)
  case stands_expr
  then show ?case using holds_mono [OF _ M] by (auto intro: standing)
next
  case stands_return
  then show ?case using holds_mono [OF _ M] M by (auto simp: map_le_def dom_def intro: standing)
next
  case stands_if
  then show ?case using holds_mono [OF _ M] M by (auto simp: map_le_def dom_def intro!: standing)
next
  case (stands_else x t a b ty T A h C)
  have "M' x = Some (PIf (Some t) (Some a) (Some b), ty)" "holds M' t T"
    using stands_else(1) holds_mono [OF stands_else(2) M] M by (auto simp: map_le_def dom_def)
  with stands_else show ?case by (auto intro!: standing)
next
  case stands_while
  then show ?case using holds_mono [OF _ M] M by (auto simp: map_le_def dom_def intro!: standing)
next
  case stands_throw
  then show ?case using holds_mono [OF _ M] M by (auto simp: map_le_def dom_def intro: standing)
next
  case stands_for
  then show ?case using holds_mono [OF _ M] M by (auto simp: map_le_def dom_def intro!: standing)
next
  case (stands_try x a v b ty A h C)
  then have "M' x = Some (PTry (Some a) v (Some b), ty)" using M by (auto simp: map_le_def dom_def)
  with stands_try show ?case by (auto intro!: standing)
next
  case stand_nil
  then show ?case by (auto intro: standing)
next
  case stand_cons
  then show ?case by (auto intro!: standing)
next
  case (block_at b i m vs xs cs h Ts)
  then show ?case by (auto intro!: standing)
qed

section \<open>Steps of the statement parser\<close>

text \<open>
  A step that reads \<open>j\<close> tokens, changes nodes from address \<open>k\<close> on and blocks from address \<open>b\<close> on, adds
  new ones, and appends to the variables, the code and the children of the block \<open>c\<close>.
\<close>

definition extend :: "wstring list \<Rightarrow> addr list \<Rightarrow> addr list \<Rightarrow> pblock \<Rightarrow> pblock" where
  "extend vs xs cs k = k\<lparr>b_vars := b_vars k @ vs, b_code := b_code k @ xs, b_childBlocks := b_childBlocks k @ cs\<rparr>"

definition goes :: "addr \<Rightarrow> addr \<Rightarrow> addr \<Rightarrow> wstring list \<Rightarrow> addr list \<Rightarrow> addr list \<Rightarrow> nat \<Rightarrow> parser \<Rightarrow> parser \<Rightarrow> bool" where
  "goes k b c vs xs cs j s t \<longleftrightarrow>
     t\<lparr>m_pos := m_pos s, p_nodes := p_nodes s, m_expressions := m_expressions s, p_blocks := p_blocks s\<rparr> = s
     \<and> m_pos t = m_pos s + j
     \<and> length (p_nodes s) \<le> length (p_nodes t) \<and> take k (p_nodes t) = take k (p_nodes s) \<and> (clean k s \<longrightarrow> clean k t)
     \<and> length (p_blocks s) \<le> length (p_blocks t)
     \<and> (\<forall>i < b. i \<noteq> c \<longrightarrow> p_blocks t ! i = p_blocks s ! i) \<and> p_blocks t ! c = extend vs xs cs (p_blocks s ! c)"

lemma extend_simps [simp]: "extend [] [] [] k = k"
  "extend vs xs cs (extend vs' xs' cs' k) = extend (vs' @ vs) (xs' @ xs) (cs' @ cs) k"
  by (simp_all add: extend_def)

text \<open>No expression that is not there has been deleted, and no block.\<close>

definition lively :: "parser \<Rightarrow> bool" where
  "lively s \<longleftrightarrow> alive s \<and> p_freed s = []"

lemma moved_lively: "moved j s t \<Longrightarrow> lively s \<Longrightarrow> lively t"
  using moved_alive [of j s t] by (cases s; cases t) (auto simp: lively_def moved_def)

lemma lively_alive: "lively s \<Longrightarrow> alive s"
  by (simp add: lively_def)

lemma goesD:
  assumes "goes k b c vs xs cs j s t"
  shows "m_tokens t = m_tokens s" "p_dead t = p_dead s" "p_funcs t = p_funcs s" "p_vm t = p_vm s" "m_imports t = m_imports s"
    "m_pos t = m_pos s + j" "length (p_nodes s) \<le> length (p_nodes t)" "length (p_blocks s) \<le> length (p_blocks t)"
    "take k (p_nodes t) = take k (p_nodes s)" "clean k s \<Longrightarrow> clean k t"
    "i < b \<Longrightarrow> i \<noteq> c \<Longrightarrow> p_blocks t ! i = p_blocks s ! i" "p_blocks t ! c = extend vs xs cs (p_blocks s ! c)"
    "lively s \<Longrightarrow> lively t"
proof -
  have e: "t\<lparr>m_pos := m_pos s, p_nodes := p_nodes s, m_expressions := m_expressions s, p_blocks := p_blocks s\<rparr> = s"
    using assms by (simp add: goes_def)
  show "m_tokens t = m_tokens s" and d: "p_dead t = p_dead s" and "p_funcs t = p_funcs s" "p_vm t = p_vm s" "m_imports t = m_imports s"
    using e by (cases s; cases t; simp)+
  show "m_pos t = m_pos s + j" and l: "length (p_nodes s) \<le> length (p_nodes t)" and "length (p_blocks s) \<le> length (p_blocks t)"
    "take k (p_nodes t) = take k (p_nodes s)" "clean k s \<Longrightarrow> clean k t"
    "i < b \<Longrightarrow> i \<noteq> c \<Longrightarrow> p_blocks t ! i = p_blocks s ! i" "p_blocks t ! c = extend vs xs cs (p_blocks s ! c)"
    using assms by (auto simp: goes_def)
  have "p_freed t = p_freed s" using e by (cases s; cases t; simp)
  then show "lively s \<Longrightarrow> lively t" using d l by (auto simp: lively_def alive_def)
qed

lemma goes_freed: "goes k b c vs xs cs j s t \<Longrightarrow> p_freed t = p_freed s"
  by (cases s; cases t) (auto simp: goes_def)

lemma goes_refl [simp]: "goes k b c [] [] [] 0 s s"
  by (simp add: goes_def)

lemma goes_trans:
  assumes st: "goes k b c vs xs cs j s t" and tu: "goes k b c vs' xs' cs' i t u"
  shows "goes k b c (vs @ vs') (xs @ xs') (cs @ cs') (j + i) s u"
proof -
  note S = goesD [OF st] and T = goesD [OF tu]
  have "u\<lparr>m_pos := m_pos s, p_nodes := p_nodes s, m_expressions := m_expressions s, p_blocks := p_blocks s\<rparr> = s"
    using st tu by (cases s; cases t; cases u) (auto simp: goes_def)
  then show ?thesis unfolding goes_def using S(6-12) T(6-12) by (auto intro: order_trans)
qed

lemma clean_weaken:
  assumes "take k (p_nodes t) = take k (p_nodes s)" and "clean k t" and "l \<le> k" and "k \<le> length (p_nodes s)" and "clean l s"
  shows "clean l t"
  unfolding clean_def
proof (intro allI impI)
  fix i assume i: "l \<le> i \<and> i < length (p_nodes t)"
  show "\<not> is_dot (e_node (p_nodes t ! i)) \<and> (\<forall>p. e_parent (p_nodes t ! i) = Some p \<longrightarrow> l \<le> p)"
  proof (cases "i < k")
    case True
    then have "p_nodes t ! i = p_nodes s ! i" using arg_cong [OF assms(1), of "\<lambda>l. l ! i"] by simp
    then show ?thesis using assms(4,5) i True by (auto simp: clean_def)
  next
    case False
    with i assms(2) have "\<not> is_dot (e_node (p_nodes t ! i)) \<and> (\<forall>p. e_parent (p_nodes t ! i) = Some p \<longrightarrow> k \<le> p)"
      unfolding clean_def not_less by blast
    with assms(3) show ?thesis by (meson order_trans)
  qed
qed

lemma goes_weaken:
  assumes "goes (length (p_nodes s)) b c vs xs cs j s t" and "k \<le> length (p_nodes s)" and "d \<le> b"
  shows "goes k d c vs xs cs j s t"
proof -
  note S = goesD [OF assms(1)]
  have "take k (p_nodes t) = take k (p_nodes s)" using arg_cong [OF S(9), of "take k"] assms(2) by (simp add: min_def)
  moreover have "clean k s \<longrightarrow> clean k t"
    using clean_weaken [OF S(9) S(10) assms(2)] by simp
  ultimately show ?thesis using assms(1,3) by (simp add: goes_def)
qed

lemma moved_goes: "moved j s t \<Longrightarrow> goes (length (p_nodes s)) b c [] [] [] j s t"
  using movedD [of j s t] by (cases s; cases t) (auto simp: moved_def goes_def)

lemma nearby_goes:
  assumes "nearby k s t" shows "goes k b c [] [] [] 0 s t"
proof -
  have "p_blocks t = p_blocks s" "m_expressions t = m_expressions s" "m_pos t = m_pos s" using assms by (cases s; cases t; simp add: nearby_def)+
  moreover have "t\<lparr>m_pos := m_pos s, p_nodes := p_nodes s, m_expressions := m_expressions s, p_blocks := p_blocks s\<rparr> = s"
    using assms by (cases s; cases t) (auto simp: nearby_def)
  ultimately show ?thesis using assms by (auto simp: goes_def nearby_def)
qed

lemma goes_skip: "goes k b c [] [] [] j s (skip j s)"
  by (simp add: goes_def) (simp add: skip_def clean_def)

lemma ahead_goes: "ahead (us @ ts) s \<Longrightarrow> goes k b c vs xs cs (length us) s t \<Longrightarrow> ahead ts t"
proof -
  assume "ahead (us @ ts) s" and m: "goes k b c vs xs cs (length us) s t"
  then obtain rest where "drop (m_pos s) (m_tokens s) = us @ ts @ rest" by (auto simp: ahead_def)
  then have "drop (length us) (drop (m_pos s) (m_tokens s)) = ts @ rest" by simp
  then show ?thesis using goesD(1,6) [OF m] by (auto simp: ahead_def add.commute)
qed

text \<open>What is seen of the nodes and the blocks.\<close>

lemma goes_seen: "goes k b c vs xs cs j s t \<Longrightarrow> i < k \<Longrightarrow> i < length (p_nodes s) \<Longrightarrow> seen t i = seen s i"
proof -
  assume g: "goes k b c vs xs cs j s t" and i: "i < k" "i < length (p_nodes s)"
  have "p_nodes t ! i = p_nodes s ! i" using arg_cong [OF goesD(9) [OF g], of "\<lambda>l. l ! i"] i by simp
  then show ?thesis using i goesD(2,7) [OF g] by (simp add: seen_def)
qed

lemma goes_above:
  assumes g: "goes (length (p_nodes s)) b c vs xs cs j s t" and "k \<le> l"
  shows "above l s \<subseteq>\<^sub>m above k t"
proof (rule le_above)
  show "above l s \<subseteq>\<^sub>m seen t"
    using seen_bound [OF above_le(1), of _ l s] goes_seen [OF g] by (intro map_le_same [OF above_le(1)]) auto
  have "{l..} \<subseteq> {k..}" using assms(2) by auto
  with above_le(2) show "dom (above l s) \<subseteq> {k..}" by (rule order_trans)
qed

lemma goes_blocks:
  assumes "goes k b c vs xs cs j s t" and "i < b" and "i \<noteq> c" and "b \<le> length (p_blocks s)"
  shows "blocks_of t i = blocks_of s i"
  using goesD(8,11) [OF assms(1)] goes_freed [OF assms(1)] assms(2-) by (simp add: blocks_of_def)


lemma blocks_skip [simp]: "blocks_of (skip j s) = blocks_of s"
  by (simp add: blocks_of_def skip_def fun_eq_iff)

text \<open>Single steps on blocks and nodes.\<close>

definition put_block :: "addr \<Rightarrow> (pblock \<Rightarrow> pblock) \<Rightarrow> parser \<Rightarrow> parser" where
  "put_block c f s = s\<lparr>p_blocks := (p_blocks s)[c := f (p_blocks s ! c)]\<rparr>"

lemma updBlock_there: "c < length (p_blocks s) \<Longrightarrow> c \<notin> set (p_freed s) \<Longrightarrow> updBlock c f s = Ret () (put_block c f s)"
  by (simp add: updBlock_def getBlock_def bind_step_def modify_def put_block_def)

lemma updBlock_put: "c < length (p_blocks s) \<Longrightarrow> lively s \<Longrightarrow> updBlock c f s = Ret () (put_block c f s)"
  by (simp add: updBlock_there lively_def)

lemma put_block_sel [simp]:
  "p_nodes (put_block c f s) = p_nodes s" "p_dead (put_block c f s) = p_dead s" "p_freed (put_block c f s) = p_freed s" "m_pos (put_block c f s) = m_pos s"
  "m_tokens (put_block c f s) = m_tokens s" "length (p_blocks (put_block c f s)) = length (p_blocks s)"
  "skip j (put_block c f s) = put_block c f (skip j s)" "seen (put_block c f s) = seen s"
  by (simp_all add: put_block_def skip_def seen_def fun_eq_iff)

lemma put_lively [simp]: "lively (put_block c f s) \<longleftrightarrow> lively s"
  by (simp add: lively_def alive_def)

lemma blocks_put: "i \<noteq> c \<Longrightarrow> blocks_of (put_block c f s) i = blocks_of s i"
  by (simp add: blocks_of_def put_block_def)

lemma goes_put: "c < length (p_blocks s) \<Longrightarrow> goes k b c vs xs cs 0 s (put_block c (extend vs xs cs) s)"
  by (simp add: goes_def clean_def) (simp add: put_block_def)

lemma extend_one: "extend [v] [] [] = (\<lambda>k. k\<lparr>b_vars := b_vars k @ [v]\<rparr>)"
  "extend [] [x] [] = (\<lambda>k. k\<lparr>b_code := b_code k @ [x]\<rparr>)"
  "extend [] [] [d] = (\<lambda>k. k\<lparr>b_childBlocks := b_childBlocks k @ [d]\<rparr>)"
  by (simp_all add: extend_def fun_eq_iff)

lemma addVar_put: "c < length (p_blocks s) \<Longrightarrow> lively s \<Longrightarrow> addVar c v s = Ret () (put_block c (extend [v] [] []) s)"
  by (simp add: addVar_def updBlock_put extend_one)

lemma addStatement_put: "c < length (p_blocks s) \<Longrightarrow> lively s \<Longrightarrow> addStatement c x s = Ret () (put_block c (extend [] [x] []) s)"
  by (simp add: addStatement_def updBlock_put extend_one)

definition adopted :: "addr \<Rightarrow> addr \<Rightarrow> parser \<Rightarrow> parser" where
  "adopted c d s = put_block c (extend [] [] [d]) (put_block d (\<lambda>k. k\<lparr>b_parent := Some c\<rparr>) s)"

lemma adopt_adopted: "c < length (p_blocks s) \<Longrightarrow> d < length (p_blocks s) \<Longrightarrow> lively s \<Longrightarrow> adopt c d s = Ret () (adopted c d s)"
  by (simp add: adopt_def bind_step_def updBlock_put extend_one adopted_def)

lemma adopted_sel [simp]:
  "p_nodes (adopted c d s) = p_nodes s" "p_dead (adopted c d s) = p_dead s" "p_freed (adopted c d s) = p_freed s" "m_pos (adopted c d s) = m_pos s"
  "m_tokens (adopted c d s) = m_tokens s" "length (p_blocks (adopted c d s)) = length (p_blocks s)"
  "skip j (adopted c d s) = adopted c d (skip j s)" "seen (adopted c d s) = seen s"
  by (simp_all add: adopted_def)

lemma blocks_adopted: "i \<noteq> c \<Longrightarrow> blocks_of (adopted c d s) i = blocks_of s i"
  unfolding adopted_def by (cases "i = d") (simp_all add: blocks_put, simp add: blocks_of_def put_block_def Let_def)

lemma goes_adopted:
  assumes "c < length (p_blocks s)" and "b \<le> d" and "c < d"
  shows "goes k b c [] [] [d] 0 s (adopted c d s)"
proof -
  let ?t = "put_block d (\<lambda>k. k\<lparr>b_parent := Some c\<rparr>) s"
  have "goes k b c [] [] [] 0 s ?t"
    using assms by (simp add: goes_def clean_def) (simp add: put_block_def)
  from goes_trans [OF this goes_put [of c ?t k b "[]" "[]" "[d]"]] assms show ?thesis by (simp add: adopted_def)
qed

definition fresh_block :: "ptr \<Rightarrow> pblock" where
  "fresh_block f = \<lparr>b_function = f, b_parent = None, b_startingVarId = 0, b_maxVarId = 0, b_varTypes = None,
            b_vars = [], b_code = [], b_childBlocks = []\<rparr>"

definition with_block :: "ptr \<Rightarrow> parser \<Rightarrow> parser" where
  "with_block f s = s\<lparr>p_blocks := p_blocks s @ [fresh_block f]\<rparr>"

lemma newBlock_with: "newBlock f s = Ret (length (p_blocks s)) (with_block f s)"
  by (simp add: newBlock_def with_block_def fresh_block_def)

lemma with_block_sel [simp]:
  "p_nodes (with_block f s) = p_nodes s" "p_dead (with_block f s) = p_dead s" "p_freed (with_block f s) = p_freed s" "m_pos (with_block f s) = m_pos s"
  "m_tokens (with_block f s) = m_tokens s" "p_blocks (with_block f s) = p_blocks s @ [fresh_block f]" "p_funcs (with_block f s) = p_funcs s" "seen (with_block f s) = seen s"
  by (simp_all add: with_block_def seen_def fun_eq_iff)

lemma lively_more [simp]: "lively (with_block f s) \<longleftrightarrow> lively s" "lively (adopted c d s) \<longleftrightarrow> lively s"
  by (simp_all add: lively_def alive_def)

lemma lively_alloc [simp]: "lively s \<Longrightarrow> lively (alloc e s)"
  by (auto simp: lively_def alive_def) (simp add: alloc_def)

lemma goes_with: "c < length (p_blocks s) \<Longrightarrow> b \<le> length (p_blocks s) \<Longrightarrow> goes k b c [] [] [] 0 s (with_block f s)"
  by (simp add: goes_def clean_def nth_append) (simp add: with_block_def)

lemma nearby_sel: "nearby k s t \<Longrightarrow> p_blocks t = p_blocks s \<and> m_pos t = m_pos s \<and> m_tokens t = m_tokens s \<and> p_freed t = p_freed s"
  by (cases s; cases t) (auto simp: nearby_def)

text \<open>Setting a member of a statement, at an address that is past all that is protected.\<close>

definition sets :: "addr \<Rightarrow> (pnode \<times> ValueType) \<Rightarrow> parser \<Rightarrow> parser \<Rightarrow> bool" where
  "sets x n s t \<longleftrightarrow> nearby x s t \<and> length (p_nodes t) = length (p_nodes s) \<and> seen t = (seen s)(x \<mapsto> n)"

lemma setsD:
  assumes "sets x n s t"
  shows "p_blocks t = p_blocks s" "length (p_nodes t) = length (p_nodes s)" "seen t = (seen s)(x \<mapsto> n)"
    "goes x b c [] [] [] 0 s t" "lively s \<Longrightarrow> lively t" "above (Suc x) t = above (Suc x) s" "blocks_of t = blocks_of s"
  using assms nearby_sel [of x s t] nearby_goes [of x s t] nearbyD(3) [of x s t]
  by (auto simp: sets_def above_def restrict_map_def fun_eq_iff blocks_of_def lively_def)

lemma sets_trans: "sets x n s t \<Longrightarrow> sets x n' t u \<Longrightarrow> sets x n' s u"
  using nearby_trans [of x s t u] by (auto simp: sets_def)

lemma updNode_sets:
  assumes "seen s x = Some (n, ty)"
    and "\<And>e. e_node e = n \<Longrightarrow> e_node (f e) = n' \<and> e_valueType (f e) = e_valueType e \<and> e_parent (f e) = e_parent e"
    and "\<not> is_dot n'"
  shows "\<exists>t. updNode x f s = Ret () t \<and> sets x (n', ty) s t"
  using updNode_seen [OF assms(1) order_refl, of f n'] assms(2,3) by (auto simp: sets_def)

lemma set_if_sets: "seen s x = Some (PIf t a b, ty) \<Longrightarrow> f (t, a, b) = (t', a', b') \<Longrightarrow>
   \<exists>u. set_if x f s = Ret () u \<and> sets x (PIf t' a' b', ty) s u"
  unfolding set_if_def by (rule updNode_sets) auto

lemma set_for_sets: "seen s x = Some (n, ty) \<Longrightarrow> \<not> is_dot (f n) \<Longrightarrow> \<exists>u. set_for x f s = Ret () u \<and> sets x (f n, ty) s u"
  unfolding set_for_def by (rule updNode_sets) auto

lemma set_node_sets: "seen s x = Some (n, ty) \<Longrightarrow> \<not> is_dot m \<Longrightarrow> \<exists>u. set_node x m s = Ret () u \<and> sets x (m, ty) s u"
  unfolding set_node_def by (rule updNode_sets) auto

lemma setParent_sets:
  assumes "seen s y = Some z" "\<not> is_dot (fst z)" "x \<le> y" "seen s x = Some n"
  shows "\<exists>u. setParent y x s = Ret () u \<and> sets x n s u"
proof -
  obtain m ty where z: "z = (m, ty)" by (cases z)
  then obtain t where t: "setParent y x s = Ret () t" "nearby x s t" "length (p_nodes t) = length (p_nodes s)"
    "seen t = (seen s)(y \<mapsto> (m, ty))"
    using updNode_seen [of s y m ty x "\<lambda>e. e\<lparr>e_parent := Some x\<rparr>" m] assms by (auto simp: setParent_def)
  then have "seen t = (seen s)(x \<mapsto> n)" using assms(1,4) z by (simp add: map_upd_triv)
  with t show ?thesis by (auto simp: sets_def)
qed


section \<open>Statements in a row\<close>

definition room :: "parser \<Rightarrow> nat" where
  "room s = length (p_nodes s) + length (p_blocks s)"

definition did :: "addr \<Rightarrow> wstring list \<Rightarrow> expr list \<Rightarrow> nat \<Rightarrow> parser \<Rightarrow> parser \<Rightarrow> bool" where
  "did c vs Ts j s t \<longleftrightarrow> (\<exists>xs cs. goes (length (p_nodes s)) (length (p_blocks s)) c vs xs cs j s t
     \<and> stand (above (length (p_nodes s)) t) (blocks_of t) (length (p_blocks s)) (length (p_blocks t)) xs Ts cs)
     \<and> room s + depths Ts \<le> room t"

definition blocked :: "codeblock \<Rightarrow> nat \<Rightarrow> parser \<Rightarrow> parser \<Rightarrow> bool" where
  "blocked K j s t \<longleftrightarrow> (\<forall>c < length (p_blocks s). goes (length (p_nodes s)) (length (p_blocks s)) c [] [] [] j s t)
     \<and> (\<exists>f vs xs cs. goes (length (p_nodes s)) (length (p_blocks s)) (length (p_blocks s)) vs xs cs j (with_block f s) t)
     \<and> block (above (length (p_nodes s)) t) (blocks_of t) (length (p_blocks s)) (length (p_blocks t)) K
     \<and> room s + block_depth K \<le> room t"

lemma depths_append: "depths (Ts @ Us) = max (depths Ts) (depths Us)"
  by (induction Ts) auto

lemma stand_one: "stands M B l h x T cs \<Longrightarrow> stand M B l h [x] [T] cs"
  using stand_cons [OF _ stand_nil] by fastforce

lemma stand_append: "stand M B l m xs Ts cs \<Longrightarrow> stand M B m h ys Us ds \<Longrightarrow> stand M B l h (xs @ ys) (Ts @ Us) (cs @ ds)"
proof (induction xs arbitrary: l Ts cs)
  case Nil
  from Nil(1) show ?case by (cases rule: stand.cases) (use Nil(2) in auto)
next
  case (Cons x xs)
  from Cons(2) obtain r T Us' es es' where e: "Ts = T # Us'" "cs = es @ es'" "stands M B l r x T es" "stand M B r m xs Us' es'"
    by (cases rule: stand.cases) auto
  from stand_cons [OF e(3) Cons(1) [OF e(4) Cons(3)]] show ?case using e(1,2) by simp
qed

lemma didI:
  assumes "goes (length (p_nodes s)) (length (p_blocks s)) c vs xs cs j s t"
    and "stand (above (length (p_nodes s)) t) (blocks_of t) (length (p_blocks s)) (length (p_blocks t)) xs Ts cs"
    and "room s + depths Ts \<le> room t"
  shows "did c vs Ts j s t"
  unfolding did_def using assms by blast

lemma didE:
  assumes "did c vs Ts j s t"
  obtains xs cs where "goes (length (p_nodes s)) (length (p_blocks s)) c vs xs cs j s t"
    "stand (above (length (p_nodes s)) t) (blocks_of t) (length (p_blocks s)) (length (p_blocks t)) xs Ts cs"
    "room s + depths Ts \<le> room t"
  using assms unfolding did_def by blast

lemma didD:
  assumes "did c vs Ts j s t"
  shows "m_tokens t = m_tokens s" "m_pos t = m_pos s + j" "lively s \<Longrightarrow> lively t"
    "length (p_nodes s) \<le> length (p_nodes t)" "length (p_blocks s) \<le> length (p_blocks t)"
proof -
  obtain xs cs where g: "goes (length (p_nodes s)) (length (p_blocks s)) c vs xs cs j s t" using assms by (rule didE)
  show "m_tokens t = m_tokens s" "m_pos t = m_pos s + j" "lively s \<Longrightarrow> lively t"
    "length (p_nodes s) \<le> length (p_nodes t)" "length (p_blocks s) \<le> length (p_blocks t)"
    using goesD(1,6,7,8,13) [OF g] by auto
qed

lemma skip_more [simp]: "p_blocks (skip j s) = p_blocks s" "seen (skip j s) = seen s" "above k (skip j s) = above k s"
  "lively (skip j s) \<longleftrightarrow> lively s" "p_freed (skip j s) = p_freed s"
  by (simp_all add: skip_def seen_def fun_eq_iff above_def restrict_map_def lively_def alive_def)

lemma did_skip: "did c [] [] j s (skip j s)"
  by (rule didI [OF goes_skip]) (simp_all add: stand_nil room_def)

lemma did_trans:
  assumes st: "did c vs Ts j s t" and tu: "did c vs' Ts' i t u" and c: "c < length (p_blocks s)"
  shows "did c (vs @ vs') (Ts @ Ts') (j + i) s u"
proof -
  let ?k = "length (p_nodes s)" and ?b = "length (p_blocks s)"
  obtain xs cs where S: "goes ?k ?b c vs xs cs j s t" "stand (above ?k t) (blocks_of t) ?b (length (p_blocks t)) xs Ts cs"
    "room s + depths Ts \<le> room t"
    using st by (rule didE)
  obtain ys ds where T: "goes (length (p_nodes t)) (length (p_blocks t)) c vs' ys ds i t u"
    "stand (above (length (p_nodes t)) u) (blocks_of u) (length (p_blocks t)) (length (p_blocks u)) ys Ts' ds"
    "room t + depths Ts' \<le> room u"
    using tu by (rule didE)
  have le: "?k \<le> length (p_nodes t)" "?b \<le> length (p_blocks t)" using didD(4,5) [OF st] by simp_all
  show ?thesis
  proof (rule didI)
    show "goes ?k ?b c (vs @ vs') (xs @ ys) (cs @ ds) (j + i) s u"
      by (rule goes_trans [OF S(1) goes_weaken [OF T(1) le]])
    have M: "above ?k t \<subseteq>\<^sub>m above ?k u" by (rule goes_above [OF T(1) order_refl])
    have "\<forall>i. ?b \<le> i \<and> i < length (p_blocks t) \<longrightarrow> blocks_of u i = blocks_of t i"
      using goes_blocks [OF T(1)] c by auto
    with stand_mono(2) [OF M S(2)] have "stand (above ?k u) (blocks_of u) ?b (length (p_blocks t)) xs Ts cs" by blast
    moreover have "stand (above ?k u) (blocks_of u) (length (p_blocks t)) (length (p_blocks u)) ys Ts' ds"
      using stand_mono(2) [OF above_moved [OF moved_refl le(1)] T(2)] by blast
    ultimately show "stand (above ?k u) (blocks_of u) ?b (length (p_blocks u)) (xs @ ys) (Ts @ Ts') (cs @ ds)"
      by (rule stand_append)
    show "room s + depths (Ts @ Ts') \<le> room u" using S(3) T(3) by (simp add: depths_append)
  qed
qed

lemma ahead_did: "ahead (us @ ts) s \<Longrightarrow> did c vs Ts (length us) s t \<Longrightarrow> ahead ts t"
  by (erule didE) (rule ahead_goes)


lemma ahead_put [simp]: "ahead ts (put_block c f s) \<longleftrightarrow> ahead ts s"
  by (simp add: ahead_def)

section \<open>Statements with parts\<close>

text \<open>
  In the midst of a statement with node \<open>n\<close> that has begun at \<open>s\<close>: its expressions \<open>Ts\<close> stand, its
  node is among the code \<open>xs\<close> or not yet, its blocks \<open>cs\<close> have been handed to the enclosing block \<open>c\<close>.
\<close>

definition inside :: "addr \<Rightarrow> addr list \<Rightarrow> addr list \<Rightarrow> nat \<Rightarrow> parser \<Rightarrow> pnode \<Rightarrow> addr list \<Rightarrow> expr list \<Rightarrow> parser \<Rightarrow> bool" where
  "inside c xs cs j s n ys Ts t \<longleftrightarrow> goes (length (p_nodes s)) (length (p_blocks s)) c [] xs cs j s t
     \<and> seen t (length (p_nodes s)) = Some (n, VALUE_UNKNOWN) \<and> list_all2 (holds (above (Suc (length (p_nodes s))) t)) ys Ts \<and> lively t
     \<and> c < length (p_blocks s) \<and> room s + Suc (depths Ts) \<le> room t"

lemma holds_all_mono: "list_all2 (holds M) ys Ts \<Longrightarrow> M \<subseteq>\<^sub>m M' \<Longrightarrow> list_all2 (holds M') ys Ts"
  by (erule list_all2_mono) (rule holds_mono)

lemma insideD:
  assumes "inside c xs cs j s n ys Ts t"
  shows "goes (length (p_nodes s)) (length (p_blocks s)) c [] xs cs j s t"
    "seen t (length (p_nodes s)) = Some (n, VALUE_UNKNOWN)" "list_all2 (holds (above (Suc (length (p_nodes s))) t)) ys Ts" "lively t"
    "c < length (p_blocks s)" "room s + Suc (depths Ts) \<le> room t" "length (p_nodes s) < length (p_nodes t)"
    "length (p_blocks s) \<le> length (p_blocks t)" "list_all2 (holds (above (length (p_nodes s)) t)) ys Ts"
    "above (length (p_nodes s)) t (length (p_nodes s)) = Some (n, VALUE_UNKNOWN)"
proof -
  show g: "goes (length (p_nodes s)) (length (p_blocks s)) c [] xs cs j s t"
    and n: "seen t (length (p_nodes s)) = Some (n, VALUE_UNKNOWN)" and h: "list_all2 (holds (above (Suc (length (p_nodes s))) t)) ys Ts"
    and "lively t" "c < length (p_blocks s)" "room s + Suc (depths Ts) \<le> room t"
    using assms by (auto simp: inside_def)
  show "length (p_nodes s) < length (p_nodes t)" using n by (simp add: seen_def split: if_splits)
  show "length (p_blocks s) \<le> length (p_blocks t)" by (rule goesD(8) [OF g])
  show "list_all2 (holds (above (length (p_nodes s)) t)) ys Ts" by (rule holds_all_mono [OF h above_moved [OF moved_refl]]) simp
  show "above (length (p_nodes s)) t (length (p_nodes s)) = Some (n, VALUE_UNKNOWN)" using n by (simp add: above_def)
qed

lemma inside_sets:
  assumes "inside c xs cs j s n ys Ts t" and "sets (length (p_nodes s)) (n', VALUE_UNKNOWN) t u"
  shows "inside c xs cs j s n' ys Ts u"
proof -
  note I = insideD [OF assms(1)] and S = setsD [OF assms(2)]
  have "room u = room t" using S(1,2) by (simp add: room_def)
  then show ?thesis
    using goes_trans [OF I(1) S(4)] I S by (simp add: inside_def)
qed

lemma inside_skip: "inside c xs cs j s n ys Ts t \<Longrightarrow> inside c xs cs (j + i) s n ys Ts (skip i t)"
  using goes_trans [OF _ goes_skip, of "length (p_nodes s)" "length (p_blocks s)" c "[]" xs cs j s t i]
  by (auto simp: inside_def room_def)

lemma inside_adopted:
  assumes "inside c xs cs j s n ys Ts t" and "length (p_blocks s) \<le> d" and "d < length (p_blocks t)"
  shows "inside c xs (cs @ [d]) j s n ys Ts (adopted c d t)"
proof -
  note I = insideD [OF assms(1)]
  have "c < length (p_blocks t)" "c < d" using I(5,8) assms(2) by simp_all
  from goes_trans [OF I(1) goes_adopted [OF this(1) assms(2) this(2)]] I show ?thesis
    by (simp add: inside_def above_def lively_def alive_def room_def)
qed

lemma inside_put:
  assumes "inside c [] cs j s n ys Ts t" shows "inside c xs cs j s n ys Ts (put_block c (extend [] xs []) t)"
proof -
  note I = insideD [OF assms]
  have "c < length (p_blocks t)" using I(5,8) by simp
  from goes_trans [OF I(1) goes_put [OF this, of _ _ "[]" xs "[]"]] I show ?thesis
    by (simp add: inside_def above_def room_def)
qed

text \<open>A block that is not the enclosing one is changed.\<close>

lemma inside_other:
  assumes "inside c xs cs j s n ys Ts t" and "length (p_blocks s) \<le> d" and "d < length (p_blocks t)"
  shows "inside c xs cs j s n ys Ts (put_block d f t)"
proof -
  note I = insideD [OF assms(1)]
  have "goes (length (p_nodes s)) (length (p_blocks s)) c [] [] [] 0 t (put_block d f t)"
    using I(5) assms(2,3) by (simp add: goes_def clean_def) (simp add: put_block_def)
  from goes_trans [OF I(1) this] I show ?thesis by (simp add: inside_def above_def room_def)
qed

lemma inside_did:
  assumes "inside c xs cs j s n ys Ts t"
    and "stands (above (length (p_nodes s)) t) (blocks_of t) (length (p_blocks s)) (length (p_blocks t)) (length (p_nodes s)) U cs"
    and "xs = [length (p_nodes s)]" and "room s + depth U \<le> room t"
  shows "did c [] [U] j s t"
  using insideD(1) [OF assms(1)] stand_one [OF assms(2)] assms(3,4) by (auto intro!: didI)

lemma ahead_inside: "ahead (us @ ts) s \<Longrightarrow> inside c xs cs (length us) s n ys Ts t \<Longrightarrow> ahead ts t"
  using ahead_goes insideD(1) by blast

lemma inside_start:
  assumes al: "lively s" and c: "c < length (p_blocks s)" and "\<not> is_dot n"
  shows "inside c [] [] j s n [] [] (alloc (fresh c n VALUE_UNKNOWN) (skip j s))"
proof -
  let ?a = "alloc (fresh c n VALUE_UNKNOWN) (skip j s)"
  have m: "moved j s ?a" using moved_trans [OF moved_skip moved_alloc [OF assms(3)]] by simp
  have "p_blocks ?a = p_blocks s" by simp
  then show ?thesis
    using moved_goes [OF m] seen_alloc [of "skip j s" c n VALUE_UNKNOWN] moved_lively [OF m al] al c lively_alive [OF al]
    by (simp add: inside_def room_def alive_def)
qed

lemma inside_parsed:
  assumes "inside c xs cs j s n ys Ts t" and p: "parsed i t y T u"
  shows "inside c xs cs (j + i) s n (ys @ [y]) (Ts @ [T]) u" and "p_blocks u = p_blocks t"
proof -
  let ?k = "length (p_nodes s)" and ?b = "length (p_blocks s)"
  note I = insideD [OF assms(1)]
  have m: "moved i t u" and h: "holds (above (length (p_nodes t)) u) y T" and d: "length (p_nodes t) + depth T \<le> length (p_nodes u)"
    using p by (simp_all add: parsed_def grew_def)
  show b: "p_blocks u = p_blocks t" by (rule movedD(3) [OF m])
  have "goes ?k ?b c [] [] [] i t u" by (rule goes_weaken [OF moved_goes [OF m, of ?b]]) (use I(7) in simp_all)
  with goes_trans [OF I(1)] have "goes ?k ?b c [] xs cs (j + i) s u" by fastforce
  moreover have "seen u ?k = Some (n, VALUE_UNKNOWN)" using seen_moved [OF m I(7)] I(2) by simp
  moreover have "list_all2 (holds (above (Suc ?k) u)) ys Ts" by (rule holds_all_mono [OF I(3) above_moved [OF m]]) simp
  moreover have "holds (above (Suc ?k) u) y T" by (rule holds_mono [OF h above_moved [OF moved_refl]]) (use I(7) in simp)
  moreover have "lively u" by (rule moved_lively [OF m I(4)])
  ultimately show "inside c xs cs (j + i) s n (ys @ [y]) (Ts @ [T]) u"
    using I(5-8) d b by (simp add: inside_def room_def depths_append list_all2_appendI)
qed

lemma inside_block:
  assumes "inside c xs cs j s n ys Ts t" and "blocked K i t u"
  shows "inside c xs cs (j + i) s n ys Ts u"
    and "block (above (Suc (length (p_nodes s))) u) (blocks_of u) (length (p_blocks t)) (length (p_blocks u)) K"
    and "room s + Suc (block_depth K) \<le> room u"
    and "block (above (Suc (length (p_nodes s))) t) (blocks_of t) l (length (p_blocks t)) A \<Longrightarrow> c < l \<Longrightarrow>
      block (above (Suc (length (p_nodes s))) u) (blocks_of u) l (length (p_blocks t)) A"
    and "room t \<le> room u"
proof -
  let ?k = "length (p_nodes s)"
  note I = insideD [OF assms(1)]
  have c: "c < length (p_blocks t)" using I(5,8) by simp
  then have g: "goes (length (p_nodes t)) (length (p_blocks t)) c [] [] [] i t u"
    and K: "block (above (length (p_nodes t)) u) (blocks_of u) (length (p_blocks t)) (length (p_blocks u)) K"
    and r: "room t + block_depth K \<le> room u"
    using assms(2) by (auto simp: blocked_def)
  have "goes ?k (length (p_blocks s)) c [] xs cs (j + i) s u"
    using goes_trans [OF I(1) goes_weaken [OF g]] I(7,8) by simp
  moreover have "seen u ?k = Some (n, VALUE_UNKNOWN)" using goes_seen [OF g I(7)] I(2,7) by simp
  moreover have "list_all2 (holds (above (Suc ?k) u)) ys Ts" by (rule holds_all_mono [OF I(3) goes_above [OF g order_refl]])
  moreover have "lively u" by (rule goesD(13) [OF g I(4)])
  ultimately show "inside c xs cs (j + i) s n ys Ts u" using I(5,6) r by (simp add: inside_def)
  show "block (above (Suc ?k) u) (blocks_of u) (length (p_blocks t)) (length (p_blocks u)) K"
    using stand_mono(3) [OF above_moved [OF moved_refl, of "Suc ?k" "length (p_nodes t)" u] K] I(7) by simp
  show "room s + Suc (block_depth K) \<le> room u" using r I(7,8) by (simp add: room_def)
  show "room t \<le> room u" using r by simp
  assume A: "block (above (Suc ?k) t) (blocks_of t) l (length (p_blocks t)) A" and l: "c < l"
  have "\<forall>i. l \<le> i \<and> i < length (p_blocks t) \<longrightarrow> blocks_of u i = blocks_of t i"
    using goes_blocks [OF g] l by auto
  then show "block (above (Suc ?k) u) (blocks_of u) l (length (p_blocks t)) A"
    using stand_mono(3) [OF goes_above [OF g order_refl] A] by blast
qed

lemma block_up: "block (above (Suc k) t) B l h K \<Longrightarrow> block (above k t) B l h K"
  using stand_mono(3) [OF above_moved [OF moved_refl, of k "Suc k" t], of B l h K B] by simp

lemma block_same:
  assumes "block (above (Suc k) s) (blocks_of s) l h K" and "c < l"
    and "above (Suc k) t = above (Suc k) s" and "\<And>i. i \<noteq> c \<Longrightarrow> blocks_of t i = blocks_of s i"
  shows "block (above (Suc k) t) (blocks_of t) l h K"
  using stand_mono(3) [OF map_le_refl assms(1), of "blocks_of t"] assms(2-4) by auto

text \<open>A block whose statements have been parsed.\<close>

lemma did_blocked:
  assumes "did (length (p_blocks s)) vs Ts j (with_block f s) u" and "lively s"
  shows "blocked (CodeBlock 0 0 vs Ts) j s u"
proof -
  let ?k = "length (p_nodes s)" and ?b = "length (p_blocks s)" and ?s = "with_block f s"
  from assms(1) obtain xs cs where g: "goes ?k (Suc ?b) ?b vs xs cs j ?s u"
    and st: "stand (above ?k u) (blocks_of u) (Suc ?b) (length (p_blocks u)) xs Ts cs"
    and r: "room ?s + depths Ts \<le> room u"
    by (elim didE) simp
  have "goes ?k ?b c [] [] [] j s u" if "c < ?b" for c
  proof -
    have "goes ?k ?b c [] [] [] 0 s ?s" by (rule goes_with) (use that in simp_all)
    moreover have "goes ?k ?b c [] [] [] j ?s u"
      using g goesD(11) [OF g, of c] that unfolding goes_def by simp
    ultimately show ?thesis using goes_trans by fastforce
  qed
  moreover have "goes ?k ?b ?b vs xs cs j ?s u" using g by (simp add: goes_def)
  moreover have "blocks_of u ?b = Some (0, 0, vs, xs, cs)"
    using goesD(8,12) [OF g] goes_freed [OF g] assms(2) by (simp add: blocks_of_def extend_def fresh_block_def lively_def)
  then have "block (above ?k u) (blocks_of u) ?b (length (p_blocks u)) (CodeBlock 0 0 vs Ts)"
    using st by (rule block_at)
  moreover have "room s + block_depth (CodeBlock 0 0 vs Ts) \<le> room u" using r by (simp add: room_def)
  ultimately show ?thesis unfolding blocked_def by blast
qed

end
