(* ===== verification/StatementFacts.thy ===== *)
theory StatementFacts
  imports Statements
begin

text \<open>
  What the statement parser builds: declarations, assignments, calls, \<open>return\<close>, \<open>throw\<close>, \<open>if\<close>, \<open>while\<close>,
  \<open>for\<close> and \<open>try\<close>, nested at will, are parsed into the trees they spell.
\<close>

section \<open>Expressions as statements\<close>

lemma set_desc_facts: "find_op TOK_ASSIGN = Some set_desc" "od_oper set_desc = OPR_SET" "two_sided OPR_SET set_desc"
  by code_simp+

lemma loop_assign:
  assumes tk: "gives_types tk" and "ahead (tk TOK_ASSIGN # ts) s"
  shows "expression_loop (Suc n) pe code TOK_ANY q [] br s =
    expression_loop n pe code TOK_ANY q [Some (length (p_nodes s))] br
      (alloc (fresh code (POper OPR_SET set_desc None None) VALUE_UNKNOWN) (skip (Suc 0) s))"
  using ahead_next [OF assms(2)] set_desc_facts
  by (subst expression_loop.simps(2)) (simp add: step_simps ends_expression_def new_alloc push_operator_def tk [unfolded gives_types_def])

lemma finish_top: "finish_expression code q [x] s = finish_expression code (x # q) [] s"
  by (simp add: finish_expression_def)

lemma parse_assign:
  assumes tk: "gives_types tk" and "well_spelt e"
    and ah: "ahead (spell_name tk x # tk TOK_ASSIGN # spell tk e @ t # ts) s" and "stop_token t"
    and n: "3 * length (spell tk e) + 8 \<le> n" and al: "alive s"
  shows "\<exists>y u. parseExpression n pe code TOK_ANY s = Ret y u \<and> parsed (Suc (Suc (length (spell tk e)))) s y (assign_tree x e) u"
proof -
  obtain m where m: "n = Suc (Suc (Suc (Suc m)))" "3 * length (spell tk e) + 4 \<le> m"
    using n by (cases n; cases "n - 1"; cases "n - 2"; cases "n - 3") auto
  let ?k = "length (p_nodes s)" and ?i = "length (spell tk e)"
  let ?v = "PVar 0 x" and ?o = "POper OPR_SET set_desc None None"
  let ?s1 = "alloc (fresh code ?v VALUE_UNKNOWN) (skip (Suc 0) s)"
  let ?s2 = "alloc (fresh code ?o VALUE_UNKNOWN) (skip (Suc 0) ?s1)"
  have ah0: "ahead ((tk TOK_IDENTIFIER)\<lparr>tok_string := x\<rparr> # tk TOK_ASSIGN # spell tk e @ t # ts) s"
    using ah by (simp add: spell_name_def)
  have m1: "moved (Suc 0) s ?s1" using moved_trans [OF moved_skip1 moved_alloc, of ?v s code VALUE_UNKNOWN] by simp
  have m2: "moved (Suc 0) ?s1 ?s2" using moved_trans [OF moved_skip1 moved_alloc, of ?o ?s1 code VALUE_UNKNOWN] by simp
  have ah1: "ahead (tk TOK_ASSIGN # spell tk e @ t # ts) ?s1" by (rule ahead_tl [OF ah0 m1])
  have ah2: "ahead (spell tk e @ t # ts) ?s2" by (rule ahead_tl [OF ah1 m2])
  have ms: "moved (Suc (Suc 0)) s ?s2" using moved_trans [OF m1 m2] by simp
  have al2: "alive (skip (Suc 0) s)" "alive (skip (Suc 0) ?s1)" "alive ?s2"
    using al moved_alive [OF m1 al] moved_alive [OF ms al] by (simp_all add: alive_def)
  have "plain_token (tk TOK_ASSIGN)" by (simp add: plain_token_def tk [unfolded gives_types_def])
  note v = value_name [OF tk ah0 this]
  have "expression_loop (Suc (Suc (Suc m))) pe code TOK_ANY [] [] 0 s
      = expression_loop (Suc (Suc m)) pe code TOK_ANY [Some ?k] [] 0 ?s1"
    by (rule loop_value [OF ah0 _ v]) (simp add: tk [unfolded gives_types_def])
  also have "\<dots> = expression_loop (Suc m) pe code TOK_ANY [Some ?k] [Some (Suc ?k)] 0 ?s2"
    using loop_assign [OF tk ah1] by simp
  finally have run: "parseExpression n pe code TOK_ANY s = expression_loop (Suc m) pe code TOK_ANY [Some ?k] [Some (Suc ?k)] 0 ?s2"
    using m(1) by (simp add: parseExpression.simps)
  have fuel: "3 * ?i + 2 \<le> Suc m" using m(2) by simp
  obtain n' Q M u where l: "expression_loop (Suc m) pe code TOK_ANY [Some ?k] [Some (Suc ?k)] 0 ?s2
      = expression_loop n' pe code TOK_ANY (rev (map Some Q) @ [Some ?k]) [Some (Suc ?k)] 0 u"
    "Suc m \<le> n' + ?i" "pend M Q (tree_of e)" "M \<subseteq>\<^sub>m seen u" "dom M \<subseteq> {length (p_nodes ?s2)..}" "grew ?i (depth (tree_of e)) ?s2 u"
    by (rule loopedE [OF spelt_looped [OF tk assms(2)] ah2 stop_plain [OF assms(4)] order_refl fuel al2(3)])
  have mu: "moved ?i ?s2 u" using l(6) by (simp add: grew_def)
  obtain j where j: "n' = Suc j" using l(2) m(2) by (cases n') auto
  have "ahead (t # ts) u" by (rule ahead_moved [OF ah2 mu])
  from loop_stop [OF this assms(4)] run l(1) j
  have fin: "parseExpression n pe code TOK_ANY s = finish_expression code (rev (map Some ([?k] @ Q @ [Suc ?k]))) [] u"
    by (simp add: finish_top)
  have sv: "moved (Suc (Suc ?i)) s u" using moved_trans [OF ms mu] by simp
  have seen2: "seen ?s2 ?k = Some (?v, VALUE_UNKNOWN)" "seen ?s2 (Suc ?k) = Some (?o, VALUE_UNKNOWN)"
    using seen_alloc [OF al2(1), of code ?v VALUE_UNKNOWN] seen_alloc [OF al2(2), of code ?o VALUE_UNKNOWN] by simp_all
  then have seenu: "seen u ?k = Some (?v, VALUE_UNKNOWN)" "seen u (Suc ?k) = Some (?o, VALUE_UNKNOWN)"
    using seen_moved [OF mu, of ?k] seen_moved [OF mu, of "Suc ?k"] by simp_all
  let ?L = "[?k \<mapsto> (?v, VALUE_UNKNOWN)]"
  have "pend (above ?k u) ([?k] @ Q @ [Suc ?k]) (fold_sum OPR_SET set_desc (VarExpression 0 x VALUE_UNKNOWN) (tree_of e))"
  proof (rule pend_oper [of ?L _ _ M])
    show "pend ?L [?k] (VarExpression 0 x VALUE_UNKNOWN)" by (auto intro!: pend_done holds_var)
    show "?L \<subseteq>\<^sub>m above ?k u" using seenu by (simp add: map_le_def above_def)
    show "M \<subseteq>\<^sub>m above ?k u" using l(4,5) by (intro le_above) (auto dest!: subsetD)
    show "dom ?L \<inter> dom M = {}" "Suc ?k \<notin> dom ?L \<union> dom M" using l(5) by (auto dest!: subsetD)
    show "above ?k u (Suc ?k) = Some (?o, VALUE_UNKNOWN)" using seenu by (simp add: above_def)
  qed (use l(3) set_desc_facts in simp_all)
  moreover have "fold_sum OPR_SET set_desc (VarExpression 0 x VALUE_UNKNOWN) (tree_of e) = assign_tree x e"
    by (simp add: assign_tree_def)
  moreover have "grew (Suc (Suc ?i)) (depth (assign_tree x e)) s u"
    using sv l(6) by (simp add: grew_def assign_tree_def max_def)
  moreover have "above ?k u \<subseteq>\<^sub>m seen u" "dom (above ?k u) \<subseteq> {?k..}" by (rule above_le)+
  ultimately show ?thesis unfolding fin using finish_pend [of _ _ _ u s] al by metis
qed


lemma parsed_did:
  assumes "parsed j s y T u" and "c < length (p_blocks s)"
  shows "did c [] [T] j s (put_block c (extend [] [y] []) u)"
proof (rule didI)
  let ?k = "length (p_nodes s)" and ?b = "length (p_blocks s)" and ?t = "put_block c (extend [] [y] []) u"
  have m: "moved j s u" and h: "holds (above ?k u) y T" and d: "?k + depth T \<le> length (p_nodes u)"
    using assms(1) by (auto simp: parsed_def grew_def)
  note p = movedD(3) [OF m]
  show "goes ?k ?b c [] [y] [] j s ?t"
    using goes_trans [OF moved_goes [OF m] goes_put, of c ?b "[]" "[y]" "[]"] assms(2) p by simp
  have "above ?k ?t = above ?k u" by (simp add: above_def)
  with h have "stand (above ?k ?t) (blocks_of ?t) ?b ?b [y] [T] []"
    by (intro stand_one stands_expr) simp
  then show "stand (above ?k ?t) (blocks_of ?t) ?b (length (p_blocks ?t)) [y] [T] []" using p by simp
  show "room s + depths [T] \<le> room ?t" using d p by (simp add: room_def)
qed

definition reads_stmt :: "(TokenType \<Rightarrow> Token) \<Rightarrow> penv \<Rightarrow> stmt \<Rightarrow> bool" where
  "reads_stmt tk pe st \<longleftrightarrow> (\<forall>c s t ts n. ahead (spell_stmt tk st @ t # ts) s \<longrightarrow> tok_type t \<noteq> TOK_ELSE
     \<longrightarrow> 3 * length (spell_stmt tk st) + 3 \<le> n \<longrightarrow> lively s \<longrightarrow> c < length (p_blocks s) \<longrightarrow>
     (\<exists>u. parseStatement n pe c s = Ret False u \<and> did c (vars_of [st]) (stmt_trees st) (length (spell_stmt tk st)) s u))"

definition reads_block :: "(TokenType \<Rightarrow> Token) \<Rightarrow> penv \<Rightarrow> stmt list \<Rightarrow> bool" where
  "reads_block tk pe ss \<longleftrightarrow> (\<forall>f s ts n. ahead (spell_stmts tk ss @ ts) s \<longrightarrow> 3 * length (spell_stmts tk ss) + 4 \<le> n \<longrightarrow> lively s \<longrightarrow>
     (\<exists>u. parseCodeBlock n pe f s = Ret (length (p_blocks s)) u \<and> blocked (block_of ss) (length (spell_stmts tk ss)) s u))"

declare parseStatement.simps [simp del] block_loop.simps [simp del] parseCodeBlock.simps [simp del] parseFunction.simps [simp del]

lemma expect_next: "ahead (t # ts) s \<Longrightarrow> expect ty s = (if tok_type t \<noteq> ty then Failed (skip (Suc 0) s) else Ret t (skip (Suc 0) s))"
  by (simp add: expect_def bind_step_def ahead_next failing_def ret_def)

lemmas lively_parsed = expression_parsed [OF _ _ _ _ _ lively_alive]
lemmas lively_assign = parse_assign [OF _ _ _ _ _ lively_alive]

lemma getBlock_ret: "c < length (p_blocks s) \<Longrightarrow> lively s \<Longrightarrow> getBlock c s = Ret (p_blocks s ! c) s"
  by (simp add: getBlock_def lively_def)

text \<open>A statement that is an expression.\<close>

lemma expression_stmt:
  assumes tk: "gives_types tk" and ah: "ahead ((t0 # us) @ tk TOK_SEMICOLON # ts) s" and "tok_type t0 = TOK_IDENTIFIER"
    and e: "parseExpression n pe c TOK_ANY s = Ret y u" "parsed (length (t0 # us)) s y T u" and c: "c < length (p_blocks s)"
    and al: "lively s"
  shows "\<exists>v. parseStatement (Suc n) pe c s = Ret False v \<and> did c [] [T] (length (t0 # us @ [tk TOK_SEMICOLON])) s v"
proof -
  let ?v = "put_block c (extend [] [y] []) (skip (Suc 0) u)"
  have m: "moved (length (t0 # us)) s u" using e(2) by (simp add: parsed_def grew_def)
  have "ahead (tk TOK_SEMICOLON # ts) u" by (rule ahead_moved [OF ah m])
  note semi = expect_next [OF this]
  have "ahead (t0 # us @ tk TOK_SEMICOLON # ts) s" using ah by simp
  note first = ahead_next [OF this]
  have "parseStatement (Suc n) pe c s = Ret False ?v"
    using c al moved_lively [OF m al] movedD(3) [OF m] assms(3)
    by (simp add: parseStatement.simps step_simps first getBlock_ret statement_expression_def Let_def rewind_back e(1) semi
        addStatement_put tk [unfolded gives_types_def])
  moreover have "did c [] [T] (length (t0 # us @ [tk TOK_SEMICOLON])) s ?v"
    using did_trans [OF parsed_did [OF e(2) c] did_skip c, of "Suc 0"] by simp
  ultimately show ?thesis by blast
qed

lemma assign_reads:
  assumes tk: "gives_types tk" and "well_spelt e"
  shows "reads_stmt tk pe (Assign x e)"
  unfolding reads_stmt_def
proof (intro allI impI)
  fix c s t ts n
  assume ah: "ahead (spell_stmt tk (Assign x e) @ t # ts) s" and n: "3 * length (spell_stmt tk (Assign x e)) + 3 \<le> n"
    and al: "lively s" and c: "c < length (p_blocks s)"
  obtain m where m: "n = Suc m" "3 * length (spell tk e) + 8 \<le> m" using n by (cases n) auto
  have ah': "ahead (spell_name tk x # tk TOK_ASSIGN # spell tk e @ tk TOK_SEMICOLON # t # ts) s" using ah by simp
  have "stop_token (tk TOK_SEMICOLON)" by (simp add: stop_token_def tk [unfolded gives_types_def])
  from lively_assign [OF tk assms(2) ah' this m(2) al] obtain y u where
    e: "parseExpression m pe c TOK_ANY s = Ret y u" "parsed (Suc (Suc (length (spell tk e)))) s y (assign_tree x e) u" by blast
  have "ahead ((spell_name tk x # tk TOK_ASSIGN # spell tk e) @ tk TOK_SEMICOLON # t # ts) s" using ah' by simp
  from expression_stmt [OF tk this _ e(1) _ c al, of "assign_tree x e"] e(2)
  show "\<exists>u. parseStatement n pe c s = Ret False u
      \<and> did c (vars_of [Assign x e]) (stmt_trees (Assign x e)) (length (spell_stmt tk (Assign x e))) s u"
    by (simp add: m(1) spell_name_def tk [unfolded gives_types_def])
qed

lemma invoke_reads:
  assumes tk: "gives_types tk" and "\<forall>e \<in> set es. well_spelt e"
  shows "reads_stmt tk pe (Invoke f es)"
  unfolding reads_stmt_def
proof (intro allI impI)
  fix c s t ts n
  let ?e = "Call f es"
  assume ah: "ahead (spell_stmt tk (Invoke f es) @ t # ts) s" and n: "3 * length (spell_stmt tk (Invoke f es)) + 3 \<le> n"
    and al: "lively s" and c: "c < length (p_blocks s)"
  obtain m where m: "n = Suc m" "3 * length (spell tk ?e) + 4 \<le> m" using n by (cases n) auto
  have ah': "ahead (spell tk ?e @ tk TOK_SEMICOLON # t # ts) s" using ah by simp
  have w: "well_spelt ?e" using assms(2) by simp
  have "stop_token (tk TOK_SEMICOLON)" by (simp add: stop_token_def tk [unfolded gives_types_def])
  from lively_parsed [OF tk w ah' this m(2) al] obtain y u where
    e: "parseExpression m pe c TOK_ANY s = Ret y u" "parsed (length (spell tk ?e)) s y (tree_of ?e) u" by blast
  from expression_stmt [OF tk ah' [unfolded spell.simps] _ e(1) _ c al, of "tree_of ?e"] e(2)
  show "\<exists>u. parseStatement n pe c s = Ret False u
      \<and> did c (vars_of [Invoke f es]) (stmt_trees (Invoke f es)) (length (spell_stmt tk (Invoke f es))) s u"
    by (simp add: m(1) tk [unfolded gives_types_def])
qed


section \<open>Declarations\<close>

lemma did_var: "c < length (p_blocks s) \<Longrightarrow> did c [x] [] 0 s (put_block c (extend [x] [] []) s)"
  by (rule didI [OF goes_put]) (simp_all add: stand_nil room_def)

lemma rewind_put: "rewind (Suc (Suc 0)) (put_block c f (skip (Suc (Suc (Suc 0))) s)) = Ret () (put_block c f (skip (Suc 0) s))"
  by (simp add: step_simps skip_def put_block_def)

lemma declare_reads:
  assumes tk: "gives_types tk" and e: "case e of None \<Rightarrow> True | Some f \<Rightarrow> well_spelt f"
  shows "reads_stmt tk pe (Declare x e)"
  unfolding reads_stmt_def
proof (intro allI impI)
  fix c s t ts n
  assume ah: "ahead (spell_stmt tk (Declare x e) @ t # ts) s" and n: "3 * length (spell_stmt tk (Declare x e)) + 3 \<le> n"
    and al: "lively s" and c: "c < length (p_blocks s)"
  note types = tk [unfolded gives_types_def]
  let ?init = "case e of None \<Rightarrow> [] | Some f \<Rightarrow> tk TOK_ASSIGN # spell tk f"
  let ?ts = "?init @ tk TOK_SEMICOLON # t # ts"
  have ah0: "ahead (tk TOK_VAR # spell_name tk x # ?ts) s" using ah by simp
  have ah1: "ahead (spell_name tk x # ?ts) (skip (Suc 0) s)" by (rule ahead_tl [OF ah0 moved_skip1])
  have ah2: "ahead ?ts (skip (Suc (Suc 0)) s)" using ahead_tl [OF ah1 moved_skip1] by simp
  note first = ahead_next [OF ah0] and second = expect_next [OF ah1]
  let ?put = "put_block c (extend [x] [] [])"
  have name: "tok_type (spell_name tk x) = TOK_IDENTIFIER" "tok_string (spell_name tk x) = x"
    by (simp_all add: spell_name_def types)
  obtain m where m: "n = Suc m" using n by (cases n) auto
  show "\<exists>u. parseStatement n pe c s = Ret False u
      \<and> did c (vars_of [Declare x e]) (stmt_trees (Declare x e)) (length (spell_stmt tk (Declare x e))) s u"
  proof (cases e)
    case None
    then have "ahead (tk TOK_SEMICOLON # t # ts) (?put (skip (Suc (Suc 0)) s))" using ah2 by simp
    note third = ahead_next [OF this]
    have "parseStatement n pe c s = Ret False (skip (Suc (Suc (Suc 0))) (?put s))"
      using c al by (simp add: m parseStatement.simps step_simps first getBlock_ret statement_var_def Let_def second third name
          addVar_put types)
    then show ?thesis using did_trans [OF did_var [OF c] did_skip c, of x "Suc (Suc (Suc 0))"] None by simp
  next
    case (Some f)
    then have ahf: "ahead (tk TOK_ASSIGN # spell tk f @ tk TOK_SEMICOLON # t # ts) (?put (skip (Suc (Suc 0)) s))"
      and ahx: "ahead (spell_name tk x # tk TOK_ASSIGN # spell tk f @ tk TOK_SEMICOLON # t # ts) (?put (skip (Suc 0) s))"
      using ah1 ah2 by simp_all
    note third = ahead_next [OF ahf]
    have fuel: "3 * length (spell tk f) + 8 \<le> m" using n Some m by simp
    have stop: "stop_token (tk TOK_SEMICOLON)" by (simp add: stop_token_def types)
    have wf: "well_spelt f" and alp: "lively (?put (skip (Suc 0) s))" using e Some al by simp_all
    obtain y u where p: "parseExpression m pe c TOK_ANY (?put (skip (Suc 0) s)) = Ret y u"
      "parsed (Suc (Suc (length (spell tk f)))) (?put (skip (Suc 0) s)) y (assign_tree x f) u"
      using lively_assign [OF tk wf ahx stop fuel] alp by blast
    have mu: "moved (Suc (Suc (length (spell tk f)))) (?put (skip (Suc 0) s)) u" using p(2) by (simp add: parsed_def grew_def)
    have cb: "c < length (p_blocks (skip (Suc 0) s))" "c < length (p_blocks (?put (skip (Suc 0) s)))" "c < length (p_blocks u)"
      using c movedD(3) [OF mu] by simp_all
    have "ahead ((spell_name tk x # tk TOK_ASSIGN # spell tk f) @ tk TOK_SEMICOLON # t # ts) (?put (skip (Suc 0) s))"
      using ahx by simp
    from ahead_moved [OF this, of u] mu have "ahead (tk TOK_SEMICOLON # t # ts) (put_block c (extend [] [y] []) u)" by simp
    note fourth = ahead_next [OF this]
    let ?v = "skip (Suc 0) (put_block c (extend [] [y] []) u)"
    have "parseStatement n pe c s = Ret False ?v"
      using c cb(3) al moved_lively [OF mu alp] by (simp add: m parseStatement.simps step_simps(1,2,3) first getBlock_ret statement_var_def Let_def second third name
          addVar_put types rewind_put p(1) addStatement_put fourth numeral_2_eq_2 split del: if_split)
    moreover note did_trans [OF did_skip did_trans [OF did_var [OF cb(1)]
          did_trans [OF parsed_did [OF p(2) cb(2)] did_skip [of _ "Suc 0"] cb(2)] cb(1)] c]
    ultimately show ?thesis using Some by auto
  qed
qed


section \<open>Statements with one expression\<close>

lemma put_nothing [simp]: "put_block c (extend [] [] []) s = s"
  by (cases "c < length (p_blocks s)") (simp_all add: put_block_def)

lemma rewind_one: "rewind (Suc 0) (skip (Suc 0) s) = Ret () s"
  by (simp add: step_simps skip_def)

lemma attempt_ret: "m s = Ret x t \<Longrightarrow> attempt m s = Ret (Some x) t"
  by (simp add: attempt_def)

lemma ahead_inside1: "ahead (t0 # ts) s \<Longrightarrow> inside c xs cs (Suc 0) s n ys Ts t \<Longrightarrow> ahead ts t"
  using ahead_inside [of "[t0]" ts s] by simp

lemma return_reads:
  assumes tk: "gives_types tk" and w: "well_spelt e"
  shows "reads_stmt tk pe (Return e)"
  unfolding reads_stmt_def
proof (intro allI impI)
  fix c s t ts n
  assume ah: "ahead (spell_stmt tk (Return e) @ t # ts) s" and n: "3 * length (spell_stmt tk (Return e)) + 3 \<le> n"
    and al: "lively s" and c: "c < length (p_blocks s)"
  note types = tk [unfolded gives_types_def]
  obtain m where m: "n = Suc m" "3 * length (spell tk e) + 4 \<le> m" using n by (cases n) auto
  let ?k = "length (p_nodes s)"
  let ?a = "alloc (fresh c (PReturn None) VALUE_UNKNOWN) (skip (Suc 0) s)"
  let ?p = "put_block c (extend [] [?k] []) ?a"
  have ah0: "ahead (tk TOK_RETURN # spell tk e @ tk TOK_SEMICOLON # t # ts) s" using ah by simp
  note first = ahead_next [OF ah0]
  have "\<not> is_dot (PReturn None)" by simp
  note P = inside_put [OF inside_start [OF al c this, of "Suc 0"], of "[?k]"]
  have ahp: "ahead (spell tk e @ tk TOK_SEMICOLON # t # ts) ?p"
    by (rule ahead_inside1 [OF ah0 P])
  obtain t0 us where t0: "spell tk e = t0 # us" "spelt_start t0" using spell_start [OF tk] by blast
  have "ahead (t0 # us @ tk TOK_SEMICOLON # t # ts) ?p" using ahp t0(1) by simp
  note second = ahead_next [OF this]
  have start: "tok_type t0 \<noteq> TOK_SEMICOLON" using t0(2) by (auto simp: spelt_start_def)
  have "stop_token (tk TOK_SEMICOLON)" by (simp add: stop_token_def types)
  from lively_parsed [OF tk w ahp this m(2) insideD(4) [OF P]] obtain y u where
    e: "parseExpression m pe c TOK_ANY ?p = Ret y u" "parsed (length (spell tk e)) ?p y (tree_of e) u" by blast
  note I = inside_parsed [OF P e(2), simplified append_Nil]
  obtain v where v: "set_node ?k (PReturn (Some y)) u = Ret () v" "sets ?k (PReturn (Some y), VALUE_UNKNOWN) u v"
    using set_node_sets [OF insideD(2) [OF I(1)], of "PReturn (Some y)"] by auto
  note J = inside_sets [OF I(1) v(2)]
  have "ahead ((tk TOK_RETURN # spell tk e) @ tk TOK_SEMICOLON # t # ts) s" using ah by simp
  from ahead_inside [OF this] J have "ahead (tk TOK_SEMICOLON # t # ts) v" by simp
  note third = expect_next [OF this]
  let ?w = "skip (Suc 0) v"
  have "parseStatement n pe c s = Ret False ?w"
    using c al start by (simp add: m(1) parseStatement.simps step_simps(1,2,3) first getBlock_ret statement_return_def Let_def new_alloc
        addStatement_put second attempt_ret [of "parseExpression m pe c TOK_ANY", OF e(1)] v(1) third types rewind_one del: put_block_sel(7))
  moreover note K = inside_skip [OF J, of "Suc 0"]
  have "length (p_blocks ?w) = length (p_blocks s)" using setsD(1) [OF v(2)] I(2) by simp
  with insideD(9,10) [OF K] have "stands (above ?k ?w) (blocks_of ?w) (length (p_blocks s)) (length (p_blocks ?w)) ?k
      (ReturnExpression (Some (tree_of e))) []"
    by (auto intro!: stands_return)
  from inside_did [OF K this] insideD(6) [OF K] have "did c [] [ReturnExpression (Some (tree_of e))] (length (spell_stmt tk (Return e))) s ?w"
    by simp
  ultimately show "\<exists>u. parseStatement n pe c s = Ret False u
      \<and> did c (vars_of [Return e]) (stmt_trees (Return e)) (length (spell_stmt tk (Return e))) s u" by auto
qed

text \<open>The node of a \<open>throw\<close> is not listed until its expression has been parsed.\<close>

definition unlisted :: "pexpr \<Rightarrow> parser \<Rightarrow> parser" where
  "unlisted e s = s\<lparr>p_nodes := p_nodes s @ [e]\<rparr>"

lemma newExpr_unlisted: "newExpr code n ty s = Ret (length (p_nodes s)) (unlisted (fresh code n ty) s)"
  by (simp add: newExpr_def unlisted_def fresh_def)

lemma seen_listed [simp]: "seen (t\<lparr>m_expressions := es\<rparr>) = seen t"
  by (simp add: seen_def fun_eq_iff)

lemma goes_listed: "goes k b c vs xs cs j s t \<Longrightarrow> goes k b c vs xs cs j s (t\<lparr>m_expressions := es\<rparr>)"
proof -
  let ?u = "t\<lparr>m_expressions := es\<rparr>"
  have "?u\<lparr>m_pos := m_pos s, p_nodes := p_nodes s, m_expressions := m_expressions s, p_blocks := p_blocks s\<rparr>
      = t\<lparr>m_pos := m_pos s, p_nodes := p_nodes s, m_expressions := m_expressions s, p_blocks := p_blocks s\<rparr>"
    "p_nodes ?u = p_nodes t" "p_blocks ?u = p_blocks t" "m_pos ?u = m_pos t" "clean k ?u = clean k t"
    by (simp_all add: clean_def)
  note same = this
  assume "goes k b c vs xs cs j s t"
  then show ?thesis unfolding goes_def same .
qed

lemma inside_listed: "inside c xs cs j s n ys Ts t \<Longrightarrow> inside c xs cs j s n ys Ts (t\<lparr>m_expressions := es\<rparr>)"
  unfolding inside_def room_def above_def lively_def alive_def using goes_listed by simp

lemma unlisted_alloc: "unlisted e s = (alloc e s)\<lparr>m_expressions := m_expressions s\<rparr>"
  by (simp add: unlisted_def alloc_def)

lemma throw_reads:
  assumes tk: "gives_types tk" and w: "well_spelt e"
  shows "reads_stmt tk pe (Throw e)"
  unfolding reads_stmt_def
proof (intro allI impI)
  fix c s t ts n
  assume ah: "ahead (spell_stmt tk (Throw e) @ t # ts) s" and n: "3 * length (spell_stmt tk (Throw e)) + 3 \<le> n"
    and al: "lively s" and c: "c < length (p_blocks s)"
  note types = tk [unfolded gives_types_def]
  obtain m where m: "n = Suc m" "3 * length (spell tk e) + 4 \<le> m" using n by (cases n) auto
  let ?k = "length (p_nodes s)"
  let ?p = "unlisted (fresh c (PThrow None) VALUE_UNKNOWN) (skip (Suc 0) s)"
  have ah0: "ahead (tk TOK_THROW # spell tk e @ tk TOK_SEMICOLON # t # ts) s" using ah by simp
  have "\<not> is_dot (PThrow None)" by simp
  from inside_start [OF al c this, of "Suc 0"] have P: "inside c [] [] (Suc 0) s (PThrow None) [] [] ?p"
    unfolding unlisted_alloc by (rule inside_listed)
  have ahp: "ahead (spell tk e @ tk TOK_SEMICOLON # t # ts) ?p" by (rule ahead_inside1 [OF ah0 P])
  have "stop_token (tk TOK_SEMICOLON)" by (simp add: stop_token_def types)
  from lively_parsed [OF tk w ahp this m(2) insideD(4) [OF P]] obtain y u where
    e: "parseExpression m pe c TOK_ANY ?p = Ret y u" "parsed (length (spell tk e)) ?p y (tree_of e) u" by blast
  note I = inside_parsed [OF P e(2), simplified append_Nil]
  have b: "length (p_blocks u) = length (p_blocks s)" using I(2) by (simp add: unlisted_def)
  obtain v where v: "set_node ?k (PThrow (Some y)) u = Ret () v" "sets ?k (PThrow (Some y), VALUE_UNKNOWN) u v"
    using set_node_sets [OF insideD(2) [OF I(1)], of "PThrow (Some y)"] by auto
  let ?v = "v\<lparr>m_expressions := m_expressions v @ [?k]\<rparr>"
  let ?w = "put_block c (extend [] [?k] []) ?v"
  have L: "inside c [] [] (Suc 0 + length (spell tk e)) s (PThrow (Some y)) [y] [tree_of e] ?v"
    by (rule inside_listed [OF inside_sets [OF I(1) v(2)]])
  note J = inside_put [OF L, of "[?k]"]
  have "ahead ((tk TOK_THROW # spell tk e) @ tk TOK_SEMICOLON # t # ts) s" using ah by simp
  from ahead_inside [OF this, of c "[?k]" "[]" "PThrow (Some y)" "[y]" "[tree_of e]" ?w] J
  have "ahead (tk TOK_SEMICOLON # t # ts) ?w" by simp
  note last = expect_next [OF this]
  have "c < length (p_blocks ?v)" using setsD(1) [OF v(2)] b c by simp
  then have "steps [set_node ?k (PThrow (Some y)), listExpr ?k, addStatement c ?k] u = Ret () ?w"
    using insideD(4) [OF L] by (simp add: step_simps v(1) listExpr_def modify_def addStatement_put)
  then have "parseStatement n pe c s = Ret False (skip (Suc 0) ?w)"
    using c al last by (simp add: m(1) parseStatement.simps step_simps(1,2,3) ahead_next [OF ah0] getBlock_ret statement_throw_def Let_def
        newExpr_unlisted e(1) types del: steps.simps put_block_sel(7))
  moreover note K = inside_skip [OF J, of "Suc 0"]
  have "length (p_blocks (skip (Suc 0) ?w)) = length (p_blocks s)" using setsD(1) [OF v(2)] b by simp
  with insideD(9,10) [OF K] have "stands (above ?k (skip (Suc 0) ?w)) (blocks_of (skip (Suc 0) ?w)) (length (p_blocks s))
      (length (p_blocks (skip (Suc 0) ?w))) ?k (ThrowExpression (tree_of e)) []"
    by (auto intro!: stands_throw)
  from inside_did [OF K this] insideD(6) [OF K] have "did c [] [ThrowExpression (tree_of e)] (length (spell_stmt tk (Throw e))) s (skip (Suc 0) ?w)"
    by simp
  ultimately show "\<exists>u. parseStatement n pe c s = Ret False u
      \<and> did c (vars_of [Throw e]) (stmt_trees (Throw e)) (length (spell_stmt tk (Throw e))) s u" by auto
qed

section \<open>Loops\<close>

text \<open>An expression is linked to the statement.\<close>

lemma link_expression:
  assumes "inside c xs cs j s n ys Ts u" and "holds (above (Suc (length (p_nodes s))) u) y T" and "\<not> is_dot (f n)"
  shows "\<exists>v. steps [set_for (length (p_nodes s)) f, setParent y (length (p_nodes s))] u = Ret () v
    \<and> sets (length (p_nodes s)) (f n, VALUE_UNKNOWN) u v"
proof -
  let ?k = "length (p_nodes s)"
  note I = insideD [OF assms(1)]
  obtain u1 where u1: "set_for ?k f u = Ret () u1" "sets ?k (f n, VALUE_UNKNOWN) u u1"
    using set_for_sets [OF I(2), of f] assms(3) by blast
  have h: "holds (above (Suc ?k) u1) y T" using assms(2) setsD(6) [OF u1(2)] by simp
  obtain z where z: "seen u1 y = Some z" "\<not> is_dot (fst z)" by (rule seen_holds [OF h above_le(1)])
  have "?k \<le> y" using holds_dom [OF h] above_le(2) by fastforce
  from setParent_sets [OF z this insideD(2) [OF inside_sets [OF assms(1) u1(2)]]]
  obtain v where "setParent y ?k u1 = Ret () v" "sets ?k (f n, VALUE_UNKNOWN) u1 v" by blast
  with u1 sets_trans show ?thesis unfolding steps_bind by fastforce
qed

lemma linked:
  assumes I: "inside c xs cs j s n ys Ts t" and p: "parsed i t y T u" and d: "\<not> is_dot (f n)"
  obtains v where "steps [set_for (length (p_nodes s)) f, setParent y (length (p_nodes s))] u = Ret () v"
    "inside c xs cs (j + i) s (f n) (ys @ [y]) (Ts @ [T]) v" "p_blocks v = p_blocks t"
proof -
  note J = inside_parsed [OF I p]
  have "holds (above (Suc (length (p_nodes s))) u) y T" 
    using insideD(3) [OF J(1)] list_all2_lengthD [OF insideD(3) [OF I]] by (simp add: list_all2_append)
  from link_expression [of c xs cs "j + i" s n "ys @ [y]" "Ts @ [T]" u y T f, OF J(1) this d] obtain v where
    v: "steps [set_for (length (p_nodes s)) f, setParent y (length (p_nodes s))] u = Ret () v"
    "sets (length (p_nodes s)) (f n, VALUE_UNKNOWN) u v" by blast
  show thesis by (rule that [OF v(1) inside_sets [OF J(1) v(2)]]) (use setsD(1) [OF v(2)] J(2) in simp)
qed

text \<open>A block in braces.\<close>

lemma braced:
  assumes block: "reads_block tk pe ss" and I: "inside c xs cs j s n ys Ts t" and ah: "ahead (spell_stmts tk ss @ ts) t"
    and fuel: "3 * length (spell_stmts tk ss) + 4 \<le> m"
  obtains w where "parseCodeBlock m pe f t = Ret (length (p_blocks t)) w" "blocked (block_of ss) (length (spell_stmts tk ss)) t w"
    "inside c xs cs (j + length (spell_stmts tk ss)) s n ys Ts w" "ahead ts w" "length (p_blocks t) < length (p_blocks w)"
proof -
  from block [unfolded reads_block_def, rule_format, OF ah fuel insideD(4) [OF I], of f] obtain w where
    w: "parseCodeBlock m pe f t = Ret (length (p_blocks t)) w" "blocked (block_of ss) (length (spell_stmts tk ss)) t w" by auto
  note B = inside_block [OF I w(2)]
  have "length (p_blocks t) < length (p_blocks w)" using stand_mono(3) [OF map_le_refl B(2)] by blast
  moreover have "goes (length (p_nodes t)) (length (p_blocks t)) c [] [] [] (length (spell_stmts tk ss)) t w"
    using w(2) insideD(5,8) [OF I] by (simp add: blocked_def)
  then have "ahead ts w" by (rule ahead_goes [OF ah])
  ultimately show thesis using that w B(1) by blast
qed

text \<open>The end of a loop: its block is linked, handed to the enclosing block, and the loop is added to the code.\<close>

lemma loop_closed:
  assumes I: "inside c [] [] j s (PFor i t k None) ys Ts w" and b: "length (p_blocks s) < length (p_blocks w)"
    and B: "block (above (Suc (length (p_nodes s))) w) (blocks_of w) (length (p_blocks s)) (length (p_blocks w)) K"
  obtains v where "steps [set_for (length (p_nodes s)) (for_body (length (p_blocks s))), adopt c (length (p_blocks s)),
      addStatement c (length (p_nodes s))] w = Ret () v"
    "inside c [length (p_nodes s)] [length (p_blocks s)] j s (PFor i t k (Some (length (p_blocks s)))) ys Ts v"
    "block (above (length (p_nodes s)) v) (blocks_of v) (length (p_blocks s)) (length (p_blocks v)) K" "room v = room w"
proof -
  let ?k = "length (p_nodes s)" and ?b = "length (p_blocks s)"
  obtain w1 where w1: "set_for ?k (for_body ?b) w = Ret () w1" "sets ?k (PFor i t k (Some ?b), VALUE_UNKNOWN) w w1"
    using set_for_sets [OF insideD(2) [OF I], of "for_body ?b"] by auto
  note S = setsD [OF w1(2)] and c = insideD(5) [OF I]
  have bw: "?b < length (p_blocks w1)" "c < length (p_blocks w1)" using S(1) b c by simp_all
  let ?v = "put_block c (extend [] [?k] []) (adopted c ?b w1)"
  have run: "steps [set_for ?k (for_body ?b), adopt c ?b, addStatement c ?k] w = Ret () ?v"
    using c bw S(5) [OF insideD(4) [OF I]] by (simp add: step_simps w1(1) adopt_adopted addStatement_put)
  have J: "inside c [?k] [?b] j s (PFor i t k (Some ?b)) ys Ts ?v"
    using inside_put [OF inside_adopted [OF inside_sets [OF I w1(2)] order_refl bw(1)], of "[?k]"] by simp
  have "block (above (Suc ?k) ?v) (blocks_of ?v) ?b (length (p_blocks ?v)) K"
    using block_same [OF B c, of ?v] S by (simp add: blocks_put blocks_adopted above_def)
  from block_up [OF this] show thesis by (rule that [OF run J]) (use S in \<open>simp add: room_def\<close>)
qed

text \<open>The common part of \<open>if\<close> and \<open>while\<close>: an expression in brackets and a block. \<open>g\<close> sets the expression.\<close>

lemma guarded:
  assumes tk: "gives_types tk" and w: "well_spelt e" and block: "reads_block tk pe ss"
    and ah: "ahead (t0 # tk TOK_BRACKET_LEFT # spell tk e @ tk TOK_BRACKET_RIGHT # tk TOK_BRACE_LEFT # spell_stmts tk ss @ ts) s"
    and fuel: "3 * length (spell tk e) + 4 \<le> m" "3 * length (spell_stmts tk ss) + 4 \<le> m"
    and al: "lively s" and c: "c < length (p_blocks s)" and n: "\<not> is_dot n"
    and g: "\<And>y u. inside c [] [] (Suc (Suc (length (spell tk e)))) s n [y] [tree_of e] u \<Longrightarrow>
      \<exists>v. g y u = Ret () v \<and> sets (length (p_nodes s)) (n' y, VALUE_UNKNOWN) u v"
  obtains y u v w where "nextToken s = Ret t0 (skip (Suc 0) s)"
    "expect TOK_BRACKET_LEFT (skip (Suc 0) s) = Ret (tk TOK_BRACKET_LEFT) (skip (Suc (Suc 0)) s)"
    "parseExpression m pe c TOK_ANY (alloc (fresh c n VALUE_UNKNOWN) (skip (Suc (Suc 0)) s)) = Ret y u" "g y u = Ret () v"
    "expect TOK_BRACKET_RIGHT v = Ret (tk TOK_BRACKET_RIGHT) (skip (Suc 0) v)"
    "expect TOK_BRACE_LEFT (skip (Suc 0) v) = Ret (tk TOK_BRACE_LEFT) (skip (Suc (Suc 0)) v)"
    "parseCodeBlock m pe f (skip (Suc (Suc 0)) v) = Ret (length (p_blocks s)) w"
    "inside c [] [] (Suc (Suc (Suc (Suc (length (spell tk e) + length (spell_stmts tk ss)))))) s (n' y) [y] [tree_of e] w"
    "block (above (Suc (length (p_nodes s))) w) (blocks_of w) (length (p_blocks s)) (length (p_blocks w)) (block_of ss)"
    "room s + Suc (block_depth (block_of ss)) \<le> room w" "ahead ts w" "length (p_blocks s) < length (p_blocks w)"
proof -
  note types = tk [unfolded gives_types_def]
  let ?k = "length (p_nodes s)" and ?i = "length (spell tk e)" and ?j = "length (spell_stmts tk ss)"
  let ?a = "alloc (fresh c n VALUE_UNKNOWN) (skip (Suc (Suc 0)) s)"
  let ?block = "tk TOK_BRACE_LEFT # spell_stmts tk ss @ ts"
  have ah1: "ahead (tk TOK_BRACKET_LEFT # spell tk e @ tk TOK_BRACKET_RIGHT # ?block) (skip (Suc 0) s)"
    by (rule ahead_tl [OF ah moved_skip1])
  note A = inside_start [OF al c n, of "Suc (Suc 0)"]
  have "ahead ([t0, tk TOK_BRACKET_LEFT] @ spell tk e @ tk TOK_BRACKET_RIGHT # ?block) s" using ah by simp
  from ahead_inside [OF this, of c "[]" "[]" n "[]" "[]" ?a] A
  have aha: "ahead (spell tk e @ tk TOK_BRACKET_RIGHT # ?block) ?a" by simp
  have "stop_token (tk TOK_BRACKET_RIGHT)" by (simp add: stop_token_def types)
  from lively_parsed [OF tk w aha this fuel(1) insideD(4) [OF A]] obtain y u where
    e: "parseExpression m pe c TOK_ANY ?a = Ret y u" "parsed ?i ?a y (tree_of e) u" by blast
  from inside_parsed [OF A e(2)]
  have I: "inside c [] [] (Suc (Suc ?i)) s n [y] [tree_of e] u" and len: "p_blocks u = p_blocks s" by simp_all
  from g [OF I] obtain v where v: "g y u = Ret () v" "sets ?k (n' y, VALUE_UNKNOWN) u v" by blast
  note J = inside_sets [OF I v(2)]
  have "ahead ((t0 # tk TOK_BRACKET_LEFT # spell tk e) @ tk TOK_BRACKET_RIGHT # ?block) s" using ah by simp
  from ahead_inside [OF this, of c "[]" "[]" "n' y" "[y]" "[tree_of e]" v] J
  have ahv: "ahead (tk TOK_BRACKET_RIGHT # ?block) v" by simp
  from ahead_tl [OF ahv moved_skip1] have ahv1: "ahead ?block (skip (Suc 0) v)" .
  from ahead_tl [OF ahv1 moved_skip1] have ahv2: "ahead (spell_stmts tk ss @ ts) (skip (Suc (Suc 0)) v)" by simp
  have lv: "length (p_blocks v) = length (p_blocks s)" using setsD(1) [OF v(2)] len by simp
  note P = inside_skip [OF J, of "Suc (Suc 0)"]
  obtain w where w: "parseCodeBlock m pe f (skip (Suc (Suc 0)) v) = Ret (length (p_blocks (skip (Suc (Suc 0)) v))) w"
    "blocked (block_of ss) ?j (skip (Suc (Suc 0)) v) w"
    "inside c [] [] (Suc (Suc ?i) + Suc (Suc 0) + ?j) s (n' y) [y] [tree_of e] w" "ahead ts w"
    "length (p_blocks (skip (Suc (Suc 0)) v)) < length (p_blocks w)"
    by (rule braced [OF block P ahv2 fuel(2), of f])
  note B = inside_block [OF P w(2)]
  have sum: "Suc (Suc ?i) + Suc (Suc 0) + ?j = Suc (Suc (Suc (Suc (?i + ?j))))" by simp
  show thesis
    using that [of y u v w] e(1) v(1) w [unfolded sum] B(2,3) lv expect_next [OF ahv] expect_next [OF ahv1] expect_next [OF ah1] ahead_next [OF ah]
    by (simp add: types)
qed

lemma while_reads:
  assumes tk: "gives_types tk" and w: "well_spelt e" and block: "reads_block tk pe ss"
  shows "reads_stmt tk pe (While e ss)"
  unfolding reads_stmt_def
proof (intro allI impI)
  fix c s t ts n
  assume ah: "ahead (spell_stmt tk (While e ss) @ t # ts) s" and n: "3 * length (spell_stmt tk (While e ss)) + 3 \<le> n"
    and al: "lively s" and c: "c < length (p_blocks s)"
  note types = tk [unfolded gives_types_def]
  let ?k = "length (p_nodes s)" and ?b = "length (p_blocks s)" and ?n = "PFor None None None None"
  obtain m where m: "n = Suc m" "3 * length (spell tk e) + 4 \<le> m" "3 * length (spell_stmts tk ss) + 4 \<le> m" using n by (cases n) auto
  have ah0: "ahead (tk TOK_WHILE # tk TOK_BRACKET_LEFT # spell tk e @ tk TOK_BRACKET_RIGHT # tk TOK_BRACE_LEFT
      # spell_stmts tk ss @ t # ts) s" using ah by simp
  have nd: "\<not> is_dot ?n" by simp
  have g: "\<exists>v. steps [set_for ?k (for_test y), setParent y ?k] u = Ret () v \<and> sets ?k (PFor None (Some y) None None, VALUE_UNKNOWN) u v"
    if "inside c [] [] (Suc (Suc (length (spell tk e)))) s ?n [y] [tree_of e] u" for y u
    using link_expression [OF that, of y "tree_of e" "for_test y"] insideD(3) [OF that] by simp
  obtain y u v w where G: "nextToken s = Ret (tk TOK_WHILE) (skip (Suc 0) s)"
    "expect TOK_BRACKET_LEFT (skip (Suc 0) s) = Ret (tk TOK_BRACKET_LEFT) (skip (Suc (Suc 0)) s)"
    "parseExpression m pe c TOK_ANY (alloc (fresh c ?n VALUE_UNKNOWN) (skip (Suc (Suc 0)) s)) = Ret y u"
    "steps [set_for ?k (for_test y), setParent y ?k] u = Ret () v"
    "expect TOK_BRACKET_RIGHT v = Ret (tk TOK_BRACKET_RIGHT) (skip (Suc 0) v)"
    "expect TOK_BRACE_LEFT (skip (Suc 0) v) = Ret (tk TOK_BRACE_LEFT) (skip (Suc (Suc 0)) v)"
    "parseCodeBlock m pe (b_function (p_blocks s ! c)) (skip (Suc (Suc 0)) v) = Ret ?b w"
    and I: "inside c [] [] (Suc (Suc (Suc (Suc (length (spell tk e) + length (spell_stmts tk ss)))))) s (PFor None (Some y) None None) [y] [tree_of e] w"
    and B: "block (above (Suc ?k) w) (blocks_of w) ?b (length (p_blocks w)) (block_of ss)" "room s + Suc (block_depth (block_of ss)) \<le> room w"
    "ahead (t # ts) w" "?b < length (p_blocks w)"
    by (rule guarded [where f = "b_function (p_blocks s ! c)", OF tk w block ah0 m(2,3) al c nd g])
  obtain z where z: "steps [set_for ?k (for_body ?b), adopt c ?b, addStatement c ?k] w = Ret () z"
    "inside c [?k] [?b] (Suc (Suc (Suc (Suc (length (spell tk e) + length (spell_stmts tk ss)))))) s (PFor None (Some y) None (Some ?b)) [y] [tree_of e] z"
    "block (above ?k z) (blocks_of z) ?b (length (p_blocks z)) (block_of ss)" "room z = room w"
    by (rule loop_closed [OF I B(4,1)])
  have run: "parseStatement n pe c s = Ret False z"
    using c al z(1) by (simp add: m(1) parseStatement.simps step_simps(1,2,3) G getBlock_ret statement_while_def Let_def new_alloc types
        del: steps.simps)
  note Z = insideD [OF z(2)]
  have "stands (above ?k z) (blocks_of z) ?b (length (p_blocks z)) ?k (ForExpression None (tree_of e) None (block_of ss)) [?b]"
    using Z(9) by (intro stands_while [OF Z(10) _ z(3)]) simp
  moreover have "room s + depth (ForExpression None (tree_of e) None (block_of ss)) \<le> room z"
    using Z(6) B(2) z(4) by simp
  moreover have "inside c [?k] [?b] (length (spell_stmt tk (While e ss))) s (PFor None (Some y) None (Some ?b)) [y] [tree_of e] z"
    using z(2) by simp
  ultimately have "did c [] [ForExpression None (tree_of e) None (block_of ss)] (length (spell_stmt tk (While e ss))) s z"
    using inside_did by blast
  with run show "\<exists>u. parseStatement n pe c s = Ret False u
      \<and> did c (vars_of [While e ss]) (stmt_trees (While e ss)) (length (spell_stmt tk (While e ss))) s u"
    by (simp add: block_of_def)
qed

lemma for_reads:
  assumes tk: "gives_types tk" and w: "well_spelt e" "well_spelt t" "well_spelt f" and block: "reads_block tk pe ss"
  shows "reads_stmt tk pe (For x e t y f ss)"
  unfolding reads_stmt_def
proof (intro allI impI)
  let ?st = "For x e t y f ss"
  fix c s t' ts n
  assume ah: "ahead (spell_stmt tk ?st @ t' # ts) s" and n: "3 * length (spell_stmt tk ?st) + 3 \<le> n"
    and al: "lively s" and c: "c < length (p_blocks s)"
  note types = tk [unfolded gives_types_def]
  let ?k = "length (p_nodes s)" and ?b = "length (p_blocks s)" and ?n = "PFor None None None None"
  let ?i1 = "Suc (Suc (length (spell tk e)))" and ?i2 = "length (spell tk t)" and ?i3 = "Suc (Suc (length (spell tk f)))"
    and ?i4 = "length (spell_stmts tk ss)"
  obtain m where m: "n = Suc m" "3 * length (spell tk e) + 8 \<le> m" "3 * ?i2 + 4 \<le> m" "3 * length (spell tk f) + 8 \<le> m" "3 * ?i4 + 4 \<le> m"
    using n by (cases n) (auto simp: spell_assign_def)
  let ?t4 = "spell_stmts tk ss @ t' # ts"
  let ?t3 = "spell_name tk y # tk TOK_ASSIGN # spell tk f @ tk TOK_BRACKET_RIGHT # tk TOK_BRACE_LEFT # ?t4"
  let ?t2 = "spell tk t @ tk TOK_SEMICOLON # ?t3"
  let ?t1 = "spell_name tk x # tk TOK_ASSIGN # spell tk e @ tk TOK_SEMICOLON # ?t2"
  have ah0: "ahead (tk TOK_FOR # tk TOK_BRACKET_LEFT # ?t1) s" using ah by (simp add: spell_assign_def)
  have ah1: "ahead (tk TOK_BRACKET_LEFT # ?t1) (skip (Suc 0) s)" by (rule ahead_tl [OF ah0 moved_skip1])
  let ?a = "alloc (fresh c ?n VALUE_UNKNOWN) (skip (Suc (Suc 0)) s)"
  have nd: "\<not> is_dot ?n" by simp
  note A = inside_start [OF al c nd, of "Suc (Suc 0)"]
  have "ahead (?t1) ?a" using ahead_inside [of "[tk TOK_FOR, tk TOK_BRACKET_LEFT]" ?t1 s c "[]" "[]" ?n "[]" "[]" ?a] ah0 A by simp
  note aha = this
  have stops: "stop_token (tk TOK_SEMICOLON)" "stop_token (tk TOK_BRACKET_RIGHT)" by (simp_all add: stop_token_def types)
  obtain y1 u1 where p1: "parseExpression m pe c TOK_ANY ?a = Ret y1 u1" "parsed ?i1 ?a y1 (assign_tree x e) u1"
    using lively_assign [OF tk w(1) aha stops(1) m(2) insideD(4) [OF A]] by blast
  obtain v1 where v1: "steps [set_for ?k (for_init y1), setParent y1 ?k] u1 = Ret () v1"
    "inside c [] [] (Suc (Suc 0) + ?i1) s (for_init y1 ?n) ([] @ [y1]) ([] @ [assign_tree x e]) v1" "p_blocks v1 = p_blocks ?a"
    by (rule linked [OF A p1(2), of "for_init y1"]) simp_all
  have ahv1: "ahead (tk TOK_SEMICOLON # ?t2) v1"
    using ahead_inside [of "tk TOK_FOR # tk TOK_BRACKET_LEFT # spell_name tk x # tk TOK_ASSIGN # spell tk e" "tk TOK_SEMICOLON # ?t2" s c]
      ah0 v1(2) by simp
  note I2 = inside_skip [OF v1(2), of "Suc 0"]
  have ahs1: "ahead ?t2 (skip (Suc 0) v1)" by (rule ahead_tl [OF ahv1 moved_skip1])
  obtain y2 u2 where p2: "parseExpression m pe c TOK_ANY (skip (Suc 0) v1) = Ret y2 u2" "parsed ?i2 (skip (Suc 0) v1) y2 (tree_of t) u2"
    using lively_parsed [OF tk w(2) ahs1 stops(1) m(3) insideD(4) [OF I2]] by blast
  obtain v2 where v2: "steps [set_for ?k (for_test y2), setParent y2 ?k] u2 = Ret () v2"
    "inside c [] [] (Suc (Suc 0) + ?i1 + Suc 0 + ?i2) s (for_test y2 (for_init y1 ?n)) (([] @ [y1]) @ [y2]) (([] @ [assign_tree x e]) @ [tree_of t]) v2"
    "p_blocks v2 = p_blocks (skip (Suc 0) v1)"
    by (rule linked [OF I2 p2(2), of "for_test y2"]) simp_all
  have ahv2: "ahead (tk TOK_SEMICOLON # ?t3) v2"
    using ahead_inside [of "tk TOK_FOR # tk TOK_BRACKET_LEFT # spell_name tk x # tk TOK_ASSIGN # spell tk e @ tk TOK_SEMICOLON # spell tk t"
        "tk TOK_SEMICOLON # ?t3" s c] ah0 v2(2) by simp
  note I3 = inside_skip [OF v2(2), of "Suc 0"]
  have ahs2: "ahead ?t3 (skip (Suc 0) v2)" by (rule ahead_tl [OF ahv2 moved_skip1])
  obtain y3 u3 where p3: "parseExpression m pe c TOK_ANY (skip (Suc 0) v2) = Ret y3 u3" "parsed ?i3 (skip (Suc 0) v2) y3 (assign_tree y f) u3"
    using lively_assign [OF tk w(3) ahs2 stops(2) m(4) insideD(4) [OF I3]] by blast
  let ?n3 = "for_inc y3 (for_test y2 (for_init y1 ?n))" and ?ys = "((([] @ [y1]) @ [y2]) @ [y3])"
    and ?Ts = "((([] @ [assign_tree x e]) @ [tree_of t]) @ [assign_tree y f])"
  obtain v3 where v3: "steps [set_for ?k (for_inc y3), setParent y3 ?k] u3 = Ret () v3"
    "inside c [] [] (Suc (Suc 0) + ?i1 + Suc 0 + ?i2 + Suc 0 + ?i3) s ?n3 ?ys ?Ts v3" "p_blocks v3 = p_blocks (skip (Suc 0) v2)"
    by (rule linked [OF I3 p3(2), of "for_inc y3"]) simp_all
  have ahv3: "ahead (tk TOK_BRACKET_RIGHT # tk TOK_BRACE_LEFT # ?t4) v3"
    using ahead_inside [of "tk TOK_FOR # tk TOK_BRACKET_LEFT # spell_name tk x # tk TOK_ASSIGN # spell tk e @ tk TOK_SEMICOLON # spell tk t
        @ tk TOK_SEMICOLON # spell_name tk y # tk TOK_ASSIGN # spell tk f" "tk TOK_BRACKET_RIGHT # tk TOK_BRACE_LEFT # ?t4" s c] ah0 v3(2)
    by (simp add: add.assoc)
  have ahv4: "ahead (tk TOK_BRACE_LEFT # ?t4) (skip (Suc 0) v3)" by (rule ahead_tl [OF ahv3 moved_skip1])
  have ahv5: "ahead ?t4 (skip (Suc (Suc 0)) v3)" using ahead_tl [OF ahv4 moved_skip1] by simp
  note I4 = inside_skip [OF v3(2), of "Suc (Suc 0)"]
  have lv: "length (p_blocks v3) = ?b" using v1(3) v2(3) v3(3) by simp
  obtain z where z: "parseCodeBlock m pe (b_function (p_blocks s ! c)) (skip (Suc (Suc 0)) v3) = Ret (length (p_blocks (skip (Suc (Suc 0)) v3))) z"
    "blocked (block_of ss) ?i4 (skip (Suc (Suc 0)) v3) z"
    "inside c [] [] (Suc (Suc 0) + ?i1 + Suc 0 + ?i2 + Suc 0 + ?i3 + Suc (Suc 0) + ?i4) s ?n3 ?ys ?Ts z"
    "length (p_blocks (skip (Suc (Suc 0)) v3)) < length (p_blocks z)"
    by (rule braced [OF block I4 ahv5 m(5), of "b_function (p_blocks s ! c)"])
  note B = inside_block [OF I4 z(2)]
  have bz: "?b < length (p_blocks z)" "block (above (Suc ?k) z) (blocks_of z) ?b (length (p_blocks z)) (block_of ss)"
    using z(4) B(2) lv by simp_all
  have I5: "inside c [] [] (length (spell_stmt tk ?st)) s (PFor (Some y1) (Some y2) (Some y3) None) [y1, y2, y3]
      [assign_tree x e, tree_of t, assign_tree y f] z" using z(3) by (simp add: spell_assign_def ac_simps)
  obtain r where r: "steps [set_for ?k (for_body ?b), adopt c ?b, addStatement c ?k] z = Ret () r"
    "inside c [?k] [?b] (length (spell_stmt tk ?st)) s (PFor (Some y1) (Some y2) (Some y3) (Some ?b)) [y1, y2, y3]
      [assign_tree x e, tree_of t, assign_tree y f] r"
    "block (above ?k r) (blocks_of r) ?b (length (p_blocks r)) (block_of ss)" "room r = room z"
    by (rule loop_closed [OF I5 bz])
  have run: "parseStatement n pe c s = Ret False r"
    using c al z(1) lv r(1) by (simp add: m(1) parseStatement.simps step_simps(1,2,3) ahead_next [OF ah0] expect_next [OF ah1] getBlock_ret
        statement_for_def Let_def new_alloc types p1(1) v1(1) expect_next [OF ahv1] p2(1) v2(1) expect_next [OF ahv2] p3(1) v3(1)
        expect_next [OF ahv3] expect_next [OF ahv4] del: steps.simps)
  note R = insideD [OF r(2)]
  let ?T = "ForExpression (Some (assign_tree x e)) (tree_of t) (Some (assign_tree y f)) (block_of ss)"
  have "stands (above ?k r) (blocks_of r) ?b (length (p_blocks r)) ?k ?T [?b]"
    using R(9) by (intro stands_for [OF R(10) _ _ _ r(3)]) simp_all
  moreover have "room s + depth ?T \<le> room r" using R(6) B(3) r(4) by simp
  ultimately have "did c [] [?T] (length (spell_stmt tk ?st)) s r" using inside_did [OF r(2)] by blast
  with run show "\<exists>u. parseStatement n pe c s = Ret False u \<and> did c (vars_of [?st]) (stmt_trees ?st) (length (spell_stmt tk ?st)) s u"
    by (simp add: block_of_def)
qed

section \<open>Conditionals\<close>

lemma if_part:
  assumes tk: "gives_types tk" and w: "well_spelt e" and block: "reads_block tk pe ss"
    and ah: "ahead (tk TOK_IF # tk TOK_BRACKET_LEFT # spell tk e @ tk TOK_BRACKET_RIGHT # tk TOK_BRACE_LEFT # spell_stmts tk ss @ ts) s"
    and fuel: "3 * length (spell tk e) + 4 \<le> m" "3 * length (spell_stmts tk ss) + 4 \<le> m"
    and al: "lively s" and c: "c < length (p_blocks s)"
  defines "b \<equiv> length (p_blocks s)" and "k \<equiv> length (p_nodes s)" and "blk \<equiv> p_blocks s ! c"
  obtains y w where "parseStatement (Suc m) pe c s =
      bind_step nextToken (\<lambda>token.
        bind_step (if tok_type token = TOK_ELSE
          then bind_step (statement_else (parseStatement m pe) (parseCodeBlock m pe (b_function blk)) blk) (\<lambda>fb.
            bind_step (set_if k (\<lambda>(t, a, _). (t, a, Some fb))) (\<lambda>_. adopt c fb))
          else rewind 1) (\<lambda>_.
        bind_step (addStatement c k) (\<lambda>_. ret False))) w"
    "inside c [] [b] (Suc (Suc (Suc (Suc (length (spell tk e) + length (spell_stmts tk ss)))))) s (PIf (Some y) (Some b) None) [y] [tree_of e] w"
    "block (above (Suc k) w) (blocks_of w) b (length (p_blocks w)) (block_of ss)" "room s + Suc (block_depth (block_of ss)) \<le> room w"
    "ahead ts w" "b < length (p_blocks w)"
proof -
  note types = tk [unfolded gives_types_def]
  let ?n = "PIf None None None"
  have nd: "\<not> is_dot ?n" by simp
  have g: "\<exists>v. set_if k (\<lambda>(_, a, b). (Some y, a, b)) u = Ret () v \<and> sets (length (p_nodes s)) (PIf (Some y) None None, VALUE_UNKNOWN) u v"
    if "inside c [] [] (Suc (Suc (length (spell tk e)))) s ?n [y] [tree_of e] u" for y u
    using set_if_sets [OF insideD(2) [OF that]] by (simp add: k_def)
  obtain y u v w where G: "nextToken s = Ret (tk TOK_IF) (skip (Suc 0) s)"
    "expect TOK_BRACKET_LEFT (skip (Suc 0) s) = Ret (tk TOK_BRACKET_LEFT) (skip (Suc (Suc 0)) s)"
    "parseExpression m pe c TOK_ANY (alloc (fresh c ?n VALUE_UNKNOWN) (skip (Suc (Suc 0)) s)) = Ret y u"
    "set_if k (\<lambda>(_, a, b). (Some y, a, b)) u = Ret () v"
    "expect TOK_BRACKET_RIGHT v = Ret (tk TOK_BRACKET_RIGHT) (skip (Suc 0) v)"
    "expect TOK_BRACE_LEFT (skip (Suc 0) v) = Ret (tk TOK_BRACE_LEFT) (skip (Suc (Suc 0)) v)"
    "parseCodeBlock m pe (b_function blk) (skip (Suc (Suc 0)) v) = Ret b w"
    and I: "inside c [] [] (Suc (Suc (Suc (Suc (length (spell tk e) + length (spell_stmts tk ss)))))) s (PIf (Some y) None None) [y] [tree_of e] w"
    and B: "block (above (Suc k) w) (blocks_of w) b (length (p_blocks w)) (block_of ss)" "room s + Suc (block_depth (block_of ss)) \<le> room w"
    "ahead ts w" and bw: "b < length (p_blocks w)"
    unfolding b_def k_def by (rule guarded [where f = "b_function blk", OF tk w block ah fuel al c nd g [unfolded k_def]])
  obtain w1 where w1: "set_if k (\<lambda>(t, _, b'). (t, Some b, b')) w = Ret () w1" "sets k (PIf (Some y) (Some b) None, VALUE_UNKNOWN) w w1"
    using set_if_sets [OF insideD(2) [OF I], of "\<lambda>(t, _, b'). (t, Some b, b')"] unfolding k_def by auto
  note S = setsD [OF w1(2)]
  have cb: "c < b" using c by (simp add: b_def)
  let ?w2 = "adopted c b w1"
  have "adopt c b w1 = Ret () ?w2" using bw cb S(1) S(5) [OF insideD(4) [OF I]] by (simp add: adopt_adopted)
  then have "parseStatement (Suc m) pe c s =
      bind_step nextToken (\<lambda>token.
        bind_step (if tok_type token = TOK_ELSE
          then bind_step (statement_else (parseStatement m pe) (parseCodeBlock m pe (b_function blk)) blk) (\<lambda>fb.
            bind_step (set_if k (\<lambda>(t, a, _). (t, a, Some fb))) (\<lambda>_. adopt c fb))
          else rewind 1) (\<lambda>_.
        bind_step (addStatement c k) (\<lambda>_. ret False))) ?w2"
    using c al G w1(1) unfolding k_def b_def blk_def
    by (simp add: parseStatement.simps step_simps(1,2,3) getBlock_ret statement_if_def Let_def new_alloc types)
  moreover have "inside c [] ([] @ [b]) (Suc (Suc (Suc (Suc (length (spell tk e) + length (spell_stmts tk ss)))))) s
      (PIf (Some y) (Some b) None) [y] [tree_of e] ?w2"
    using S(1) bw by (intro inside_adopted inside_sets [OF I w1(2) [unfolded k_def]]) (simp_all add: b_def)
  moreover have "block (above (Suc k) ?w2) (blocks_of ?w2) b (length (p_blocks ?w2)) (block_of ss)"
    using block_same [OF B(1) cb, of ?w2] S by (simp add: blocks_adopted above_def)
  moreover have "room ?w2 = room w" "ahead ts ?w2"
    using S(1,2) B(3) w1(2) nearby_sel [of k w w1] by (auto simp: room_def ahead_def sets_def)
  ultimately show thesis using that [of ?w2 y] B(2) bw S(1) by simp
qed


lemma if_reads:
  assumes tk: "gives_types tk" and w: "well_spelt e" and block: "reads_block tk pe ss"
  shows "reads_stmt tk pe (If e ss None)"
  unfolding reads_stmt_def
proof (intro allI impI)
  fix c s t ts n
  assume ah: "ahead (spell_stmt tk (If e ss None) @ t # ts) s" and n: "3 * length (spell_stmt tk (If e ss None)) + 3 \<le> n"
    and al: "lively s" and c: "c < length (p_blocks s)" and t: "tok_type t \<noteq> TOK_ELSE"
  let ?k = "length (p_nodes s)" and ?b = "length (p_blocks s)" and ?blk = "p_blocks s ! c"
  let ?T = "IfExpression (tree_of e) (block_of ss) None"
  obtain m where m: "n = Suc m" "3 * length (spell tk e) + 4 \<le> m" "3 * length (spell_stmts tk ss) + 4 \<le> m" using n by (cases n) auto
  have ah0: "ahead (tk TOK_IF # tk TOK_BRACKET_LEFT # spell tk e @ tk TOK_BRACKET_RIGHT # tk TOK_BRACE_LEFT
      # spell_stmts tk ss @ t # ts) s" using ah by simp
  obtain y w where run: "parseStatement (Suc m) pe c s =
      bind_step nextToken (\<lambda>token.
        bind_step (if tok_type token = TOK_ELSE
          then bind_step (statement_else (parseStatement m pe) (parseCodeBlock m pe (b_function ?blk)) ?blk) (\<lambda>fb.
            bind_step (set_if ?k (\<lambda>(t, a, _). (t, a, Some fb))) (\<lambda>_. adopt c fb))
          else rewind 1) (\<lambda>_.
        bind_step (addStatement c ?k) (\<lambda>_. ret False))) w"
    and I: "inside c [] [?b] (Suc (Suc (Suc (Suc (length (spell tk e) + length (spell_stmts tk ss)))))) s (PIf (Some y) (Some ?b) None) [y] [tree_of e] w"
    and B: "block (above (Suc ?k) w) (blocks_of w) ?b (length (p_blocks w)) (block_of ss)" "room s + Suc (block_depth (block_of ss)) \<le> room w"
    and ahw: "ahead (t # ts) w" and bw: "?b < length (p_blocks w)"
    by (rule if_part [OF tk w block ah0 m(2,3) al c])
  note nx = ahead_next [OF ahw]
  let ?w = "put_block c (extend [] [?k] []) w"
  have "parseStatement n pe c s = Ret False ?w"
    using t c bw insideD(4) [OF I] by (simp add: m(1) run step_simps(1,2,3) nx rewind_one addStatement_put)
  moreover note J = inside_put [OF I, of "[?k]"]
  have "block (above (Suc ?k) ?w) (blocks_of ?w) ?b (length (p_blocks ?w)) (block_of ss)"
    using block_same [OF B(1) c, of ?w] by (simp add: blocks_put above_def)
  from block_up [OF this] insideD(9,10) [OF J]
  have "stands (above ?k ?w) (blocks_of ?w) ?b (length (p_blocks ?w)) ?k ?T [?b]" by (intro stands_if) simp_all
  moreover have "room s + depth ?T \<le> room ?w" using insideD(6) [OF J] B(2) by (simp add: room_def)
  moreover have "inside c [?k] [?b] (length (spell_stmt tk (If e ss None))) s (PIf (Some y) (Some ?b) None) [y] [tree_of e] ?w"
    using J by (simp add: add.commute)
  ultimately have "parseStatement n pe c s = Ret False ?w" "did c [] [?T] (length (spell_stmt tk (If e ss None))) s ?w"
    using inside_did by blast+
  then show "\<exists>u. parseStatement n pe c s = Ret False u
      \<and> did c (vars_of [If e ss None]) (stmt_trees (If e ss None)) (length (spell_stmt tk (If e ss None))) s u"
    by (simp add: block_of_def)
qed

text \<open>Behind the \<open>else\<close>: its block \<open>C\<close> is linked and handed to the enclosing block, the statement added to the code.\<close>

lemma else_closed:
  assumes I: "inside c [] [b] j s (PIf (Some y) (Some b) None) [y] [T] w" and b: "b = length (p_blocks s)" "b < length (p_blocks w)"
    and B: "block (above (Suc (length (p_nodes s))) w) (blocks_of w) b (length (p_blocks w)) A" "room s + Suc (block_depth A) \<le> room w"
    and C: "blocked C i (skip q w) v"
  obtains z z' where "set_if (length (p_nodes s)) (\<lambda>(t, a, _). (t, a, Some (length (p_blocks w)))) v = Ret () z"
    "adopt c (length (p_blocks w)) z = Ret () z'" "c < length (p_blocks z') \<and> lively z'"
    "did c [] [IfExpression T A (Some C)] (j + q + i) s (put_block c (extend [] [length (p_nodes s)] []) z')"
proof -
  let ?k = "length (p_nodes s)" and ?d = "length (p_blocks w)" and ?T = "IfExpression T A (Some C)"
  note P = inside_skip [OF I, of q]
  note Q = inside_block [OF P C]
  have c: "c < b" using insideD(5) [OF I] b by simp
  have old: "block (above (Suc ?k) v) (blocks_of v) b ?d A" using Q(4) [of b A] B(1) c by simp
  have new: "block (above (Suc ?k) v) (blocks_of v) ?d (length (p_blocks v)) C" using Q(2) by simp
  have dv: "?d < length (p_blocks v)" using stand_mono(3) [OF map_le_refl new] by blast
  obtain z where z: "set_if ?k (\<lambda>(t, a, _). (t, a, Some ?d)) v = Ret () z" "sets ?k (PIf (Some y) (Some b) (Some ?d), VALUE_UNKNOWN) v z"
    using set_if_sets [OF insideD(2) [OF Q(1)], of "\<lambda>(t, a, _). (t, a, Some ?d)"] by auto
  note S = setsD [OF z(2)]
  let ?z = "adopted c ?d z"
  let ?v = "put_block c (extend [] [?k] []) ?z"
  have ad: "adopt c ?d z = Ret () ?z" "c < length (p_blocks ?z) \<and> lively ?z"
    using dv c b S(1) S(5) [OF insideD(4) [OF Q(1)]] by (simp_all add: adopt_adopted)
  have "inside c [?k] ([b] @ [?d]) (j + q + i) s (PIf (Some y) (Some b) (Some ?d)) [y] [T] ?v"
    by (intro inside_put inside_adopted inside_sets [OF Q(1) z(2)]) (use b dv S(1) in simp_all)
  then have J: "inside c [?k] [b, ?d] (j + q + i) s (PIf (Some y) (Some b) (Some ?d)) [y] [T] ?v" by simp
  note R = insideD [OF J]
  have "block (above (Suc ?k) ?v) (blocks_of ?v) b ?d A"
    using block_same [OF old c, of ?v] S by (simp add: blocks_put blocks_adopted above_def)
  moreover have "block (above (Suc ?k) ?v) (blocks_of ?v) ?d (length (p_blocks ?v)) C"
    using block_same [OF new, of c ?v] S c b by (simp add: blocks_put blocks_adopted above_def)
  ultimately have "stands (above ?k ?v) (blocks_of ?v) b (length (p_blocks ?v)) ?k ?T [b, ?d]"
    using R(9,10) by (intro stands_else [where t = y and ty = VALUE_UNKNOWN]) (auto dest: block_up)
  moreover have "room ?v = room v" "room w \<le> room v" using S Q(5) by (simp_all add: room_def)
  then have "room s + depth ?T \<le> room ?v" using R(6) B(2) Q(3) by simp
  ultimately have "did c [] [?T] (j + q + i) s ?v" using inside_did [OF J] b by blast
  from that [OF z(1) ad this] show thesis .
qed

lemma if_else_reads:
  assumes tk: "gives_types tk" and w: "well_spelt e" and block: "reads_block tk pe ss" "reads_block tk pe rs"
  shows "reads_stmt tk pe (If e ss (Some rs))"
  unfolding reads_stmt_def
proof (intro allI impI)
  let ?st = "If e ss (Some rs)"
  fix c s t ts n
  assume ah: "ahead (spell_stmt tk ?st @ t # ts) s" and n: "3 * length (spell_stmt tk ?st) + 3 \<le> n"
    and al: "lively s" and c: "c < length (p_blocks s)"
  note types = tk [unfolded gives_types_def]
  let ?k = "length (p_nodes s)" and ?b = "length (p_blocks s)" and ?blk = "p_blocks s ! c"
  let ?T = "IfExpression (tree_of e) (block_of ss) (Some (block_of rs))"
  obtain m where m: "n = Suc m" "3 * length (spell tk e) + 4 \<le> m" "3 * length (spell_stmts tk ss) + 4 \<le> m"
    "3 * length (spell_stmts tk rs) + 4 \<le> m" using n by (cases n) auto
  have ah0: "ahead (tk TOK_IF # tk TOK_BRACKET_LEFT # spell tk e @ tk TOK_BRACKET_RIGHT # tk TOK_BRACE_LEFT
      # spell_stmts tk ss @ tk TOK_ELSE # tk TOK_BRACE_LEFT # spell_stmts tk rs @ t # ts) s" using ah by simp
  obtain y w where run: "parseStatement (Suc m) pe c s =
      bind_step nextToken (\<lambda>token.
        bind_step (if tok_type token = TOK_ELSE
          then bind_step (statement_else (parseStatement m pe) (parseCodeBlock m pe (b_function ?blk)) ?blk) (\<lambda>fb.
            bind_step (set_if ?k (\<lambda>(t, a, _). (t, a, Some fb))) (\<lambda>_. adopt c fb))
          else rewind 1) (\<lambda>_.
        bind_step (addStatement c ?k) (\<lambda>_. ret False))) w"
    and I: "inside c [] [?b] (Suc (Suc (Suc (Suc (length (spell tk e) + length (spell_stmts tk ss)))))) s (PIf (Some y) (Some ?b) None) [y] [tree_of e] w"
    and B: "block (above (Suc ?k) w) (blocks_of w) ?b (length (p_blocks w)) (block_of ss)" "room s + Suc (block_depth (block_of ss)) \<le> room w"
    and ahw: "ahead (tk TOK_ELSE # tk TOK_BRACE_LEFT # spell_stmts tk rs @ t # ts) w" and bw: "?b < length (p_blocks w)"
    by (rule if_part [OF tk w block(1) ah0 m(2,3) al c])
  let ?w1 = "skip (Suc (Suc 0)) w"
  have ahw1: "ahead (tk TOK_BRACE_LEFT # spell_stmts tk rs @ t # ts) (skip (Suc 0) w)" by (rule ahead_tl [OF ahw moved_skip1])
  have ahw2: "ahead (spell_stmts tk rs @ t # ts) ?w1" using ahead_tl [OF ahw1 moved_skip1] by simp
  obtain v where v: "parseCodeBlock m pe (b_function ?blk) ?w1 = Ret (length (p_blocks ?w1)) v" "blocked (block_of rs) (length (spell_stmts tk rs)) ?w1 v"
    by (rule braced [OF block(2) inside_skip [OF I] ahw2 m(4)])
  have else: "statement_else (parseStatement m pe) (parseCodeBlock m pe (b_function ?blk)) ?blk (skip (Suc 0) w) = Ret (length (p_blocks w)) v"
    using v(1) by (simp add: statement_else_def step_simps(1,2,3) ahead_next [OF ahw1] types)
  obtain z z' where z: "set_if ?k (\<lambda>(t, a, _). (t, a, Some (length (p_blocks w)))) v = Ret () z" "adopt c (length (p_blocks w)) z = Ret () z'"
    "c < length (p_blocks z') \<and> lively z'"
    "did c [] [?T] (Suc (Suc (Suc (Suc (length (spell tk e) + length (spell_stmts tk ss))))) + Suc (Suc 0) + length (spell_stmts tk rs)) s
      (put_block c (extend [] [?k] []) z')"
    by (rule else_closed [OF I refl bw B v(2)])
  have "parseStatement n pe c s = Ret False (put_block c (extend [] [?k] []) z')"
    using else z(1-3) by (simp add: m(1) run step_simps(1,2,3) ahead_next [OF ahw] types addStatement_put)
  with z(4) show "\<exists>u. parseStatement n pe c s = Ret False u
      \<and> did c (vars_of [?st]) (stmt_trees ?st) (length (spell_stmt tk ?st)) s u"
    by (simp add: block_of_def add.assoc)
qed

lemma else_if_reads:
  assumes tk: "gives_types tk" and w: "well_spelt e" and block: "reads_block tk pe ss" and st: "reads_stmt tk pe st" "is_if st"
  shows "reads_stmt tk pe (ElseIf e ss st)"
  unfolding reads_stmt_def
proof (intro allI impI)
  let ?st = "ElseIf e ss st"
  fix c s t ts n
  assume ah: "ahead (spell_stmt tk ?st @ t # ts) s" and n: "3 * length (spell_stmt tk ?st) + 3 \<le> n" and t: "tok_type t \<noteq> TOK_ELSE"
    and al: "lively s" and c: "c < length (p_blocks s)"
  note types = tk [unfolded gives_types_def]
  let ?k = "length (p_nodes s)" and ?b = "length (p_blocks s)" and ?blk = "p_blocks s ! c"
  let ?T = "IfExpression (tree_of e) (block_of ss) (Some (CodeBlock 0 0 [] (stmt_trees st)))"
  obtain m where m: "n = Suc m" "3 * length (spell tk e) + 4 \<le> m" "3 * length (spell_stmts tk ss) + 4 \<le> m"
    "3 * length (spell_stmt tk st) + 3 \<le> m" using n by (cases n) auto
  have ah0: "ahead (tk TOK_IF # tk TOK_BRACKET_LEFT # spell tk e @ tk TOK_BRACKET_RIGHT # tk TOK_BRACE_LEFT
      # spell_stmts tk ss @ tk TOK_ELSE # spell_stmt tk st @ t # ts) s" using ah by simp
  obtain y w where run: "parseStatement (Suc m) pe c s =
      bind_step nextToken (\<lambda>token.
        bind_step (if tok_type token = TOK_ELSE
          then bind_step (statement_else (parseStatement m pe) (parseCodeBlock m pe (b_function ?blk)) ?blk) (\<lambda>fb.
            bind_step (set_if ?k (\<lambda>(t, a, _). (t, a, Some fb))) (\<lambda>_. adopt c fb))
          else rewind 1) (\<lambda>_.
        bind_step (addStatement c ?k) (\<lambda>_. ret False))) w"
    and I: "inside c [] [?b] (Suc (Suc (Suc (Suc (length (spell tk e) + length (spell_stmts tk ss)))))) s (PIf (Some y) (Some ?b) None) [y] [tree_of e] w"
    and B: "block (above (Suc ?k) w) (blocks_of w) ?b (length (p_blocks w)) (block_of ss)" "room s + Suc (block_depth (block_of ss)) \<le> room w"
    and ahw: "ahead (tk TOK_ELSE # spell_stmt tk st @ t # ts) w" and bw: "?b < length (p_blocks w)"
    by (rule if_part [OF tk w block ah0 m(2,3) al c])
  let ?w1 = "skip (Suc 0) w" and ?d = "length (p_blocks w)"
  let ?w2 = "with_block (b_function ?blk) ?w1"
  have ahw1: "ahead (spell_stmt tk st @ t # ts) ?w1" by (rule ahead_tl [OF ahw moved_skip1])
  obtain us where us: "spell_stmt tk st = tk TOK_IF # us" using st(2) by (cases st) auto
  then have "ahead (tk TOK_IF # us @ t # ts) ?w1" using ahw1 by simp
  note first = ahead_next [OF this]
  have "ahead (spell_stmt tk st @ t # ts) ?w2" "lively ?w2" "?d < length (p_blocks ?w2)"
    using ahw1 insideD(4) [OF I] by (simp_all add: ahead_def)
  from st(1) [unfolded reads_stmt_def, rule_format, OF this(1) t m(4) this(2,3)] obtain v where
    v: "parseStatement m pe ?d ?w2 = Ret False v" "did ?d (vars_of [st]) (stmt_trees st) (length (spell_stmt tk st)) ?w2 v" by blast
  have "vars_of [st] = []" using st(2) by (cases st) auto
  then have C: "blocked (CodeBlock 0 0 [] (stmt_trees st)) (length (spell_stmt tk st)) ?w1 v" using did_blocked [of ?w1] v(2) insideD(4) [OF I] by simp
  have "rewind (Suc 0) (skip (Suc (Suc 0)) w) = Ret () ?w1" using rewind_one [of ?w1] by simp
  then have else: "statement_else (parseStatement m pe) (parseCodeBlock m pe (b_function ?blk)) ?blk ?w1 = Ret ?d v"
    using first by (simp add: statement_else_def step_simps(1,2,3) types newBlock_with attempt_ret [of "parseStatement m pe ?d", OF v(1)])
  obtain z z' where z: "set_if ?k (\<lambda>(t, a, _). (t, a, Some ?d)) v = Ret () z" "adopt c ?d z = Ret () z'"
    "c < length (p_blocks z') \<and> lively z'"
    "did c [] [?T] (Suc (Suc (Suc (Suc (length (spell tk e) + length (spell_stmts tk ss))))) + Suc 0 + length (spell_stmt tk st)) s
      (put_block c (extend [] [?k] []) z')"
    by (rule else_closed [OF I refl bw B C])
  have "parseStatement n pe c s = Ret False (put_block c (extend [] [?k] []) z')"
    using else z(1-3) by (simp add: m(1) run step_simps(1,2,3) ahead_next [OF ahw] types addStatement_put)
  with z(4) show "\<exists>u. parseStatement n pe c s = Ret False u
      \<and> did c (vars_of [?st]) (stmt_trees ?st) (length (spell_stmt tk ?st)) s u"
    by (simp add: block_of_def add.assoc)
qed

section \<open>Exceptions\<close>

text \<open>The variable of the exception becomes the last of its block.\<close>

lemma block_var:
  assumes "block M B b h (CodeBlock i m vs Ts)" and "B' b = (case B b of Some (i, m, ws, xs, cs) \<Rightarrow> Some (i, m, ws @ [v], xs, cs) | None \<Rightarrow> None)"
    and "\<And>j. j \<noteq> b \<Longrightarrow> B' j = B j"
  shows "block M B' b h (CodeBlock i m (vs @ [v]) Ts)"
proof -
  from assms(1) obtain xs cs where B: "B b = Some (i, m, vs, xs, cs)" and s: "stand M B (Suc b) h xs Ts cs"
    by (cases rule: block.cases) auto
  have "stand M B' (Suc b) h xs Ts cs" using stand_mono(2) [OF map_le_refl s, of B'] assms(3) by auto
  then show ?thesis by (intro block_at) (simp add: assms(2) B)
qed

lemma blocks_extend: "b < length (p_blocks s) \<Longrightarrow>
    blocks_of (put_block b (extend [v] [] []) s) b = (case blocks_of s b of Some (i, m, ws, xs, cs) \<Rightarrow> Some (i, m, ws @ [v], xs, cs) | None \<Rightarrow> None)"
  by (simp add: blocks_of_def put_block_def extend_def Let_def)

lemma blocks_parent: "blocks_of (put_block d (\<lambda>k. k\<lparr>b_parent := p\<rparr>) s) = blocks_of s"
proof
  fix i show "blocks_of (put_block d (\<lambda>k. k\<lparr>b_parent := p\<rparr>) s) i = blocks_of s i"
    by (cases "i = d") (simp_all add: blocks_put, simp add: blocks_of_def put_block_def Let_def)
qed

lemma try_reads:
  assumes tk: "gives_types tk" and block: "reads_block tk pe ss" "reads_block tk pe rs"
  shows "reads_stmt tk pe (Try ss v rs)"
  unfolding reads_stmt_def
proof (intro allI impI)
  let ?st = "Try ss v rs"
  fix c s t ts n
  assume ah: "ahead (spell_stmt tk ?st @ t # ts) s" and n: "3 * length (spell_stmt tk ?st) + 3 \<le> n"
    and al: "lively s" and c: "c < length (p_blocks s)"
  note types = tk [unfolded gives_types_def]
  let ?k = "length (p_nodes s)" and ?b = "length (p_blocks s)" and ?f = "b_function (p_blocks s ! c)"
  let ?i = "length (spell_stmts tk ss)" and ?j = "length (spell_stmts tk rs)"
  let ?T = "TryExpression (block_of ss) v (CodeBlock 0 0 (vars_of rs @ [v]) (stmts_trees rs))"
  obtain m where m: "n = Suc m" "3 * ?i + 4 \<le> m" "3 * ?j + 4 \<le> m" using n by (cases n) auto
  let ?t2 = "spell_stmts tk rs @ t # ts"
  let ?t1 = "tk TOK_CATCH # tk TOK_BRACKET_LEFT # spell_name tk v # tk TOK_BRACKET_RIGHT # tk TOK_BRACE_LEFT # ?t2"
  have ah0: "ahead (tk TOK_TRY # tk TOK_BRACE_LEFT # spell_stmts tk ss @ ?t1) s" using ah by simp
  have nd: "\<not> is_dot (PTry None [] None)" by simp
  let ?a = "alloc (fresh c (PTry None [] None) VALUE_UNKNOWN) (skip (Suc 0) s)"
  let ?p = "put_block c (extend [] [?k] []) ?a"
  note P0 = inside_put [OF inside_start [OF al c nd, of "Suc 0"], of "[?k]"]
  note P = inside_skip [OF P0, of "Suc 0"]
  have ahp: "ahead (tk TOK_BRACE_LEFT # spell_stmts tk ss @ ?t1) ?p" by (rule ahead_inside1 [OF ah0 P0])
  have ahp1: "ahead (spell_stmts tk ss @ ?t1) (skip (Suc 0) ?p)" by (rule ahead_tl [OF ahp moved_skip1])
  have lp: "length (p_blocks (skip (Suc 0) ?p)) = ?b" by simp
  obtain w where w: "parseCodeBlock m pe ?f (skip (Suc 0) ?p) = Ret ?b w" "blocked (block_of ss) ?i (skip (Suc 0) ?p) w"
    "inside c [?k] [] (Suc 0 + Suc 0 + ?i) s (PTry None [] None) [] [] w" "ahead ?t1 w" "?b < length (p_blocks w)"
    by (rule braced [OF block(1) P ahp1 m(2), of ?f, unfolded lp])
  note W = inside_block [OF P w(2), unfolded lp]
  obtain w1 where w1: "set_node ?k (PTry (Some ?b) [] None) w = Ret () w1" "sets ?k (PTry (Some ?b) [] None, VALUE_UNKNOWN) w w1"
    using set_node_sets [OF insideD(2) [OF w(3)], of "PTry (Some ?b) [] None"] by auto
  note S1 = setsD [OF w1(2)]
  let ?w2 = "put_block ?b (\<lambda>k. k\<lparr>b_parent := Some c\<rparr>) w1"
  have b2: "?b < length (p_blocks w1)" using w(5) S1(1) by simp
  have I2: "inside c [?k] [] (Suc 0 + Suc 0 + ?i) s (PTry (Some ?b) [] None) [] [] ?w2"
    by (rule inside_other [OF inside_sets [OF w(3) w1(2)] order_refl b2])
  have A2: "block (above (Suc ?k) ?w2) (blocks_of ?w2) ?b (length (p_blocks ?w2)) (block_of ss)"
    using W(2) S1 by (simp add: blocks_parent above_def)
  have ahw2: "ahead ?t1 ?w2"
    using ahead_inside [of "tk TOK_TRY # tk TOK_BRACE_LEFT # spell_stmts tk ss" ?t1 s c "[?k]" "[]"] ah0 I2 by (simp del: ahead_put)
  note ahw3 = ahead_tl [OF ahw2 moved_skip1]
  note ahw4 = ahead_tl [OF ahw3 moved_skip1]
  let ?w5 = "skip (Suc (Suc (Suc 0))) ?w2"
  note I5 = inside_skip [OF I2, of "Suc (Suc (Suc 0))"]
  obtain w6 where w6: "set_node ?k (PTry (Some ?b) v None) ?w5 = Ret () w6" "sets ?k (PTry (Some ?b) v None, VALUE_UNKNOWN) ?w5 w6"
    using set_node_sets [OF insideD(2) [OF I5], of "PTry (Some ?b) v None"] by auto
  note S6 = setsD [OF w6(2)]
  note I6 = inside_sets [OF I5 w6(2)]
  have ahw6: "ahead (tk TOK_BRACKET_RIGHT # tk TOK_BRACE_LEFT # ?t2) w6"
    using ahead_inside [of "tk TOK_TRY # tk TOK_BRACE_LEFT # spell_stmts tk ss @ [tk TOK_CATCH, tk TOK_BRACKET_LEFT, spell_name tk v]"
        "tk TOK_BRACKET_RIGHT # tk TOK_BRACE_LEFT # ?t2" s c "[?k]" "[]"] ah0 I6 by simp
  note ahw7 = ahead_tl [OF ahw6 moved_skip1]
  have ahw8: "ahead ?t2 (skip (Suc (Suc 0)) w6)" using ahead_tl [OF ahw7 moved_skip1] by simp
  note I8 = inside_skip [OF I6, of "Suc (Suc 0)"]
  let ?d = "length (p_blocks w)"
  have l8: "length (p_blocks (skip (Suc (Suc 0)) w6)) = ?d" using S6(1) S1(1) by simp
  obtain z where z: "parseCodeBlock m pe ?f (skip (Suc (Suc 0)) w6) = Ret ?d z" "blocked (block_of rs) ?j (skip (Suc (Suc 0)) w6) z"
    "inside c [?k] [] (Suc 0 + Suc 0 + ?i + Suc (Suc (Suc 0)) + Suc (Suc 0) + ?j) s (PTry (Some ?b) v None) [] [] z" "?d < length (p_blocks z)"
    by (rule braced [OF block(2) I8 ahw8 m(3), of ?f, unfolded l8])
  note Z = inside_block [OF I8 z(2), unfolded l8]
  have A8: "block (above (Suc ?k) (skip (Suc (Suc 0)) w6)) (blocks_of (skip (Suc (Suc 0)) w6)) ?b ?d (block_of ss)"
    using A2 S6 S1(1) by (simp add: above_def blocks_parent)
  have Az: "block (above (Suc ?k) z) (blocks_of z) ?b ?d (block_of ss)" by (rule Z(4) [OF A8 c])
  obtain z1 where z1: "set_node ?k (PTry (Some ?b) v (Some ?d)) z = Ret () z1" "sets ?k (PTry (Some ?b) v (Some ?d), VALUE_UNKNOWN) z z1"
    using set_node_sets [OF insideD(2) [OF z(3)], of "PTry (Some ?b) v (Some ?d)"] by auto
  note SZ = setsD [OF z1(2)]
  let ?z2 = "put_block ?d (\<lambda>k. k\<lparr>b_parent := Some c\<rparr>) z1"
  let ?u = "put_block ?d (extend [v] [] []) ?z2"
  have dz: "?d < length (p_blocks z1)" "?b \<le> ?d" using z(4) SZ(1) w(5) by simp_all
  have "inside c [?k] [] (Suc 0 + Suc 0 + ?i + Suc (Suc (Suc 0)) + Suc (Suc 0) + ?j) s (PTry (Some ?b) v (Some ?d)) [] [] ?u"
    by (rule inside_other [OF inside_other [OF inside_sets [OF z(3) z1(2)] dz(2,1)] dz(2)]) (use dz in simp)
  then have J: "inside c [?k] [] (length (spell_stmt tk ?st)) s (PTry (Some ?b) v (Some ?d)) [] [] ?u" by (simp add: add.assoc)
  have M: "above (Suc ?k) ?u = above (Suc ?k) z" "length (p_blocks ?u) = length (p_blocks z)" using SZ by (simp_all add: above_def)
  have other: "blocks_of ?u i = blocks_of z i" if "i \<noteq> ?d" for i using that SZ(7) by (simp add: blocks_put)
  have old: "block (above (Suc ?k) ?u) (blocks_of ?u) ?b ?d (block_of ss)"
    unfolding M using stand_mono(3) [OF map_le_refl Az, of "blocks_of ?u"] other by auto
  have "blocks_of ?u ?d = (case blocks_of z ?d of Some (i, m, ws, xs, cs) \<Rightarrow> Some (i, m, ws @ [v], xs, cs) | None \<Rightarrow> None)"
    using blocks_extend [of ?d ?z2] dz SZ(7) by (simp add: blocks_parent)
  from block_var [OF Z(2) [unfolded block_of_def] this other]
  have new: "block (above (Suc ?k) ?u) (blocks_of ?u) ?d (length (p_blocks ?u)) (CodeBlock 0 0 (vars_of rs @ [v]) (stmts_trees rs))"
    unfolding M .
  have "stands (above ?k ?u) (blocks_of ?u) ?b (length (p_blocks ?u)) ?k ?T []"
    using insideD(10) [OF J] by (rule stands_try [where ty = VALUE_UNKNOWN and b = ?d, OF _ block_up [OF old] block_up [OF new]])
  moreover have "room ?u = room z" "room (skip (Suc (Suc 0)) w6) = room w"
    using SZ S6 S1 by (simp_all add: room_def)
  then have "room s + depth ?T \<le> room ?u"
    using W(3) Z(3,5) by (simp add: block_of_def)
  ultimately have did: "did c [] [?T] (length (spell_stmt tk ?st)) s ?u" using inside_did [OF J] by blast
  have last: "steps [set_node ?k (PTry (Some ?b) v (Some ?d)), updBlock ?d (\<lambda>k. k\<lparr>b_parent := Some c\<rparr>), addVar ?d v] z = Ret () ?u"
    using dz(1) SZ(5) [OF insideD(4) [OF z(3)]] by (simp add: step_simps z1(1) updBlock_put addVar_put)
  have name: "tok_type (spell_name tk v) = TOK_IDENTIFIER" "tok_string (spell_name tk v) = v" by (simp_all add: spell_name_def types)
  have e1: "expect TOK_BRACE_LEFT ?p = Ret (tk TOK_BRACE_LEFT) (skip (Suc 0) ?p)" using expect_next [OF ahp] by (simp add: types)
  have e2: "expect TOK_CATCH ?w2 = Ret (tk TOK_CATCH) (skip (Suc 0) ?w2)" using expect_next [OF ahw2] by (simp add: types)
  have e3: "expect TOK_BRACKET_LEFT (skip (Suc 0) ?w2) = Ret (tk TOK_BRACKET_LEFT) (skip (Suc (Suc 0)) ?w2)"
    using expect_next [OF ahw3] by (simp add: types)
  have e4: "expect TOK_IDENTIFIER (skip (Suc (Suc 0)) ?w2) = Ret (spell_name tk v) ?w5"
    using expect_next [OF ahw4] by (simp add: name)
  have e6: "expect TOK_BRACKET_RIGHT w6 = Ret (tk TOK_BRACKET_RIGHT) (skip (Suc 0) w6)" using expect_next [OF ahw6] by (simp add: types)
  have e7: "expect TOK_BRACE_LEFT (skip (Suc 0) w6) = Ret (tk TOK_BRACE_LEFT) (skip (Suc (Suc 0)) w6)"
    using expect_next [OF ahw7] by (simp add: types)
  have "parseStatement n pe c s = Ret False ?u"
    using c b2 al S1(5) [OF insideD(4) [OF w(3)]] by (simp add: m(1) parseStatement.simps step_simps(1,2,3) ahead_next [OF ah0] getBlock_ret statement_try_def Let_def new_alloc types
        addStatement_put updBlock_put name e1 w(1) w1(1) e2 e3 e4 w6(1) e6 e7 z(1) last del: steps.simps put_block_sel(7))
  with did have "parseStatement n pe c s = Ret False ?u \<and> did c [] [?T] (length (spell_stmt tk ?st)) s ?u" by blast
  then show "\<exists>u. parseStatement n pe c s = Ret False u \<and> did c (vars_of [?st]) (stmt_trees ?st) (length (spell_stmt tk ?st)) s u"
    by (auto simp: block_of_def)
qed

section \<open>Blocks\<close>

lemma stmt_start: "gives_types tk \<Longrightarrow> \<exists>t us. spell_stmt tk st = t # us \<and> tok_type t \<noteq> TOK_ELSE"
  by (cases st) (auto simp: gives_types_def spell_name_def)

lemma stmts_start: "gives_types tk \<Longrightarrow> \<exists>t us. spell_stmts tk ss = t # us \<and> tok_type t \<noteq> TOK_ELSE"
proof (cases ss)
  case (Cons st rs)
  assume "gives_types tk"
  from stmt_start [OF this, of st] Cons show ?thesis by auto
qed (auto simp: gives_types_def)

lemma vars_of_Cons: "vars_of (st # ss) = vars_of [st] @ vars_of ss"
  by (cases st) auto

lemma loop_reads:
  assumes tk: "gives_types tk"
  shows "\<forall>st \<in> set ss. reads_stmt tk pe st \<Longrightarrow> ahead (spell_stmts tk ss @ ts) s \<Longrightarrow> 3 * length (spell_stmts tk ss) + 3 \<le> n
    \<Longrightarrow> lively s \<Longrightarrow> c < length (p_blocks s) \<Longrightarrow>
    \<exists>u. block_loop n pe c s = Ret () u \<and> did c (vars_of ss) (stmts_trees ss) (length (spell_stmts tk ss)) s u"
proof (induction ss arbitrary: s n)
  case Nil
  then obtain m where n: "n = Suc (Suc m)" by (cases n; cases "n - 1") auto
  have ah: "ahead (tk TOK_BRACE_RIGHT # ts) s" using Nil by simp
  have "block_loop n pe c s = Ret () (skip (Suc 0) s)"
    using Nil(4,5) by (simp add: n block_loop.simps parseStatement.simps step_simps(1,2,3) ahead_more [OF ah] ahead_next [OF ah]
        getBlock_ret Let_def tk [unfolded gives_types_def])
  then show ?case using did_skip by simp
next
  case (Cons st ss)
  obtain m where n: "n = Suc m" using Cons.prems(3) by (cases n) auto
  obtain t us where t: "spell_stmts tk ss = t # us" "tok_type t \<noteq> TOK_ELSE" using stmts_start [OF tk] by blast
  obtain t0 vs where t0: "spell_stmt tk st = t0 # vs" using stmt_start [OF tk, of st] by auto
  have ah: "ahead (spell_stmt tk st @ t # us @ ts) s" using Cons.prems(2) t(1) by simp
  then have "ahead (t0 # vs @ t # us @ ts) s" using t0 by simp
  note more = ahead_more [OF this]
  have fuel: "3 * length (spell_stmt tk st) + 3 \<le> m" "3 * length (spell_stmts tk ss) + 3 \<le> m"
    using Cons.prems(3) n t(1) t0 by simp_all
  have "reads_stmt tk pe st" using Cons.prems(1) by simp
  from this [unfolded reads_stmt_def, rule_format, OF ah t(2) fuel(1) Cons.prems(4,5)] obtain u where
    u: "parseStatement m pe c s = Ret False u" "did c (vars_of [st]) (stmt_trees st) (length (spell_stmt tk st)) s u" by blast
  note D = didD [OF u(2)]
  have ahu: "ahead (spell_stmts tk ss @ ts) u" using ahead_did [OF ah u(2)] t(1) by simp
  have cu: "c < length (p_blocks u)" using Cons.prems(5) D(5) by simp
  obtain v where v: "block_loop m pe c u = Ret () v" "did c (vars_of ss) (stmts_trees ss) (length (spell_stmts tk ss)) u v"
    using Cons.IH [OF _ ahu fuel(2) D(3) [OF Cons.prems(4)] cu] Cons.prems(1) by auto
  have "block_loop n pe c s = Ret () v"
    by (simp add: n block_loop.simps step_simps(1,2,3) more u(1) v(1))
  moreover have "did c (vars_of (st # ss)) (stmts_trees (st # ss)) (length (spell_stmts tk (st # ss))) s v"
    using did_trans [OF u(2) v(2) Cons.prems(5)] by (subst vars_of_Cons) simp
  ultimately show ?case by blast
qed

lemma block_reads:
  assumes tk: "gives_types tk" and stmts: "\<forall>st \<in> set ss. reads_stmt tk pe st"
  shows "reads_block tk pe ss"
  unfolding reads_block_def
proof (intro allI impI)
  fix f s ts n
  assume ah: "ahead (spell_stmts tk ss @ ts) s" and n: "3 * length (spell_stmts tk ss) + 4 \<le> n" and al: "lively s"
  obtain m where m: "n = Suc m" "3 * length (spell_stmts tk ss) + 3 \<le> m" using n by (cases n) auto
  let ?b = "length (p_blocks s)" and ?j = "length (spell_stmts tk ss)" and ?s = "with_block f s"
  have "ahead (spell_stmts tk ss @ ts) ?s" "lively ?s" "?b < length (p_blocks ?s)" using ah al by (simp_all add: ahead_def)
  from loop_reads [OF tk stmts this(1) m(2) this(2,3)] obtain u where
    u: "block_loop m pe ?b ?s = Ret () u" "did ?b (vars_of ss) (stmts_trees ss) ?j ?s u" by blast
  have "parseCodeBlock n pe f s = Ret ?b u"
    by (simp add: m(1) parseCodeBlock.simps step_simps(1,2,3) newBlock_with attempt_ret [of "block_loop m pe ?b", OF u(1)])
  with did_blocked [OF u(2) al] show "\<exists>u. parseCodeBlock n pe f s = Ret ?b u \<and> blocked (block_of ss) ?j s u"
    by (auto simp: block_of_def)
qed

lemma stmt_reads: "gives_types tk \<Longrightarrow> well_formed st \<Longrightarrow> reads_stmt tk pe st"
proof (induction st)
  case (If e a b)
  then have w: "well_spelt e" and a: "reads_block tk pe a" by (auto intro!: block_reads)
  show ?case
  proof (cases b)
    case (Some d)
    with If have "reads_block tk pe d" by (auto intro!: block_reads)
    with if_else_reads [OF If.prems(1) w a] Some show ?thesis by simp
  qed (use if_reads [OF If.prems(1) w a] in simp)
next
  case (ElseIf e a s)
  then show ?case by (intro else_if_reads block_reads) auto
next
  case (While e a)
  then show ?case by (intro while_reads block_reads) auto
next
  case (For x e t y f a)
  then show ?case by (intro for_reads block_reads) auto
next
  case (Try a v b)
  then show ?case by (intro try_reads block_reads) auto
qed (auto intro: declare_reads assign_reads invoke_reads return_reads throw_reads)

lemma well_formed_reads: "gives_types tk \<Longrightarrow> \<forall>st \<in> set ss. well_formed st \<Longrightarrow> reads_block tk pe ss"
  by (intro block_reads) (auto intro: stmt_reads)

end
