(* ===== verification/FunctionFacts.thy ===== *)
theory FunctionFacts
  imports StatementFacts
begin

text \<open>
  What \<open>parseFunction\<close> makes of a function: \<open>setStartingVarId\<close> on the parser's store numbers the block
  that was parsed as it does on the tree, and the tree can be read off.
\<close>

section \<open>Numbering the variables\<close>

definition renumbered :: "addr \<Rightarrow> addr \<Rightarrow> parser \<Rightarrow> parser \<Rightarrow> bool" where
  "renumbered l h s t \<longleftrightarrow> t\<lparr>p_blocks := p_blocks s\<rparr> = s \<and> length (p_blocks t) = length (p_blocks s)
     \<and> (\<forall>j. \<not> (l \<le> j \<and> j < h) \<longrightarrow> p_blocks t ! j = p_blocks s ! j)"

lemma renumbered_refl [simp]: "renumbered l h s s"
  by (simp add: renumbered_def)

lemma renumbered_trans:
  assumes "renumbered l h s t" and "renumbered l' h' t u" and "k \<le> l" "h \<le> m" "k \<le> l'" "h' \<le> m"
  shows "renumbered k m s u"
proof -
  have "u\<lparr>p_blocks := p_blocks s\<rparr> = s"
    using assms(1,2) by (cases s; cases t; cases u) (simp add: renumbered_def)
  moreover have "p_blocks u ! j = p_blocks s ! j" if "\<not> (k \<le> j \<and> j < m)" for j
  proof -
    have "\<not> (l \<le> j \<and> j < h)" "\<not> (l' \<le> j \<and> j < h')" using that assms(3-6) by auto
    then show ?thesis using assms(1,2) unfolding renumbered_def by auto
  qed
  ultimately show ?thesis using assms(1,2) by (simp add: renumbered_def)
qed

lemma renumbered_sel: "renumbered l h s t \<Longrightarrow> length (p_blocks t) = length (p_blocks s) \<and> seen t = seen s \<and> p_nodes t = p_nodes s
   \<and> m_pos t = m_pos s \<and> p_funcs t = p_funcs s \<and> p_dead t = p_dead s \<and> p_freed t = p_freed s"
  by (cases s; cases t) (simp add: renumbered_def seen_def fun_eq_iff)

lemma renumbered_blocks: "renumbered l h s t \<Longrightarrow> \<not> (l \<le> j \<and> j < h) \<Longrightarrow> blocks_of t j = blocks_of s j"
  by (frule renumbered_sel) (simp add: renumbered_def blocks_of_def)

lemma renumbered_put: "l \<le> b \<Longrightarrow> b < h \<Longrightarrow> renumbered l h s (put_block b f s)"
  by (auto simp: renumbered_def nth_list_update put_block_def)

lemma holds_numbered: "holds M x T \<Longrightarrow> set_stmt_ids i T = T \<and> stmt_blocks T = []"
  by (cases rule: holds.cases) auto

definition max_id :: "int \<Rightarrow> codeblock list \<Rightarrow> int" where
  "max_id = foldl (\<lambda>mx c. if m_maxVarId c > mx then m_maxVarId c else mx)"

text \<open>Numbering one child behind another.\<close>

definition agrees :: "bpart \<Rightarrow> addr \<Rightarrow> addr \<Rightarrow> parser \<Rightarrow> bool" where
  "agrees B l h s \<longleftrightarrow> (\<forall>j. l \<le> j \<and> j < h \<longrightarrow> blocks_of s j = B j) \<and> h \<le> length (p_blocks s)"

definition numbers_block :: "part \<Rightarrow> bpart \<Rightarrow> addr \<Rightarrow> addr \<Rightarrow> codeblock \<Rightarrow> bool" where
  "numbers_block M B b h K \<longleftrightarrow> (\<forall>s i n. agrees B b h s \<longrightarrow> h - b \<le> n \<longrightarrow>
     (\<exists>t. number_block n i b s = Ret (m_maxVarId (setStartingVarId i K)) t \<and> renumbered b h s t
       \<and> block M (blocks_of t) b h (setStartingVarId i K)))"

definition numbers :: "bpart \<Rightarrow> addr \<Rightarrow> addr \<Rightarrow> (int \<Rightarrow> codeblock list) \<Rightarrow> addr list \<Rightarrow> (bpart \<Rightarrow> int \<Rightarrow> bool) \<Rightarrow> bool" where
  "numbers B l h Ks cs P \<longleftrightarrow> (\<forall>s i mx n ds. agrees B l h s \<longrightarrow> h - l \<le> n \<longrightarrow>
     (\<exists>t. number_blocks n i mx (cs @ ds) s = number_blocks n i (max_id mx (Ks i)) ds t \<and> renumbered l h s t
       \<and> P (blocks_of t) i))"

lemma agrees_sub: "agrees B l h s \<Longrightarrow> l \<le> l' \<Longrightarrow> h' \<le> h \<Longrightarrow> agrees B l' h' s"
  by (auto simp: agrees_def)

lemma agrees_after: "agrees B l h s \<Longrightarrow> renumbered l' h' s t \<Longrightarrow> h \<le> l' \<or> h' \<le> l \<Longrightarrow> agrees B l h t"
  using renumbered_blocks [of l' h' s t] renumbered_sel [of l' h' s t] by (fastforce simp: agrees_def)

lemma numbers_one:
  assumes "numbers_block M B b h K"
  shows "numbers B b h (\<lambda>i. [setStartingVarId i K]) [b] (\<lambda>B' i. block M B' b h (setStartingVarId i K))"
  unfolding numbers_def
proof (intro allI impI)
  fix s i mx n ds
  assume "agrees B b h s" "h - b \<le> n"
  with assms obtain t where "number_block n i b s = Ret (m_maxVarId (setStartingVarId i K)) t" "renumbered b h s t"
    "block M (blocks_of t) b h (setStartingVarId i K)"
    unfolding numbers_block_def by blast
  then show "\<exists>t. number_blocks n i mx ([b] @ ds) s = number_blocks n i (max_id mx [setStartingVarId i K]) ds t \<and> renumbered b h s t
      \<and> block M (blocks_of t) b h (setStartingVarId i K)"
    by (intro exI [of _ t]) (simp add: step_simps(2) max_id_def)
qed

lemma numbers_append:
  assumes "numbers B l m Ks cs P" and "numbers B m h Ls ds Q" and "l \<le> m" "m \<le> h"
    and P: "\<And>B' B'' i. P B' i \<Longrightarrow> (\<forall>j. l \<le> j \<and> j < m \<longrightarrow> B'' j = B' j) \<Longrightarrow> P B'' i"
  shows "numbers B l h (\<lambda>i. Ks i @ Ls i) (cs @ ds) (\<lambda>B' i. P B' i \<and> Q B' i)"
  unfolding numbers_def
proof (intro allI impI)
  fix s i mx n es
  assume a: "agrees B l h s" and n: "h - l \<le> n"
  have f: "m - l \<le> n" "h - m \<le> n" using n assms(3,4) by simp_all
  obtain t where t: "number_blocks n i mx (cs @ ds @ es) s = number_blocks n i (max_id mx (Ks i)) (ds @ es) t"
    "renumbered l m s t" "P (blocks_of t) i"
    using assms(1) [unfolded numbers_def, rule_format, OF agrees_sub [OF a order_refl assms(4)] f(1)] by blast
  have "agrees B m h t" by (rule agrees_after [OF agrees_sub [OF a assms(3) order_refl] t(2)]) simp
  from assms(2) [unfolded numbers_def, rule_format, OF this f(2)] obtain u where
    u: "number_blocks n i (max_id mx (Ks i)) (ds @ es) t = number_blocks n i (max_id (max_id mx (Ks i)) (Ls i)) es u"
    "renumbered m h t u" "Q (blocks_of u) i" by blast
  have "P (blocks_of u) i" by (rule P [OF t(3)]) (use renumbered_blocks [OF u(2)] in auto)
  moreover have "renumbered l h s u" by (rule renumbered_trans [OF t(2) u(2)]) (use assms(3,4) in auto)
  ultimately show "\<exists>u. number_blocks n i mx ((cs @ ds) @ es) s = number_blocks n i (max_id mx (Ks i @ Ls i)) es u
      \<and> renumbered l h s u \<and> P (blocks_of u) i \<and> Q (blocks_of u) i"
    using t(1) u(1,3) by (intro exI [of _ u]) (simp add: max_id_def)
qed

lemma numbers_none: "(\<And>B' i. P B' i) \<Longrightarrow> numbers B l l (\<lambda>i. []) [] P"
  unfolding numbers_def by (auto simp: max_id_def)

lemma numbers_kept: "(\<And>B' i. \<forall>j. l \<le> j \<and> j < h \<longrightarrow> B' j = B j \<Longrightarrow> P B' i) \<Longrightarrow> numbers B l h (\<lambda>i. []) [] P"
  unfolding numbers_def agrees_def by (auto simp: max_id_def intro!: exI)

lemma numbers_weaken: "numbers B l h Ks cs P \<Longrightarrow> (\<And>B' i. P B' i \<Longrightarrow> Q B' i) \<Longrightarrow> numbers B l h Ks cs Q"
  unfolding numbers_def by blast


lemma block_numbered:
  assumes B: "B b = Some (i0, m0, vs, xs, cs)" and "Suc b \<le> h"
    and N: "numbers B (Suc b) h (\<lambda>i. concat (map stmt_blocks (map (set_stmt_ids i) Ts))) cs (\<lambda>B' i. stand M B' (Suc b) h xs (map (set_stmt_ids i) Ts) cs)"
  shows "numbers_block M B b h (CodeBlock i0 m0 vs Ts)"
  unfolding numbers_block_def
proof (intro allI impI)
  fix s i n
  assume a: "agrees B b h s" and n: "h - b \<le> n"
  obtain m where m: "n = Suc m" "h - Suc b \<le> m" using n assms(2) by (cases n) auto
  have bs: "b < length (p_blocks s)" using a assms(2) by (simp add: agrees_def)
  have fb: "b \<notin> set (p_freed s)" using a B assms(2) by (auto simp: agrees_def blocks_of_def split: if_splits)
  have eb: "b_vars (p_blocks s ! b) = vs" "b_code (p_blocks s ! b) = xs" "b_childBlocks (p_blocks s ! b) = cs"
    using a B bs fb assms(2) by (auto simp: agrees_def blocks_of_def Let_def)
  let ?j = "i + int (length vs)"
  let ?mx = "max_id ?j (concat (map stmt_blocks (map (set_stmt_ids ?j) Ts)))"
  let ?s = "put_block b (\<lambda>k. k\<lparr>b_startingVarId := i, b_maxVarId := ?j, b_varTypes := Some (replicate (length (b_vars k)) VALUE_UNKNOWN)\<rparr>) s"
  have rs: "renumbered b h s ?s" by (rule renumbered_put) (use assms(2) in auto)
  have "agrees B (Suc b) h ?s"
    using agrees_after [OF agrees_sub [OF a, of "Suc b" h], of b "Suc b" ?s] renumbered_put [of b b "Suc b" s] by simp
  from N [unfolded numbers_def, rule_format, OF this m(2)] obtain t where
    t: "number_blocks m ?j ?j (cs @ []) ?s = number_blocks m ?j ?mx [] t" "renumbered (Suc b) h ?s t"
    "stand M (blocks_of t) (Suc b) h xs (map (set_stmt_ids ?j) Ts) cs" by blast
  have bt: "p_blocks t ! b = p_blocks ?s ! b" "b < length (p_blocks t)" "b \<notin> set (p_freed t)"
    using t(2) bs fb renumbered_sel [OF t(2)] by (simp_all add: renumbered_def)
  let ?u = "put_block b (\<lambda>k. k\<lparr>b_maxVarId := ?mx\<rparr>) t"
  have "number_block n i b s = Ret ?mx ?u"
    using t(1) bs bt(2,3) fb by (simp add: m(1) step_simps(2,3) getBlock_def updBlock_there eb Let_def)
  moreover have "setStartingVarId i (CodeBlock i0 m0 vs Ts) = CodeBlock i ?mx vs (map (set_stmt_ids ?j) Ts)"
    by (simp add: Let_def max_id_def)
  moreover have "renumbered b h s t" by (rule renumbered_trans [OF rs t(2)]) (use assms(2) in auto)
  then have "renumbered b h s ?u" by (rule renumbered_trans [OF _ renumbered_put [of b b h t]]) (use assms(2) in auto)
  moreover have "blocks_of ?u b = Some (i, ?mx, vs, xs, cs)"
    using bt bs eb by (simp add: blocks_of_def put_block_def)
  then have "block M (blocks_of ?u) b h (CodeBlock i ?mx vs (map (set_stmt_ids ?j) Ts))"
    by (rule block_at) (use stand_mono(2) [OF map_le_refl t(3), of "blocks_of ?u"] in \<open>simp add: blocks_put\<close>)
  ultimately show "\<exists>t. number_block n i b s = Ret (m_maxVarId (setStartingVarId i (CodeBlock i0 m0 vs Ts))) t \<and> renumbered b h s t
      \<and> block M (blocks_of t) b h (setStartingVarId i (CodeBlock i0 m0 vs Ts))"
    by auto
qed

lemma stands_numbered:
  "stands M B l h x T cs \<Longrightarrow> l \<le> h \<and> numbers B l h (\<lambda>i. stmt_blocks (set_stmt_ids i T)) cs (\<lambda>B' i. stands M B' l h x (set_stmt_ids i T) cs)"
  "stand M B l h xs Ts cs \<Longrightarrow> l \<le> h \<and> numbers B l h (\<lambda>i. concat (map stmt_blocks (map (set_stmt_ids i) Ts))) cs
     (\<lambda>B' i. stand M B' l h xs (map (set_stmt_ids i) Ts) cs)"
  "block M B b h K \<Longrightarrow> b < h \<and> numbers_block M B b h K"
proof (induction rule: stands_stand_block.inducts)
  case (stands_expr x T l)
  then show ?case using holds_numbered by (auto intro!: numbers_none standing)
next
  case (stands_return x y ty T l)
  then show ?case by (auto intro!: numbers_none intro: stands_stand_block.stands_return)
next
  case (stands_throw x y ty T l)
  then show ?case by (auto intro!: numbers_none intro: stands_stand_block.stands_throw)
next
  case (stands_for x i t k a ty I T K h A)
  then show ?case by (auto intro!: numbers_weaken [OF numbers_one] standing)
next
  case (stands_try x a v b ty A h C)
  have "numbers B a h (\<lambda>i. []) [] (\<lambda>B' i. stands M B' a h x (TryExpression A v C) [])"
  proof (rule numbers_kept)
    fix B' :: bpart assume e: "\<forall>j. a \<le> j \<and> j < h \<longrightarrow> B' j = B j"
    have "block M B' a b A" using stand_mono(3) [OF map_le_refl stands_try(2), of B'] stands_try.IH e by simp
    moreover have "block M B' b h C" using stand_mono(3) [OF map_le_refl stands_try(4), of B'] stands_try.IH e by simp
    ultimately show "stands M B' a h x (TryExpression A v C) []" using stands_try(1) by (intro stands_stand_block.stands_try [where b = b and ty = ty])
  qed
  then show ?case using stands_try by simp
next
  case (stands_if x t a ty T h A)
  then show ?case by (auto intro!: numbers_weaken [OF numbers_one] standing)
next
  case (stands_else x t a b ty T A h C)
  have "numbers B a h (\<lambda>i. [setStartingVarId i A] @ [setStartingVarId i C]) ([a] @ [b])
      (\<lambda>B' i. block M B' a b (setStartingVarId i A) \<and> block M B' b h (setStartingVarId i C))"
    by (rule numbers_append [OF numbers_one numbers_one])
      (use stands_else stand_mono(3) [OF map_le_refl] in \<open>auto simp: less_imp_le\<close>)
  then have "numbers B a h (\<lambda>i. [setStartingVarId i A, setStartingVarId i C]) [a, b]
      (\<lambda>B' i. stands M B' a h x (IfExpression T (setStartingVarId i A) (Some (setStartingVarId i C))) [a, b])"
    by (auto intro!: stands_stand_block.stands_else stands_else(1,2) elim!: numbers_weaken)
  then show ?case using stands_else by simp
next
  case (stands_while x t a ty T h A)
  then show ?case by (auto intro!: numbers_weaken [OF numbers_one] standing)
next
  case (stand_nil l)
  then show ?case by (auto intro!: numbers_none standing)
next
  case (stand_cons l m x T cs h xs Ts ds)
  have "numbers B l h (\<lambda>i. stmt_blocks (set_stmt_ids i T) @ concat (map stmt_blocks (map (set_stmt_ids i) Ts))) (cs @ ds)
      (\<lambda>B' i. stands M B' l m x (set_stmt_ids i T) cs \<and> stand M B' m h xs (map (set_stmt_ids i) Ts) ds)"
    by (rule numbers_append) (use stand_cons stand_mono(1) [OF map_le_refl] in auto)
  then show ?case using stand_cons by (auto intro!: stands_stand_block.stand_cons elim!: numbers_weaken)
next
  case (block_at b i m vs xs cs h Ts)
  then show ?case using block_numbered [of B b i m vs xs cs h Ts M] by auto
qed


text \<open>The blocks of \<open>try\<close> and \<open>catch\<close> are no children of their block: their variables keep the slots from 0 on.\<close>

lemma try_blocks_unnumbered:
  "setStartingVarId i (block_of [Try a v b]) = CodeBlock i i [] [TryExpression (block_of a) v (CodeBlock 0 0 (vars_of b @ [v]) (stmts_trees b))]"
  by (simp add: block_of_def)

text \<open>Numbering does not change the depth.\<close>

lemma depth_numbered:
  "block_depth (setStartingVarId i K) = block_depth K" "depth (set_stmt_ids i T) = depth T"
proof (induction i K and i T rule: setStartingVarId_set_stmt_ids.induct)
  case (1 i s m vs code)
  have "depths (map (set_stmt_ids (i + int (length vs))) code) = depths code"
    using 1 by (induction code) auto
  then show ?case by (simp add: Let_def)
qed (auto split: option.split)

section \<open>Reading the trees off\<close>

lemma stand_trees:
  assumes s: "clean k s" "M \<subseteq>\<^sub>m seen s" "dom M \<subseteq> {k..}"
  shows "stands M B l h x T cs \<Longrightarrow> B \<subseteq>\<^sub>m blocks_of s \<Longrightarrow> \<forall>n \<ge> depth T. expr_tree n s x = Some T"
    and "stand M B l h xs Ts cs \<Longrightarrow> B \<subseteq>\<^sub>m blocks_of s \<Longrightarrow> \<forall>n \<ge> depths Ts. those (map (expr_tree n s) xs) = Some Ts"
    and "block M B b h K \<Longrightarrow> B \<subseteq>\<^sub>m blocks_of s \<Longrightarrow> \<forall>n \<ge> block_depth K. block_tree n s b = Some K"
proof (induction rule: stands_stand_block.inducts)
  case stands_expr
  then show ?case using holds_tree [OF s] by blast
next
  case (stands_return x y ty T l)
  then have x: "seen s x = Some (PReturn (Some y), ty)" using s(2) by (force simp: map_le_def)
  show ?case
  proof (intro allI impI)
    fix n assume "depth (ReturnExpression (Some T)) \<le> n"
    then obtain m where "n = Suc m" "depth T \<le> m" by (cases n) auto
    with x holds_tree [OF s stands_return(2)] show "expr_tree n s x = Some (ReturnExpression (Some T))"
      by (auto simp: seen_def split: if_splits)
  qed
next
  case (stands_throw x y ty T l)
  then have x: "seen s x = Some (PThrow (Some y), ty)" using s(2) by (force simp: map_le_def)
  show ?case
  proof (intro allI impI)
    fix n assume "depth (ThrowExpression T) \<le> n"
    then obtain m where "n = Suc m" "depth T \<le> m" by (cases n) auto
    with x holds_tree [OF s stands_throw(2)] show "expr_tree n s x = Some (ThrowExpression T)"
      by (auto simp: seen_def split: if_splits)
  qed
next
  case (stands_for x i t k a ty I T K h A)
  then have x: "seen s x = Some (PFor (Some i) (Some t) (Some k) (Some a), ty)" using s(2) by (force simp: map_le_def)
  show ?case
  proof (intro allI impI)
    fix n assume "depth (ForExpression (Some I) T (Some K) A) \<le> n"
    then obtain m where "n = Suc m" "depth I \<le> m" "depth T \<le> m" "depth K \<le> m" "block_depth A \<le> m" by (cases n) auto
    with x holds_tree [OF s stands_for(2)] holds_tree [OF s stands_for(3)] holds_tree [OF s stands_for(4)] stands_for(6) stands_for.prems
    show "expr_tree n s x = Some (ForExpression (Some I) T (Some K) A)"
      by (auto simp: seen_def split: if_splits)
  qed
next
  case (stands_try x a v b ty A h C)
  then have x: "seen s x = Some (PTry (Some a) v (Some b), ty)" using s(2) by (force simp: map_le_def)
  show ?case
  proof (intro allI impI)
    fix n assume "depth (TryExpression A v C) \<le> n"
    then obtain m where "n = Suc m" "block_depth A \<le> m" "block_depth C \<le> m" by (cases n) auto
    with x stands_try show "expr_tree n s x = Some (TryExpression A v C)"
      by (auto simp: seen_def split: if_splits)
  qed
next
  case (stands_if x t a ty T h A)
  then have x: "seen s x = Some (PIf (Some t) (Some a) None, ty)" using s(2) by (force simp: map_le_def)
  show ?case
  proof (intro allI impI)
    fix n assume "depth (IfExpression T A None) \<le> n"
    then obtain m where "n = Suc m" "depth T \<le> m" "block_depth A \<le> m" by (cases n) auto
    with x holds_tree [OF s stands_if(2)] stands_if show "expr_tree n s x = Some (IfExpression T A None)"
      by (auto simp: seen_def split: if_splits)
  qed
next
  case (stands_else x t a b ty T A h C)
  then have x: "seen s x = Some (PIf (Some t) (Some a) (Some b), ty)" using s(2) by (force simp: map_le_def)
  show ?case
  proof (intro allI impI)
    fix n assume "depth (IfExpression T A (Some C)) \<le> n"
    then obtain m where "n = Suc m" "depth T \<le> m" "block_depth A \<le> m" "block_depth C \<le> m" by (cases n) auto
    with x holds_tree [OF s stands_else(2)] stands_else show "expr_tree n s x = Some (IfExpression T A (Some C))"
      by (auto simp: seen_def split: if_splits)
  qed
next
  case (stands_while x t a ty T h A)
  then have x: "seen s x = Some (PFor None (Some t) None (Some a), ty)" using s(2) by (force simp: map_le_def)
  show ?case
  proof (intro allI impI)
    fix n assume "depth (ForExpression None T None A) \<le> n"
    then obtain m where "n = Suc m" "depth T \<le> m" "block_depth A \<le> m" by (cases n) auto
    with x holds_tree [OF s stands_while(2)] stands_while show "expr_tree n s x = Some (ForExpression None T None A)"
      by (auto simp: seen_def split: if_splits)
  qed
next
  case stand_nil
  then show ?case by simp
next
  case stand_cons
  then show ?case by simp
next
  case (block_at b i m vs xs cs h Ts)
  then have b: "blocks_of s b = Some (i, m, vs, xs, cs)" by (force simp: map_le_def)
  show ?case
  proof (intro allI impI)
    fix n assume "block_depth (CodeBlock i m vs Ts) \<le> n"
    then obtain m' where "n = Suc m'" "depths Ts \<le> m'" by (cases n) auto
    with b block_at show "block_tree n s b = Some (CodeBlock i m vs Ts)"
      by (auto simp: blocks_of_def Let_def split: if_splits)
  qed
qed

section \<open>Functions\<close>

fun spell_names :: "(TokenType \<Rightarrow> Token) \<Rightarrow> wstring list \<Rightarrow> Token list" where
  "spell_names tk [] = []"
| "spell_names tk (x # xs) = spell_name tk x # (if xs = [] then [] else tk TOK_COMMA # spell_names tk xs)"

definition spell_function :: "(TokenType \<Rightarrow> Token) \<Rightarrow> wstring list \<Rightarrow> stmt list \<Rightarrow> Token list" where
  "spell_function tk ps ss = tk TOK_BRACKET_LEFT # spell_names tk ps @ tk TOK_BRACKET_RIGHT # tk TOK_BRACE_LEFT # spell_stmts tk ss"

lemma items_spelt:
  assumes tk: "gives_types tk"
  shows "ahead (spell_names tk xs @ tk TOK_BRACKET_RIGHT # ts) s \<Longrightarrow> length (spell_names tk xs) < n \<Longrightarrow>
    list_items n TOK_IDENTIFIER acc s = Ret (acc @ map (spell_name tk) xs) (skip (Suc (length (spell_names tk xs))) s)"
proof (induction xs arbitrary: s n acc)
  case Nil
  then have ah: "ahead (tk TOK_BRACKET_RIGHT # ts) s" by simp
  obtain m where "n = Suc m" using Nil by (cases n) auto
  then show ?case by (simp add: step_simps(1,2,3) ahead_more [OF ah] ahead_next [OF ah] tk [unfolded gives_types_def])
next
  case (Cons x xs)
  note types = tk [unfolded gives_types_def]
  let ?rest = "if xs = [] then tk TOK_BRACKET_RIGHT # ts else tk TOK_COMMA # spell_names tk xs @ tk TOK_BRACKET_RIGHT # ts"
  have ah: "ahead (spell_name tk x # ?rest) s" using Cons.prems(1) by (simp split: if_splits)
  have ah1: "ahead ?rest (skip (Suc 0) s)" by (rule ahead_tl [OF ah moved_skip1])
  have ty: "tok_type (spell_name tk x) = TOK_IDENTIFIER" by (simp add: spell_name_def types)
  obtain m where n: "n = Suc m" using Cons.prems by (cases n) auto
  show ?case
  proof (cases "xs = []")
    case True
    then have "ahead (tk TOK_BRACKET_RIGHT # ts) (skip (Suc 0) s)" using ah1 by simp
    from ahead_next [OF this] True show ?thesis
      by (simp add: n step_simps(1,2,3) ahead_more [OF ah] ahead_next [OF ah] ty types)
  next
    case False
    then have ah2: "ahead (tk TOK_COMMA # spell_names tk xs @ tk TOK_BRACKET_RIGHT # ts) (skip (Suc 0) s)" using ah1 by simp
    have ah3: "ahead (spell_names tk xs @ tk TOK_BRACKET_RIGHT # ts) (skip (Suc (Suc 0)) s)"
      using ahead_tl [OF ah2 moved_skip1] by simp
    have "length (spell_names tk xs) < m" using Cons.prems(2) False n by simp
    from Cons.IH [OF ah3 this, of "acc @ [spell_name tk x]"] False ahead_next [OF ah2] show ?thesis
      by (simp add: n step_simps(1,2,3) ahead_more [OF ah] ahead_next [OF ah] ty types)
  qed
qed


lemma names_length: "length xs \<le> Suc (length (spell_names tk xs))"
  by (induction xs) auto

lemma new_function_step:
  fixes s :: parser
  defines "f \<equiv> of_nat (rt_nextNative (rt (p_vm s)))"
  obtains t where "new_function clazz ts s = Ret f t" "p_nodes t = p_nodes s" "p_blocks t = p_blocks s" "p_dead t = p_dead s \<and> p_freed t = p_freed s"
    "m_tokens t = m_tokens s" "m_pos t = m_pos s"
    "p_funcs t = p_funcs s @ [(f, \<lparr>f_name = wstr ''<anonymous>'', f_static = False, f_class = clazz, f_args = map tok_string ts, f_code = None\<rparr>)]"
proof (rule that)
  let ?fn = "\<lparr>f_name = wstr ''<anonymous>'', f_static = False, f_class = clazz, f_args = map tok_string ts, f_code = None\<rparr>"
  let ?v = "(p_vm s)\<lparr>rt := (rt (p_vm s))\<lparr>rt_nextNative := rt_nextNative (rt (p_vm s)) + 1\<rparr>\<rparr>"
  show "new_function clazz ts s = Ret f (s\<lparr>p_vm := ?v, p_funcs := p_funcs s @ [(f, ?fn)]\<rparr>)"
    by (simp add: f_def new_function_def new_ptr_def on_vm_def bind_step_def modify_def ret_def)
qed simp_all

lemma updFunction_new:
  assumes "p_funcs s = fs @ [(f, k)]" and "f \<notin> fst ` set fs"
  obtains t where "updFunction f g s = Ret () t" "map_of (p_funcs t) f = Some (g k)" "p_nodes t = p_nodes s" "p_blocks t = p_blocks s"
    "p_dead t = p_dead s \<and> p_freed t = p_freed s" "m_pos t = m_pos s"
proof (rule that)
  let ?h = "\<lambda>(q, k). (q, if q = f then g k else k)"
  let ?t = "s\<lparr>p_funcs := map ?h (p_funcs s)\<rparr>"
  show "updFunction f g s = Ret () ?t" by (simp add: updFunction_def modify_def)
  have "map_of (map ?h fs) f = None" using assms(2) by (force simp: map_of_eq_None_iff)
  then show "map_of (p_funcs ?t) f = Some (g k)" using assms(1) by (simp add: map_add_def)
qed simp_all

lemma function_spelt:
  assumes tk: "gives_types tk" and wf: "\<forall>st \<in> set ss. well_formed st"
    and toks: "drop (m_pos s) (m_tokens s) = spell_function tk ps ss @ ts"
    and dead: "set (p_dead s) \<subseteq> {..<length (p_nodes s)}" "p_freed s = []"
    and new: "of_nat (rt_nextNative (rt (p_vm s))) \<notin> fst ` set (p_funcs s)"
    and n: "3 * length (spell_function tk ps ss) \<le> n"
  shows "\<exists>f t k b. parseFunction n pe clazz s = Ret f t \<and> m_pos t = m_pos s + length (spell_function tk ps ss)
    \<and> map_of (p_funcs t) f = Some k \<and> f_args k = ps \<and> f_class k = clazz \<and> \<not> f_static k \<and> f_code k = Some b
    \<and> block_tree (tree_fuel t) t b = Some (setStartingVarId (int (length ps) + 1) (block_of ss))"
proof -
  note types = tk [unfolded gives_types_def]
  let ?i = "length (spell_names tk ps)" and ?j = "length (spell_stmts tk ss)"
  let ?ps = "map (spell_name tk) ps"
  let ?f = "of_nat (rt_nextNative (rt (p_vm s))) :: ptr" and ?b = "length (p_blocks s)" and ?k = "length (p_nodes s)"
  obtain m where m: "n = Suc (Suc m)" "?i < m" "3 * ?j + 4 \<le> Suc m"
    using n by (cases n; cases "n - 1") (auto simp: spell_function_def)
  have ah0: "ahead (tk TOK_BRACKET_LEFT # spell_names tk ps @ tk TOK_BRACKET_RIGHT # tk TOK_BRACE_LEFT # spell_stmts tk ss @ ts) s"
    using toks by (auto simp: ahead_def spell_function_def)
  from ahead_tl [OF ah0 moved_skip1]
  have ah1: "ahead (spell_names tk ps @ tk TOK_BRACKET_RIGHT # tk TOK_BRACE_LEFT # spell_stmts tk ss @ ts) (skip (Suc 0) s)" .
  let ?s1 = "skip (Suc (Suc ?i)) s"
  have "list_items (Suc m) TOK_IDENTIFIER [] (skip (Suc 0) s) = Ret ?ps ?s1"
    using items_spelt [OF tk ah1, of "Suc m" "[]"] m(2) by simp
  then have params: "parseList (Suc m) TOK_IDENTIFIER s = Ret ?ps ?s1"
    by (simp add: parseList_def step_simps(2) expect_next [OF ah0] types del: list_items.simps)
  have "ahead ((tk TOK_BRACKET_LEFT # spell_names tk ps @ [tk TOK_BRACKET_RIGHT]) @ tk TOK_BRACE_LEFT # spell_stmts tk ss @ ts) s"
    using ah0 by simp
  from ahead_moved [OF this] moved_skip [of "Suc (Suc ?i)" s] have ah2: "ahead (tk TOK_BRACE_LEFT # spell_stmts tk ss @ ts) ?s1" by simp
  let ?fn = "\<lparr>f_name = wstr ''<anonymous>'', f_static = False, f_class = clazz, f_args = map tok_string ?ps, f_code = None\<rparr>"
  obtain s2 where s2: "new_function clazz ?ps ?s1 = Ret ?f s2" "p_nodes s2 = p_nodes s" "p_blocks s2 = p_blocks s" "p_dead s2 = p_dead s \<and> p_freed s2 = p_freed s"
    "m_tokens s2 = m_tokens s" "m_pos s2 = m_pos s + Suc (Suc ?i)" "p_funcs s2 = p_funcs s @ [(?f, ?fn)]"
    by (rule new_function_step [where s = ?s1 and clazz = clazz and ts = ?ps]) (simp add: skip_def)
  have ah3: "ahead (tk TOK_BRACE_LEFT # spell_stmts tk ss @ ts) s2" using ah2 s2(5,6) by (simp add: ahead_def)
  let ?s3 = "skip (Suc 0) s2"
  have ah4: "ahead (spell_stmts tk ss @ ts) ?s3" by (rule ahead_tl [OF ah3 moved_skip1])
  have "lively ?s3" using dead s2(2,4) by (simp add: lively_def alive_def)
  from well_formed_reads [OF tk wf, unfolded reads_block_def, rule_format, OF ah4 m(3) this, of pe ?f] s2(3) obtain u where
    u: "parseCodeBlock (Suc m) pe ?f ?s3 = Ret ?b u" "blocked (block_of ss) ?j ?s3 u" by auto
  obtain g vs xs cs where "goes ?k ?b ?b vs xs cs ?j (with_block g ?s3) u"
    and B: "block (above ?k u) (blocks_of u) ?b (length (p_blocks u)) (block_of ss)" and r: "room ?s3 + block_depth (block_of ss) \<le> room u"
    using u(2) s2(2,3) by (auto simp: blocked_def)
  note G = goesD [OF this(1)]
  let ?v = "int (length ps) + 1"
  have "agrees (blocks_of u) ?b (length (p_blocks u)) u" by (simp add: agrees_def)
  with stands_numbered(3) [OF B] obtain w where
    w: "number_block (Suc (length (p_blocks u))) ?v ?b u = Ret (m_maxVarId (setStartingVarId ?v (block_of ss))) w"
    "renumbered ?b (length (p_blocks u)) u w" "block (above ?k u) (blocks_of w) ?b (length (p_blocks u)) (setStartingVarId ?v (block_of ss))"
    unfolding numbers_block_def by (meson Suc_leD diff_le_self le_SucI)
  note R = renumbered_sel [OF w(2)]
  have "setStartingVarIds ?v ?b u = Ret () w"
    using w(1) by (simp add: setStartingVarIds_def reads_def step_simps(2,3) del: number_block.simps)
  note ids = this
  have "p_funcs w = p_funcs s @ [(?f, ?fn)]" using R G(3) s2(7) by (simp add: skip_def)
  from updFunction_new [OF this new, where g = "\<lambda>k. k\<lparr>f_code := Some ?b\<rparr>"] obtain t where
    t: "updFunction ?f (\<lambda>k. k\<lparr>f_code := Some ?b\<rparr>) w = Ret () t" "map_of (p_funcs t) ?f = Some (?fn\<lparr>f_code := Some ?b\<rparr>)"
    "p_nodes t = p_nodes w" "p_blocks t = p_blocks w" "p_dead t = p_dead w \<and> p_freed t = p_freed w" "m_pos t = m_pos w" by blast
  have "parseFunction n pe clazz s = Ret ?f t"
    by (simp add: m(1) parseFunction.simps step_simps(1,2,3) params s2(1) ahead_next [OF ah3] types u(1) ids t(1))
  moreover have "m_pos t = m_pos s + length (spell_function tk ps ss)"
    using t(6) R G(6) s2(6) by (simp add: spell_function_def)
  moreover have "map tok_string ?ps = ps" by (simp add: spell_name_def comp_def)
  moreover have "block_tree (tree_fuel t) t ?b = Some (setStartingVarId ?v (block_of ss))"
  proof (rule stand_trees(3) [OF _ _ _ w(3), rule_format])
    have "clean ?k u" using G(10) s2(2) by simp
    then show "clean ?k t" using t(3) R by (simp add: clean_def)
    have "seen t = seen u" using t(3,5) R by (simp add: seen_def fun_eq_iff)
    then show "above ?k u \<subseteq>\<^sub>m seen t" using above_le(1) by simp
    show "dom (above ?k u) \<subseteq> {?k..}" by (rule above_le)
    show "blocks_of w \<subseteq>\<^sub>m blocks_of t" using t(4,5) by (simp add: map_le_def blocks_of_def)
    show "block_depth (setStartingVarId ?v (block_of ss)) \<le> tree_fuel t"
      using r t(3,4) R by (simp add: depth_numbered room_def tree_fuel_def)
  qed
  ultimately show ?thesis using t(2) by auto
qed

section \<open>A syntax error inside a function literal\<close>

text \<open>
  The parameters and the body of a function that calls \<open>f\<close> with a function literal, the body of
  which, \<open>a;\<close>, is not a statement. The outer function is parsed to its end, but the expressions of
  the literal have been deleted and are still listed in \<open>m_expressions\<close>, which \<open>resolveTypes\<close> follows.
\<close>

fun undefined_outcome :: "'a outcome \<Rightarrow> bool" where
  "undefined_outcome Undefined \<longleftrightarrow> True"
| "undefined_outcome r \<longleftrightarrow> False"

definition dangling_tokens :: "Token list" where
  "dangling_tokens =
    (let tk = (\<lambda>ty. blank_token ty 1); name = (\<lambda>x. (blank_token TOK_IDENTIFIER 1)\<lparr>tok_string := wstr x\<rparr>)
     in [tk TOK_BRACKET_LEFT, tk TOK_BRACKET_RIGHT, tk TOK_BRACE_LEFT, name ''f'', tk TOK_BRACKET_LEFT, tk TOK_FUNCTION,
      tk TOK_BRACKET_LEFT, tk TOK_BRACKET_RIGHT, tk TOK_BRACE_LEFT, name ''a'', tk TOK_SEMICOLON, tk TOK_BRACKET_RIGHT,
      tk TOK_SEMICOLON, tk TOK_BRACE_RIGHT])"

lemma failed_literal_dangles:
  "case parseFunction 30 sample_penv 0 (sample_parser dangling_tokens) of
     Ret f t \<Rightarrow> m_pos t = length dangling_tokens \<and> list_ex (\<lambda>x. x \<in> set (p_dead t)) (m_expressions t) \<and> undefined_outcome (resolveTypes t)
   | _ \<Rightarrow> False"
  by code_simp

end
