(* ===== verification/FunctionText.thy ===== *)
theory FunctionText
  imports SourceText FunctionFacts
begin

text \<open>
  From the bytes of a function's source text to its code block: lexer and parser together, on
  functions of declarations, assignments, calls, \<open>return\<close>, \<open>throw\<close>, \<open>if\<close>, \<open>while\<close>, \<open>for\<close> and \<open>try\<close>.
\<close>

section \<open>Writing a function\<close>

definition write_assign :: "wstring \<Rightarrow> source \<Rightarrow> (byte list \<times> Token) list" where
  "write_assign x e = name_text x # symbol_text TOK_ASSIGN # write_source e"

fun write_stmt :: "stmt \<Rightarrow> (byte list \<times> Token) list"
  and write_stmts :: "stmt list \<Rightarrow> (byte list \<times> Token) list" where
  "write_stmt (Declare x e) = symbol_text TOK_VAR # name_text x #
     (case e of None \<Rightarrow> [] | Some f \<Rightarrow> symbol_text TOK_ASSIGN # write_source f) @ [symbol_text TOK_SEMICOLON]"
| "write_stmt (Assign x e) = name_text x # symbol_text TOK_ASSIGN # write_source e @ [symbol_text TOK_SEMICOLON]"
| "write_stmt (Invoke f es) = write_source (Call f es) @ [symbol_text TOK_SEMICOLON]"
| "write_stmt (Return e) = symbol_text TOK_RETURN # write_source e @ [symbol_text TOK_SEMICOLON]"
| "write_stmt (Throw e) = symbol_text TOK_THROW # write_source e @ [symbol_text TOK_SEMICOLON]"
| "write_stmt (If e a b) = symbol_text TOK_IF # symbol_text TOK_BRACKET_LEFT # write_source e
     @ symbol_text TOK_BRACKET_RIGHT # symbol_text TOK_BRACE_LEFT # write_stmts a
     @ (case b of None \<Rightarrow> [] | Some c \<Rightarrow> symbol_text TOK_ELSE # symbol_text TOK_BRACE_LEFT # write_stmts c)"
| "write_stmt (ElseIf e a s) = symbol_text TOK_IF # symbol_text TOK_BRACKET_LEFT # write_source e
     @ symbol_text TOK_BRACKET_RIGHT # symbol_text TOK_BRACE_LEFT # write_stmts a @ symbol_text TOK_ELSE # write_stmt s"
| "write_stmt (While e a) = symbol_text TOK_WHILE # symbol_text TOK_BRACKET_LEFT # write_source e
     @ symbol_text TOK_BRACKET_RIGHT # symbol_text TOK_BRACE_LEFT # write_stmts a"
| "write_stmt (For x e t y f a) = symbol_text TOK_FOR # symbol_text TOK_BRACKET_LEFT # write_assign x e
     @ symbol_text TOK_SEMICOLON # write_source t @ symbol_text TOK_SEMICOLON # write_assign y f
     @ symbol_text TOK_BRACKET_RIGHT # symbol_text TOK_BRACE_LEFT # write_stmts a"
| "write_stmt (Try a v b) = symbol_text TOK_TRY # symbol_text TOK_BRACE_LEFT # write_stmts a
     @ symbol_text TOK_CATCH # symbol_text TOK_BRACKET_LEFT # name_text v # symbol_text TOK_BRACKET_RIGHT
     # symbol_text TOK_BRACE_LEFT # write_stmts b"
| "write_stmts [] = [symbol_text TOK_BRACE_RIGHT]"
| "write_stmts (s # ss) = write_stmt s @ write_stmts ss"

fun write_names :: "wstring list \<Rightarrow> (byte list \<times> Token) list" where
  "write_names [] = []"
| "write_names (x # xs) = name_text x # (if xs = [] then [] else symbol_text TOK_COMMA # write_names xs)"

definition write_function :: "wstring list \<Rightarrow> stmt list \<Rightarrow> (byte list \<times> Token) list" where
  "write_function ps ss = symbol_text TOK_BRACKET_LEFT # write_names ps
     @ symbol_text TOK_BRACKET_RIGHT # symbol_text TOK_BRACE_LEFT # write_stmts ss"

fun writable_stmt :: "stmt \<Rightarrow> bool" where
  "writable_stmt (Declare x e) \<longleftrightarrow> writable_name x \<and> (case e of None \<Rightarrow> True | Some f \<Rightarrow> writable f)"
| "writable_stmt (Assign x e) \<longleftrightarrow> writable_name x \<and> writable e"
| "writable_stmt (Invoke f es) \<longleftrightarrow> writable (Call f es)"
| "writable_stmt (Return e) \<longleftrightarrow> writable e"
| "writable_stmt (Throw e) \<longleftrightarrow> writable e"
| "writable_stmt (ElseIf e a s) \<longleftrightarrow> writable e \<and> (\<forall>s \<in> set a. writable_stmt s) \<and> writable_stmt s"
| "writable_stmt (For x e t y f a) \<longleftrightarrow> writable_name x \<and> writable e \<and> writable t \<and> writable_name y \<and> writable f
     \<and> (\<forall>s \<in> set a. writable_stmt s)"
| "writable_stmt (Try a v b) \<longleftrightarrow> writable_name v \<and> (\<forall>s \<in> set a. writable_stmt s) \<and> (\<forall>s \<in> set b. writable_stmt s)"
| "writable_stmt (If e a b) \<longleftrightarrow> writable e \<and> (\<forall>s \<in> set a. writable_stmt s)
     \<and> (case b of None \<Rightarrow> True | Some c \<Rightarrow> \<forall>s \<in> set c. writable_stmt s)"
| "writable_stmt (While e a) \<longleftrightarrow> writable e \<and> (\<forall>s \<in> set a. writable_stmt s)"

definition function_text :: "wstring list \<Rightarrow> stmt list \<Rightarrow> byte list" where
  "function_text ps ss = line_of (write_function ps ss)"

section \<open>The written function is lexed as it is spelt\<close>

definition statement_tokens :: "TokenType list" where
  "statement_tokens = [TOK_BRACKET_LEFT, TOK_BRACKET_RIGHT, TOK_SEMICOLON, TOK_COMMA, TOK_VAR, TOK_ASSIGN, TOK_RETURN, TOK_IF, TOK_ELSE,
     TOK_WHILE, TOK_FOR, TOK_TRY, TOK_CATCH, TOK_THROW, TOK_BRACE_LEFT, TOK_BRACE_RIGHT]"

lemma statement_symbols: "list_all (\<lambda>ty. case symbol ty of None \<Rightarrow> False | Some t \<Rightarrow> st_str t \<noteq> [34]) statement_tokens"
  by code_simp

definition lexed :: "(byte list \<times> Token) list \<Rightarrow> bool" where
  "lexed ps \<longleftrightarrow> (\<forall>p \<in> set ps. lexeme (fst p) (snd p))"

lemma lexed_simps [simp]: "lexed []" "lexed (p # ps) \<longleftrightarrow> lexeme (fst p) (snd p) \<and> lexed ps" "lexed (ps @ qs) \<longleftrightarrow> lexed ps \<and> lexed qs"
  by (auto simp: lexed_def)

lemma symbol_lexed: "ty \<in> set statement_tokens \<Longrightarrow> lexeme (fst (symbol_text ty)) (snd (symbol_text ty))"
  using statement_symbols symbol_lexeme [of ty] unfolding list_all_iff by (force split: option.splits)

lemma symbol_lexed' [simp]: "ty \<in> set statement_tokens \<Longrightarrow> lexeme (fst (symbol_text ty)) (on_line ty)"
  using symbol_lexed [of ty] by (simp add: symbol_text_def)

lemma name_lexed [simp]: "writable_name x \<Longrightarrow> lexeme (fst (name_text x)) (spell_name on_line x)"
  using name_lexeme [of x] by (simp add: name_text_def spell_name_def)

lemma source_lexed: "well_spelt e \<Longrightarrow> writable e \<Longrightarrow> lexed (write_source e)"
  using write_lexemes(1) by (simp add: lexed_def)

lemma name_text_snd [simp]: "snd (name_text x) = spell_name on_line x" "snd (symbol_text ty) = on_line ty"
  by (simp_all add: name_text_def symbol_text_def spell_name_def)

lemma write_stmt_spell:
  "map snd (write_stmt s) = spell_stmt on_line s" "map snd (write_stmts ss) = spell_stmts on_line ss"
proof (induction s and ss rule: write_stmt_write_stmts.induct)
  case (3 f es)
  show ?case using write_spell(1) [of "Call f es"] by (simp del: write_source.simps spell.simps)
qed (simp_all add: write_spell write_assign_def spell_assign_def split: option.split)

lemma write_function_spell: "map snd (write_function ps ss) = spell_function on_line ps ss"
proof -
  have "map snd (write_names ps) = spell_names on_line ps" by (induction ps) simp_all
  then show ?thesis by (simp add: write_function_def spell_function_def write_stmt_spell)
qed

lemma write_stmt_lexed:
  "well_formed s \<Longrightarrow> writable_stmt s \<Longrightarrow> lexed (write_stmt s)"
  "\<forall>s \<in> set ss. well_formed s \<and> writable_stmt s \<Longrightarrow> lexed (write_stmts ss)"
proof (induction s and ss rule: write_stmt_write_stmts.induct)
  case (3 f es)
  then have "lexed (write_source (Call f es))" by (intro source_lexed) simp_all
  then show ?case by (simp add: statement_tokens_def del: write_source.simps)
qed (auto simp: statement_tokens_def write_assign_def source_lexed split: option.splits)

lemma write_function_lexed:
  assumes "\<forall>x \<in> set ps. writable_name x" and "\<forall>s \<in> set ss. well_formed s \<and> writable_stmt s"
  shows "lexed (write_function ps ss)"
proof -
  have "lexed (write_names ps)" using assms(1) by (induction ps) (simp_all add: statement_tokens_def)
  then show ?thesis using write_stmt_lexed(2) [OF assms(2)] by (simp add: write_function_def statement_tokens_def)
qed

section \<open>Properties\<close>

text \<open>C11: from text to code block. For every function of declarations, assignments, calls, \<open>return\<close>,
  \<open>throw\<close>, \<open>if\<close> with or without \<open>else\<close> and \<open>else if\<close>, \<open>while\<close>, \<open>for\<close> and \<open>try\<close>, nested at will, over
  bracketed expressions, written with a space behind each word: the lexer returns its tokens;
  \<open>parseFunction\<close> reads all of them and makes a function with these parameters whose code block is the
  one that was written, its variables numbered from behind the arguments, those of a nested block
  behind those of its enclosing block, and those of siblings alike.\<close>

theorem function_text_parses:
  assumes "\<forall>x \<in> set ps. writable_name x" and "\<forall>s \<in> set ss. well_formed s \<and> writable_stmt s"
    and "3 * length (spell_function on_line ps ss) \<le> n"
  shows "\<exists>tokens f t k b. lexer (Some (function_text ps ss @ replicate 128 0)) (length (function_text ps ss)) = Inr (True, tokens)
    \<and> parseFunction n pe clazz (new_parser tokens v) = Ret f t \<and> m_pos t = length tokens
    \<and> map_of (p_funcs t) f = Some k \<and> f_args k = ps \<and> f_class k = clazz \<and> \<not> f_static k \<and> f_code k = Some b
    \<and> block_tree (tree_fuel t) t b = Some (setStartingVarId (int (length ps) + 1) (block_of ss))"
proof -
  let ?ws = "write_function ps ss" and ?tokens = "spell_function on_line ps ss"
  have "\<forall>(w, tok) \<in> set ?ws. lexeme w tok"
    using write_function_lexed [OF assms(1,2)] by (simp add: lexed_def case_prod_beta)
  from lexer_reads_words [OF this] have lx: "lexer (Some (function_text ps ss @ replicate 128 0)) (length (function_text ps ss)) =
      Inr (True, ?tokens)"
    by (simp add: function_text_def write_function_spell)
  let ?s = "new_parser ?tokens v"
  have s: "m_pos ?s = 0" "m_tokens ?s = ?tokens" "p_dead ?s = []" "p_freed ?s = []" "p_funcs ?s = []" by (simp_all add: new_parser_def)
  have "\<forall>st \<in> set ss. well_formed st" using assms(2) by simp
  from function_spelt [OF on_line_types this _ _ _ _ assms(3), of ?s "[]" pe clazz] s lx show ?thesis
    by (simp del: setStartingVarId.simps)
qed

text \<open>A loop with a call: \<open>(n) { var i; for (i = 0; (i < n); i = (i + 1)) { var d; f(i); } return i; }\<close>.\<close>

definition sample_stmts :: "stmt list" where
  "sample_stmts = [Declare (wstr ''i'') None,
     For (wstr ''i'') (Number 0) (Binary OPR_LESS_THAN (Name (wstr ''i'')) (Name (wstr ''n'')))
       (wstr ''i'') (Binary OPR_ADD (Name (wstr ''i'')) (Number 1))
       [Declare (wstr ''d'') None, Invoke (wstr ''f'') [Name (wstr ''i'')]],
     Return (Name (wstr ''i''))]"

definition sample_body :: codeblock where
  "sample_body =
    (let i = VarExpression 0 (wstr ''i'') VALUE_UNKNOWN; n = VarExpression 0 (wstr ''n'') VALUE_UNKNOWN;
         oper = (\<lambda>t ot a b. OperationExpression ot (op_desc t ot True True) VALUE_UNKNOWN (Some a) (Some b))
     in CodeBlock 2 4 [wstr ''i'']
       [ForExpression (Some (oper TOK_ASSIGN OPR_SET i (IntegerExpression 0))) (oper TOK_LESS_THAN OPR_LESS_THAN i n)
          (Some (oper TOK_ASSIGN OPR_SET i (oper TOK_PLUS OPR_ADD i (IntegerExpression 1))))
          (CodeBlock 3 4 [wstr ''d''] [CallExpression False 0 (wstr ''f'') [i]]),
        ReturnExpression (Some i)])"

fun spaced :: "byte list list \<Rightarrow> byte list" where
  "spaced [] = [32]"
| "spaced (w # ws) = w @ 32 # spaced ws"

lemma line_of_texts: "line_of ps = spaced (map fst ps)"
  by (induction ps rule: line_of.induct) simp_all

lemma symbol_texts:
  "fst (symbol_text TOK_BRACKET_LEFT) = bytes ''(''" "fst (symbol_text TOK_BRACKET_RIGHT) = bytes '')''"
  "fst (symbol_text TOK_BRACE_LEFT) = bytes ''{''" "fst (symbol_text TOK_BRACE_RIGHT) = bytes ''}''"
  "fst (symbol_text TOK_SEMICOLON) = bytes '';''" "fst (symbol_text TOK_ASSIGN) = bytes ''=''"
  "fst (symbol_text TOK_VAR) = bytes ''var''" "fst (symbol_text TOK_FOR) = bytes ''for''"
  "fst (symbol_text TOK_RETURN) = bytes ''return''" "fst (symbol_text TOK_LESS_THAN) = bytes ''<''"
  "fst (symbol_text TOK_PLUS) = bytes ''+''"
  by code_simp+

lemma sample_names:
  "fst (name_text (wstr ''i'')) = bytes ''i''" "fst (name_text (wstr ''n'')) = bytes ''n''" "fst (name_text (wstr ''d'')) = bytes ''d''"
  "fst (name_text (wstr ''f'')) = bytes ''f''"
  "decimal 0 = bytes ''0''" "decimal (Suc 0) = bytes ''1''"
  by code_simp+

lemma op_token_values: "op_token OPR_LESS_THAN = TOK_LESS_THAN" "op_token OPR_ADD = TOK_PLUS"
  by code_simp+

lemma bytes_append: "spaced (bytes v # ws) = bytes (v @ '' '') @ spaced ws" "bytes v @ bytes w = bytes (v @ w)" "spaced [] = bytes '' ''"
  by (simp_all add: bytes_def)

theorem function_text_parses_witness:
  "\<exists>tokens f t k b. lexer (Some (bytes ''( n ) { var i ; for ( i = 0 ; ( i < n ) ; i = ( i + 1 ) ) { var d ; f ( i ) ; } return i ; }  '' @ replicate 128 0)) 94
      = Inr (True, tokens)
    \<and> parseFunction 130 sample_penv 0 (new_parser tokens (sample_vm [] [] [])) = Ret f t
    \<and> map_of (p_funcs t) f = Some k \<and> f_args k = [wstr ''n''] \<and> f_code k = Some b \<and> block_tree (tree_fuel t) t b = Some sample_body"
proof -
  have written: "function_text [wstr ''n''] sample_stmts
      = bytes ''( n ) { var i ; for ( i = 0 ; ( i < n ) ; i = ( i + 1 ) ) { var d ; f ( i ) ; } return i ; }  ''"
    by (simp add: function_text_def write_function_def write_assign_def sample_stmts_def op_token_values line_of_texts sample_names symbol_texts bytes_append del: spaced.simps)
  have len: "length (bytes ''( n ) { var i ; for ( i = 0 ; ( i < n ) ; i = ( i + 1 ) ) { var d ; f ( i ) ; } return i ; }  '') = 94" by code_simp
  have tree: "setStartingVarId (int (length [wstr ''n'']) + 1) (block_of sample_stmts) = sample_body" by code_simp
  have ok: "\<forall>x \<in> set [wstr ''n'']. writable_name x" "\<forall>s \<in> set sample_stmts. well_formed s \<and> writable_stmt s"
    "3 * length (spell_function on_line [wstr ''n''] sample_stmts) \<le> 130"
    by code_simp+
  from function_text_parses [OF ok, of sample_penv 0 "sample_vm [] [] []", unfolded written len tree]
  show ?thesis by blast
qed

end
