(* ===== verification/Listing.thy ===== *)
theory Listing
  imports Linker Parser Sample
begin

text \<open>
  Programs as text: \<open>toString\<close> of expressions (src/libb0rk/expression.cpp) and of code blocks
  (src/libb0rk/codeblock.cpp), and the listing \<open>Disassembler::disassemble\<close>
  (src/libb0rk/disassembler.cpp) writes.
\<close>

section \<open>Numbers\<close>

text \<open>\<open>%lld\<close>, \<open>%llx\<close>, \<open>%04x\<close> and \<open>%0.5f\<close>.\<close>

definition fmt_lld :: "u64 \<Rightarrow> wstring" where
  "fmt_lld w = (if sint w < 0 then 45 # dec_digits (- sint w) else dec_digits (sint w))"

definition fmt_llx :: "u64 \<Rightarrow> wstring" where
  "fmt_llx w = (if w = 0 then [48] else hex_digits w)"

definition fmt_04x :: "nat \<Rightarrow> wstring" where
  "fmt_04x n = (let ds = fmt_llx (of_nat n) in replicate (4 - length ds) 48 @ ds)"

text \<open>\<open>m * 2 ^ e * 10 ^ 5\<close>, rounded to an integer, ties to even.\<close>

definition fmt_5f :: "u64 \<Rightarrow> wstring" where
  "fmt_5f w =
     (case d_decode w of
        DNaN \<Rightarrow> (if d_sign w then wstr ''-nan'' else wstr ''nan'')
      | DInf s \<Rightarrow> (if s then wstr ''-inf'' else wstr ''inf'')
      | DFin s m e \<Rightarrow>
          let h = (if 0 \<le> e then m * 10 ^ 5 * 2 ^ nat e else round_shift (m * 10 ^ 5) (nat (- e)))
          in (if s then [45] else []) @ dec_digits (h div 10 ^ 5) @ [46]
             @ map (\<lambda>k. digit_char (h div 10 ^ k mod 10)) [4, 3, 2, 1, 0])"

section \<open>Expressions\<close>

text \<open>The operators without a case of their own print as \<open>?OP?\<close>.\<close>

fun op_name :: "OpType \<Rightarrow> string" where
  "op_name OPR_SET = ''SET''"
| "op_name OPR_ADD = ''ADD''"
| "op_name OPR_SUB = ''SUB''"
| "op_name OPR_MULTIPLY = ''MULTIPLY''"
| "op_name OPR_LOGICAL_AND = ''LOGICAL_AND''"
| "op_name OPR_INCREMENT = ''INCREMENT''"
| "op_name OPR_LESS_THAN = ''LESS_THAN''"
| "op_name OPR_REFERENCE = ''REFERENCE''"
| "op_name OPR_NOT = ''NOT''"
| "op_name _ = ''?OP?''"

fun type_name :: "ValueType \<Rightarrow> string" where
  "type_name VALUE_UNKNOWN = ''UNKNOWN''"
| "type_name VALUE_VOID = ''VOID''"
| "type_name VALUE_OBJECT = ''OBJECT''"
| "type_name VALUE_POINTER = ''POINTER''"
| "type_name VALUE_INTEGER = ''INTEGER''"
| "type_name VALUE_DOUBLE = ''DOUBLE''"
| "type_name VALUE_FRAME = ''FRAME''"

text \<open>One \<open>toString\<close> per subclass, over the texts of its members; a null member is \<open>None\<close>.\<close>

definition call_text :: "wstring \<Rightarrow> wstring \<Rightarrow> wstring" where
  "call_text function args = wstr ''CALL '' @ function @ wstr ''('' @ args @ wstr '')''"

definition new_text :: "wstring list \<Rightarrow> wstring \<Rightarrow> wstring" where
  "new_text clazz args = wstr ''NEW '' @ identifier_string clazz @ wstr ''('' @ args @ wstr '')''"

definition oper_text :: "OpType \<Rightarrow> ValueType \<Rightarrow> wstring option \<Rightarrow> wstring option \<Rightarrow> wstring" where
  "oper_text operType valueType left right =
     wstr ''{'' @ wstr (op_name operType) @ wstr ''-'' @ wstr (type_name valueType) @ wstr '':''
     @ (case left of None \<Rightarrow> [] | Some l \<Rightarrow> l)
     @ (case right of None \<Rightarrow> [] | Some r \<Rightarrow> wstr '','' @ r) @ wstr ''}''"

definition if_text :: "wstring option \<Rightarrow> wstring option \<Rightarrow> wstring option \<Rightarrow> wstring" where
  "if_text test trueBlock falseBlock =
     wstr ''IF ('' @ (case test of None \<Rightarrow> [] | Some t \<Rightarrow> t) @ wstr '') {''
     @ (case trueBlock of None \<Rightarrow> [] | Some b \<Rightarrow> b) @ wstr ''}''
     @ (case falseBlock of None \<Rightarrow> [] | Some b \<Rightarrow> wstr '' ELSE {'' @ b @ wstr ''}'')"

definition for_text :: "wstring option \<Rightarrow> wstring option \<Rightarrow> wstring option \<Rightarrow> wstring \<Rightarrow> wstring" where
  "for_text init test inc body =
     wstr ''FOR ('' @ (case init of None \<Rightarrow> [] | Some i \<Rightarrow> i) @ wstr '' ; ''
     @ (case test of None \<Rightarrow> [] | Some t \<Rightarrow> t) @ wstr '' ; ''
     @ (case inc of None \<Rightarrow> [] | Some i \<Rightarrow> i) @ wstr '' )  {'' @ body @ wstr '' }''"

definition return_text :: "wstring option \<Rightarrow> wstring" where
  "return_text returnValue =
     wstr ''{RETURN'' @ (case returnValue of None \<Rightarrow> [] | Some v \<Rightarrow> wstr '':'' @ v) @ wstr ''}''"

definition try_text :: "wstring option \<Rightarrow> wstring option \<Rightarrow> wstring" where
  "try_text tryBlock catchBlock =
     wstr ''{TRY:'' @ (case tryBlock of None \<Rightarrow> [] | Some b \<Rightarrow> b) @ wstr '':''
     @ (case catchBlock of None \<Rightarrow> [] | Some b \<Rightarrow> b) @ wstr ''}''"

definition throw_text :: "wstring option \<Rightarrow> wstring" where
  "throw_text throwValue =
     wstr ''{THROW'' @ (case throwValue of None \<Rightarrow> [] | Some v \<Rightarrow> wstr '':'' @ v) @ wstr ''}''"

definition var_text :: "wstring \<Rightarrow> wstring" where
  "var_text var = wstr ''{VAR:'' @ var @ wstr ''}''"

definition array_text :: "wstring \<Rightarrow> wstring \<Rightarrow> wstring" where
  "array_text var index = wstr ''{ARRAY:'' @ var @ wstr ''['' @ c_str index @ wstr '']}''"

definition string_text :: "wstring \<Rightarrow> wstring" where
  "string_text str = [34] @ str @ [34]"

definition integer_text :: "u64 \<Rightarrow> wstring" where
  "integer_text i = wstr ''{INTEGER:'' @ fmt_lld i @ wstr ''}''"

definition function_text :: "ptr \<Rightarrow> wstring" where
  "function_text function = wstr ''{FUNCTION:'' @ fmt_pointer function @ wstr ''}''"

text \<open>\<open>argsToString\<close> and \<open>CodeBlock::toString\<close>.\<close>

fun args_text :: "wstring list \<Rightarrow> wstring" where
  "args_text [] = []"
| "args_text (p # ps) = p @ concat (map (\<lambda>q. wstr '', '' @ q) ps)"

fun block_text :: "wstring list \<Rightarrow> wstring" where
  "block_text [] = []"
| "block_text (e # es) = e @ wstr ''; '' @ block_text es"

fun expr_toString :: "expr \<Rightarrow> wstring"
  and block_toString :: "codeblock \<Rightarrow> wstring" where
  "expr_toString (CallExpression inRef clazz name params) = call_text name (args_text (map expr_toString params))"
| "expr_toString (NewExpression clazz params) = new_text clazz (args_text (map expr_toString params))"
| "expr_toString (OperationExpression ot desc vt l r) = oper_text ot vt (map_option expr_toString l) (map_option expr_toString r)"
| "expr_toString (IfExpression t tb fb) =
     if_text (Some (expr_toString t)) (Some (block_toString tb)) (map_option block_toString fb)"
| "expr_toString (ForExpression i t n body) =
     for_text (map_option expr_toString i) (Some (expr_toString t)) (map_option expr_toString n) (block_toString body)"
| "expr_toString (ReturnExpression v) = return_text (map_option expr_toString v)"
| "expr_toString (TryExpression tb x cb) = try_text (Some (block_toString tb)) (Some (block_toString cb))"
| "expr_toString (ThrowExpression v) = throw_text (Some (expr_toString v))"
| "expr_toString (VarExpression clazz var vt) = var_text var"
| "expr_toString (ArrayExpression clazz var ix) = array_text var (expr_toString ix)"
| "expr_toString (StringExpression str) = string_text str"
| "expr_toString (IntegerExpression i) = integer_text i"
| "expr_toString (DoubleExpression d) = wstr ''DOUBLE''"
| "expr_toString (FunctionExpression f) = function_text f"
| "block_toString (CodeBlock s m vs code) = block_text (map expr_toString code)"

section \<open>The disassembler's listing\<close>

text \<open>
  The text of a piece. \<open>swprintf\<close> into a buffer of 32 (for an object of 128) characters leaves no defined
  content when the text does not fit.
\<close>

definition in_32 :: "wstring \<Rightarrow> wstring option" where
  "in_32 s = (if length s < 32 then Some s else None)"

fun piece_text :: "Runtime \<Rightarrow> piece \<Rightarrow> wstring option" where
  "piece_text r (Literal c) = Some (wstr [c])"
| "piece_text r (Dec w) = in_32 (fmt_lld w)"
| "piece_text r (Hex w) = in_32 (fmt_llx w)"
| "piece_text r (Flt w) = in_32 (fmt_5f w)"
| "piece_text r (ClassName p) = map_option cl_name (rt_class r p)"
| "piece_text r (FunName p) = do { f \<leftarrow> rt_func r p; getFullName (rt_class r) f }"
| "piece_text r (ObjRef p) = do {
     ob \<leftarrow> deref r p;
     c \<leftarrow> rt_class r (o_class ob);
     in_buffer (wstr ''{OBJECT:'' @ c_str (cl_name c) @ wstr '':'' @ fmt_pointer p @ wstr ''}'') }"

definition line_text :: "Runtime \<Rightarrow> nat \<times> string \<times> piece list \<Rightarrow> wstring option" where
  "line_text r l =
     (case l of (pos, name, ps) \<Rightarrow> do {
        output \<leftarrow> map_option_list (piece_text r) ps;
        Some ([9] @ wstr ''0x'' @ fmt_04x pos @ wstr '': '' @ wstr name @ wstr '' '' @ c_str (concat output) @ [10]) })"

text \<open>
  The text handed to \<open>fprintf\<close>, before it turns wide characters into bytes. Without the file nothing is
  looked at.
\<close>

definition disassemble_text :: "Runtime \<Rightarrow> bool \<Rightarrow> AssembledCode \<Rightarrow> (bool \<times> wstring) option" where
  "disassemble_text r opened code =
     (if \<not> opened then Some (False, [])
      else do {
        f \<leftarrow> rt_func r (ac_function code);
        name \<leftarrow> getFullName (rt_class r) f;
        lines \<leftarrow> disassemble code;
        ls \<leftarrow> map_option_list (line_text r) lines;
        Some (True, c_str name @ [58, 10] @ concat ls) })"

section \<open>What the listing says\<close>

lemma digits_rev_length: "0 \<le> v \<Longrightarrow> v < b ^ n \<Longrightarrow> length (digits_rev b v) \<le> n"
proof (induction n arbitrary: v)
  case 0
  then show ?case by (subst digits_rev.simps) simp
next
  case (Suc n)
  show ?case
  proof (cases "v > 0 \<and> b > 1")
    case True
    have "0 \<le> v div b" using True Suc.prems(1) by (simp add: pos_imp_zdiv_nonneg_iff)
    moreover have "v div b < b ^ n"
    proof (rule ccontr)
      assume "\<not> v div b < b ^ n"
      then have "b ^ n * b \<le> v div b * b" using True by (intro mult_right_mono) simp_all
      also have "\<dots> \<le> v" using div_mult_mod_eq [of v b] pos_mod_sign [of b v] True by linarith
      finally show False using Suc.prems(2) by (simp add: mult.commute)
    qed
    ultimately have "v div b < b ^ n" "0 \<le> v div b" by simp_all
    from Suc.IH [OF this(2,1)] True show ?thesis by (subst digits_rev.simps) simp
  next
    case False
    then show ?thesis by (subst digits_rev.simps) auto
  qed
qed

lemma in_32_hex: "in_32 (fmt_llx w) \<noteq> None"
  using digits_rev_length [of "uint w" 16 16] uint_bounded [of w] by (simp add: in_32_def fmt_llx_def hex_digits_def)

lemma in_32_dec: "in_32 (fmt_lld w) \<noteq> None"
  using digits_rev_length [of "sint w" 10 20] digits_rev_length [of "- sint w" 10 20] sint_range64 [of w]
  by (auto simp: in_32_def fmt_lld_def dec_digits_def)

text \<open>
  An instruction prints when the pointers among its arguments point to what the format takes them for
  and its double fits the buffer. A branch prints whatever its target.
\<close>

definition printable :: "Runtime \<Rightarrow> Instruction \<Rightarrow> bool" where
  "printable r i \<longleftrightarrow> (\<exists>ps. pieces (ins_args i) 0 (info_format (getOpcodeInfo (ins_op i))) = Some ps
     \<and> (\<forall>p \<in> set ps. piece_text r p \<noteq> None))"

lemma piece_same:
  assumes "pos + info_args (opcode_info c) \<le> length ws" and "length args = info_args (opcode_info c)"
    and same: "\<forall>j < info_args (opcode_info c). int j \<noteq> info_address (opcode_info c) \<longrightarrow> ws ! (pos + j) = args ! j"
    and "pieces args 0 (info_format (opcode_info c)) = Some ps" and "\<forall>p \<in> set ps. piece_text r p \<noteq> None"
  shows "\<exists>qs. pieces ws (int pos) (info_format (opcode_info c)) = Some qs \<and> (\<forall>p \<in> set qs. piece_text r p \<noteq> None)"
proof -
  have n: "nat (int pos + 1) = Suc pos" by simp
  show ?thesis using assms in_32_hex by (cases c) (auto simp: piece_of_def idx_def All_less_Suc numeral_2_eq_2 n)
qed

lemma map_option_list_all: "\<forall>x \<in> set xs. f x \<noteq> None \<Longrightarrow> map_option_list f xs = Some (map (\<lambda>x. the (f x)) xs)"
  by (induction xs) auto

lemma line_prints:
  assumes "link code = Some ws" and k: "k < length code" and c: "ins_op (code ! k) = opcode_num c" and p: "printable r (code ! k)"
  shows "\<exists>output. line_text r (line_at code ws k) =
    Some ([9] @ wstr ''0x'' @ fmt_04x (address_of code k) @ wstr '': '' @ wstr (info_name (opcode_info c)) @ wstr '' '' @ output @ [10])"
proof -
  let ?a = "address_of code k" and ?i = "code ! k"
  note w = link_words [OF assms(1) k]
  note e = encode_shape [OF w(3)]
  have n: "length (ins_args ?i) = info_args (opcode_info c)" using e(2) c by simp
  have len: "Suc ?a + info_args (opcode_info c) \<le> length ws" using w(2) n by simp
  have same: "\<forall>j < info_args (opcode_info c). int j \<noteq> info_address (opcode_info c) \<longrightarrow> ws ! (Suc ?a + j) = ins_args ?i ! j"
  proof (intro allI impI)
    fix j assume j: "j < info_args (opcode_info c)" "int j \<noteq> info_address (opcode_info c)"
    have "map (\<lambda>j. ws ! (?a + j)) [0..<ins_size ?i] ! Suc j = ws ! (Suc ?a + j)"
      using j(1) n by (simp add: ins_size_def del: upt_Suc)
    with e(3) [of j] j n c show "ws ! (Suc ?a + j) = ins_args ?i ! j" by (simp add: encode_arg_def)
  qed
  from p c obtain ps where "pieces (ins_args ?i) 0 (info_format (opcode_info c)) = Some ps" "\<forall>p \<in> set ps. piece_text r p \<noteq> None"
    by (auto simp: printable_def)
  from piece_same [OF len n same this] obtain qs where q: "pieces ws (int (Suc ?a)) (info_format (opcode_info c)) = Some qs" "\<forall>p \<in> set qs. piece_text r p \<noteq> None"
    by blast
  from map_option_list_all [OF q(2)] show ?thesis
    using q(1) c by (simp add: line_text_def line_at_def)
qed


text \<open>The double nearest to 10 to the 25 has 26 digits, which do not fit: what the listing says then is undefined.\<close>

lemma long_double_has_no_text: "piece_text r (Flt 0x45208B2A2C280291) = None"
  by code_simp

definition listed_function :: Function where
  "listed_function = \<lparr>fn_name = wstr ''f'', fn_static = True, fn_class = 0, fn_args = [], fn_kind = ScriptFunction (CodeBlock 1 1 [] []) None\<rparr>"


end
