(* ===== verification/Collector.thy ===== *)
theory Collector
  imports Heap
begin

text \<open>
  The mark phase of the collector: what it changes, what it reaches, and exactly when it returns.
  \<open>gcMarkObject\<close> does not look whether an object is already marked before it follows its fields,
  so it returns precisely when every path of references from its argument is shorter than the
  stack depth it may use; on a cyclic structure it never does.
\<close>

section \<open>References\<close>

definition refs :: "(ptr \<Rightarrow> bool) \<Rightarrow> Object \<Rightarrow> nat set" where
  "refs valid ob =
     (if o_class ob = 0 then {}
      else {unat (v_object v) | v. v \<in> set (gc_values ob) \<and> v_type v = VALUE_OBJECT \<and> valid (v_object v)})"

definition edges :: "(ptr \<Rightarrow> bool) \<Rightarrow> heap \<Rightarrow> (nat \<times> nat) set" where
  "edges valid h = {(a, b). \<exists>ob. h a = Some ob \<and> b \<in> refs valid ob}"

definition is_marked :: "u64 \<Rightarrow> heap \<Rightarrow> nat \<Rightarrow> bool" where
  "is_marked mark h a \<longleftrightarrow>
     (case h a of Some ob \<Rightarrow> o_gcMark ob = mark \<or> o_gcMark ob = B0RK_GC_EXTERNAL | None \<Rightarrow> False)"

text \<open>Two heaps that differ in marks only, each changed mark being the new one.\<close>

definition remarked :: "u64 \<Rightarrow> heap \<Rightarrow> heap \<Rightarrow> bool" where
  "remarked mark h h' \<longleftrightarrow> (\<forall>a. h' a = h a \<or> h' a = map_option (set_mark mark) (h a))"

lemma set_mark_sel [simp]:
  "o_class (set_mark m ob) = o_class ob" "o_size (set_mark m ob) = o_size ob"
  "o_values (set_mark m ob) = o_values ob" "gc_values (set_mark m ob) = gc_values ob"
  "refs valid (set_mark m ob) = refs valid ob" "set_mark m (set_mark m ob) = set_mark m ob"
  by (auto simp: set_mark_def gc_values_def refs_def)

lemma set_mark_marked:
  "o_gcMark (set_mark m ob) = m \<or> o_gcMark (set_mark m ob) = B0RK_GC_EXTERNAL"
  by (simp add: set_mark_def)

lemma remarked_refl [simp]: "remarked m h h"
  by (simp add: remarked_def)

lemma remarked_trans:
  assumes "remarked m h h'" and "remarked m h' h''"
  shows "remarked m h h''"
  unfolding remarked_def
proof
  fix a
  have "h' a = h a \<or> h' a = map_option (set_mark m) (h a)"
    and "h'' a = h' a \<or> h'' a = map_option (set_mark m) (h' a)"
    using assms by (auto simp: remarked_def)
  then show "h'' a = h a \<or> h'' a = map_option (set_mark m) (h a)"
    by (cases "h a") auto
qed

lemma remarked_mark_at: "h a = Some ob \<Longrightarrow> remarked m h (mark_at m a ob h)"
  by (auto simp: remarked_def mark_at_def)

lemma remarked_edges: "remarked m h h' \<Longrightarrow> edges valid h' = edges valid h"
proof -
  assume r: "remarked m h h'"
  have "(\<exists>ob. h' a = Some ob \<and> b \<in> refs valid ob) \<longleftrightarrow> (\<exists>ob. h a = Some ob \<and> b \<in> refs valid ob)" for a b
  proof -
    from r have "h' a = h a \<or> h' a = map_option (set_mark m) (h a)" by (simp add: remarked_def)
    then show ?thesis by (cases "h a") auto
  qed
  then show ?thesis by (simp add: edges_def)
qed

lemma remarked_dom: "remarked m h h' \<Longrightarrow> dom h' = dom h"
proof -
  assume r: "remarked m h h'"
  have "(h' a = None) = (h a = None)" for a
  proof -
    from r have "h' a = h a \<or> h' a = map_option (set_mark m) (h a)" by (simp add: remarked_def)
    then show ?thesis by (cases "h a") auto
  qed
  then show ?thesis by (auto simp: dom_def)
qed

lemma remarked_marked: "remarked m h h' \<Longrightarrow> is_marked m h a \<Longrightarrow> is_marked m h' a"
proof -
  assume r: "remarked m h h'" and k: "is_marked m h a"
  from k obtain ob where ob: "h a = Some ob" by (auto simp: is_marked_def split: option.splits)
  from r have "h' a = h a \<or> h' a = map_option (set_mark m) (h a)" by (simp add: remarked_def)
  with k ob set_mark_marked [of m ob] show ?thesis by (auto simp: is_marked_def)
qed

lemma remarked_object:
  "remarked m h h' \<Longrightarrow> h a = Some ob \<Longrightarrow>
     \<exists>ob'. h' a = Some ob' \<and> o_class ob' = o_class ob \<and> o_size ob' = o_size ob \<and> o_values ob' = o_values ob"
proof -
  assume r: "remarked m h h'" and "h a = Some ob"
  moreover from r have "h' a = h a \<or> h' a = map_option (set_mark m) (h a)" by (simp add: remarked_def)
  ultimately show ?thesis by auto
qed

section \<open>What marking does\<close>

definition val_target :: "(ptr \<Rightarrow> bool) \<Rightarrow> Value \<Rightarrow> nat option" where
  "val_target valid v =
     (if v_type v = VALUE_OBJECT \<and> valid (v_object v) then Some (unat (v_object v)) else None)"

lemma refs_val_target:
  "o_class ob \<noteq> 0 \<Longrightarrow> b \<in> refs valid ob \<longleftrightarrow> (\<exists>v \<in> set (gc_values ob). val_target valid v = Some b)"
  by (auto simp: refs_def val_target_def)

lemma gcMark_remarked:
  "gcMarkObject d valid mark a h = Some h' \<Longrightarrow> remarked mark h h'"
  "gcMarkValues d valid mark vs h = Some h' \<Longrightarrow> remarked mark h h'"
proof (induction d valid mark a h and d valid mark vs h arbitrary: h' and h'
    rule: gcMarkObject_gcMarkValues.induct)
  case (2 d valid mark a h)
  then obtain ob where ob: "h a = Some ob" by (auto split: option.splits)
  note r1 = remarked_mark_at [of h a ob mark, OF ob]
  show ?case
  proof (cases "o_class ob = 0")
    case True
    with 2(2) ob r1 show ?thesis by auto
  next
    case False
    with 2(2) ob have "gcMarkValues d valid mark (gc_values ob) (mark_at mark a ob h) = Some h'"
      by simp
    with 2(1) [OF ob False] r1 show ?thesis by (blast intro: remarked_trans)
  qed
next
  case (4 d valid mark v vs h)
  then show ?case by (auto split: option.splits if_splits intro: remarked_trans)
qed auto

text \<open>Every object reachable from the argument is marked when marking returns.\<close>

lemma gcMark_reach:
  "gcMarkObject d valid mark a h = Some h' \<Longrightarrow> (a, b) \<in> (edges valid h)\<^sup>* \<Longrightarrow> is_marked mark h' b"
  "gcMarkValues d valid mark vs h = Some h' \<Longrightarrow> v \<in> set vs \<Longrightarrow> val_target valid v = Some a' \<Longrightarrow>
     (a', b) \<in> (edges valid h)\<^sup>* \<Longrightarrow> is_marked mark h' b"
proof (induction d valid mark a h and d valid mark vs h arbitrary: h' b and h' b v a'
    rule: gcMarkObject_gcMarkValues.induct)
  case (2 d valid mark a h)
  then obtain ob where ob: "h a = Some ob" by (auto split: option.splits)
  let ?h1 = "mark_at mark a ob h"
  have r1: "remarked mark h ?h1" using ob by (rule remarked_mark_at)
  have m1: "is_marked mark ?h1 a" using set_mark_marked [of mark ob] by (simp add: is_marked_def mark_at_def)
  show ?case
  proof (cases "o_class ob = 0")
    case True
    with ob have "\<nexists>c. (a, c) \<in> edges valid h" by (auto simp: edges_def refs_def)
    with 2(3) have "b = a" by (auto elim: converse_rtranclE)
    with 2(2) ob True m1 show ?thesis by simp
  next
    case False
    with 2(2) ob have vals: "gcMarkValues d valid mark (gc_values ob) ?h1 = Some h'" by simp
    from 2(3) show ?thesis
    proof (cases rule: converse_rtranclE)
      case base
      with m1 gcMark_remarked(2) [OF vals] show ?thesis by (auto intro: remarked_marked)
    next
      case (step c)
      with ob False obtain v where "v \<in> set (gc_values ob)" "val_target valid v = Some c"
        by (auto simp: edges_def refs_val_target)
      with 2(1) [OF ob False vals] step(2) remarked_edges [OF r1] show ?thesis by simp
    qed
  qed
next
  case (4 d valid mark w vs h)
  show ?case
  proof (cases "val_target valid w")
    case None
    then have g: "\<not> (v_type w = VALUE_OBJECT \<and> valid (v_object w))"
      by (auto simp: val_target_def split: if_splits)
    with 4 None show ?thesis by auto
  next
    case (Some c)
    then have g: "v_type w = VALUE_OBJECT \<and> valid (v_object w)" and c: "c = unat (v_object w)"
      by (auto simp: val_target_def split: if_splits)
    with 4(4) obtain h1 where h1: "gcMarkObject d valid mark c h = Some h1"
      "gcMarkValues d valid mark vs h1 = Some h'" by (auto split: option.splits)
    note r1 = gcMark_remarked(1) [OF h1(1)]
    show ?thesis
    proof (cases "v \<in> set vs")
      case True
      with 4(2) [OF g] h1 c 4(6,7) remarked_edges [OF r1] show ?thesis by auto
    next
      case False
      with 4(5,6) Some have "a' = c" by auto
      with 4(1) [OF g] h1(1) c 4(7) have "is_marked mark h1 b" by auto
      with gcMark_remarked(2) [OF h1(2)] show ?thesis by (rule remarked_marked)
    qed
  qed
qed auto

section \<open>When marking returns\<close>

text \<open>The pairs \<open>(n, b)\<close> for which \<open>b\<close> is at the end of a path of \<open>n\<close> references from \<open>a\<close>.\<close>

definition paths :: "(ptr \<Rightarrow> bool) \<Rightarrow> heap \<Rightarrow> nat \<Rightarrow> (nat \<times> nat) set" where
  "paths valid h a = {(n, b). (a, b) \<in> edges valid h ^^ n}"

lemma paths_remarked: "remarked m h h' \<Longrightarrow> paths valid h' a = paths valid h a"
  by (simp add: paths_def remarked_edges)

lemma paths_unfold:
  "paths valid h a \<subseteq> {..<Suc d} \<times> dom h \<longleftrightarrow>
     a \<in> dom h \<and> (\<forall>c. (a, c) \<in> edges valid h \<longrightarrow> paths valid h c \<subseteq> {..<d} \<times> dom h)"
  (is "?L \<longleftrightarrow> ?R")
proof
  assume L: ?L
  have "(0, a) \<in> paths valid h a" by (simp add: paths_def)
  with L have "a \<in> dom h" by auto
  moreover have "paths valid h c \<subseteq> {..<d} \<times> dom h" if "(a, c) \<in> edges valid h" for c
  proof
    fix p assume "p \<in> paths valid h c"
    then obtain n b where p: "p = (n, b)" and "(c, b) \<in> edges valid h ^^ n" by (auto simp: paths_def)
    with that have "(a, b) \<in> edges valid h ^^ Suc n" by (blast intro: relpow_Suc_I2)
    then have "(Suc n, b) \<in> paths valid h a" by (simp add: paths_def)
    with L p show "p \<in> {..<d} \<times> dom h" by auto
  qed
  ultimately show ?R by simp
next
  assume R: ?R
  show ?L
  proof
    fix p assume "p \<in> paths valid h a"
    then obtain n b where p: "p = (n, b)" and e: "(a, b) \<in> edges valid h ^^ n" by (auto simp: paths_def)
    show "p \<in> {..<Suc d} \<times> dom h"
    proof (cases n)
      case 0
      with e p R show ?thesis by simp
    next
      case (Suc k)
      with e obtain c where "(a, c) \<in> edges valid h" and "(c, b) \<in> edges valid h ^^ k"
        by (metis relpow_Suc_D2)
      with R have "(k, b) \<in> {..<d} \<times> dom h" by (auto simp: paths_def)
      with p Suc show ?thesis by simp
    qed
  qed
qed

lemma gcMark_returns:
  "gcMarkObject d valid mark a h \<noteq> None \<longleftrightarrow> paths valid h a \<subseteq> {..<d} \<times> dom h"
  "gcMarkValues d valid mark vs h \<noteq> None \<longleftrightarrow>
     (\<forall>v \<in> set vs. \<forall>c. val_target valid v = Some c \<longrightarrow> paths valid h c \<subseteq> {..<d} \<times> dom h)"
proof (induction d valid mark a h and d valid mark vs h rule: gcMarkObject_gcMarkValues.induct)
  case (1 valid mark a h)
  have "(0, a) \<in> paths valid h a" by (simp add: paths_def)
  then show ?case by auto
next
  case (2 d valid mark a h)
  show ?case
  proof (cases "h a")
    case None
    then show ?thesis by (simp add: paths_unfold domIff)
  next
    case (Some ob)
    note r1 = remarked_mark_at [of h a ob mark, OF Some]
    show ?thesis
    proof (cases "o_class ob = 0")
      case True
      with Some show ?thesis by (auto simp: paths_unfold edges_def refs_def)
    next
      case False
      then have edge: "(a, c) \<in> edges valid h \<longleftrightarrow> (\<exists>v \<in> set (gc_values ob). val_target valid v = Some c)" for c
        using Some by (simp add: edges_def refs_val_target)
      have "gcMarkObject (Suc d) valid mark a h \<noteq> None \<longleftrightarrow>
          gcMarkValues d valid mark (gc_values ob) (mark_at mark a ob h) \<noteq> None"
        using Some False by simp
      also have "\<dots> \<longleftrightarrow> (\<forall>v \<in> set (gc_values ob). \<forall>c. val_target valid v = Some c \<longrightarrow>
          paths valid h c \<subseteq> {..<d} \<times> dom h)"
        using 2 [OF Some False] by (simp only: paths_remarked [OF r1] remarked_dom [OF r1])
      also have "\<dots> \<longleftrightarrow> paths valid h a \<subseteq> {..<Suc d} \<times> dom h"
        using Some by (simp only: paths_unfold edge domIff) blast
      finally show ?thesis .
    qed
  qed
next
  case (4 d valid mark w vs h)
  show ?case
  proof (cases "val_target valid w")
    case None
    then have g: "\<not> (v_type w = VALUE_OBJECT \<and> valid (v_object w))"
      by (auto simp: val_target_def split: if_splits)
    with 4(3) [OF g] None show ?thesis by auto
  next
    case (Some c)
    then have g: "v_type w = VALUE_OBJECT \<and> valid (v_object w)" and c: "c = unat (v_object w)"
      by (auto simp: val_target_def split: if_splits)
    show ?thesis
    proof (cases "gcMarkObject d valid mark c h")
      case None
      with 4(1) [OF g] g c Some show ?thesis by auto
    next
      case h1: (Some h1)
      then have r1: "remarked mark h h1" by (rule gcMark_remarked)
      from h1 4(1) [OF g] 4(2) [OF g] c g Some show ?thesis
        by (auto simp: paths_remarked [OF r1] remarked_dom [OF r1])
    qed
  qed
qed auto

lemma cycle_paths: "(a, a) \<in> (edges valid h)\<^sup>+ \<Longrightarrow> \<exists>n \<ge> k. (n, a) \<in> paths valid h a"
proof (induction k)
  case 0
  then show ?case by (auto simp: paths_def intro: exI [of _ 0])
next
  case (Suc k)
  from Suc(2) obtain m where m: "m > 0" "(a, a) \<in> edges valid h ^^ m" by (auto simp: trancl_power)
  from Suc obtain n where n: "n \<ge> k" "(a, a) \<in> edges valid h ^^ n" by (auto simp: paths_def)
  from m n have "(a, a) \<in> edges valid h ^^ (m + n)" by (auto simp: relpow_add)
  with m n show ?case by (auto simp: paths_def intro!: exI [of _ "m + n"])
qed

section \<open>Properties\<close>

text \<open>C4: exactly when the recursive marking of \<open>Runtime::gcMarkObject\<close> returns. With room for \<open>d\<close>
  nested calls it returns if and only if every path of references that starts at the object is
  shorter than \<open>d\<close> and leads to allocated blocks only.\<close>

theorem gcMarkObject_returns_iff:
  "(gcMarkObject d valid mark a h \<noteq> None) = (paths valid h a \<subseteq> {..<d} \<times> dom h)"
  by (rule gcMark_returns)

text \<open>The collector overflows the C stack on cyclic data, whatever the size of that stack: an
  object that can reach itself is never marked, because the code does not test the mark before it
  follows the fields.\<close>

theorem gcMarkObject_cycle_diverges:
  assumes "(a, a) \<in> (edges valid h)\<^sup>+"
  shows "gcMarkObject d valid mark a h = None"
proof -
  from cycle_paths [OF assms, of d] have "\<not> paths valid h a \<subseteq> {..<d} \<times> dom h" by auto
  with gcMark_returns(1) [of d valid mark a h] show ?thesis by auto
qed

definition self_object :: Object where
  "self_object = \<lparr>o_class = 1, o_size = 40, o_gcMark = 0, o_values = [mk_object 64]\<rparr>"

lemma gcMarkObject_cycle_diverges_witness:
  "gcMarkObject 1000 (\<lambda>_. True) 7 64 [64 \<mapsto> self_object] = None"
proof (rule gcMarkObject_cycle_diverges)
  show "(64, 64) \<in> (edges (\<lambda>_. True) [64 \<mapsto> self_object])\<^sup>+"
    by (rule r_into_trancl)
       (simp add: edges_def refs_def self_object_def gc_values_def sizeof_Object_def sizeof_Value_def)
qed

text \<open>C5: marking is complete and changes nothing else. When \<open>gcMarkObject\<close> returns, every object
  that a path of references from its argument reaches carries the new mark (or is pinned as
  external), every block keeps its class, size and values, and only marks changed.\<close>

theorem gcMarkObject_marks_reachable:
  assumes "gcMarkObject d valid mark a h = Some h'"
  shows "{b. (a, b) \<in> (edges valid h)\<^sup>*} \<subseteq> Collect (is_marked mark h') \<and> remarked mark h h'"
  using gcMark_reach(1) [OF assms] gcMark_remarked(1) [OF assms] by auto

lemma gcMarkObject_marks_reachable_witness:
  "is_marked 7 (the (gcMarkObject (Suc (Suc 0)) (\<lambda>p. p \<noteq> 0) 7 8
     [8 \<mapsto> self_object, 64 \<mapsto> self_object\<lparr>o_values := [mk_object 0]\<rparr>])) 64"
proof -
  let ?h = "[8 \<mapsto> self_object, 64 \<mapsto> self_object\<lparr>o_values := [mk_object 0]\<rparr>] :: heap"
  let ?v = "\<lambda>p :: ptr. p \<noteq> 0"
  have g: "gc_values self_object = [mk_object 64]"
    "gc_values (self_object\<lparr>o_values := [mk_object 0]\<rparr>) = [mk_object 0]"
    by (simp_all add: self_object_def gc_values_def sizeof_Object_def sizeof_Value_def)
  have "gcMarkObject (Suc (Suc 0)) ?v 7 8 ?h \<noteq> None"
    using g by (simp add: mark_at_def)
  then obtain h' where h': "gcMarkObject (Suc (Suc 0)) ?v 7 8 ?h = Some h'" by auto
  have "(8, 64) \<in> (edges ?v ?h)\<^sup>*"
    using g by (intro r_into_rtrancl) (simp add: edges_def refs_def, simp add: self_object_def)
  with gcMarkObject_marks_reachable [OF h'] h' show ?thesis by auto
qed

end
