(* ===== verification/Arena.thy ===== *)
theory Arena
  imports Collector NativeFacts
begin

text \<open>
  The arena as an allocator (src/libb0rk/runtime.cpp): its blocks tile the memory between its ends,
  its free list holds exactly the free blocks, and allocation and collection keep it so. Seen from
  outside, an allocation adds one object and a collection removes precisely the objects that are
  neither reachable nor pinned. The interface \<open>object_store\<close> is what a client may rely on.
\<close>

section \<open>Tilings\<close>

text \<open>\<open>tiled h p as e\<close>: the blocks at the addresses \<open>as\<close> follow one another from \<open>p\<close> up to \<open>e\<close>.\<close>

fun tiled :: "heap \<Rightarrow> nat \<Rightarrow> nat list \<Rightarrow> nat \<Rightarrow> bool" where
  "tiled h p [] e \<longleftrightarrow> p = e"
| "tiled h p (a # as) e \<longleftrightarrow> a = p \<and>
     (case h p of None \<Rightarrow> False | Some ob \<Rightarrow> sizeof_Object \<le> o_size ob \<and> tiled h (p + o_size ob) as e)"

definition is_free :: "heap \<Rightarrow> nat \<Rightarrow> bool" where
  "is_free h a \<longleftrightarrow> (\<exists>ob. h a = Some ob \<and> o_class ob = 0)"

definition fits :: "Object \<Rightarrow> bool" where
  "fits ob \<longleftrightarrow> o_class ob = 0 \<or> length (o_values ob) = (o_size ob - sizeof_Object) div sizeof_Value"

definition blocks_ok :: "nat \<Rightarrow> nat \<Rightarrow> heap \<Rightarrow> nat list \<Rightarrow> bool" where
  "blocks_ok p e h fl \<longleftrightarrow> (\<exists>as. tiled h p as e \<and> dom h = set as)
     \<and> distinct fl \<and> set fl = {a. is_free h a} \<and> (\<forall>ob \<in> ran h. fits ob)"

definition arena_ok :: "Runtime \<Rightarrow> bool" where
  "arena_ok r \<longleftrightarrow> 0 < arena_start r \<and> arena_start r + arena_size r < 2 ^ 64
     \<and> blocks_ok (arena_start r) (arena_start r + arena_size r) (rt_heap r) (freeList r)"

lemma tiled_bounds: "tiled h p as e \<Longrightarrow> a \<in> set as \<Longrightarrow>
    \<exists>ob. h a = Some ob \<and> p \<le> a \<and> a + o_size ob \<le> e \<and> sizeof_Object \<le> o_size ob"
  and tiled_le: "tiled h p as e \<Longrightarrow> p \<le> e"
  by (induction h p as e arbitrary: rule: tiled.induct)
     (fastforce simp: sizeof_Object_def split: option.splits)+

lemma tiled_apart: "tiled h p as e \<Longrightarrow> a \<in> set as \<Longrightarrow> b \<in> set as \<Longrightarrow> a < b \<Longrightarrow>
    h a = Some ob \<Longrightarrow> a + o_size ob \<le> b"
proof (induction h p as e rule: tiled.induct)
  case (2 h p c as e)
  from 2(2) obtain oc where c: "c = p" "h p = Some oc" "sizeof_Object \<le> o_size oc" "tiled h (p + o_size oc) as e"
    by (auto split: option.splits)
  have le: "p + o_size oc \<le> x" if "x \<in> set as" for x using tiled_bounds [OF c(4) that] by auto
  show ?case
  proof (cases "a = p")
    case True
    with 2(4,5,6) c le show ?thesis by auto
  next
    case False
    with 2(3) c have a: "a \<in> set as" by simp
    with le [OF a] 2(4,5) c have "b \<in> set as" by (auto simp: sizeof_Object_def)
    with 2(1) [OF c(2,4) a] 2(5,6) show ?thesis by simp
  qed
qed simp

lemma tiled_distinct: "tiled h p as e \<Longrightarrow> distinct as"
proof (induction h p as e rule: tiled.induct)
  case (2 h p c as e)
  then obtain oc where c: "c = p" "h p = Some oc" "sizeof_Object \<le> o_size oc" "tiled h (p + o_size oc) as e"
    by (auto split: option.splits)
  with 2(1) [OF c(2,4)] tiled_bounds [OF c(4), of p] show ?case by (auto simp: sizeof_Object_def)
qed simp

text \<open>A tiling only depends on the sizes of its blocks.\<close>

lemma tiled_sizes: "(\<And>a. a \<in> set as \<Longrightarrow> map_option o_size (h' a) = map_option o_size (h a)) \<Longrightarrow>
    tiled h' p as e = tiled h p as e"
proof (induction h p as e rule: tiled.induct)
  case (2 h p a as e)
  show ?case
  proof (cases "a = p \<and> h p \<noteq> None")
    case True
    then obtain ob where ob: "h p = Some ob" "a = p" by auto
    with 2(2) [of p] obtain ob' where "h' p = Some ob'" "o_size ob' = o_size ob" by auto
    with ob 2(1) [OF ob(1)] 2(2) show ?thesis by simp
  next
    case False
    with 2(2) [of p] show ?thesis by auto
  qed
qed simp

lemma tiled_append: "tiled h p (as @ bs) e \<longleftrightarrow> (\<exists>m. tiled h p as m \<and> tiled h m bs e)"
  by (induction h p as e rule: tiled.induct) (auto split: option.splits)

lemma tiled_other: "tiled h p as e \<Longrightarrow> (\<And>c. p \<le> c \<Longrightarrow> c < e \<Longrightarrow> h' c = h c) \<Longrightarrow> tiled h' p as e"
proof (subst tiled_sizes [of as h' h])
  fix a assume t: "tiled h p as e" "\<And>c. p \<le> c \<Longrightarrow> c < e \<Longrightarrow> h' c = h c" "a \<in> set as"
  with tiled_bounds [OF t(1,3)] show "map_option o_size (h' a) = map_option o_size (h a)"
    by (auto simp: sizeof_Object_def)
qed

text \<open>Two neighbours become one block, and one block becomes two.\<close>

lemma tiled_join:
  assumes "tiled h p as e" "a \<in> set as" "h a = Some x" "h b = Some y" "b = a + o_size x" "b \<in> set as"
    and "o_size z = o_size x + o_size y"
  shows "tiled (h(b := None, a \<mapsto> z)) p (remove1 b as) e"
  using assms
proof (induction h p as e rule: tiled.induct)
  case (2 h p c as e)
  from 2(2) obtain oc where c: "c = p" "h p = Some oc" "sizeof_Object \<le> o_size oc" "tiled h (p + o_size oc) as e"
    by (auto split: option.splits)
  have le: "p + o_size oc \<le> i" if "i \<in> set as" for i using tiled_bounds [OF c(4) that] by auto
  show ?case
  proof (cases "a = p")
    case True
    with 2 c have x: "oc = x" "b = p + o_size x" "b \<in> set as" by (auto simp: sizeof_Object_def)
    with c obtain bs where bs: "as = b # bs" "tiled h (b + o_size y) bs e" "sizeof_Object \<le> o_size y"
      using 2(5) by (cases as) (auto split: option.splits)
    have "tiled (h(b := None, a \<mapsto> z)) (b + o_size y) bs e"
      by (rule tiled_other [OF bs(2)]) (use x True bs(3) in \<open>auto simp: sizeof_Object_def\<close>)
    moreover have "(h(b := None, a \<mapsto> z)) p = Some z" using True by simp
    moreover have "p + o_size z = b + o_size y" "sizeof_Object \<le> o_size z" using x 2(8) bs(3) by auto
    moreover have "0 < o_size x" using x c(3) by (simp add: sizeof_Object_def)
    ultimately show ?thesis using bs(1) c(1) x True by (simp add: add.assoc del: fun_upd_apply)
  next
    case False
    with 2(3) c have a: "a \<in> set as" by simp
    with le [OF a] 2(6) c have "b \<noteq> p" by (auto simp: sizeof_Object_def)
    with 2(7) c have b: "b \<in> set as" by simp
    from \<open>b \<noteq> p\<close> False c 2(1) [OF c(2,4) a 2(4,5,6) b 2(8)] show ?thesis by simp
  qed
qed simp

lemma tiled_split:
  assumes "tiled h p as e" "a \<in> set as" "h a = Some x"
    and "sizeof_Object \<le> o_size y" "sizeof_Object \<le> o_size z" "o_size x = o_size y + o_size z"
  shows "\<exists>bs. tiled (h(a + o_size y \<mapsto> z, a \<mapsto> y)) p bs e \<and> set bs = insert (a + o_size y) (set as)"
proof -
  from split_list [OF assms(2)] obtain us vs where as: "as = us @ a # vs" by blast
  with assms(1,3) have t: "tiled h p us a" "tiled h (a + o_size x) vs e"
    by (auto simp: tiled_append)
  let ?h = "h(a + o_size y \<mapsto> z, a \<mapsto> y)"
  have "tiled ?h p us a" by (rule tiled_other [OF t(1)]) simp
  moreover have "tiled ?h (a + o_size x) vs e"
    by (rule tiled_other [OF t(2)]) (use assms(4-) in \<open>auto simp: sizeof_Object_def\<close>)
  ultimately have "tiled ?h p (us @ a # (a + o_size y) # vs) e"
    using assms(4-) by (auto simp: tiled_append sizeof_Object_def add.assoc)
  with as show ?thesis by (intro exI [of _ "us @ a # (a + o_size y) # vs"]) auto
qed

section \<open>Sweeping\<close>

definition dead :: "u64 \<Rightarrow> Object \<Rightarrow> bool" where
  "dead mark ob \<longleftrightarrow> o_class ob \<noteq> 0 \<and> o_gcMark ob \<noteq> mark \<and> o_gcMark ob \<noteq> B0RK_GC_EXTERNAL"

definition swept :: "u64 \<Rightarrow> nat set \<Rightarrow> heap \<Rightarrow> heap" where
  "swept mark A h = (\<lambda>a. if a \<in> A then map_option (\<lambda>ob. if dead mark ob then free_block ob else ob) (h a) else h a)"

definition dead_at :: "u64 \<Rightarrow> heap \<Rightarrow> nat \<Rightarrow> bool" where
  "dead_at mark h a \<longleftrightarrow> (case h a of None \<Rightarrow> False | Some ob \<Rightarrow> dead mark ob)"

text \<open>What the collector leaves alone.\<close>

definition outside_heap :: "Runtime \<Rightarrow> Runtime" where
  "outside_heap r = r\<lparr>rt_heap := Map.empty, freeList := [], currentObjects := 0, currentBytes := 0, collectedObjects := 0\<rparr>"

lemma swept_split:
  assumes "p \<notin> A" and "h p = Some ob"
  shows "swept mark (insert p A) h = swept mark A (h(p \<mapsto> if dead mark ob then free_block ob else ob))"
  using assms by (auto simp: swept_def fun_eq_iff)

lemma sweep_tiled:
  assumes "tiled (rt_heap r) p as e"
  shows "\<exists>r' n. sweep mark e p (r, k) = Some (r', n) \<and> rt_heap r' = swept mark (set as) (rt_heap r)
    \<and> freeList r' = freeList r @ filter (dead_at mark (rt_heap r)) as \<and> outside_heap r' = outside_heap r"
  using assms
proof (induction as arbitrary: p r k)
  case Nil
  then show ?case by (auto simp: sweep.simps swept_def)
next
  case (Cons a as)
  then obtain ob where ob: "a = p" "rt_heap r p = Some ob" "sizeof_Object \<le> o_size ob" "tiled (rt_heap r) (p + o_size ob) as e"
    by (auto split: option.splits)
  have pe: "p < e" "o_size ob \<noteq> 0" using tiled_le [OF ob(4)] ob(3) by (auto simp: sizeof_Object_def)
  have na: "p \<notin> set as" using tiled_bounds [OF ob(4), of p] ob(3) by (auto simp: sizeof_Object_def)
  define r1 where "r1 = (if o_class ob = 0 then r else if dead mark ob
     then r\<lparr>collectedObjects := collectedObjects r + 1, rt_heap := (rt_heap r)(p \<mapsto> free_block ob), freeList := freeList r @ [p]\<rparr>
     else r\<lparr>currentObjects := currentObjects r + 1, currentBytes := currentBytes r + int (o_size ob)\<rparr>)"
  define k1 where "k1 = (if dead mark ob then add_int32 k (o_size ob) else k)"
  have step: "sweep mark e p (r, k) = sweep mark e (p + o_size ob) (r1, k1)"
    using pe ob(2) by (subst sweep.simps) (auto simp: r1_def k1_def dead_def)
  have heap: "rt_heap r1 = (rt_heap r)(p \<mapsto> if dead mark ob then free_block ob else ob)"
    using ob(2) by (auto simp: r1_def dead_def fun_eq_iff)
  have "tiled (rt_heap r1) (p + o_size ob) as e"
    by (rule tiled_other [OF ob(4)]) (use heap ob(3) in \<open>auto simp: sizeof_Object_def\<close>)
  from Cons.IH [OF this, of k1] obtain r' n where IH: "sweep mark e (p + o_size ob) (r1, k1) = Some (r', n)"
    "rt_heap r' = swept mark (set as) (rt_heap r1)" "freeList r' = freeList r1 @ filter (dead_at mark (rt_heap r1)) as"
    "outside_heap r' = outside_heap r1" by blast
  have f: "filter (dead_at mark (rt_heap r1)) as = filter (dead_at mark (rt_heap r)) as"
    using na heap by (intro filter_cong) (auto simp: dead_at_def)
  have dp: "dead_at mark (rt_heap r) p = dead mark ob" using ob(2) by (simp add: dead_at_def)
  have "freeList r1 = freeList r @ (if dead mark ob then [p] else [])" "outside_heap r1 = outside_heap r"
    by (auto simp: r1_def dead_def outside_heap_def)
  then show ?case
    using IH step f swept_split [where h = "rt_heap r" and A = "set as", OF na ob(2), of mark] heap ob(1,2) dp by auto
qed

lemma free_swept: "is_free (swept mark A h) a \<longleftrightarrow> (\<exists>ob. h a = Some ob \<and> (o_class ob = 0 \<or> a \<in> A \<and> dead mark ob))"
  by (cases "h a") (auto simp: is_free_def swept_def free_block_def)

text \<open>After the sweep the free list holds the free blocks again.\<close>

lemma swept_blocks:
  assumes "blocks_ok p e h fl" and "tiled h p as e" and "dom h = set as"
  shows "blocks_ok p e (swept mark (set as) h) (fl @ filter (dead_at mark h) as)"
proof -
  let ?h = "swept mark (set as) h"
  have size: "map_option o_size (?h a) = map_option o_size (h a)" for a
    by (cases "h a") (auto simp: swept_def free_block_def)
  have "tiled ?h p as e" using assms(2) tiled_sizes [of as ?h h p e] size by simp
  moreover have "dom ?h = set as" using assms(3) [symmetric] by (auto simp: swept_def split: if_splits)
  moreover have "distinct (fl @ filter (dead_at mark h) as)"
    using assms tiled_distinct [OF assms(2)] by (auto simp: blocks_ok_def is_free_def dead_at_def dead_def)
  moreover have "set (fl @ filter (dead_at mark h) as) = {a. is_free ?h a}"
  proof (rule set_eqI)
    fix a
    have "h a \<noteq> None \<longleftrightarrow> a \<in> set as" using assms(3) by auto
    then show "a \<in> set (fl @ filter (dead_at mark h) as) \<longleftrightarrow> a \<in> {a. is_free ?h a}"
      using assms(1) by (auto simp: blocks_ok_def free_swept is_free_def [of h] dead_at_def split: option.splits)
  qed
  moreover have "\<forall>ob \<in> ran ?h. fits ob"
    using assms(1) by (fastforce simp: blocks_ok_def ran_def swept_def fits_def free_block_def split: if_splits)
  ultimately show ?thesis unfolding blocks_ok_def by blast
qed

section \<open>Coalescing\<close>

text \<open>The objects of a heap, without their marks: the contents a program can see.\<close>

definition live :: "heap \<Rightarrow> nat \<Rightarrow> (ptr \<times> Value list) option" where
  "live h a = (case h a of None \<Rightarrow> None | Some ob \<Rightarrow> if o_class ob = 0 then None else Some (o_class ob, o_values ob))"

text \<open>The objects the program has pinned.\<close>

definition externals :: "heap \<Rightarrow> nat set" where
  "externals h = {a. \<exists>ob. h a = Some ob \<and> o_class ob \<noteq> 0 \<and> o_gcMark ob = B0RK_GC_EXTERNAL}"

lemma externals_swept: "externals h \<subseteq> externals (swept mark A h)"
  by (auto simp: externals_def swept_def dead_def)

definition adjacent :: "heap \<Rightarrow> nat \<Rightarrow> nat \<Rightarrow> bool" where
  "adjacent h a b \<longleftrightarrow> (\<exists>ob. h a = Some ob \<and> b = a + o_size ob)"

primrec before :: "nat option \<Rightarrow> nat list" where
  "before None = []"
| "before (Some p) = [p]"

lemma successively_before [simp]: "successively P (before prev)"
  by (cases prev) auto

lemma coalesce_once_cases:
  assumes "\<forall>ob \<in> ran h. o_size ob \<noteq> 0" and "distinct fl" and "set fl \<subseteq> dom h" and "0 \<notin> set fl"
    and "case prev of None \<Rightarrow> pe = 0 | Some p \<Rightarrow> adjacent h p pe"
  shows "(coalesce_once h prev pe fl = Some None \<and> successively (\<lambda>a b. \<not> adjacent h a b) (before prev @ fl))
    \<or> (\<exists>p a pb ob. coalesce_once h prev pe fl = Some (Some ((h(a := None))(p \<mapsto> pb\<lparr>o_size := o_size pb + o_size ob\<rparr>), remove1 a fl))
        \<and> p \<in> set (before prev @ fl) \<and> a \<in> set fl \<and> h p = Some pb \<and> h a = Some ob \<and> a = p + o_size pb)"
  using assms
proof (induction h prev pe fl rule: coalesce_once.induct)
  case (2 h prev pe a as)
  from 2(4) obtain ob where ob: "h a = Some ob" by auto
  show ?case
  proof (cases "a = pe")
    case True
    with 2(5,6) obtain p pb where p: "prev = Some p" "h p = Some pb" "a = p + o_size pb"
      by (cases prev) (auto simp: adjacent_def)
    moreover from p(2) 2(2) have "o_size pb \<noteq> 0" by (auto simp: ran_def)
    ultimately show ?thesis using ob True by - (rule disjI2, rule exI [of _ p], rule exI [of _ a], rule exI [of _ pb], rule exI [of _ ob], simp del: fun_upd_apply)
  next
    case False
    have na: "successively (\<lambda>a b. \<not> adjacent h a b) (before prev @ a # as)"
      if "successively (\<lambda>a b. \<not> adjacent h a b) (a # as)"
      using that 2(6) False by (cases prev) (auto simp: adjacent_def)
    have "case Some a of None \<Rightarrow> a + o_size ob = 0 | Some p \<Rightarrow> adjacent h p (a + o_size ob)"
      using ob by (simp add: adjacent_def)
    moreover have "distinct as" "set as \<subseteq> dom h" "0 \<notin> set as" using 2(3-5) by auto
    ultimately consider
        (none) "coalesce_once h (Some a) (a + o_size ob) as = Some None" "successively (\<lambda>a b. \<not> adjacent h a b) (a # as)"
      | (some) p c pb oc where "coalesce_once h (Some a) (a + o_size ob) as =
            Some (Some ((h(c := None))(p \<mapsto> pb\<lparr>o_size := o_size pb + o_size oc\<rparr>), remove1 c as))"
          "p \<in> set (a # as)" "c \<in> set as" "h p = Some pb" "h c = Some oc" "c = p + o_size pb"
      using 2(1) [OF ob False 2(2)] unfolding before.simps append.simps by blast
    then show ?thesis
    proof cases
      case none
      with ob False na show ?thesis by simp
    next
      case some
      with 2(3) have "c \<noteq> a" by auto
      with some False ob show ?thesis
        by - (rule disjI2, rule exI [of _ p], rule exI [of _ c], rule exI [of _ pb], rule exI [of _ oc], auto simp del: fun_upd_apply)
    qed
  qed
qed simp

text \<open>One merge, and then all of them.\<close>

lemma merge_blocks:
  assumes "blocks_ok s e h fl" and "sorted fl" and "p \<in> set fl" and "a \<in> set fl"
    and "h p = Some pb" and "h a = Some ob" and "a = p + o_size pb"
  defines "h' \<equiv> (h(a := None))(p \<mapsto> pb\<lparr>o_size := o_size pb + o_size ob\<rparr>)"
  shows "blocks_ok s e h' (remove1 a fl) \<and> sorted (remove1 a fl) \<and> live h' = live h \<and> externals h' = externals h"
proof -
  from assms(1) obtain as where as: "tiled h s as e" "dom h = set as" "distinct fl" "set fl = {a. is_free h a}"
    "\<forall>ob \<in> ran h. fits ob" by (auto simp: blocks_ok_def)
  have pa: "p \<in> set as" "a \<in> set as" using as(2) assms(5,6) by auto
  then have ne: "a \<noteq> p" using tiled_bounds [OF as(1)] assms(5,7) by (fastforce simp: sizeof_Object_def)
  have free: "o_class pb = 0" "o_class ob = 0" using as(4) assms(3-6) by (auto simp: is_free_def)
  have "tiled h' s (remove1 a as) e"
    unfolding h'_def by (rule tiled_join [OF as(1) pa(1) assms(5,6,7) pa(2)]) simp
  moreover have "dom h' = set (remove1 a as)"
    using as(2) ne pa tiled_distinct [OF as(1)] by (auto simp: h'_def)
  moreover have "set (remove1 a fl) = {a. is_free h' a}"
    using as(3,4) ne free assms(5,6) by (auto simp: h'_def is_free_def)
  moreover have "\<forall>ob \<in> ran h'. fits ob" using as(5) free by (auto simp: h'_def ran_def fits_def)
  moreover have "live h' = live h" using ne free assms(5,6) by (auto simp: h'_def live_def fun_eq_iff)
  moreover have "externals h' = externals h" using ne free assms(5,6) by (auto simp: h'_def externals_def)
  moreover have "distinct (remove1 a fl)" using as(3) by simp
  ultimately show ?thesis using assms(2) sorted_remove1 by (auto simp: blocks_ok_def)
qed

text \<open>Neighbours in the sorted free list that do not touch: no two free blocks touch at all.\<close>

lemma successively_all:
  assumes "blocks_ok s e h fl" and "sorted fl" and "successively (\<lambda>a b. \<not> adjacent h a b) fl"
    and "a \<in> set fl" and "b \<in> set fl"
  shows "\<not> adjacent h a b"
proof
  assume adj: "adjacent h a b"
  then obtain ob where ob: "h a = Some ob" "b = a + o_size ob" by (auto simp: adjacent_def)
  from assms(1) obtain as where as: "tiled h s as e" "dom h = set as" "distinct fl" "set fl \<subseteq> set as"
    by (auto simp: blocks_ok_def is_free_def)
  have "a < b" using tiled_bounds [OF as(1), of a] as(4) assms(4) ob by (auto simp: sizeof_Object_def)
  from split_list [OF assms(4)] obtain us vs where fl: "fl = us @ a # vs" by blast
  with assms(2) \<open>a < b\<close> assms(5) have "b \<in> set vs" by (auto simp: sorted_append)
  then obtain c ws where vs: "vs = c # ws" by (cases vs) auto
  have "a < c" using assms(2) as(3) fl vs by (auto simp: sorted_append order_less_le)
  with tiled_apart [OF as(1), of a c] as(4) fl vs ob have "b \<le> c" by auto
  moreover have "c \<le> b" using assms(2) fl vs \<open>b \<in> set vs\<close> by (auto simp: sorted_append)
  moreover have "\<not> adjacent h a c" using assms(3) fl vs by (simp add: successively_append_iff)
  ultimately show False using adj by auto
qed

lemma coalesce_spec:
  assumes "blocks_ok s e h fl" and "sorted fl" and "0 < s"
  shows "\<exists>h' fl'. coalesce h fl = Some (h', fl') \<and> blocks_ok s e h' fl' \<and> live h' = live h \<and> externals h' = externals h
    \<and> (\<forall>a \<in> set fl'. \<forall>b \<in> set fl'. \<not> adjacent h' a b)"
  using assms(1,2)
proof (induction h fl rule: coalesce.induct)
  case (1 h fl)
  from 1(2) obtain as where as: "tiled h s as e" "dom h = set as" "distinct fl" "set fl = {a. is_free h a}"
    by (auto simp: blocks_ok_def)
  have sz: "\<forall>ob \<in> ran h. o_size ob \<noteq> 0" and z: "0 \<notin> set fl"
    using tiled_bounds [OF as(1)] as(2,4) assms(3) by (fastforce simp: ran_def sizeof_Object_def is_free_def)+
  have "set fl \<subseteq> dom h" using as(4) by (auto simp: is_free_def)
  from coalesce_once_cases [where prev = None and pe = 0, OF sz as(3) this z]
  consider (none) "coalesce_once h None 0 fl = Some None" "successively (\<lambda>a b. \<not> adjacent h a b) fl"
    | (some) p a pb ob where "coalesce_once h None 0 fl =
        Some (Some ((h(a := None))(p \<mapsto> pb\<lparr>o_size := o_size pb + o_size ob\<rparr>), remove1 a fl))"
        "p \<in> set fl" "a \<in> set fl" "h p = Some pb" "h a = Some ob" "a = p + o_size pb"
    unfolding before.simps append.simps option.case by blast
  then show ?case
  proof cases
    case none
    with successively_all [OF 1(2,3) none(2)] 1(2) show ?thesis by (simp add: coalesce.simps)
  next
    case some
    note m = merge_blocks [OF 1(2,3) some(2-6)]
    from 1(1) [OF some(1) refl refl] m show ?thesis
      by (subst coalesce.simps) (simp add: some(1) del: fun_upd_apply)
  qed
qed

section \<open>Collecting\<close>

lemma remarked_at: "remarked m h h' \<Longrightarrow> h' a = h a \<or> h' a = map_option (set_mark m) (h a)"
  by (simp add: remarked_def)

lemma remarked_blocks:
  assumes "remarked m h h'" and "blocks_ok s e h fl"
  shows "blocks_ok s e h' fl \<and> live h' = live h \<and> externals h \<subseteq> externals h'"
proof -
  note at = remarked_at [OF assms(1)]
  have size: "map_option o_size (h' a) = map_option o_size (h a)" for a using at [of a] by (cases "h a") auto
  have "tiled h' p as e = tiled h p as e" for p as by (rule tiled_sizes) (rule size)
  moreover have "is_free h' a = is_free h a" for a using at [of a] by (cases "h a") (auto simp: is_free_def)
  moreover have "(\<forall>ob \<in> ran h'. fits ob) = (\<forall>ob \<in> ran h. fits ob)"
  proof -
    have "(\<forall>ob. h' a = Some ob \<longrightarrow> fits ob) = (\<forall>ob. h a = Some ob \<longrightarrow> fits ob)" for a
      using at [of a] by (cases "h a") (auto simp: fits_def)
    then show ?thesis by (auto simp: ran_def)
  qed
  moreover have "live h' a = live h a" for a using at [of a] by (cases "h a") (auto simp: live_def)
  moreover have "a \<in> externals h'" if "a \<in> externals h" for a
    using at [of a] that by (auto simp: externals_def set_mark_def)
  ultimately show ?thesis using assms(2) remarked_dom [OF assms(1)] by (auto simp: blocks_ok_def)
qed

definition reached :: "(ptr \<Rightarrow> bool) \<Rightarrow> heap \<Rightarrow> Value list \<Rightarrow> nat set" where
  "reached valid h vs = {b. \<exists>v \<in> set vs. \<exists>a. val_target valid v = Some a \<and> (a, b) \<in> (edges valid h)\<^sup>*}"

text \<open>Marking changes nothing but what the roots reach.\<close>

lemma gcMark_only:
  "gcMarkObject d valid mark a h = Some h' \<Longrightarrow> h' b \<noteq> h b \<Longrightarrow> (a, b) \<in> (edges valid h)\<^sup>*"
  "gcMarkValues d valid mark vs h = Some h' \<Longrightarrow> h' b \<noteq> h b \<Longrightarrow> b \<in> reached valid h vs"
proof (induction d valid mark a h and d valid mark vs h arbitrary: h' b and h' b
    rule: gcMarkObject_gcMarkValues.induct)
  case (2 d valid mark a h)
  then obtain ob where ob: "h a = Some ob" by (auto split: option.splits)
  let ?h1 = "mark_at mark a ob h"
  note e = remarked_edges [OF remarked_mark_at [of h a ob mark, OF ob], of valid]
  show ?case
  proof (cases "b = a \<or> o_class ob = 0")
    case True
    with 2(2,3) ob show ?thesis by (auto simp: mark_at_def split: if_splits)
  next
    case False
    with 2(2) ob have "gcMarkValues d valid mark (gc_values ob) ?h1 = Some h'" by simp
    moreover have "h' b \<noteq> ?h1 b" using False 2(3) by (simp add: mark_at_def)
    ultimately have "b \<in> reached valid ?h1 (gc_values ob)" using 2(1) [OF ob] False by blast
    then have "b \<in> reached valid h (gc_values ob)" by (simp only: reached_def e)
    then obtain v c where v: "v \<in> set (gc_values ob)" "val_target valid v = Some c" "(c, b) \<in> (edges valid h)\<^sup>*"
      by (auto simp: reached_def)
    then have "(a, c) \<in> edges valid h" using ob False by (auto simp: edges_def refs_val_target)
    with v(3) show ?thesis by (rule converse_rtrancl_into_rtrancl [rotated])
  qed
next
  case (4 d valid mark w vs h)
  show ?case
  proof (cases "val_target valid w")
    case None
    then have g: "\<not> (v_type w = VALUE_OBJECT \<and> valid (v_object w))"
      by (auto simp: val_target_def split: if_splits)
    with 4 None show ?thesis by (auto simp: reached_def)
  next
    case (Some c)
    then have g: "v_type w = VALUE_OBJECT \<and> valid (v_object w)" and c: "c = unat (v_object w)"
      by (auto simp: val_target_def split: if_splits)
    with 4(4) obtain h1 where h1: "gcMarkObject d valid mark c h = Some h1"
      "gcMarkValues d valid mark vs h1 = Some h'" by (auto split: option.splits)
    note e = remarked_edges [OF gcMark_remarked(1) [OF h1(1)], of valid]
    show ?thesis
    proof (cases "h1 b = h b")
      case True
      with 4(2) [OF g] h1 c 4(5) have "b \<in> reached valid h1 vs" by auto
      then show ?thesis by (auto simp: reached_def e)
    next
      case False
      with 4(1) [OF g] h1(1) c have "(c, b) \<in> (edges valid h)\<^sup>*" by auto
      with Some show ?thesis by (auto simp: reached_def)
    qed
  qed
qed auto

lemma gcMarkValues_append: "gcMarkValues d valid mark (vs @ ws) h =
    (case gcMarkValues d valid mark vs h of None \<Rightarrow> None | Some h' \<Rightarrow> gcMarkValues d valid mark ws h')"
  by (induction vs arbitrary: h) (auto split: option.splits)

text \<open>Marking and then sweeping keeps what is reachable or already carries the mark.\<close>

definition pinned :: "u64 \<Rightarrow> heap \<Rightarrow> nat set" where
  "pinned mark h = {a. is_marked mark h a}"

lemma mark_sweep_live:
  assumes "gcMarkValues d valid mark vs h = Some h1" and "dom h1 = A"
  shows "live (swept mark A h1) = live h |` (reached valid h vs \<union> pinned mark h)"
proof
  fix a
  note r = gcMark_remarked(2) [OF assms(1)]
  show "live (swept mark A h1) a = (live h |` (reached valid h vs \<union> pinned mark h)) a"
  proof (cases "h a")
    case None
    with remarked_at [OF r, of a] show ?thesis by (auto simp: live_def swept_def restrict_map_def)
  next
    case (Some ob)
    with remarked_object [OF r Some] obtain ob1 where ob1: "h1 a = Some ob1" "o_class ob1 = o_class ob" "o_values ob1 = o_values ob"
      by auto
    have "is_marked mark h1 a \<longleftrightarrow> a \<in> reached valid h vs \<union> pinned mark h"
    proof
      assume m: "is_marked mark h1 a"
      show "a \<in> reached valid h vs \<union> pinned mark h"
      proof (cases "h1 a = h a")
        case True
        with m show ?thesis by (simp add: pinned_def is_marked_def)
      qed (use gcMark_only(2) [OF assms(1)] in auto)
    next
      assume "a \<in> reached valid h vs \<union> pinned mark h"
      then show "is_marked mark h1 a"
        using gcMark_reach(2) [OF assms(1)] remarked_marked [OF r] by (auto simp: reached_def pinned_def)
    qed
    moreover have "is_marked mark h1 a \<longleftrightarrow> \<not> dead mark ob1" if "o_class ob1 \<noteq> 0"
      using that ob1(1) by (auto simp: is_marked_def dead_def)
    moreover have "a \<in> A" using assms(2) ob1(1) by auto
    ultimately show ?thesis
      using Some ob1 by (auto simp: live_def swept_def free_block_def restrict_map_def)
  qed
qed

text \<open>The roots the collector starts from: static fields, operand stacks, local variables.\<close>

definition gc_roots :: "vm \<Rightarrow> Value list option" where
  "gc_roots s = do {
     vs \<leftarrow> class_roots (rt s) (map snd (rt_classes (rt s)));
     ws \<leftarrow> contexts_roots (m_contexts s);
     Some (vs @ ws) }"

definition gc_due :: "bool \<Rightarrow> Runtime \<Rightarrow> bool" where
  "gc_due force r \<longleftrightarrow> gcEnabled r \<and> (force \<or> newObjects r > gcLastAlloc r)"

definition gc_mark :: "Runtime \<Rightarrow> u64" where
  "gc_mark r = rt_clock r (rt_ticks r)"

definition gc_keeps :: "vm \<Rightarrow> Value list \<Rightarrow> nat set" where
  "gc_keeps s vs = reached (isObjectValid (rt s)) (rt_heap (rt s)) vs \<union> pinned (gc_mark (rt s)) (rt_heap (rt s))"

lemma m_contexts_rt [simp]: "m_contexts (s\<lparr>rt := r\<rparr>) = m_contexts s"
  by (simp add: m_contexts_def)

lemma class_roots_ticks: "class_roots (r\<lparr>rt_ticks := n\<rparr>) ps = class_roots r ps"
  by (induction ps) auto

lemma isObjectValid_upd [simp]:
  "isObjectValid (r\<lparr>rt_heap := h\<rparr>) = isObjectValid r" "isObjectValid (r\<lparr>rt_ticks := n\<rparr>) = isObjectValid r"
  by (auto simp: isObjectValid_def fun_eq_iff)

definition same_outside :: "Runtime \<Rightarrow> Runtime \<Rightarrow> bool" where
  "same_outside r r' \<longleftrightarrow> rt_classes r' = rt_classes r \<and> rt_class r' = rt_class r \<and> rt_func r' = rt_func r
     \<and> rt_native r' = rt_native r \<and> rt_stringTable r' = rt_stringTable r \<and> arena_start r' = arena_start r
     \<and> arena_size r' = arena_size r \<and> gcEnabled r' = gcEnabled r \<and> rt_clock r' = rt_clock r \<and> rt_output r' = rt_output r"

lemma outside_heap_same: "outside_heap r' = outside_heap r \<Longrightarrow> same_outside r r'"
  by (cases r; cases r') (simp add: outside_heap_def same_outside_def)

lemma gcArena_marked:
  assumes "arena_ok (rt s)" and "contexts_roots (m_contexts s) = Some ws"
    and "gcMarkValues d (isObjectValid (rt s)) mark ws (rt_heap (rt s)) = Some h1"
  shows "\<exists>n r. gcArena d mark s = Some (n, s\<lparr>rt := r\<rparr>) \<and> arena_ok r \<and> same_outside (rt s) r
    \<and> externals (rt_heap (rt s)) \<subseteq> externals (rt_heap r)
    \<and> live (rt_heap r) = live (swept mark (dom h1) h1)"
proof -
  let ?r = "(rt s)\<lparr>rt_heap := h1, currentObjects := 0, currentBytes := 0\<rparr>"
  let ?p = "arena_start (rt s)" and ?e = "arena_start (rt s) + arena_size (rt s)"
  have ok: "blocks_ok ?p ?e h1 (freeList (rt s))" "live h1 = live (rt_heap (rt s))"
    "externals (rt_heap (rt s)) \<subseteq> externals h1"
    using remarked_blocks [OF gcMark_remarked(2) [OF assms(3)]] assms(1) by (auto simp: arena_ok_def)
  then obtain as where as: "tiled h1 ?p as ?e" "dom h1 = set as" by (auto simp: blocks_ok_def)
  from sweep_tiled [of ?r ?p as ?e mark 0] as(1) obtain r' n where r': "sweep mark ?e ?p (?r, 0) = Some (r', n)"
    "rt_heap r' = swept mark (set as) h1" "freeList r' = freeList (rt s) @ filter (dead_at mark h1) as"
    "outside_heap r' = outside_heap ?r" by auto
  have b: "blocks_ok ?p ?e (rt_heap r') (freeList r')" using swept_blocks [OF ok(1) as] r' by simp
  have out: "same_outside (rt s) r'"
    using outside_heap_same [OF r'(4)] by (auto simp: same_outside_def)
  have sorted: "blocks_ok ?p ?e (rt_heap r') (sort (freeList r'))" using b by (simp add: blocks_ok_def)
  from coalesce_spec [OF sorted] assms(1) obtain h' fl' where c: "coalesce (rt_heap r') (sort (freeList r')) = Some (h', fl')"
    "blocks_ok ?p ?e h' fl'" "live h' = live (rt_heap r')" "externals h' = externals (rt_heap r')" by (auto simp: arena_ok_def)
  let ?r' = "if n > 0 then r'\<lparr>rt_heap := h', freeList := fl'\<rparr> else r'"
  have "gcArena d mark s = Some (n, s\<lparr>rt := ?r'\<rparr>)"
    using assms(2,3) r'(1) c(1) by (simp add: gcArena_def)
  moreover have "arena_ok ?r'" "same_outside (rt s) ?r'"
    using b c(2) out assms(1) by (auto simp: arena_ok_def same_outside_def)
  moreover have "live (rt_heap ?r') = live (swept mark (dom h1) h1)" using c(3) r'(2) as(2) by auto
  moreover have "externals (rt_heap (rt s)) \<subseteq> externals (rt_heap ?r')"
    using ok(3) externals_swept [of h1 mark "set as"] r'(2) c(4) by auto
  ultimately show ?thesis by blast
qed

lemma gc_marked:
  assumes "arena_ok (rt s)" and "gc_due force (rt s)" and "gc_roots s = Some vs"
    and "gcMarkValues d (isObjectValid (rt s)) (gc_mark (rt s)) vs (rt_heap (rt s)) = Some h2"
  shows "\<exists>r. gc d force s = Some (s\<lparr>rt := r\<rparr>) \<and> arena_ok r \<and> same_outside (rt s) r
    \<and> live (rt_heap r) = live (rt_heap (rt s)) |` gc_keeps s vs
    \<and> externals (rt_heap (rt s)) \<subseteq> externals (rt_heap r)"
proof -
  let ?now = "gc_mark (rt s)" and ?valid = "isObjectValid (rt s)"
  let ?r = "(rt s)\<lparr>rt_ticks := rt_ticks (rt s) + 1\<rparr>"
  from assms(3) obtain us ws where roots: "class_roots (rt s) (map snd (rt_classes (rt s))) = Some us"
    "contexts_roots (m_contexts s) = Some ws" "vs = us @ ws" by (auto simp: gc_roots_def split: bind_splits)
  with assms(4) obtain h1 where h1: "gcMarkValues d ?valid ?now us (rt_heap (rt s)) = Some h1"
    "gcMarkValues d ?valid ?now ws h1 = Some h2" by (auto simp: gcMarkValues_append split: option.splits)
  let ?s1 = "s\<lparr>rt := ?r\<lparr>rt_heap := h1\<rparr>\<rparr>"
  have "arena_ok (rt ?s1)" and ex: "externals (rt_heap (rt s)) \<subseteq> externals h1"
    using remarked_blocks [OF gcMark_remarked(2) [OF h1(1)]] assms(1) by (auto simp: arena_ok_def)
  moreover have "contexts_roots (m_contexts ?s1) = Some ws" using roots(2) by (simp only: m_contexts_rt)
  moreover have "gcMarkValues d (isObjectValid (rt ?s1)) ?now ws (rt_heap (rt ?s1)) = Some h2"
    using h1(2) by simp
  ultimately obtain n r2 where r2: "gcArena d ?now ?s1 = Some (n, s\<lparr>rt := r2\<rparr>)" "arena_ok r2" "same_outside (rt ?s1) r2"
    "live (rt_heap r2) = live (swept ?now (dom h2) h2)" "externals h1 \<subseteq> externals (rt_heap r2)"
    using gcArena_marked [of ?s1 ws d ?now h2] by auto
  let ?r3 = "r2\<lparr>gcLastAlloc := newObjects r2, rt_ticks := rt_ticks r2 + 1,
     gcTime := gcTime r2 + (rt_clock r2 (rt_ticks r2) - ?now)\<rparr>"
  have "gc d force s = Some (s\<lparr>rt := ?r3\<rparr>)"
    using assms(2) roots(1) h1(1) r2(1)
    by (simp add: gc_def gc_due_def gc_mark_def getTimestamp_def class_roots_ticks Let_def)
  moreover have "arena_ok ?r3" "same_outside (rt s) ?r3" using r2(2,3) by (auto simp: arena_ok_def same_outside_def)
  moreover have "live (rt_heap ?r3) = live (rt_heap (rt s)) |` gc_keeps s vs"
    using r2(4) mark_sweep_live [OF assms(4) refl] by (simp add: gc_keeps_def)
  moreover have "externals (rt_heap (rt s)) \<subseteq> externals (rt_heap ?r3)" using ex r2(5) by simp
  ultimately show ?thesis by blast
qed

lemma gc_returned:
  assumes "gc d force s = Some s'" and "gc_due force (rt s)"
  shows "\<exists>vs h2. gc_roots s = Some vs
    \<and> gcMarkValues d (isObjectValid (rt s)) (gc_mark (rt s)) vs (rt_heap (rt s)) = Some h2"
proof -
  let ?r = "(rt s)\<lparr>rt_ticks := rt_ticks (rt s) + 1\<rparr>" and ?now = "gc_mark (rt s)"
  from assms obtain us h1 s2 n where
    "class_roots (rt s) (map snd (rt_classes (rt s))) = Some us"
    and h1: "gcMarkValues d (isObjectValid (rt s)) ?now us (rt_heap (rt s)) = Some h1"
    and s2: "gcArena d ?now (s\<lparr>rt := ?r\<lparr>rt_heap := h1\<rparr>\<rparr>) = Some (n, s2)"
    by (auto simp: gc_def gc_due_def gc_mark_def getTimestamp_def class_roots_ticks Let_def split: bind_splits if_splits)
  moreover from s2 obtain ws h2 where "contexts_roots (m_contexts s) = Some ws"
    "gcMarkValues d (isObjectValid (rt s)) ?now ws h1 = Some h2"
    by (auto simp: gcArena_def Let_def split: bind_splits)
  ultimately show ?thesis by (auto simp: gc_roots_def gcMarkValues_append)
qed

lemma gc_not_due:
  assumes "gc d force s = Some s'" and "\<not> gc_due force (rt s)"
  shows "\<exists>r. s' = s\<lparr>rt := r\<rparr> \<and> rt_heap r = rt_heap (rt s) \<and> freeList r = freeList (rt s) \<and> same_outside (rt s) r"
proof (cases "gcEnabled (rt s)")
  case True
  with assms show ?thesis by (auto simp: gc_def gc_due_def getTimestamp_def same_outside_def Let_def)
next
  case False
  with assms show ?thesis by (auto simp: gc_def same_outside_def intro!: exI [of _ "rt s"])
qed

lemma gc_arena_ok:
  assumes "arena_ok (rt s)" and "gc d force s = Some s'"
  shows "\<exists>r. s' = s\<lparr>rt := r\<rparr> \<and> arena_ok r \<and> same_outside (rt s) r \<and> live (rt_heap r) \<subseteq>\<^sub>m live (rt_heap (rt s))
    \<and> externals (rt_heap (rt s)) \<subseteq> externals (rt_heap r)"
proof (cases "gc_due force (rt s)")
  case True
  from gc_returned [OF assms(2) True] gc_marked [OF assms(1) True] assms(2)
  obtain r A where "s' = s\<lparr>rt := r\<rparr>" "arena_ok r" "same_outside (rt s) r" "live (rt_heap r) = live (rt_heap (rt s)) |` A"
    "externals (rt_heap (rt s)) \<subseteq> externals (rt_heap r)"
    by fastforce
  moreover from this(4) have "live (rt_heap r) \<subseteq>\<^sub>m live (rt_heap (rt s))" by (auto simp: map_le_def restrict_map_def dom_def)
  ultimately show ?thesis by blast
next
  case False
  with gc_not_due [OF assms(2)] assms(1) show ?thesis by (auto simp: arena_ok_def same_outside_def)
qed

section \<open>Allocating\<close>

lemma first_fit_spec:
  "first_fit h n fl = Some (a, fl') \<Longrightarrow> distinct fl \<Longrightarrow>
     a \<in> set fl \<and> fl' = remove1 a fl \<and> (\<exists>ob. h a = Some ob \<and> n \<le> o_size ob)"
  by (induction fl arbitrary: a fl') (auto split: option.splits if_splits)

definition zeroed :: "ptr \<Rightarrow> nat \<Rightarrow> Object" where
  "zeroed cp n = \<lparr>o_class = cp, o_size = n, o_gcMark = 0, o_values = replicate ((n - sizeof_Object) div sizeof_Value) zero_value\<rparr>"

lemma zeroed_sel [simp]: "o_class (zeroed cp n) = cp" "o_size (zeroed cp n) = n" "fits (zeroed cp n)"
  by (simp_all add: zeroed_def fits_def)

lemma carve_whole:
  assumes "blocks_ok s e h fl" and "a \<in> set fl" and "h a = Some fb" and "cp \<noteq> 0"
  shows "blocks_ok s e (h(a \<mapsto> zeroed cp (o_size fb))) (remove1 a fl)"
proof -
  from assms(1) obtain as where as: "tiled h s as e" "dom h = set as" "distinct fl" "set fl = {a. is_free h a}"
    "\<forall>ob \<in> ran h. fits ob" by (auto simp: blocks_ok_def)
  let ?h = "h(a \<mapsto> zeroed cp (o_size fb))"
  have "tiled ?h s as e" using as(1) assms(3) by (subst tiled_sizes [of as ?h h]) auto
  moreover have "dom ?h = set as" using as(2) assms(3) by auto
  moreover have "set (remove1 a fl) = {a. is_free ?h a}" using as(3,4) assms(4) by (auto simp: is_free_def)
  moreover have "\<forall>ob \<in> ran ?h. fits ob" using as(5) by (auto simp: ran_def)
  ultimately show ?thesis using as(3) by (auto simp: blocks_ok_def)
qed

lemma carve_split:
  assumes "blocks_ok s e h fl" and "a \<in> set fl" and "h a = Some fb" and "cp \<noteq> 0"
    and "sizeof_Object \<le> n" and "sizeof_Object \<le> m" and "o_size fb = n + m"
  shows "blocks_ok s e (h(a + n \<mapsto> zeroed 0 m, a \<mapsto> zeroed cp n)) (remove1 a fl @ [a + n])
    \<and> h (a + n) = None"
proof -
  from assms(1) obtain as where as: "tiled h s as e" "dom h = set as" "distinct fl" "set fl = {a. is_free h a}"
    "\<forall>ob \<in> ran h. fits ob" by (auto simp: blocks_ok_def)
  let ?h = "h(a + n \<mapsto> zeroed 0 m, a \<mapsto> zeroed cp n)"
  have "a \<in> set as" using as(2) assms(3) by auto
  from tiled_split [OF as(1) this assms(3), of "zeroed cp n" "zeroed 0 m"] assms(5-7)
  obtain bs where bs: "tiled ?h s bs e" "set bs = insert (a + n) (set as)" by auto
  have new: "a + n \<notin> set as"
    using tiled_apart [OF as(1) \<open>a \<in> set as\<close>, of "a + n" fb] assms(3,5-7) by (auto simp: sizeof_Object_def)
  have "dom ?h = set bs" using as(2) bs(2) \<open>a \<in> set as\<close> by auto
  moreover have "h (a + n) = None" using new as(2) by (auto simp: dom_def)
  moreover have "set (remove1 a fl @ [a + n]) = {a. is_free ?h a}"
    using as(3,4) assms(4,5) by (auto simp: is_free_def sizeof_Object_def)
  moreover have "a + n \<notin> set fl" using as(4) \<open>h (a + n) = None\<close> by (auto simp: is_free_def)
  moreover have "\<forall>ob \<in> ran ?h. fits ob" using as(5) by (auto simp: ran_def)
  ultimately show ?thesis using bs(1) as(3) by (auto simp: blocks_ok_def set_remove1_eq)
qed

lemma carve_spec:
  assumes "arena_ok r" and "a \<in> set (freeList r)" and "rt_heap r a = Some fb" and "n \<le> o_size fb"
    and "cp \<noteq> 0" and "carve cp n a (remove1 a (freeList r)) r = Some r'"
  shows "arena_ok r' \<and> same_outside r r' \<and> live (rt_heap r) a = None
    \<and> (\<exists>m \<ge> n. live (rt_heap r') = (live (rt_heap r))(a \<mapsto> (cp, replicate ((m - sizeof_Object) div sizeof_Value) zero_value)))
    \<and> externals (rt_heap r) \<subseteq> externals (rt_heap r')"
proof -
  have n: "sizeof_Object \<le> n" using assms(6) by (auto simp: carve_def guard_def split: bind_splits if_splits)
  let ?p = "arena_start r" and ?e = "arena_start r + arena_size r" and ?m = "o_size fb - n"
  have ok: "blocks_ok ?p ?e (rt_heap r) (freeList r)" using assms(1) by (simp add: arena_ok_def)
  then have fb: "o_class fb = 0" and free: "live (rt_heap r) a = None"
    using assms(2,3) by (auto simp: blocks_ok_def is_free_def live_def)
  show ?thesis
  proof (cases "?m > sizeof_Object")
    case True
    then have r': "rt_heap r' = (rt_heap r)(a + n \<mapsto> zeroed 0 ?m, a \<mapsto> zeroed cp n)"
      "freeList r' = remove1 a (freeList r) @ [a + n]" "same_outside r r'"
      using assms(3,6) n by (auto simp: guard_def carve_def Let_def zeroed_def same_outside_def)
    note c = carve_split [OF ok assms(2,3,5) n, of ?m]
    have "arena_ok r'" using c r' True assms(1,4) by (simp add: arena_ok_def same_outside_def)
    moreover have "live (rt_heap r') = (live (rt_heap r))(a \<mapsto> (cp, replicate ((n - sizeof_Object) div sizeof_Value) zero_value))"
      using c r'(1) True assms(4,5) n by (auto simp: live_def fun_eq_iff zeroed_def sizeof_Object_def)
    moreover have "externals (rt_heap r) \<subseteq> externals (rt_heap r')"
      using assms(3,4) fb c r'(1) True by (auto simp: externals_def)
    ultimately show ?thesis using free r'(3) by blast
  next
    case False
    with assms(4) have r': "rt_heap r' = (rt_heap r)(a \<mapsto> zeroed cp (o_size fb))"
      "freeList r' = remove1 a (freeList r)" "same_outside r r'"
      using assms(3,6) n by (auto simp: guard_def carve_def Let_def zeroed_def same_outside_def)
    have "arena_ok r'" using carve_whole [OF ok assms(2,3,5)] r' assms(1) by (simp add: arena_ok_def same_outside_def)
    moreover have "live (rt_heap r') = (live (rt_heap r))(a \<mapsto> (cp, replicate ((o_size fb - sizeof_Object) div sizeof_Value) zero_value))"
      using r'(1) assms(5) by (auto simp: live_def fun_eq_iff zeroed_def)
    moreover have "externals (rt_heap r) \<subseteq> externals (rt_heap r')"
      using assms(3) fb r'(1) by (auto simp: externals_def)
    ultimately show ?thesis using free r'(3) assms(4) by blast
  qed
qed

text \<open>The sizes for which the 32-bit computation of \<open>allocateObject\<close> is exact.\<close>

definition roomy :: "Class \<Rightarrow> u32 \<Rightarrow> bool" where
  "roomy c extra \<longleftrightarrow> 0 \<le> cl_fieldCount c
     \<and> int sizeof_Object + (cl_fieldCount c + int (unat extra)) * int sizeof_Value < 2 ^ 31"

definition value_count :: "Class \<Rightarrow> u32 \<Rightarrow> nat" where
  "value_count c extra = nat (cl_fieldCount c + int (unat extra))"

lemma roomy_size: "roomy c extra \<Longrightarrow>
    object_size (cl_fieldCount c) extra = sizeof_Object + value_count c extra * sizeof_Value"
  unfolding roomy_def value_count_def by (rule object_size_exact) simp_all

definition fresh_object :: "ptr \<Rightarrow> nat \<Rightarrow> ptr \<times> Value list \<Rightarrow> bool" where
  "fresh_object cp n ob \<longleftrightarrow> fst ob = cp \<and> n \<le> length (snd ob) \<and> set (snd ob) \<subseteq> {zero_value}"

lemma allocateObject_blocks:
  assumes "arena_ok (rt s)" and "rt_class (rt s) cp = Some c" and "cp \<noteq> 0"
    and "allocateObject d cp extra s = Some (p, s')"
  shows "\<exists>r0 r' m. s' = s\<lparr>rt := r'\<rparr> \<and> arena_ok r' \<and> same_outside (rt s) r'
    \<and> (if gcEnabled (rt s) then live (rt_heap r0) \<subseteq>\<^sub>m live (rt_heap (rt s)) else r0 = rt s)
    \<and> live (rt_heap r0) (unat p) = None \<and> object_size (cl_fieldCount c) extra \<le> m
    \<and> live (rt_heap r') = (live (rt_heap r0))(unat p \<mapsto> (cp, replicate ((m - sizeof_Object) div sizeof_Value) zero_value))
    \<and> externals (rt_heap (rt s)) \<subseteq> externals (rt_heap r')"
proof -
  let ?n = "object_size (cl_fieldCount c) extra"
  from assms(4) obtain s1 where s1: "(if currentBytes (rt s) \<ge> (arenaTotal (rt s) div 4) * 3 \<and> gcEnabled (rt s)
            then gc d True s else Some s) = Some s1" by (auto simp: allocateObject_def split: bind_splits)
  obtain r0 where r0: "s1 = s\<lparr>rt := r0\<rparr>" "arena_ok r0" "same_outside (rt s) r0"
    "if gcEnabled (rt s) then live (rt_heap r0) \<subseteq>\<^sub>m live (rt_heap (rt s)) else r0 = rt s"
    "externals (rt_heap (rt s)) \<subseteq> externals (rt_heap r0)"
  proof (cases "currentBytes (rt s) \<ge> (arenaTotal (rt s) div 4) * 3 \<and> gcEnabled (rt s)")
    case True
    with s1 gc_arena_ok [OF assms(1), of d True s1] that show ?thesis by auto
  next
    case False
    with s1 assms(1) that [of "rt s"] show ?thesis by (auto simp: same_outside_def split: if_splits)
  qed
  have "rt_class r0 cp = Some c" using r0(3) assms(2) by (simp add: same_outside_def)
  with assms(4) s1 r0(1) obtain a fl r' where ff: "first_fit (rt_heap r0) ?n (freeList r0) = Some (a, fl)"
    and cv: "carve cp ?n a fl r0 = Some r'" and p: "p = of_nat a" "s' = s\<lparr>rt := r'\<rparr>"
    by (auto simp: allocateObject_def Let_def split: bind_splits)
  have ok: "blocks_ok (arena_start r0) (arena_start r0 + arena_size r0) (rt_heap r0) (freeList r0)"
    using r0(2) by (simp add: arena_ok_def)
  from first_fit_spec [OF ff] ok obtain fb where a: "a \<in> set (freeList r0)" "fl = remove1 a (freeList r0)"
    "rt_heap r0 a = Some fb" "?n \<le> o_size fb" by (auto simp: blocks_ok_def)
  from carve_spec [OF r0(2) a(1,3,4) assms(3)] cv a(2) obtain m where
    r': "arena_ok r'" "same_outside r0 r'" "live (rt_heap r0) a = None" "?n \<le> m"
    "live (rt_heap r') = (live (rt_heap r0))(a \<mapsto> (cp, replicate ((m - sizeof_Object) div sizeof_Value) zero_value))"
    "externals (rt_heap r0) \<subseteq> externals (rt_heap r')" by auto
  have "a < 2 ^ 64" using ok r0(2) a(3) tiled_bounds by (fastforce simp: blocks_ok_def arena_ok_def)
  then have "unat p = a" using p(1) by (simp add: unat_of_nat)
  moreover have "same_outside (rt s) r'" using r0(3) r'(2) by (simp add: same_outside_def)
  ultimately show ?thesis using p(2) r' r0(4,5) by blast
qed

lemma allocateObject_carves:
  assumes "arena_ok (rt s)" and "rt_class (rt s) cp = Some c" and "cp \<noteq> 0" and "roomy c extra"
    and "allocateObject d cp extra s = Some (p, s')"
  shows "\<exists>r0 r' ob. s' = s\<lparr>rt := r'\<rparr> \<and> arena_ok r' \<and> same_outside (rt s) r'
    \<and> (if gcEnabled (rt s) then live (rt_heap r0) \<subseteq>\<^sub>m live (rt_heap (rt s)) else r0 = rt s)
    \<and> live (rt_heap r0) (unat p) = None \<and> fresh_object cp (value_count c extra) ob
    \<and> live (rt_heap r') = (live (rt_heap r0))(unat p \<mapsto> ob)"
proof -
  from allocateObject_blocks [OF assms(1-3,5)] obtain r0 r' m where
    r: "s' = s\<lparr>rt := r'\<rparr>" "arena_ok r'" "same_outside (rt s) r'"
    "if gcEnabled (rt s) then live (rt_heap r0) \<subseteq>\<^sub>m live (rt_heap (rt s)) else r0 = rt s"
    "live (rt_heap r0) (unat p) = None" "object_size (cl_fieldCount c) extra \<le> m"
    "live (rt_heap r') = (live (rt_heap r0))(unat p \<mapsto> (cp, replicate ((m - sizeof_Object) div sizeof_Value) zero_value))"
    by blast
  have "fresh_object cp (value_count c extra) (cp, replicate ((m - sizeof_Object) div sizeof_Value) zero_value)"
    using r(6) roomy_size [OF assms(4)] by (auto simp: fresh_object_def sizeof_Value_def sizeof_Object_def)
  with r show ?thesis by blast
qed

section \<open>The store, seen by its clients\<close>

text \<open>What a sequence of allocations gives: \<open>contents\<close> is the objects of the store, \<open>answers\<close> says what a
  request gets, \<open>apart\<close> that two objects share no memory.\<close>

fun alloc_all :: "('q \<Rightarrow> 's \<Rightarrow> (nat \<times> 's) option) \<Rightarrow> 'q list \<Rightarrow> 's \<Rightarrow> (nat list \<times> 's) option" where
  "alloc_all alloc [] s = Some ([], s)"
| "alloc_all alloc (q # qs) s = do { (a, t) \<leftarrow> alloc q s; (as, u) \<leftarrow> alloc_all alloc qs t; Some (a # as, u) }"

locale object_store =
  fixes ok :: "'s \<Rightarrow> bool"
    and contents :: "'s \<Rightarrow> nat \<Rightarrow> 'o option"
    and alloc :: "'q \<Rightarrow> 's \<Rightarrow> (nat \<times> 's) option"
    and accepts :: "'s \<Rightarrow> 'q \<Rightarrow> bool"
    and answers :: "'s \<Rightarrow> 'q \<Rightarrow> 'o \<Rightarrow> bool"
    and apart :: "'s \<Rightarrow> nat \<Rightarrow> nat \<Rightarrow> bool"
  assumes alloc_law: "ok s \<Longrightarrow> accepts s q \<Longrightarrow> alloc q s = Some (a, t) \<Longrightarrow>
      ok t \<and> contents s a = None \<and> (\<exists>ob. answers s q ob \<and> contents t = (contents s)(a \<mapsto> ob))
      \<and> accepts t = accepts s \<and> answers t = answers s"
    and apart_law: "ok s \<Longrightarrow> contents s a \<noteq> None \<Longrightarrow> contents s b \<noteq> None \<Longrightarrow> a \<noteq> b \<Longrightarrow> apart s a b"
begin

lemma alloc_all_spec:
  assumes "ok s" and "\<forall>q \<in> set qs. accepts s q" and "alloc_all alloc qs s = Some (as, t)"
  shows "ok t \<and> distinct as \<and> set as \<inter> dom (contents s) = {} \<and> contents s \<subseteq>\<^sub>m contents t
    \<and> list_all2 (\<lambda>a q. \<exists>ob. contents t a = Some ob \<and> answers s q ob) as qs"
  using assms
proof (induction qs arbitrary: s as)
  case (Cons q qs)
  then obtain a t1 as' where q: "alloc q s = Some (a, t1)" "alloc_all alloc qs t1 = Some (as', t)" "as = a # as'"
    by (auto split: bind_splits)
  from alloc_law [OF Cons.prems(1) _ q(1)] Cons.prems(2) obtain ob where
    a: "ok t1" "contents s a = None" "answers s q ob" "contents t1 = (contents s)(a \<mapsto> ob)"
    "accepts t1 = accepts s" "answers t1 = answers s" by auto
  from Cons.IH [OF a(1) _ q(2)] Cons.prems(2) a(5,6) have
    IH: "ok t" "distinct as'" "set as' \<inter> dom (contents t1) = {}" "contents t1 \<subseteq>\<^sub>m contents t"
    "list_all2 (\<lambda>a q. \<exists>ob. contents t a = Some ob \<and> answers s q ob) as' qs" by auto
  have "contents t a = Some ob" using IH(4) a(4) by (auto simp: map_le_def dom_def)
  moreover have "contents s \<subseteq>\<^sub>m contents t" using IH(4) a(2,4) by (fastforce simp: map_le_def dom_def)
  ultimately show ?case using IH a(2-4) q(3) by auto
qed simp

lemma alloc_all_apart:
  assumes "ok s" and "\<forall>q \<in> set qs. accepts s q" and "alloc_all alloc qs s = Some (as, t)"
  shows "pairwise (apart t) (set as)"
proof -
  note spec = alloc_all_spec [OF assms]
  then have "\<forall>a \<in> set as. contents t a \<noteq> None" by (fastforce simp: list_all2_conv_all_nth in_set_conv_nth)
  with spec apart_law show ?thesis by (auto simp: pairwise_def)
qed

end

definition store_ok :: "vm \<Rightarrow> bool" where
  "store_ok s \<longleftrightarrow> arena_ok (rt s) \<and> \<not> gcEnabled (rt s)"

definition objects :: "vm \<Rightarrow> nat \<Rightarrow> (ptr \<times> Value list) option" where
  "objects s = live (rt_heap (rt s))"

definition new_block :: "nat \<Rightarrow> ptr \<times> u32 \<Rightarrow> vm \<Rightarrow> (nat \<times> vm) option" where
  "new_block d q s = map_option (apfst unat) (allocateObject d (fst q) (snd q) s)"

definition accepted :: "vm \<Rightarrow> ptr \<times> u32 \<Rightarrow> bool" where
  "accepted s q \<longleftrightarrow> fst q \<noteq> 0 \<and> (case rt_class (rt s) (fst q) of None \<Rightarrow> False | Some c \<Rightarrow> roomy c (snd q))"

definition answered :: "vm \<Rightarrow> ptr \<times> u32 \<Rightarrow> ptr \<times> Value list \<Rightarrow> bool" where
  "answered s q ob \<longleftrightarrow>
     (case rt_class (rt s) (fst q) of None \<Rightarrow> False | Some c \<Rightarrow> fresh_object (fst q) (value_count c (snd q)) ob)"

definition disjoint_blocks :: "vm \<Rightarrow> nat \<Rightarrow> nat \<Rightarrow> bool" where
  "disjoint_blocks s a b \<longleftrightarrow> (case (rt_heap (rt s) a, rt_heap (rt s) b) of
     (Some x, Some y) \<Rightarrow> a + o_size x \<le> b \<or> b + o_size y \<le> a | _ \<Rightarrow> False)"

interpretation store: object_store store_ok objects "new_block d" accepted answered disjoint_blocks
proof
  fix s q a t assume s: "store_ok s" and q: "accepted s q" and t: "new_block d q s = Some (a, t)"
  from q obtain c where c: "rt_class (rt s) (fst q) = Some c" "fst q \<noteq> 0" "roomy c (snd q)"
    by (auto simp: accepted_def split: option.splits)
  from t obtain p where p: "allocateObject d (fst q) (snd q) s = Some (p, t)" "a = unat p"
    by (auto simp: new_block_def)
  from allocateObject_carves [OF _ c p(1)] s obtain r' ob where r:
    "t = s\<lparr>rt := r'\<rparr>" "arena_ok r'" "same_outside (rt s) r'" "live (rt_heap (rt s)) a = None"
    "fresh_object (fst q) (value_count c (snd q)) ob" "live (rt_heap r') = (live (rt_heap (rt s)))(a \<mapsto> ob)"
    unfolding p(2) by (auto simp: store_ok_def)
  have "answered s q ob" using r(5) c(1) by (simp add: answered_def)
  moreover have "objects t = (objects s)(a \<mapsto> ob)" "objects s a = None" using r(1,4,6) by (simp_all add: objects_def)
  moreover have "store_ok t" "accepted t = accepted s" "answered t = answered s"
    using s r(1-3) by (simp_all add: store_ok_def accepted_def answered_def same_outside_def fun_eq_iff)
  ultimately show "store_ok t \<and> objects s a = None \<and> (\<exists>ob. answered s q ob \<and> objects t = (objects s)(a \<mapsto> ob))
      \<and> accepted t = accepted s \<and> answered t = answered s" by blast
next
  fix s a b assume s: "store_ok s" and ab: "objects s a \<noteq> None" "objects s b \<noteq> None" "a \<noteq> b"
  then obtain x y where xy: "rt_heap (rt s) a = Some x" "rt_heap (rt s) b = Some y"
    by (auto simp: objects_def live_def split: option.splits)
  from s obtain as where as: "tiled (rt_heap (rt s)) (arena_start (rt s)) as (arena_start (rt s) + arena_size (rt s))"
    "dom (rt_heap (rt s)) = set as" by (auto simp: store_ok_def arena_ok_def blocks_ok_def)
  have "a \<in> set as" "b \<in> set as" using as(2) xy by auto
  with tiled_apart [OF as(1), of a b x] tiled_apart [OF as(1), of b a y] xy ab(3) show "disjoint_blocks s a b"
    by (auto simp: disjoint_blocks_def neq_iff)
qed

section \<open>Properties\<close>

text \<open>C6: the collector is exact, and returns. When a collection is due and no path of references from
  the roots is longer than the C stack allows, \<open>gc\<close> returns; afterwards the blocks tile the arena and
  the free list holds the free blocks, and the objects are those the roots reach or that are pinned,
  with the classes and values they had.\<close>

theorem gc_collects:
  assumes "arena_ok (rt s)" and "gc_due force (rt s)" and "gc_roots s = Some vs"
    and "\<forall>v \<in> set vs. \<forall>c. val_target (isObjectValid (rt s)) v = Some c \<longrightarrow>
           paths (isObjectValid (rt s)) (rt_heap (rt s)) c \<subseteq> {..<d} \<times> dom (rt_heap (rt s))"
  shows "\<exists>r. gc d force s = Some (s\<lparr>rt := r\<rparr>) \<and> arena_ok r
    \<and> live (rt_heap r) = live (rt_heap (rt s)) |` gc_keeps s vs"
proof -
  from gcMark_returns(2) [of d "isObjectValid (rt s)" "gc_mark (rt s)" vs "rt_heap (rt s)"] assms(4)
  obtain h2 where "gcMarkValues d (isObjectValid (rt s)) (gc_mark (rt s)) vs (rt_heap (rt s)) = Some h2" by auto
  from gc_marked [OF assms(1-3) this] show ?thesis by blast
qed

text \<open>C7: allocation keeps the arena in order. An object of a class whose size the 32-bit computation
  gets right is zeroed, has room for its fields and the extra values, and is put at an address where
  no object was; no other object changes, and the blocks still tile the arena. A collection that the
  allocation triggers may only remove objects.\<close>

theorem allocateObject_fresh:
  assumes "arena_ok (rt s)" and "rt_class (rt s) cp = Some c" and "cp \<noteq> 0" and "roomy c extra"
    and "allocateObject d cp extra s = Some (p, t)"
  shows "\<exists>kept ob. arena_ok (rt t) \<and> kept \<subseteq>\<^sub>m live (rt_heap (rt s)) \<and> (gcEnabled (rt s) \<or> kept = live (rt_heap (rt s)))
    \<and> kept (unat p) = None \<and> fresh_object cp (value_count c extra) ob
    \<and> live (rt_heap (rt t)) = kept(unat p \<mapsto> ob)"
proof -
  from allocateObject_carves [OF assms] obtain r0 r' ob where
    r: "t = s\<lparr>rt := r'\<rparr>" "arena_ok r'" "live (rt_heap r0) (unat p) = None"
    "fresh_object cp (value_count c extra) ob" "live (rt_heap r') = (live (rt_heap r0))(unat p \<mapsto> ob)"
    and "if gcEnabled (rt s) then live (rt_heap r0) \<subseteq>\<^sub>m live (rt_heap (rt s)) else r0 = rt s" by blast
  then have "live (rt_heap r0) \<subseteq>\<^sub>m live (rt_heap (rt s))" "gcEnabled (rt s) \<or> live (rt_heap r0) = live (rt_heap (rt s))"
    by (auto split: if_splits)
  with r show ?thesis by (intro exI [of _ "live (rt_heap r0)"] exI [of _ ob]) simp
qed

text \<open>C20: objects allocated one after the other while the collector is off are pairwise distinct, share
  no memory with each other, overwrite no object that was there, and each is what was asked for.\<close>

theorem allocations_apart:
  assumes "store_ok s" and "\<forall>q \<in> set qs. accepted s q" and "alloc_all (new_block d) qs s = Some (as, t)"
  shows "distinct as \<and> pairwise (disjoint_blocks t) (set as) \<and> set as \<inter> dom (objects s) = {} \<and> objects s \<subseteq>\<^sub>m objects t
    \<and> list_all2 (\<lambda>a q. \<exists>ob. objects t a = Some ob \<and> answered s q ob) as qs"
  using store.alloc_all_spec [OF assms] store.alloc_all_apart [OF assms] by blast

section \<open>A concrete arena\<close>

definition sample_class :: Class where
  "sample_class = (new_class None (wstr ''Point''))\<lparr>cl_fieldCount := 2\<rparr>"

definition arena_vm :: "bool \<Rightarrow> heap \<Rightarrow> nat list \<Rightarrow> vm" where
  "arena_vm enabled h fl = (sample_vm [] [] [])\<lparr>rt := sample_rt\<lparr>rt_class := [8 \<mapsto> sample_class],
     rt_heap := h, freeList := fl, gcEnabled := enabled, rt_ticks := 1\<rparr>\<rparr>"

lemma arena_vm_sel [simp]:
  "rt_heap (rt (arena_vm e h fl)) = h" "freeList (rt (arena_vm e h fl)) = fl" "gcEnabled (rt (arena_vm e h fl)) = e"
  "arena_start (rt (arena_vm e h fl)) = 4096" "arena_size (rt (arena_vm e h fl)) = 1024"
  "rt_class (rt (arena_vm e h fl)) = [8 \<mapsto> sample_class]" "currentBytes (rt (arena_vm e h fl)) = 0"
  "arenaTotal (rt (arena_vm e h fl)) = 1024"
  by (simp_all add: arena_vm_def sample_rt_def)

lemma sample_class_count [simp]: "cl_fieldCount sample_class = 2"
  by (simp add: sample_class_def)

lemma sample_roomy: "roomy sample_class 0" "value_count sample_class 0 = 2" "object_size 2 0 = 56"
  using object_size_exact [of 2 0] by (simp_all add: roomy_def value_count_def sizeof_Object_def sizeof_Value_def)

lemma empty_arena_ok: "arena_ok (rt (arena_vm e [4096 \<mapsto> zeroed 0 1024] [4096]))"
  unfolding arena_ok_def blocks_ok_def
  by (auto simp: sizeof_Object_def is_free_def intro!: exI [of _ "[4096]"] split: if_splits)

lemma garbage_arena_ok: "arena_ok (rt (arena_vm e [4096 \<mapsto> zeroed 8 56, 4152 \<mapsto> zeroed 0 968] [4152]))"
  unfolding arena_ok_def blocks_ok_def
  by (auto simp: sizeof_Object_def is_free_def intro!: exI [of _ "[4096, 4152]"] split: if_splits)

lemma gc_collects_witness:
  "\<exists>r. gc 5 True (arena_vm True [4096 \<mapsto> zeroed 8 56, 4152 \<mapsto> zeroed 0 968] [4152]) =
     Some ((arena_vm True [4096 \<mapsto> zeroed 8 56, 4152 \<mapsto> zeroed 0 968] [4152])\<lparr>rt := r\<rparr>)
     \<and> live (rt_heap r) 4096 = None"
proof -
  let ?s = "arena_vm True [4096 \<mapsto> zeroed 8 56, 4152 \<mapsto> zeroed 0 968] [4152]"
  have roots: "gc_roots ?s = Some []"
    by (simp add: gc_roots_def arena_vm_def sample_vm_def sample_rt_def m_contexts_def context_roots_def sample_ctx_def)
  have "gc_due True (rt ?s)" by (simp add: gc_due_def)
  from gc_collects [OF garbage_arena_ok this roots, of 5] obtain r where
    r: "gc 5 True ?s = Some (?s\<lparr>rt := r\<rparr>)" "live (rt_heap r) = live (rt_heap (rt ?s)) |` gc_keeps ?s []" by auto
  have "4096 \<notin> gc_keeps ?s []"
    by (simp add: gc_keeps_def reached_def pinned_def is_marked_def zeroed_def B0RK_GC_EXTERNAL_def gc_mark_def
        arena_vm_def sample_rt_def)
  with r show ?thesis by auto
qed

lemma allocateObject_fresh_witness:
  "\<exists>p t kept ob. allocateObject 5 8 0 (arena_vm True [4096 \<mapsto> zeroed 0 1024] [4096]) = Some (p, t)
     \<and> live (rt_heap (rt t)) = kept(unat p \<mapsto> ob) \<and> fresh_object 8 2 ob"
proof -
  let ?s = "arena_vm True [4096 \<mapsto> zeroed 0 1024] [4096]"
  have "allocateObject 5 8 0 ?s \<noteq> None"
    by (simp add: allocateObject_def carve_def guard_def sizeof_Object_def sample_roomy Let_def)
  then obtain p t where t: "allocateObject 5 8 0 ?s = Some (p, t)" by auto
  have "rt_class (rt ?s) 8 = Some sample_class" "(8 :: ptr) \<noteq> 0" by simp_all
  from allocateObject_fresh [OF empty_arena_ok this sample_roomy(1) t] t sample_roomy(2) show ?thesis by auto
qed

lemma allocations_apart_witness:
  "\<exists>as t. alloc_all (new_block 5) [(8, 0), (8, 0)] (arena_vm False [4096 \<mapsto> zeroed 0 1024] [4096]) = Some (as, t)
     \<and> distinct as \<and> pairwise (disjoint_blocks t) (set as) \<and> length as = 2"
proof -
  let ?s = "arena_vm False [4096 \<mapsto> zeroed 0 1024] [4096]"
  have "alloc_all (new_block 5) [(8, 0), (8, 0)] ?s \<noteq> None"
    by (simp add: new_block_def allocateObject_def carve_def guard_def sample_roomy Let_def sizeof_Object_def)
  then obtain as t where t: "alloc_all (new_block 5) [(8, 0), (8, 0)] ?s = Some (as, t)" by auto
  have "store_ok ?s" "\<forall>q \<in> set [(8, 0), (8, 0)]. accepted ?s q"
    using empty_arena_ok sample_roomy(1) by (simp_all add: store_ok_def accepted_def)
  from allocations_apart [OF this t] t show ?thesis by (auto dest: list_all2_lengthD)
qed

end
