(* ===== verification/Invariant.thy ===== *)
theory Invariant
  imports Arena
begin

text \<open>
  What every operation of the machine keeps: a sound runtime stays sound, and the registry, the
  functions, the string constants and the output only grow. This theory states the relation and shows
  it for the memory and the objects; Running and Starting carry it up to whole programs.
\<close>

section \<open>The invariant\<close>

text \<open>
  The blocks tile the arena, the null pointer is no class, and every string constant is a live object
  that the collector may not remove: code refers to constants by address.
\<close>

definition sound :: "Runtime \<Rightarrow> bool" where
  "sound r \<longleftrightarrow> arena_ok r \<and> rt_class r 0 = None \<and> 0 < rt_nextNative r
     \<and> (\<forall>p \<in> ran (rt_stringTable r). unat p \<in> externals (rt_heap r))"

text \<open>
  From \<open>r\<close> to \<open>r'\<close>. Addresses of C++ objects are given out in order, so soundness is only claimed as
  long as there are addresses left.
\<close>

definition evolves :: "Runtime \<Rightarrow> Runtime \<Rightarrow> bool" where
  "evolves r r' \<longleftrightarrow> rt_nextNative r \<le> rt_nextNative r'
     \<and> (\<exists>out. rt_output r' = rt_output r @ out) \<and> (\<exists>cs. rt_classes r' = rt_classes r @ cs)
     \<and> rt_stringTable r \<subseteq>\<^sub>m rt_stringTable r' \<and> dom (rt_func r) \<subseteq> dom (rt_func r')
     \<and> (rt_nextNative r' \<le> 2 ^ 64 \<longrightarrow> sound r \<longrightarrow> sound r')"

lemma evolves_refl [simp]: "evolves r r"
  by (auto simp: evolves_def)

lemma evolves_trans: "evolves r r1 \<Longrightarrow> evolves r1 r2 \<Longrightarrow> evolves r r2"
  unfolding evolves_def by (auto intro: map_le_trans)

text \<open>The step that changes neither of the tables nor the addresses.\<close>

lemma evolves_same_outside:
  assumes "same_outside r r'" and "rt_nextNative r' = rt_nextNative r"
    and "arena_ok r \<Longrightarrow> arena_ok r' \<and> externals (rt_heap r) \<subseteq> externals (rt_heap r')"
  shows "evolves r r'"
  using assms by (auto simp: evolves_def same_outside_def sound_def ran_def)

section \<open>Following a computation\<close>

text \<open>
  \<open>advances s m\<close>: when \<open>m\<close>, started in \<open>s\<close>, has a result, the runtime has evolved. The rules follow the
  shape of a definition; \<open>r\<close> is the runtime at its start.
\<close>

named_theorems wps \<open>rules for following the runtime\<close>

definition advances :: "vm \<Rightarrow> ('a \<times> vm) option \<Rightarrow> bool" where
  "advances s m \<longleftrightarrow> pred_option (\<lambda>(x, t). evolves (rt s) (rt t)) m"

definition advances2 :: "vm \<Rightarrow> ('a \<times> 'b \<times> vm) option \<Rightarrow> bool" where
  "advances2 s m \<longleftrightarrow> pred_option (\<lambda>(x, y, t). evolves (rt s) (rt t)) m"

definition advances1 :: "vm \<Rightarrow> vm option \<Rightarrow> bool" where
  "advances1 s m \<longleftrightarrow> pred_option (\<lambda>t. evolves (rt s) (rt t)) m"

lemma pred_option_iff: "pred_option Q m \<longleftrightarrow> (\<forall>x. m = Some x \<longrightarrow> Q x)"
  by (cases m) auto

lemma wp_bind [wps]: "pred_option (\<lambda>x. pred_option Q (f x)) m \<Longrightarrow> pred_option Q (Option.bind m f)"
  by (cases m) auto

lemma wp_simps [wps]:
  "Q x \<Longrightarrow> pred_option Q (Some x)" "pred_option Q None"
  "(b \<Longrightarrow> P ()) \<Longrightarrow> pred_option P (guard b)"
  by (auto simp: guard_def)

lemma wp_cases [wps]:
  "(b \<Longrightarrow> pred_option Q m1) \<Longrightarrow> (\<not> b \<Longrightarrow> pred_option Q m2) \<Longrightarrow> pred_option Q (if b then m1 else m2)"
  "(x = None \<Longrightarrow> pred_option Q m3) \<Longrightarrow> (\<And>y. x = Some y \<Longrightarrow> pred_option Q (g y)) \<Longrightarrow>
     pred_option Q (case x of None \<Rightarrow> m3 | Some y \<Rightarrow> g y)"
  "(\<And>y z. w = (y, z) \<Longrightarrow> pred_option Q (h y z)) \<Longrightarrow> pred_option Q (case w of (y, z) \<Rightarrow> h y z)"
  by (auto split: option.split prod.split)

text \<open>A part that only reads.\<close>

lemma wp_reads: "(\<And>x. m = Some x \<Longrightarrow> Q x) \<Longrightarrow> pred_option Q m"
  by (cases m) auto

lemma wp_advances:
  "advances s m \<Longrightarrow> evolves r (rt s) \<Longrightarrow> (\<And>x t. evolves r (rt t) \<Longrightarrow> Q (x, t)) \<Longrightarrow> pred_option Q m"
  "advances1 s m1 \<Longrightarrow> evolves r (rt s) \<Longrightarrow> (\<And>t. evolves r (rt t) \<Longrightarrow> R t) \<Longrightarrow> pred_option R m1"
  "advances2 s m2 \<Longrightarrow> evolves r (rt s) \<Longrightarrow> (\<And>x y t. evolves r (rt t) \<Longrightarrow> S (x, y, t)) \<Longrightarrow> pred_option S m2"
  unfolding advances_def advances1_def advances2_def
  by (cases m; cases m1; cases m2; auto intro: evolves_trans)+

lemma advancesI: "(\<And>r. evolves r (rt s) \<Longrightarrow> pred_option (\<lambda>(x, t). evolves r (rt t)) m) \<Longrightarrow> advances s m"
  "(\<And>r. evolves r (rt s) \<Longrightarrow> pred_option (\<lambda>t. evolves r (rt t)) m1) \<Longrightarrow> advances1 s m1"
  "(\<And>r. evolves r (rt s) \<Longrightarrow> pred_option (\<lambda>(x, y, t). evolves r (rt t)) m2) \<Longrightarrow> advances2 s m2"
  by (simp_all add: advances_def advances1_def advances2_def)

lemma advancesD: "advances s m \<Longrightarrow> m = Some (x, t) \<Longrightarrow> evolves (rt s) (rt t)"
  "advances1 s m1 \<Longrightarrow> m1 = Some t \<Longrightarrow> evolves (rt s) (rt t)"
  by (simp_all add: advances_def advances1_def)

text \<open>A part that leaves the runtime alone.\<close>

definition aside :: "vm \<Rightarrow> ('a \<times> vm) option \<Rightarrow> bool" where
  "aside s m \<longleftrightarrow> pred_option (\<lambda>(x, t). rt t = rt s) m"

definition aside1 :: "vm \<Rightarrow> vm option \<Rightarrow> bool" where
  "aside1 s m \<longleftrightarrow> pred_option (\<lambda>t. rt t = rt s) m"

lemma wp_aside:
  "aside s m \<Longrightarrow> evolves r (rt s) \<Longrightarrow> (\<And>x t. rt t = rt s \<Longrightarrow> evolves r (rt t) \<Longrightarrow> Q (x, t)) \<Longrightarrow> pred_option Q m"
  "aside1 s m1 \<Longrightarrow> evolves r (rt s) \<Longrightarrow> (\<And>t. rt t = rt s \<Longrightarrow> evolves r (rt t) \<Longrightarrow> R t) \<Longrightarrow> pred_option R m1"
  unfolding aside_def aside1_def by (cases m; cases m1; auto)+

section \<open>The operand stack\<close>

lemma aside_stack:
  "aside1 s (push v s)" "aside s (pop s)" "aside1 s (pushInt i s)" "aside1 s (pushDouble d s)"
  "aside s (popInt s)" "aside s (popDouble s)" "aside s (fetch s)" "aside1 s (setLocal j v s)"
  by (auto simp: aside_def aside1_def vm_defs pred_option_iff split: bind_splits option.splits)

lemmas wp_stack [wps] = aside_stack(1,3,4,8) [THEN wp_aside(2)] aside_stack(2,5,6,7) [THEN wp_aside(1)]

section \<open>Memory\<close>

lemma arena_ok_values:
  assumes "arena_ok r" and "rt_heap r a = Some ob" and "o_class ob' = o_class ob" and "o_size ob' = o_size ob"
    and "length (o_values ob') = length (o_values ob)"
  shows "arena_ok (r\<lparr>rt_heap := (rt_heap r)(a \<mapsto> ob')\<rparr>)"
proof -
  let ?h = "(rt_heap r)(a \<mapsto> ob')"
  have "tiled ?h p as e = tiled (rt_heap r) p as e" for p as e
    by (rule tiled_sizes) (use assms(2,4) in auto)
  moreover have "dom ?h = dom (rt_heap r)" using assms(2) by auto
  moreover have "{a. is_free ?h a} = {a. is_free (rt_heap r) a}" using assms(2,3) by (auto simp: is_free_def)
  moreover have "\<forall>x \<in> ran ?h. fits x" if f: "\<forall>x \<in> ran (rt_heap r). fits x"
  proof
    fix x assume "x \<in> ran ?h"
    then consider "x = ob'" | "x \<in> ran (rt_heap r)" by (auto simp: ran_def split: if_splits)
    then show "fits x"
    proof cases
      case 1
      moreover have "fits ob" using f assms(2) by (auto simp: ran_def)
      ultimately show ?thesis using assms(3-5) by (simp add: fits_def)
    qed (use f in blast)
  qed
  ultimately show ?thesis using assms(1) by (auto simp: arena_ok_def blocks_ok_def)
qed

lemma evolves_setValue: "setValue p slot v r = Some r' \<Longrightarrow> evolves r r'"
proof (rule evolves_same_outside)
  assume "setValue p slot v r = Some r'"
  then obtain ob vs where ob: "rt_heap r (unat p) = Some ob" "upd (o_values ob) slot v = Some vs"
    and r': "r' = r\<lparr>rt_heap := (rt_heap r)(unat p \<mapsto> ob\<lparr>o_values := vs\<rparr>)\<rparr>"
    by (auto simp: setValue_def deref_def obj_setValue_def split: bind_splits)
  from r' show "same_outside r r'" "rt_nextNative r' = rt_nextNative r" by (auto simp: same_outside_def)
  show "arena_ok r' \<and> externals (rt_heap r) \<subseteq> externals (rt_heap r')" if "arena_ok r"
    using arena_ok_values [OF that ob(1), of "ob\<lparr>o_values := vs\<rparr>"] ob upd_length [OF ob(2)] r'
    by (auto simp: externals_def)
qed

lemma evolves_setExternalGC: "setExternalGC p r = Some r' \<Longrightarrow> evolves r r'"
proof (rule evolves_same_outside)
  assume "setExternalGC p r = Some r'"
  then obtain ob where ob: "rt_heap r (unat p) = Some ob"
    and r': "r' = r\<lparr>rt_heap := (rt_heap r)(unat p \<mapsto> ob\<lparr>o_gcMark := B0RK_GC_EXTERNAL\<rparr>)\<rparr>"
    by (auto simp: setExternalGC_def deref_def split: bind_splits)
  from r' show "same_outside r r'" "rt_nextNative r' = rt_nextNative r" by (auto simp: same_outside_def)
  show "arena_ok r' \<and> externals (rt_heap r) \<subseteq> externals (rt_heap r')" if "arena_ok r"
    using arena_ok_values [OF that ob(1), of "ob\<lparr>o_gcMark := B0RK_GC_EXTERNAL\<rparr>"] ob r'
    by (auto simp: externals_def)
qed

lemma evolves_setNativeObject: "setNativeObject p c no r = Some r' \<Longrightarrow> evolves r r'"
  by (auto simp: setNativeObject_def intro: evolves_setValue split: bind_splits)

lemma evolves_new_native: "new_native no r = (p, r') \<Longrightarrow> evolves r r'"
  by (auto simp: new_native_def evolves_def sound_def arena_ok_def Let_def)

lemma evolves_getTimestamp: "getTimestamp r = (n, r') \<Longrightarrow> evolves r r'"
  by (auto simp: getTimestamp_def evolves_def sound_def arena_ok_def)

lemma evolves_ticks: "evolves r (r\<lparr>rt_ticks := n\<rparr>)" "evolves r (r\<lparr>rt_output := rt_output r @ out\<rparr>)"
  by (auto simp: evolves_def sound_def arena_ok_def)

lemma evolves_class:
  "rt_class r cp = Some c \<Longrightarrow> evolves r (r\<lparr>rt_class := (rt_class r)(cp \<mapsto> c')\<rparr>)"
  by (auto simp: evolves_def sound_def arena_ok_def)

lemma evolves_next: "evolves r (r\<lparr>rt_nextNative := rt_nextNative r + 1\<rparr>)"
  by (auto simp: evolves_def sound_def arena_ok_def)

lemma evolves_delete_class: "evolves r (r\<lparr>rt_class := (rt_class r)(cp := None)\<rparr>)"
  by (auto simp: evolves_def sound_def arena_ok_def)

lemma evolves_func: "evolves r (r\<lparr>rt_func := (rt_func r)(f \<mapsto> fn)\<rparr>)"
  by (auto simp: evolves_def sound_def arena_ok_def)

lemma evolves_register: "\<exists>cs. names = rt_classes r @ cs \<Longrightarrow> evolves r (r\<lparr>rt_classes := names\<rparr>)"
  by (auto simp: evolves_def sound_def arena_ok_def)

lemma evolves_output: "\<exists>out. out' = rt_output r @ out \<Longrightarrow> evolves r (r\<lparr>rt_output := out'\<rparr>)"
  using evolves_ticks(2) by auto

lemmas evolves_after = evolves_class [THEN evolves_trans [rotated]] evolves_output [THEN evolves_trans [rotated]]
  evolves_ticks [THEN evolves_trans [rotated]] evolves_func [THEN evolves_trans [rotated]]
  evolves_register [THEN evolves_trans [rotated]] evolves_delete_class [THEN evolves_trans [rotated]]

lemma wp_vm_rt [wps]:
  assumes "\<And>r'. f (rt s) = Some r' \<Longrightarrow> evolves (rt s) r'" and "evolves r (rt s)"
    and "\<And>t. evolves r (rt t) \<Longrightarrow> Q t"
  shows "pred_option Q (vm_rt f s)"
proof (cases "f (rt s)")
  case (Some r')
  with evolves_trans [OF assms(2) assms(1)] assms(3) [of "s\<lparr>rt := r'\<rparr>"] show ?thesis by (simp add: vm_rt_def)
qed (simp add: vm_rt_def)

lemma advances_setValue: "advances1 s (vm_setValue p slot v s)"
  unfolding vm_setValue_def by (intro advancesI wps) (auto intro: evolves_setValue)

section \<open>Collection and allocation\<close>

lemma outside_heap_upd [simp]:
  "outside_heap (r\<lparr>rt_heap := h\<rparr>) = outside_heap r" "outside_heap (r\<lparr>freeList := fl\<rparr>) = outside_heap r"
  "outside_heap (r\<lparr>currentObjects := n\<rparr>) = outside_heap r" "outside_heap (r\<lparr>currentBytes := n\<rparr>) = outside_heap r"
  "outside_heap (r\<lparr>collectedObjects := n\<rparr>) = outside_heap r"
  by (simp_all add: outside_heap_def)

lemma sweep_outside: "sweep mark e p (r, k) = Some (r', n) \<Longrightarrow> outside_heap r' = outside_heap r"
proof (induction mark e p "(r, k)" arbitrary: r k rule: sweep.induct)
  case (1 mark e pos r k)
  then show ?case
    by (subst (asm) (4) sweep.simps) (fastforce split: if_splits option.splits)
qed

lemma outside_heap_next: "outside_heap r' = outside_heap r \<Longrightarrow> same_outside r r' \<and> rt_nextNative r' = rt_nextNative r"
  using outside_heap_same [of r' r] by (cases r; cases r') (simp add: outside_heap_def)

lemma gc_outside:
  assumes "gc d force s = Some s'"
  shows "same_outside (rt s) (rt s') \<and> rt_nextNative (rt s') = rt_nextNative (rt s)"
proof -
  have a: "same_outside (rt t) (rt t') \<and> rt_nextNative (rt t') = rt_nextNative (rt t)"
    if "gcArena d m t = Some (n, t')" for m t n t'
    using that by (auto simp: gcArena_def Let_def same_outside_def dest!: sweep_outside outside_heap_next split: bind_splits if_splits)
  from assms show ?thesis
    by (auto simp: gc_def getTimestamp_def Let_def same_outside_def dest!: a split: bind_splits if_splits)
qed

lemma advances_gc: "advances1 s (gc d force s)"
proof -
  have "evolves (rt s) (rt t)" if "gc d force s = Some t" for t
    using gc_outside [OF that] gc_arena_ok [OF _ that] by (intro evolves_same_outside) auto
  then show ?thesis by (simp add: advances1_def pred_option_iff)
qed

text \<open>An allocation, and what it gives: a live object, at an address in the arena.\<close>

lemma carve_outside: "carve cp n a fl r = Some r' \<Longrightarrow> same_outside r r' \<and> rt_nextNative r' = rt_nextNative r"
  by (auto simp: carve_def Let_def same_outside_def split: bind_splits)

lemma allocateObject_outside:
  assumes "allocateObject d cp extra s = Some (p, t)"
  shows "same_outside (rt s) (rt t) \<and> rt_nextNative (rt t) = rt_nextNative (rt s) \<and> rt_class (rt s) cp \<noteq> None"
  using assms
  by (auto simp: allocateObject_def Let_def same_outside_def dest!: gc_outside carve_outside split: bind_splits if_splits)

lemma allocateObject_evolves:
  assumes "allocateObject d cp extra s = Some (p, t)"
  shows "evolves (rt s) (rt t) \<and> (sound (rt s) \<longrightarrow> live (rt_heap (rt t)) (unat p) \<noteq> None)"
proof -
  note out = allocateObject_outside [OF assms]
  from out obtain c where c: "rt_class (rt s) cp = Some c" by blast
  have alloc: "arena_ok (rt t) \<and> externals (rt_heap (rt s)) \<subseteq> externals (rt_heap (rt t)) \<and> live (rt_heap (rt t)) (unat p) \<noteq> None"
    if "arena_ok (rt s)" "cp \<noteq> 0"
    using allocateObject_blocks [OF that(1) c that(2) assms] by auto
  have null: "cp \<noteq> 0" if "sound (rt s)" using that c by (auto simp: sound_def)
  have "sound (rt t)" if "sound (rt s)"
    using that alloc [OF _ null [OF that]] out by (auto simp: sound_def same_outside_def)
  moreover have "evolves (rt s) (rt t)"
    using out calculation by (auto simp: evolves_def same_outside_def)
  ultimately show ?thesis using alloc null by (auto simp: sound_def)
qed

lemma advances_alloc: "advances s (allocateObject d cp extra s)"
  using allocateObject_evolves by (fastforce simp: advances_def pred_option_iff)

lemmas wp_memory [wps] = advances_setValue [THEN wp_advances(2)] advances_gc [THEN wp_advances(2)]
  advances_alloc [THEN wp_advances(1)]

section \<open>Strings\<close>

lemma wp_native [wps]:
  assumes "evolves r (rt s)" and "\<And>p r'. evolves r r' \<Longrightarrow> pred_option Q (f p r')"
  shows "pred_option Q (case new_native no (rt s) of (p, r') \<Rightarrow> f p r')"
  using assms evolves_trans [OF assms(1) evolves_new_native] by (auto split: prod.split)

lemma live_setNativeObject: "setNativeObject p c no r = Some r' \<Longrightarrow> live (rt_heap r') (unat p) \<noteq> None \<longleftrightarrow> live (rt_heap r) (unat p) \<noteq> None"
  by (auto simp: setNativeObject_def setValue_def obj_setValue_def deref_def live_def split: bind_splits)

lemma createString_evolves:
  assumes "createString e str s = Some (p, t)"
  shows "evolves (rt s) (rt t) \<and> (sound (rt s) \<longrightarrow> live (rt_heap (rt t)) (unat p) \<noteq> None)
    \<and> rt_stringTable (rt t) = rt_stringTable (rt s)"
proof -
  from assms obtain s1 c no r r2 where s1: "allocateObject (ev_stack e) (stringClass (rt s)) 0 s = Some (p, s1)"
    and n: "new_native (StringNative str) (rt s1) = (no, r)" and r2: "setNativeObject p c no r = Some r2" and t: "t = s1\<lparr>rt := r2\<rparr>"
    by (auto simp: createString_def vm_rt_def split: bind_splits prod.splits)
  note a = allocateObject_evolves [OF s1]
  have "evolves (rt s) r2"
    using a evolves_new_native [OF n] evolves_setNativeObject [OF r2] evolves_trans by blast
  moreover have "rt_heap r = rt_heap (rt s1)" using n by (auto simp: new_native_def Let_def)
  moreover have "rt_stringTable r2 = rt_stringTable (rt s)"
    using allocateObject_outside [OF s1] n r2
    by (auto simp: same_outside_def new_native_def Let_def setNativeObject_def setValue_def split: bind_splits)
  ultimately show ?thesis using a live_setNativeObject [OF r2] t by simp
qed

lemma advances_newString: "advances s (newString e str s)"
proof -
  have "evolves (rt s) (rt t)" if "newString e str s = Some (p, t)" for p t
  proof (cases "rt_stringTable (rt s) str")
    case (Some q)
    with that show ?thesis by (simp add: newString_def)
  next
    case None
    with that obtain s1 r where s1: "createString e str s = Some (p, s1)"
      and r: "setExternalGC p ((rt s1)\<lparr>rt_stringTable := (rt_stringTable (rt s1))(str \<mapsto> p)\<rparr>) = Some r"
      and t: "t = s1\<lparr>rt := r\<rparr>"
      by (auto simp: newString_def vm_rt_def split: bind_splits)
    note c = createString_evolves [OF s1]
    from r obtain ob where ob: "rt_heap (rt s1) (unat p) = Some ob"
      and r': "r = (rt s1)\<lparr>rt_stringTable := (rt_stringTable (rt s1))(str \<mapsto> p),
         rt_heap := (rt_heap (rt s1))(unat p \<mapsto> ob\<lparr>o_gcMark := B0RK_GC_EXTERNAL\<rparr>)\<rparr>"
      by (auto simp: setExternalGC_def deref_def split: bind_splits)
    have "sound r" if s: "sound (rt s)" "sound (rt s1)"
    proof -
      have "arena_ok ((rt s1)\<lparr>rt_heap := (rt_heap (rt s1))(unat p \<mapsto> ob\<lparr>o_gcMark := B0RK_GC_EXTERNAL\<rparr>)\<rparr>)"
        using s(2) by (intro arena_ok_values [OF _ ob]) (auto simp: sound_def)
      then have "arena_ok r" by (simp add: r' arena_ok_def)
      moreover have "unat p \<in> externals (rt_heap r)"
        using c s(1) ob by (auto simp: r' externals_def live_def)
      moreover have "externals (rt_heap (rt s1)) \<subseteq> externals (rt_heap r)" using ob by (auto simp: r' externals_def)
      ultimately show ?thesis using s(2) by (auto simp: sound_def r' ran_def)
    qed
    moreover have "rt_stringTable (rt s) \<subseteq>\<^sub>m rt_stringTable r" using c None r' by (auto simp: map_le_def)
    moreover have "rt_nextNative r = rt_nextNative (rt s1)" "rt_output r = rt_output (rt s1)"
      "rt_classes r = rt_classes (rt s1)" "rt_func r = rt_func (rt s1)" using r' by simp_all
    moreover have "rt t = r" using t by simp
    moreover note c [unfolded evolves_def]
    ultimately show ?thesis unfolding evolves_def by metis
  qed
  then show ?thesis by (simp add: advances_def pred_option_iff)
qed

lemma advances_createString: "advances s (createString e str s)"
  using createString_evolves by (fastforce simp: advances_def pred_option_iff)

lemmas wp_strings [wps] = advances_createString [THEN wp_advances(1)] advances_newString [THEN wp_advances(1)]

end
