(* ===== verification/Running.thy ===== *)
theory Running
  imports Invariant
begin

text \<open>
  The interpreter keeps the runtime sound: native functions, constructors, every opcode handler, the
  run loop and calls. What they call back into is the interface \<open>sound_calls\<close>.
\<close>

text \<open>The parts that only read.\<close>

lemma wp_reading [wps]:
  "(\<And>x. rt_class r cp = Some x \<Longrightarrow> Q1 x) \<Longrightarrow> pred_option Q1 (rt_class r cp)"
  "(\<And>x. rt_func r f = Some x \<Longrightarrow> Q2 x) \<Longrightarrow> pred_option Q2 (rt_func r f)"
  "(\<And>x. Q3 x) \<Longrightarrow> pred_option Q3 (getFieldId cs cp name)"
  "(\<And>x. Q4 x) \<Longrightarrow> pred_option Q4 (getStaticFieldId cs cp name)"
  "(\<And>x. Q5 x) \<Longrightarrow> pred_option Q5 (findMethod cs cp name)"
  "(\<And>x. Q6 x) \<Longrightarrow> pred_option Q6 (getValue r p slot)"
  "(\<And>x. Q7 x) \<Longrightarrow> pred_option Q7 (objClass r p)"
  "(\<And>x. Q8 x) \<Longrightarrow> pred_option Q8 (getString r p)"
  "(\<And>x. Q9 x) \<Longrightarrow> pred_option Q9 (getStringV r v)"
  "(\<And>x. Q10 x) \<Longrightarrow> pred_option Q10 (operandString r v)"
  "(\<And>x. Q11 x) \<Longrightarrow> pred_option Q11 (idx xs i)"
  "(\<And>x. Q12 x) \<Longrightarrow> pred_option Q12 (getNativeObject r p c)"
  "(\<And>x. Q13 x) \<Longrightarrow> pred_option Q13 (toString r v)"
  "(\<And>x. Q14 x) \<Longrightarrow> pred_option Q14 (getStaticField slot c)"
  "(\<And>x. Q15 x) \<Longrightarrow> pred_option Q15 (setStaticField slot v c)"
  "(\<And>x. Q16 x) \<Longrightarrow> pred_option Q16 (d_lround w)"
  "(\<And>x. Q17 x) \<Longrightarrow> pred_option Q17 (getStackTrace s)"
  "(\<And>x. Q18 x) \<Longrightarrow> pred_option Q18 (getDescriptor cp p r)"
  "(\<And>x. Q19 x) \<Longrightarrow> pred_option Q19 (getLocal i s)"
  "(\<And>x. Q20 x) \<Longrightarrow> pred_option Q20 (peek s)"
  "(\<And>x. Q21 x) \<Longrightarrow> pred_option Q21 (int_div a b)"
  "(\<And>x. Q22 x) \<Longrightarrow> pred_option Q22 (arith dop iop v1 v2)"
  "(\<And>x. Q23 x) \<Longrightarrow> pred_option Q23 (getExceptionString r p)"
  "(\<And>x. Q24 x) \<Longrightarrow> pred_option Q24 (new_frame code this)"
  by (auto simp: pred_option_iff)

lemma wp_let [wps]: "pred_option Q (f x) \<Longrightarrow> pred_option Q (Let x f)"
  by simp

lemma callConstructor_evolves:
  assumes "callConstructor e obj cp n s = Some y"
  shows "(\<forall>f inst n s. advances s (ev_call e f inst n s)) \<longrightarrow> evolves (rt s) (rt (snd y))"
proof (rule callConstructor.raw_induct [where P = "\<lambda>e obj cp n s y.
    (\<forall>f inst n s. advances s (ev_call e f inst n s)) \<longrightarrow> evolves (rt s) (rt (snd y))", OF _ assms], rule impI, goal_cases)
  case (1 cc e obj cp n s y)
  have c: "advances s (cc e obj cp n s)" for obj cp n s
    using 1(1,3) by (fastforce simp: advances_def pred_option_iff)
  note wp = c [THEN wp_advances(1)] 1(3) [rule_format, THEN wp_advances(1)]
  have "pred_option (\<lambda>(x, t). evolves (rt s) (rt t)) (Some y)"
    unfolding 1(2) [symmetric] by (auto intro!: wps wp)
  then show ?case by (auto split: prod.splits)
qed

locale sound_calls =
  fixes e :: env
  assumes call_law: "advances s (ev_call e f inst n s)"
    and assemble_law: "advances s (ev_assemble e f s)"
begin

lemmas wp_calls [wps] = call_law [THEN wp_advances(1)] assemble_law [THEN wp_advances(1)]

section \<open>Objects, exceptions and native functions\<close>

lemma advances_callConstructor: "advances s (callConstructor e obj cp n s)"
  using callConstructor_evolves call_law by (fastforce simp: advances_def pred_option_iff)

lemmas wp_constructors [wps] = advances_callConstructor [THEN wp_advances(1)]

lemma advances_newObject: "advances s (newObject e cp n s)"
  unfolding newObject_def by (auto intro!: advancesI wps)

lemmas wp_objects [wps] = advances_newObject [THEN wp_advances(1)]

lemma advances_createException: "advances s (createException e v s)"
  unfolding createException_def by (auto intro!: advancesI wps dest!: evolves_new_native intro: evolves_trans)

lemmas wp_exceptions [wps] = advances_createException [THEN wp_advances(1)]

lemma advances_throw: "advances1 s (throw_message e msg s)"
  unfolding throw_message_def throw_exception_def by (auto intro!: advancesI wps)

lemmas wp_throw [wps] = advances_throw [THEN wp_advances(2)]

lemma advances_push_all: "aside1 s (push_all vs s)"
proof (induction vs arbitrary: s)
  case (Cons v vs)
  then show ?case
    by (fastforce simp: aside1_def pred_option_iff split: bind_splits dest: aside_stack(1) [unfolded aside1_def pred_option_iff, rule_format])
qed (simp add: aside1_def)

lemma aside_pop_args: "aside s (pop_args n acc s)"
proof (induction n arbitrary: acc s)
  case (Suc n)
  then show ?case
    by (fastforce simp: aside_def pred_option_iff split: bind_splits dest: aside_stack(2) [unfolded aside_def pred_option_iff, rule_format])
qed (simp add: aside_def)

lemmas wp_args [wps] = advances_push_all [THEN wp_aside(2)] aside_pop_args [THEN wp_aside(1)]

lemma advances_newArray: "advances s (newArray e n s)"
  unfolding newArray_def by (auto intro!: advancesI wps)

lemma advances_array_load: "advances2 s (array_load e array index s)"
  unfolding array_load_def by (auto intro!: advancesI wps)

lemma advances_array_store: "advances s (array_store e array index v s)"
  unfolding array_store_def by (auto intro!: advancesI wps)

lemma advances_array_constructor: "advances1 s (array_constructor e inst args s)"
  unfolding array_constructor_def by (auto intro!: advancesI wps)

lemmas wp_arrays [wps] = advances_newArray [THEN wp_advances(1)] advances_array_load [THEN wp_advances(3)]
  advances_array_store [THEN wp_advances(1)] advances_array_constructor [THEN wp_advances(2)]

lemma output_grows:
  "write_chars cs buf out = Some out' \<Longrightarrow> \<exists>bs. out' = out @ bs"
  "doWrite vs r = Some r' \<Longrightarrow> evolves r r'"
  "print_lines ls out = Some out' \<Longrightarrow> \<exists>bs. out' = out @ bs"
proof -
  show w: "write_chars cs buf out = Some out' \<Longrightarrow> \<exists>bs. out' = out @ bs" for cs buf out out'
    by (induction cs buf out rule: write_chars.induct) (fastforce split: sum.splits if_splits)+
  show "doWrite vs r = Some r' \<Longrightarrow> evolves r r'"
  proof (induction vs arbitrary: r)
    case (Cons v vs)
    then show ?case
      by (auto simp: doWrite_string_def split: bind_splits dest!: w intro: evolves_trans [OF evolves_ticks(2)])
  qed simp
  show "print_lines ls out = Some out' \<Longrightarrow> \<exists>bs. out' = out @ bs"
    by (induction ls arbitrary: out) (fastforce split: if_splits)+
qed

lemma wp_print_lines: "(\<And>bs. Q (out @ bs)) \<Longrightarrow> pred_option Q (print_lines ls out)"
  using output_grows(3) by (fastforce simp: pred_option_iff)

lemma advances_file:
  "advances1 s (file_write newline cp inst args s)" "advances1 s (file_init e cp s)"
proof -
  show "advances1 s (file_write newline cp inst args s)"
    unfolding advances1_def pred_option_iff
  proof (intro allI impI)
    fix t assume "file_write newline cp inst args s = Some t"
    then obtain r where r: "doWrite args (rt s) = Some r"
      "t = s\<lparr>rt := if newline then r\<lparr>rt_output := rt_output r @ [10]\<rparr> else r\<rparr>"
      by (auto simp: file_write_def Let_def split: bind_splits)
    with output_grows(2) [OF r(1)] evolves_trans [OF _ evolves_ticks(2)] show "evolves (rt s) (rt t)" by simp
  qed
  show "advances1 s (file_init e cp s)"
    unfolding file_init_def
    by (auto intro!: advancesI wps intro: evolves_after)
qed

lemmas wp_files [wps] = advances_file [THEN wp_advances(2)]

lemma advances_string_constructor: "advances2 s (string_constructor cp inst args s)"
  unfolding string_constructor_def with_result_def
  by (auto intro!: advancesI wps dest!: evolves_setNativeObject evolves_new_native intro: evolves_trans split: list.split native_object.split)

lemmas wp_string_constructor [wps] = advances_string_constructor [THEN wp_advances(3)]

lemma advances_run_native: "advances2 s (run_native m e cp inst args s)"
  by (cases m)
     (auto simp: with_result_def maths_randomInt_def maths_round_def maths_sqrt_def exception_printStackTrace_def
       intro!: advancesI wps wp_print_lines evolves_after
       dest!: evolves_getTimestamp intro: evolves_trans split: native_object.split)

lemma advances_run_native_object: "advances2 s (run_native_object m e str args s)"
  by (cases m) (auto intro!: advancesI wps)

lemmas wp_native_bodies [wps] = advances_run_native [THEN wp_advances(3)] advances_run_native_object [THEN wp_advances(3)]

lemma wp_push_result:
  "pred_option (\<lambda>(x, y, t). evolves r (rt t)) m \<Longrightarrow> pred_option (\<lambda>(x, t). evolves r (rt t)) (push_result m)"
  unfolding push_result_def
  by (rule wp_bind) (cases m, auto intro!: wps)

lemma advances_native: "advances s (native_execute e m cp inst n s)" "advances s (native_object_execute e k cp inst n s)"
  unfolding native_execute_def native_object_execute_def
  by (auto intro!: advancesI wps wp_push_result split: native_object.split)

lemmas wp_natives [wps] = advances_native [THEN wp_advances(1)]

section \<open>Opcode handlers\<close>

lemma rt_flags [simp]: "rt (set_flags z sg s) = rt s" "rt (CMP_INTEGER l r s) = rt s" "rt (CMP_DOUBLE l r s) = rt s"
  "rt (cmp_doubles a b s) = rt s" "rt (set_pc d s) = rt s" "rt (stop_running s) = rt s" "rt (throw_exception v s) = rt s"
  by (simp_all add: set_flags_def CMP_INTEGER_def CMP_DOUBLE_def cmp_doubles_def set_pc_def stop_running_def
      throw_exception_def Let_def)

lemma wp_array_cast [wps]: "(\<And>q. Q q) \<Longrightarrow> pred_option Q (array_cast r p)"
  by (auto simp: pred_option_iff)

lemmas handler_defs = opcodeLoadVar_def opcodeStoreVar_def opcodeLoadField_def opcodeLoadFieldNamed_def
  opcodeStoreFieldNamed_def opcodeLoadStaticField_def opcodeStoreStaticField_def opcodeStoreField_def
  opcodeLoadArray_def opcodeStoreArray_def opcodeIncVar_def opcodeIncVarD_def push_fetched_def opcodePushI_def
  opcodePushD_def opcodePushObj_def opcodeDup_def opcodeSwap_def opcodePop_def object_operator_def
  arith_handler_def opcodeAdd_def opcodeSub_def opcodeMul_def opcodeDiv_def opcodeAnd_def opcodeNot_def
  int_handler_def double_handler_def opcodeAddI_def opcodeSubI_def opcodeMulI_def opcodeDivI_def opcodeAddD_def
  opcodeSubD_def opcodeMulD_def opcodeDivD_def opcodeCmp_def opcodeCmpI_def opcodeCmpD_def push_cond_def
  opcodePushCE_def opcodePushCNE_def opcodePushCL_def opcodePushCLE_def opcodePushCG_def opcodePushCGE_def
  branch_def opcodeJmp_def opcodeBEq_def opcodeBNE_def opcodeBL_def opcodeBLE_def opcodeBG_def opcodeBGE_def
  fetch_int_def opcodeCall_def opcodeCallStatic_def opcodeCallNamed_def opcodeCallObj_def opcodeNew_def
  opcodeNewFunction_def opcodeReturn_def opcodeThrow_def opcodePushHandler_def opcodePopHandler_def opcodeInvalid_def

lemma advances_handler: "advances s (opcodeTable c e s)"
  by (cases c; simp only: opcodeTable.simps handler_defs)
     (auto intro!: advancesI wps intro: evolves_after split: list.split)

lemmas wp_handlers [wps] = advances_handler [THEN wp_advances(1)]

section \<open>The run loop and calls\<close>

lemma advances_dispatch: "advances s (dispatch e w s)"
  unfolding dispatch_def by (auto intro!: advancesI wps simp: opcodeInvalid_def)

lemma aside_pop_to_frame: "aside1 s (pop_to_frame n s)"
proof (induction n arbitrary: s)
  case (Suc n)
  then show ?case
    by (fastforce simp: aside1_def pred_option_iff split: bind_splits if_splits
        dest: aside_stack(2) [unfolded aside_def pred_option_iff, rule_format])
qed (simp add: aside1_def)

lemma aside_store_args: "aside1 s (store_args n s)"
proof (induction n arbitrary: s)
  case (Suc n)
  then show ?case
    by (fastforce simp: aside1_def pred_option_iff split: bind_splits
        dest: aside_stack(2) [unfolded aside_def pred_option_iff, rule_format]
          aside_stack(8) [unfolded aside1_def pred_option_iff, rule_format])
qed (simp add: aside1_def)

lemmas wp_frames [wps] = advances_dispatch [THEN wp_advances(1)] aside_pop_to_frame [THEN wp_aside(2)]
  aside_store_args [THEN wp_aside(2)]

lemma advances_step: "advances s (step e s)"
  unfolding step_def handleException_def by (auto intro!: advancesI wps split: list.split)

lemma advances_run_loop: "advances s (run_loop e n b s)"
proof (induction n arbitrary: b s)
  case (Suc n)
  note wp = Suc.IH [THEN wp_advances(1)] advances_step [THEN wp_advances(1)]
  have "run_loop e (Suc n) b s = (if loop_condition s
      then do { (x, t) \<leftarrow> step e s; case x of Inl b \<Rightarrow> Some (b, t) | Inr b \<Rightarrow> run_loop e n b t } else Some (b, s))"
    by (auto split: option.splits sum.splits)
  then show ?case by (auto intro!: advancesI wps wp split: sum.split simp del: run_loop.simps)
qed (auto intro!: advancesI wps)

lemmas wp_run_loop [wps] = advances_run_loop [THEN wp_advances(1)]

lemma advances_run: "advances s (run e this code n s)"
  unfolding run_def by (auto intro!: advancesI wps)

lemmas wp_run [wps] = advances_run [THEN wp_advances(1)]

lemma wp_script_code:
  "(\<And>code. pred_option Q (g code)) \<Longrightarrow>
     pred_option Q (case k of ScriptFunction _ (Some code) \<Rightarrow> g code | _ \<Rightarrow> None)"
  "pred_option Q m1 \<Longrightarrow> pred_option Q m2 \<Longrightarrow> pred_option Q (case k of ScriptFunction _ (Some code) \<Rightarrow> m1 | _ \<Rightarrow> m2)"
  by (auto split: function_kind.split option.split)

lemma advances_script_execute: "advances s (script_execute e f inst n s)"
  unfolding script_execute_def by (auto intro!: advancesI wps wp_script_code)

lemma advances_function_execute: "advances s (function_execute e f inst n s)"
  unfolding function_execute_def
  by (auto intro!: advancesI wps advances_script_execute [THEN wp_advances(1)] split: function_kind.split)

lemma advances_execute_argv: "advances2 s (execute_argv e f inst argv s)"
  unfolding execute_argv_def by (auto intro!: advancesI wps)

end

text \<open>Calls that nest to any depth, given that assembling keeps the runtime sound.\<close>

lemma advances_interp:
  assumes "\<And>s f. advances s (ev_assemble e f s)"
  shows "advances s (interp e n f inst k s)"
proof (induction n arbitrary: f inst k s)
  case (Suc n)
  have "sound_calls (e\<lparr>ev_call := interp e n, ev_stack := n\<rparr>)"
    by unfold_locales (simp_all add: Suc.IH assms)
  from sound_calls.advances_function_execute [OF this] show ?case by simp
qed (simp add: advances_def)

end
