(* ===== verification/Building.thy ===== *)
theory Building
  imports Running Linker
begin

text \<open>
  The assembler keeps the runtime sound: it reaches it through string constants, the class loader, and
  the code it hands over. The class loader is the interface \<open>sound_names\<close>.
\<close>

definition going :: "act \<Rightarrow> bool" where
  "going a \<longleftrightarrow> (\<forall>s. advances s (a s))"

named_theorems goings \<open>actions of the assembler that keep the runtime sound\<close>

lemma goingI: "(\<And>s. advances s (a s)) \<Longrightarrow> going a"
  by (simp add: going_def)

lemma goingD: "going a \<Longrightarrow> a s = Some (b, t) \<Longrightarrow> evolves (rt s) (rt t)"
  by (auto simp: going_def intro: advancesD)

lemma going_basic [goings]:
  "going ok" "going fail" "going crash" "going (pushInstruction c args)" "going (push_raw op)" "going (patch_size p k)"
  by (auto simp: going_def advances_def pred_option_iff ok_def fail_def crash_def pushInstruction_def push_raw_def
      patch_size_def split: bind_splits)

lemma going_andThen [goings]: "going a \<Longrightarrow> going b \<Longrightarrow> going (andThen a b)"
  by (fastforce simp: going_def advances_def pred_option_iff andThen_def split: option.splits bool.splits intro: evolves_trans)

lemma going_ignoring [goings]: "going a \<Longrightarrow> going b \<Longrightarrow> going (ignoring a b)"
  by (fastforce simp: going_def advances_def pred_option_iff ignoring_def split: option.splits intro: evolves_trans)

lemma going_reading [goings]: "(\<And>s. going (k s)) \<Longrightarrow> going (reading k)"
  by (simp add: going_def reading_def)

lemma going_runAll [goings]: "(\<And>a. a \<in> set as \<Longrightarrow> going a) \<Longrightarrow> going (runAll as)"
  by (induction as) (auto intro: goings)

lemma going_whenSome [goings]: "(\<And>y. x = Some y \<Longrightarrow> going (k y)) \<Longrightarrow> going (whenSome x k)"
  by (cases x) (auto simp: whenSome_def intro: goings)

lemma going_cases [goings]:
  "(b \<Longrightarrow> going a1) \<Longrightarrow> (\<not> b \<Longrightarrow> going a2) \<Longrightarrow> going (if b then a1 else a2)"
  "going (f x) \<Longrightarrow> going (Let x f)"
  "(w = None \<Longrightarrow> going a3) \<Longrightarrow> (\<And>y. w = Some y \<Longrightarrow> going (g y)) \<Longrightarrow> going (case w of None \<Rightarrow> a3 | Some y \<Rightarrow> g y)"
  "(\<And>y z. u = (y, z) \<Longrightarrow> going (h y z)) \<Longrightarrow> going (case u of (y, z) \<Rightarrow> h y z)"
  by (auto split: option.split prod.split)

lemma going_operators [goings]: "going (pushOperator c t)" "going (pushCMP t)"
  unfolding pushOperator_def pushCMP_def by (auto intro: goings split: ValueType.split)

lemma going_push_string [goings]: "going (push_string ae str)"
  unfolding push_string_def
  by (auto intro!: goingI advancesI wps going_basic(4) [unfolded going_def, rule_format, THEN wp_advances(1)] intro: evolves_setExternalGC)

lemma going_variables [goings]:
  "(\<And>r. ref = Some r \<Longrightarrow> going r) \<Longrightarrow> going (load ae sc c v ref)"
  "(\<And>r. ref = Some r \<Longrightarrow> going r) \<Longrightarrow> going (store ae sc v ref)"
  unfolding load_def load_plain_def store_def by (auto intro!: goings)

lemma going_push_branch [goings]: "going push_branch"
proof -
  have "going (\<lambda>s. pushInstruction b [0] (s\<lparr>asm_code := butlast (asm_code s)\<rparr>))" for b
    by (simp add: going_def advances_def pushInstruction_def)
  then show ?thesis unfolding push_branch_def by (auto intro!: goings)
qed

lemma going_constructs [goings]:
  "(\<And>r. ref = Some r \<Longrightarrow> going r) \<Longrightarrow> going (call_target ae sc b c name n ref)"
  "(\<And>r. ref = Some r \<Longrightarrow> going r) \<Longrightarrow> going (assembleCrement ae sc b left ref need)"
  "(\<And>r. ref = Some r \<Longrightarrow> going r) \<Longrightarrow> (\<And>r. lref = Some r \<Longrightarrow> going r) \<Longrightarrow> (\<And>r. ix = Some r \<Longrightarrow> going r) \<Longrightarrow>
     going (assembleSet ae sc left lref ref ix need)"
  "going test \<Longrightarrow> going (assembleTest test)"
  unfolding call_target_def assembleCrement_def assembleSet_def assembleTest_def
  by (auto intro!: goings split: expr.split)

lemma going_statements [goings]:
  "(\<And>a. a \<in> set ps \<Longrightarrow> going a) \<Longrightarrow> (\<And>r. ref = Some r \<Longrightarrow> going r) \<Longrightarrow>
     going (assembleCall ae sc inRef c name ps ref need)"
  "going test \<Longrightarrow> going tb \<Longrightarrow> (\<And>f. fb = Some f \<Longrightarrow> going f) \<Longrightarrow> going (assembleIf test tb fb)"
  "going init \<Longrightarrow> going test \<Longrightarrow> going inc \<Longrightarrow> going body \<Longrightarrow> going (assembleFor init test inc body)"
  "going tb \<Longrightarrow> going cb \<Longrightarrow> going (assembleTry ev tb cb)"
  unfolding assembleCall_def assembleIf_def assembleFor_def assembleTry_def
  by (auto intro!: goings)

lemma going_binary_oper: "binary_oper ot vt = Some a \<Longrightarrow> going a"
  by (cases ot) (auto simp: binary_oper_def intro!: goings)

text \<open>The interface to the class loader.\<close>

locale sound_names =
  fixes ae :: aenv
  assumes find_law: "advances s (ae_findClass ae name s)"
begin

lemma going_assembleNew:
  assumes ps: "\<And>a. a \<in> set ps \<Longrightarrow> going a"
  shows "going (assembleNew ae c ps)"
proof (rule goingI)
  fix s
  have "going (andThen (runAll ps) (pushInstruction OP_NEW args))" for args
    by (rule going_andThen) (auto intro: ps goings)
  then have a: "advances t (andThen (runAll ps) (pushInstruction OP_NEW args) t)" for t args by (simp add: going_def)
  have "assembleNew ae c ps s = do {
      (cp, t) \<leftarrow> ae_findClass ae (dotted c) s;
      if cp = 0 then Some (False, t) else andThen (runAll ps) (pushInstruction OP_NEW [cp, of_nat (length ps)]) t }"
    by (auto simp: assembleNew_def split: option.split)
  then show "advances s (assembleNew ae c ps s)"
    by (auto intro!: advancesI wps find_law [THEN wp_advances(1)] a [THEN wp_advances(1)])
qed

end

lemma going_expressions:
  "sound_names ae \<Longrightarrow> going (assembleExpression ae sc e ref need)"
  "sound_names ae \<Longrightarrow> going (assembleReference ae sc e)"
  "sound_names ae \<Longrightarrow> going (assembleBlock ae sc b)"
proof (induction ae sc e ref need and ae sc e and ae sc b rule: assembleExpression_assembleReference_assembleBlock.induct)
  case (2 ae sc ot desc vt left right reference needResult)
  show ?case
  proof (cases "ot = OPR_REFERENCE \<and> reference = None")
    case True
    with 2 show ?thesis by (auto intro!: goings)
  next
    case False
    have none: "binary_oper OPR_SET vt = None" "binary_oper OPR_INCREMENT vt = None" "binary_oper OPR_DECREMENT vt = None"
      by (simp_all add: binary_oper_def)
    have "going a" if "(case reference of None \<Rightarrow> None | Some r \<Rightarrow> Some (assembleReference ae sc r)) = Some a"
        "ot = OPR_SET \<or> ot = OPR_INCREMENT \<or> ot = OPR_DECREMENT" for a
      using that 2 none by (cases reference) auto
    moreover have "going a" if "(case left of None \<Rightarrow> None
        | Some l \<Rightarrow> if is_reference l then Some (assembleReference ae sc l) else None) = Some a" "ot = OPR_SET" for a
      using that 2 none by (cases left) (auto split: if_splits)
    moreover have "going a" if "(case left of Some (ArrayExpression c v ix) \<Rightarrow> Some (assembleExpression ae sc ix None True)
        | _ \<Rightarrow> None) = Some a" "ot = OPR_SET" for a
      using that 2 none by (cases left) (auto split: expr.splits)
    ultimately show ?thesis using False 2(2,3,8)
      by (auto intro!: goings simp: going_binary_oper)
  qed
qed (auto intro!: goings sound_names.going_assembleNew split: option.splits)

lemma advances_assemble:
  assumes "sound_names ae"
  shows "advances s (assemble ae s)"
proof -
  note wp = going_basic(4) [unfolded going_def, rule_format, THEN wp_advances(1)]
    going_expressions(3) [OF assms, unfolded going_def, rule_format, THEN wp_advances(1)]
  have opt: "pred_option Q (optimise v a code)" if "\<And>c. Q c" for Q v a code
    using that by (simp add: pred_option_iff)
  show ?thesis
    unfolding assemble_def set_code_def
    by (auto intro!: advancesI wps wp opt evolves_after split: function_kind.split option.split)
qed

end
