(* ===== verification/Reading.thy ===== *)
theory Reading
  imports Running ClassParser
begin

text \<open>
  The parser keeps the runtime sound: it reaches it through string values, the classes it defines and
  registers, the class loader, and the functions it hands over at its end. What it relies on is the
  interface \<open>parsing\<close>.
\<close>

section \<open>Steps\<close>

definition growing :: "'a step \<Rightarrow> bool" where
  "growing m \<longleftrightarrow> (\<forall>s. case m s of
     Ret _ t \<Rightarrow> evolves (rt (p_vm s)) (rt (p_vm t))
   | Failed t \<Rightarrow> evolves (rt (p_vm s)) (rt (p_vm t))
   | _ \<Rightarrow> True)"

named_theorems growths \<open>steps of the parser that keep the runtime sound\<close>

lemma growing_bind [growths]: "growing m \<Longrightarrow> (\<And>x. growing (f x)) \<Longrightarrow> growing (bind_step m f)"
  unfolding growing_def bind_step_def by (fastforce split: outcome.splits intro: evolves_trans)

lemma growing_basic [growths]:
  "growing (ret x)" "growing failing" "growing undef" "growing starved" "growing (reads g)" "growing (needing y)"
  "growing moreTokens" "growing nextToken"
  by (auto simp: growing_def ret_def failing_def undef_def starved_def reads_def needing_def moreTokens_def
      nextToken_def split: option.splits outcome.splits)

lemma growing_modify [growths]: "(\<And>s. p_vm (g s) = p_vm s) \<Longrightarrow> growing (modify g)"
  by (simp add: growing_def modify_def)

lemma growing_on_vm: "(\<And>v. advances v (h v)) \<Longrightarrow> growing (on_vm h)"
  by (auto simp: growing_def on_vm_def dest: advancesD(1) split: option.split)

lemma growing_attempt [growths]: "growing m \<Longrightarrow> growing (attempt m)"
  unfolding growing_def attempt_def by (fastforce split: outcome.splits)

lemma growing_each [growths]: "(\<And>x. growing (f x)) \<Longrightarrow> growing (each f xs)"
  by (induction xs) (auto intro: growths)

lemma growing_steps [growths]: "(\<And>m. m \<in> set ms \<Longrightarrow> growing m) \<Longrightarrow> growing (steps ms)"
  by (induction ms) (auto intro: growths)

lemma growing_cases [growths]:
  "(b \<Longrightarrow> growing m1) \<Longrightarrow> (\<not> b \<Longrightarrow> growing m2) \<Longrightarrow> growing (if b then m1 else m2)"
  "growing (f x) \<Longrightarrow> growing (Let x f)"
  "(w = None \<Longrightarrow> growing m3) \<Longrightarrow> (\<And>y. w = Some y \<Longrightarrow> growing (g y)) \<Longrightarrow>
     growing (case w of None \<Rightarrow> m3 | Some y \<Rightarrow> g y)"
  "(\<And>y z. u = (y, z) \<Longrightarrow> growing (h y z)) \<Longrightarrow> growing (case u of (y, z) \<Rightarrow> h y z)"
  by (auto split: option.split prod.split)

lemma growing_store [growths]:
  "growing (getNode x)" "growing (setNode x e)" "growing (newExpr b n ty)" "growing (listExpr x)"
  "growing (getBlock b)" "growing (newBlock p)" "growing (getFunction p)" "growing (updFunction p k)"
  "growing (class_of c)"
  by (auto simp: growing_def getNode_def setNode_def newExpr_def listExpr_def getBlock_def newBlock_def
      getFunction_def updFunction_def modify_def class_of_def split: option.splits)

lemma growing_new_ptr [growths]: "growing new_ptr"
  unfolding new_ptr_def by (rule growing_on_vm) (use evolves_next in \<open>simp add: advances_def\<close>)

lemma growing_derived [growths]:
  "growing (rewind k)" "growing (expect tt)" "growing (updNode x g)" "growing (setParent x y)" "growing (newListed b n ty)"
  "growing (updBlock b j)" "growing (addStatement b x)" "growing (addVar b v)" "growing (adopt b c)"
  "growing (set_node x n)" "growing (set_left x y)" "growing (set_right x y)" "growing (set_if x i)" "growing (set_for x u)"
  unfolding rewind_def expect_def updNode_def setParent_def newListed_def addStatement_def addVar_def adopt_def
    set_node_def set_left_def set_right_def set_if_def set_for_def updBlock_def
  by (auto intro!: growths)

lemma growing_delete [growths]: "growing (deleteExpr n x)" "growing (deleteBlock n b)" "growing (delete_block b)"
proof -
  show e: "growing (deleteExpr n x)" for n x
    by (induction n arbitrary: x) (auto intro!: growths split: pnode.split option.split)
  show b: "growing (deleteBlock n b)" for n b
    by (induction n arbitrary: b) (auto intro!: growths e)
  show "growing (delete_block b)" unfolding delete_block_def by (intro growths b)
qed

lemma growing_number:
  "growing (number_block n i b)" "growing (number_blocks n i mx bs)"
  by (induction n i b and n i mx bs rule: number_block_number_blocks.induct) (auto simp: Let_def intro!: growths)

lemma growing_numbering [growths]: "growing (setStartingVarIds i b)"
  unfolding setStartingVarIds_def by (intro growths growing_number)

lemma growing_resolveType [growths]: "growing (resolveType x)"
  unfolding resolveType_def by (auto intro!: growths split: pnode.split option.split)

lemma growing_operators [growths]:
  "growing (fold_literals b x oper l r)" "growing (expand_assign b x t l r)" "growing (push_operator x oper q ops)"
  "growing (literal_value code token)" "growing (new_function p ts)" "growing (addImport k ids)"
  "growing (imported k)" "growing (resolve_import ids)"
  unfolding fold_literals_def expand_assign_def addImport_def imported_def resolve_import_def push_operator_def
    literal_value_def new_function_def
  by (auto simp: Let_def intro!: growths split: list.split option.split pnode.split prod.split TokenType.split)

lemma growing_types [growths]:
  "growing (block_getVarId n b v)" "growing (setVarType n b i ty)" "growing (getVarType n b i)" "growing chain_fuel"
proof -
  show "growing (block_getVarId n b v)"
    by (induction n arbitrary: b) (auto intro!: growths split: option.split)
  show "growing (setVarType n b i ty)"
    by (induction n arbitrary: b) (auto intro!: growths)
  show "growing (getVarType n b i)"
    by (induction n arbitrary: b) (auto intro!: growths split: option.split)
  show "growing chain_fuel" unfolding chain_fuel_def by (intro growths)
qed

lemma growing_resolveTypes [growths]: "growing resolveTypes"
proof -
  have "growing (infer_operation x)" "growing (infer_variable x)" "growing (infer_result x)" for x
    unfolding infer_operation_def infer_variable_def infer_result_def
    by (auto intro!: growths split: pnode.split option.split prod.split)
  then show ?thesis unfolding resolveTypes_def by (intro growths)
qed

lemma growing_lists [growths]:
  "growing (identifier_rest n ids)" "growing (parseIdentifier n)" "growing (list_items n ty acc)" "growing (parseList n ty)"
proof -
  show i: "growing (identifier_rest n ids)" for ids by (induction n arbitrary: ids) (auto intro!: growths)
  show l: "growing (list_items n ty acc)" for acc by (induction n arbitrary: acc) (auto intro!: growths)
  show "growing (parseIdentifier n)" unfolding parseIdentifier_def by (intro growths i)
  show "growing (parseList n ty)" unfolding parseList_def by (intro growths l)
qed

lemma growing_buildTree [growths]: "growing (buildTree n code q)"
proof (induction n arbitrary: q)
  case (Suc n)
  then show ?case
    by (cases q; cases "hd q") (auto simp del: steps.simps intro!: growths split: pnode.split)
qed (auto intro!: growths)

lemma growing_finish [growths]: "growing (finish_expression code q ops)"
  unfolding finish_expression_def by (auto simp del: buildTree.simps intro!: growths)

section \<open>Statements\<close>

lemma growing_statements [growths]:
  assumes "growing e" and "growing b" and "\<And>b. growing (st b)"
  shows "growing (statement_var e code)" "growing (statement_if e st b code blk)" "growing (statement_for e b code)"
    "growing (statement_while e b code)" "growing (statement_return e code)" "growing (statement_try b code)"
    "growing (statement_throw e code)" "growing (statement_expression e code)"
proof -
  have el: "growing (statement_else st b blk)"
    unfolding statement_else_def using assms by (auto intro!: growths)
  show "growing (statement_var e code)" "growing (statement_if e st b code blk)" "growing (statement_for e b code)"
    "growing (statement_while e b code)" "growing (statement_return e code)" "growing (statement_try b code)"
    "growing (statement_throw e code)" "growing (statement_expression e code)"
    unfolding statement_var_def statement_if_def statement_for_def statement_while_def statement_return_def
      statement_try_def statement_throw_def statement_expression_def
    using assms by (auto simp del: steps.simps intro!: growths el)
qed

section \<open>The registry\<close>

lemma advances_findClass:
  assumes "\<And>name b s. advances s (ld name b s)"
  shows "advances s (findClass ld name b s)"
  unfolding findClass_def by (auto intro!: advancesI wps assms [THEN wp_advances(1)])

text \<open>A new class has an address that is not null, as long as there are addresses.\<close>

lemma evolves_define:
  assumes "evolves r r1" and "rt_nextNative r < rt_nextNative r1"
  shows "evolves r (r1\<lparr>rt_class := (rt_class r1)(of_nat (rt_nextNative r) \<mapsto> c)\<rparr>)"
proof -
  have "of_nat (rt_nextNative r) \<noteq> (0 :: ptr)" if "0 < rt_nextNative r" "rt_nextNative r1 \<le> 2 ^ 64"
    using that assms(2) by (simp add: word_of_nat_eq_0_iff nat_dvd_not_less)
  with assms show ?thesis by (auto simp: evolves_def sound_def arena_ok_def)
qed

context sound_calls
begin

lemma advances_addClass:
  assumes "\<And>name b s. advances s (ld name b s)"
  shows "advances s (addClass ld e cp b s)"
  unfolding addClass_def set_class_def
  by (auto intro!: advancesI wps assms [THEN wp_advances(1)] evolves_after)

end

section \<open>The parser's functions\<close>

locale parsing = sound_calls "pe_env pe" for pe :: penv +
  assumes load_law: "advances s (pe_load pe name b s)"
begin

lemma growing_lookup [growths]: "growing (lookup_class pe name)"
  unfolding lookup_class_def by (intro growing_on_vm advances_findClass load_law)

lemma growing_dotted [growths]: "growing (dotted_class n pe name k token)" "growing (class_prefix n pe name)"
proof -
  show d: "growing (dotted_class n pe name k token)" for name k token
    by (induction n arbitrary: name k token) (auto simp: Let_def intro!: growths)
  show "growing (class_prefix n pe name)"
    unfolding class_prefix_def by (auto intro!: growths d)
qed

lemma growing_values [growths]:
  assumes "growing ix" and "growing pl" and "\<And>x. growing (cp x)" and "growing ids"
  shows "growing (value_identifier cp pl ix code token)" "growing (value_new ids pl code)"
  unfolding value_identifier_def value_new_def using assms by (auto intro!: growths)

lemma growing_parser:
  "growing (parseExpression n pe code et)" "growing (expression_loop n pe code et q ops br)"
  "growing (parseExpressionValue n pe code)" "growing (parseExpressionList n pe code)"
  "growing (expression_items n pe code acc)" "growing (parseFunction n pe f)" "growing (parseCodeBlock n pe f)"
  "growing (block_loop n pe code)" "growing (parseStatement n pe code)"
proof (induction n arbitrary: code et q ops br acc f)
  case (Suc n)
  {
    case 1
    then show ?case by (auto intro!: growths Suc.IH)
  next
    case 2
    then show ?case by (auto simp: Let_def intro!: growths Suc.IH)
  next
    case 3
    then show ?case by (auto intro!: growths Suc.IH)
  next
    case 4
    then show ?case by (auto intro!: growths Suc.IH)
  next
    case 5
    then show ?case by (auto intro!: growths Suc.IH)
  next
    case 6
    then show ?case by (auto intro!: growths Suc.IH)
  next
    case 7
    then show ?case by (auto intro!: growths Suc.IH)
  next
    case 8
    then show ?case by (auto intro!: growths Suc.IH)
  next
    case 9
    then show ?case by (auto simp: Let_def intro!: growths Suc.IH split: TokenType.split)
  }
qed (auto intro!: growths)

lemmas growing_functions [growths] = growing_parser

section \<open>Classes and files\<close>

lemma growing_update_class [growths]: "growing (update_class c f)"
  unfolding update_class_def set_class_def
  by (auto simp: advances_def pred_option_iff intro!: growing_on_vm intro: evolves_class split: bind_splits)

lemma growing_delete_class [growths]: "growing (delete_class c)"
  unfolding delete_class_def growing_def modify_def by (auto simp: Let_def intro: evolves_delete_class)

lemma growing_static_value [growths]: "growing (static_value pe token)"
  unfolding static_value_def
  by (auto intro!: growths growing_on_vm advances_createString split: TokenType.split)

lemma growing_members [growths]:
  "growing (member_var pe c)" "growing (member_function n pe c)" "growing (class_members n pe c)"
proof -
  show v: "growing (member_var pe c)"
    unfolding member_var_def by (auto intro!: growths)
  show f: "growing (member_function n pe c)" for n
    unfolding member_function_def by (auto intro!: growths)
  show "growing (class_members n pe c)"
    by (induction n) (auto intro!: growths v f split: TokenType.split)
qed

lemma growing_define:
  assumes "\<And>s x t. m s = Ret x t \<Longrightarrow> t = s" and "\<And>s t. m s \<noteq> Failed t" and "\<And>p. growing (k p)"
  shows "growing (bind_step new_ptr (\<lambda>p. bind_step m (\<lambda>x.
    bind_step (on_vm (\<lambda>v. Some ((), set_class p (f x) v))) (\<lambda>_. k p))))"
  unfolding growing_def
proof
  fix s :: parser
  let ?r = "rt (p_vm s)"
  let ?v = "\<lambda>x. (p_vm s)\<lparr>rt := ?r\<lparr>rt_nextNative := rt_nextNative ?r + 1,
      rt_class := (rt_class ?r)(of_nat (rt_nextNative ?r) \<mapsto> f x)\<rparr>\<rparr>"
  have "evolves ?r (rt (?v x))" for x using evolves_define [OF evolves_next, of ?r "f x"] by simp
  moreover have "growing (k p)" for p by fact
  moreover define s1 where "s1 = s\<lparr>p_vm := (p_vm s)\<lparr>rt := ?r\<lparr>rt_nextNative := rt_nextNative ?r + 1\<rparr>\<rparr>\<rparr>"
  moreover have "new_ptr s = Ret (of_nat (rt_nextNative ?r)) s1" by (simp add: s1_def new_ptr_def on_vm_def)
  moreover have "on_vm (\<lambda>v. Some ((), set_class (of_nat (rt_nextNative ?r)) (f x) v)) s1 = Ret () (s\<lparr>p_vm := ?v x\<rparr>)" for x
    by (simp add: s1_def on_vm_def set_class_def)
  ultimately show "case bind_step new_ptr (\<lambda>p. bind_step m (\<lambda>x. bind_step (on_vm (\<lambda>v. Some ((), set_class p (f x) v))) (\<lambda>_. k p))) s of
      Ret x t \<Rightarrow> evolves ?r (rt (p_vm t)) | Failed t \<Rightarrow> evolves ?r (rt (p_vm t)) | _ \<Rightarrow> True"
    using assms(1) [of s1] assms(2) [of s1]
    by (cases "m s1") (fastforce simp: bind_step_def growing_def intro: evolves_trans split: outcome.splits)+
qed

lemma growing_new_class [growths]: "growing (new_script_class pe c name)"
  unfolding new_script_class_def
  by (rule growing_define)
    (auto simp: ret_def bind_step_def class_of_def split: option.splits if_splits outcome.splits
      intro!: growths growing_on_vm advances_addClass load_law)

lemma growing_parseClass [growths]: "growing (parseClass n pe add)"
  unfolding parseClass_def
  by (auto simp: Let_def intro!: growths growing_on_vm advances_findClass load_law)

lemma growing_parse_tokens: "growing (parse_tokens n pe add)"
proof -
  have "growing (parse_imports n)" by (induction n) (auto intro!: growths)
  moreover have "growing (parse_classes n pe add)" by (induction n) (auto intro!: growths)
  ultimately show ?thesis unfolding parse_tokens_def by (auto intro!: growths)
qed

lemma evolves_finished: "evolves (rt (p_vm s)) (rt (finished_vm s))"
proof -
  have "dom fs \<subseteq> dom (fold (register_function s) ps fs)" for ps fs
  proof (induction ps arbitrary: fs)
    case (Cons p ps)
    have "dom fs \<subseteq> dom (register_function s p fs)"
      by (cases p) (auto simp: register_function_def split: option.split)
    with Cons [of "register_function s p fs"] show ?case by auto
  qed simp
  then show ?thesis by (auto simp: finished_vm_def Let_def evolves_def sound_def arena_ok_def)
qed

lemma advances_parse: "advances s (parse n pe tokens add s)"
proof -
  note g = growing_parse_tokens [of n add, unfolded growing_def, rule_format, of "new_parser tokens s"]
  then show ?thesis
    by (auto simp: parse_def advances_def new_parser_def split: outcome.splits
        intro: evolves_trans [OF _ evolves_finished])
qed

end

end
