(* ===== verification/Boot.thy ===== *)
theory Boot
  imports Loader
begin

text \<open>
  Start and end of the program: the constructors of the native classes (packages/system), the
  constructor and destructor of \<open>Runtime\<close> (src/libb0rk/runtime.cpp), and the command line tool
  (src/b0rk/main.cpp). \<open>getopt_long\<close> and \<open>Geek::Core::splitString\<close> come from libraries: the options
  are a list of what \<open>getopt_long\<close> returns, splitting is a parameter.
\<close>

section \<open>The native classes\<close>

text \<open>
  A constructor of a native class adds to the class and allocates its functions; \<open>this\<close> is the
  class's address. The address of a C++ object is the next unused one.
\<close>

definition new_address :: "Runtime \<Rightarrow> ptr \<times> Runtime" where
  "new_address r = (of_nat (rt_nextNative r), r\<lparr>rt_nextNative := rt_nextNative r + 1\<rparr>)"

type_synonym class_init = "ptr \<Rightarrow> Class \<times> Runtime \<Rightarrow> Class \<times> Runtime"

definition with_field :: "string \<Rightarrow> class_init" where
  "with_field name this = (\<lambda>(c, r). (addField (wstr name) c, r))"

definition with_static :: "string \<Rightarrow> class_init" where
  "with_static name this = (\<lambda>(c, r). (snd (addStaticField (wstr name) c), r))"

text \<open>\<open>NativeFunction::NativeFunction\<close> and \<open>NativeObjectFunction::NativeObjectFunction\<close>.\<close>

definition new_native_function :: "ptr \<Rightarrow> native_method \<Rightarrow> bool \<Rightarrow> Function" where
  "new_native_function cp m isStatic =
     \<lparr>fn_name = wstr ''<anonymous>'', fn_static = isStatic, fn_class = cp, fn_args = [],
      fn_kind = NativeFunction m\<rparr>"

definition new_native_object_function :: "ptr \<Rightarrow> native_object_method \<Rightarrow> Function" where
  "new_native_object_function cp m =
     \<lparr>fn_name = wstr ''<anonymous>'', fn_static = False, fn_class = cp, fn_args = [],
      fn_kind = NativeObjectFunction m\<rparr>"

definition with_function :: "string \<Rightarrow> (ptr \<Rightarrow> Function) \<Rightarrow> class_init" where
  "with_function name f this = (\<lambda>(c, r).
     let (p, r1) = new_address r
     in (addMethod (wstr name) p c,
         r1\<lparr>rt_func := (rt_func r1)(p \<mapsto> setName (wstr name) (f this))\<rparr>))"

definition with_method :: "string \<Rightarrow> native_method \<Rightarrow> bool \<Rightarrow> class_init" where
  "with_method name m isStatic = with_function name (\<lambda>this. new_native_function this m isStatic)"

definition with_object_method :: "string \<Rightarrow> native_object_method \<Rightarrow> class_init" where
  "with_object_method name m = with_function name (\<lambda>this. new_native_object_function this m)"

record native_class =
  nc_name :: string
  nc_body :: "class_init list"

definition RuntimeClass :: native_class where
  "RuntimeClass = \<lparr>nc_name = ''system.lang.Runtime'', nc_body =
     [with_field ''Runtime'', with_method ''exit'' Runtime_exit False]\<rparr>"

definition ObjectClass :: native_class where
  "ObjectClass = \<lparr>nc_name = ''system.lang.Object'', nc_body =
     [with_field ''ObjectClass'', with_method ''toString'' Object_toString False]\<rparr>"

definition ArrayClass :: native_class where
  "ArrayClass = \<lparr>nc_name = ''system.lang.Array'', nc_body =
     [with_field ''length'', with_field ''data'', with_method ''Array'' Array_constructor False]\<rparr>"

definition ArrayData :: native_class where
  "ArrayData = \<lparr>nc_name = ''system.lang.ArrayData'', nc_body = []\<rparr>"

definition StringClass :: native_class where
  "StringClass = \<lparr>nc_name = ''system.lang.String'', nc_body =
     [with_method ''String'' String_constructor False,
      with_object_method ''operator+'' Str_addOperator, with_object_method ''operator=='' Str_eqOperator,
      with_object_method ''length'' Str_length, with_object_method ''at'' Str_at]\<rparr>"

definition FunctionClass :: native_class where
  "FunctionClass = \<lparr>nc_name = ''system.lang.Function'', nc_body =
     [with_field ''function'', with_method ''Function'' Function_constructor False]\<rparr>"

definition MathsClass :: native_class where
  "MathsClass = \<lparr>nc_name = ''system.lang.Maths'', nc_body =
     [with_method ''randomInt'' Maths_randomInt True, with_method ''round'' Maths_round True,
      with_method ''sqrt'' Maths_sqrt True]\<rparr>"

definition TimeClass :: native_class where
  "TimeClass = \<lparr>nc_name = ''system.lang.Time'', nc_body =
     [with_field ''Time'', with_method ''now'' Time_now True]\<rparr>"

definition ExceptionClass :: native_class where
  "ExceptionClass = \<lparr>nc_name = ''system.lang.Exception'', nc_body =
     [with_field ''message'', with_field ''stacktrace'',
      with_method ''printStackTrace'' Exception_printStackTrace False]\<rparr>"

definition FileClass :: native_class where
  "FileClass = \<lparr>nc_name = ''system.io.File'', nc_body =
     [with_method ''<staticinit>'' File_init False, with_method ''write'' File_write False,
      with_method ''writeln'' File_writeln False, with_field ''fileDescriptor'', with_static ''out'']\<rparr>"

definition construct :: "native_class \<Rightarrow> Runtime \<Rightarrow> ptr \<times> Runtime" where
  "construct nc r =
     (let (p, r1) = new_address r;
          (c, r2) = fold (\<lambda>item. item p) (nc_body nc) (new_class None (wstr (nc_name nc)), r1)
      in (p, r2\<lparr>rt_class := (rt_class r2)(p \<mapsto> c)\<rparr>))"

section \<open>The runtime\<close>

definition arena_bytes :: nat where
  "arena_bytes = 16 * 1024 * 1024"

text \<open>
  The members \<open>Runtime::Runtime\<close> sets before it registers classes. The class pointers other than
  \<open>m_objectClass\<close> are not initialised; nothing reads them before they are set. \<open>start\<close> is the
  address \<open>malloc\<close> returned.
\<close>

definition initial_runtime :: "nat \<Rightarrow> (nat \<Rightarrow> u64) \<Rightarrow> Runtime" where
  "initial_runtime start clock =
     \<lparr>rt_classes = [], rt_class = Map.empty, rt_func = Map.empty, rt_native = Map.empty,
      rt_nextNative = 1, objectClass = 0, stringClass = 0, exceptionClass = 0, arrayClass = 0,
      arrayDataClass = 0, rt_stringTable = Map.empty,
      rt_heap = [start \<mapsto> \<lparr>o_class = 0, o_size = arena_bytes, o_gcMark = 0,
        o_values = replicate ((arena_bytes - sizeof_Object) div sizeof_Value) zero_value\<rparr>],
      arena_start = start, arena_size = arena_bytes, freeList = [start],
      newObjects = 0, newBytes = 0, currentObjects = 0, currentBytes = 0, collectedObjects = 0,
      arenaTotal = int arena_bytes, gcEnabled = True, gcLastAlloc = 0, gcTime = 0,
      rt_clock = clock, rt_ticks = 0, rt_output = []\<rparr>"

text \<open>Outside of any function there is no frame; the machine's \<open>cur\<close> is then an empty one.\<close>

definition no_frame :: Frame where
  "no_frame =
     \<lparr>fr_code = \<lparr>ac_function = 0, ac_code = [], ac_localVars = 0\<rparr>, fr_running = False, fr_pc = 0,
      fr_zero = False, fr_sign = False, fr_overflow = False, fr_localVars = [], handlerStack = []\<rparr>"

text \<open>The machine at \<open>Context* initContext = new Context(this)\<close>, a context that is not registered.\<close>

definition initial_vm :: "nat \<Rightarrow> (nat \<Rightarrow> u64) \<Rightarrow> vm" where
  "initial_vm start clock =
     \<lparr>ctx = new_context, cur = no_frame, callers = [], rt = initial_runtime start clock,
      otherContexts = [], registered = False, asm_code = []\<rparr>"

text \<open>\<open>addClass(initContext, m_... = new ...(), true)\<close>; the result of \<open>addClass\<close> is dropped.\<close>

definition install :: "loader \<Rightarrow> env \<Rightarrow> native_class \<Rightarrow> (ptr \<Rightarrow> Runtime \<Rightarrow> Runtime) \<Rightarrow> vm \<Rightarrow> vm option" where
  "install ld e nc keep s =
     (let (p, r) = construct nc (rt s)
      in map_option snd (addClass ld e p True (s\<lparr>rt := keep p r\<rparr>)))"

definition system_classes :: "(native_class \<times> (ptr \<Rightarrow> Runtime \<Rightarrow> Runtime)) list" where
  "system_classes =
     [(RuntimeClass, \<lambda>p r. r), (ObjectClass, \<lambda>p r. r\<lparr>objectClass := p\<rparr>),
      (ArrayClass, \<lambda>p r. r\<lparr>arrayClass := p\<rparr>), (ArrayData, \<lambda>p r. r\<lparr>arrayDataClass := p\<rparr>),
      (StringClass, \<lambda>p r. r\<lparr>stringClass := p\<rparr>), (FunctionClass, \<lambda>p r. r),
      (MathsClass, \<lambda>p r. r), (TimeClass, \<lambda>p r. r), (ExceptionClass, \<lambda>p r. r\<lparr>exceptionClass := p\<rparr>),
      (FileClass, \<lambda>p r. r)]"

fun install_all ::
    "loader \<Rightarrow> env \<Rightarrow> (native_class \<times> (ptr \<Rightarrow> Runtime \<Rightarrow> Runtime)) list \<Rightarrow> vm \<Rightarrow> vm option" where
  "install_all ld e [] s = Some s"
| "install_all ld e ((nc, keep) # ncs) s = do { t \<leftarrow> install ld e nc keep s; install_all ld e ncs t }"

text \<open>
  \<open>Runtime::createContext\<close>: the new context is the running one from then on. The context of the
  constructor was deleted.
\<close>

definition createContext :: "vm \<Rightarrow> vm" where
  "createContext s =
     s\<lparr>ctx := new_context, cur := no_frame, callers := [], otherContexts := m_contexts s,
       registered := True, asm_code := []\<rparr>"

text \<open>\<open>DATA_PATH\<close> is set by the build.\<close>

definition default_classpath :: "wstring \<Rightarrow> wstring list" where
  "default_classpath DATA_PATH = [wstr ''.'', DATA_PATH @ wstr ''/packages'']"

definition addClasspath :: "wstring \<Rightarrow> host \<Rightarrow> host" where
  "addClasspath cp h = h\<lparr>h_classpath := cp # h_classpath h\<rparr>"

definition start_runtime :: "host \<Rightarrow> nat \<Rightarrow> nat \<Rightarrow> (nat \<Rightarrow> u64) \<Rightarrow> vm option" where
  "start_runtime h n start clock =
     (case machine h n of (e, ld) \<Rightarrow> install_all ld e system_classes (initial_vm start clock))"

text \<open>\<open>Runtime::~Runtime\<close>, up to the release of the memory: a last collection.\<close>

definition delete_runtime :: "nat \<Rightarrow> vm \<Rightarrow> vm option" where
  "delete_runtime d s = gc d True s"

section \<open>The command line tool\<close>

datatype cli_option = Opt_classpath "byte list" | Opt_help | Opt_verbose "byte list option" | Opt_other

definition VERBOSE_GC :: u32 where "VERBOSE_GC = 1"

definition VERBOSE_ALL :: u32 where "VERBOSE_ALL = 65535"

definition narrow :: "string \<Rightarrow> byte list" where
  "narrow s = map (\<lambda>c. of_char c) s"

definition verbose_flags :: "byte list list \<Rightarrow> u32" where
  "verbose_flags vs = (if narrow ''gc'' \<in> set vs then VERBOSE_GC else 0)"

text \<open>
  The option loop: \<open>Inl\<close> is a call of \<open>exit\<close> with that status. The flags are \<open>None\<close> as long as
  nobody has set them.
\<close>

fun options :: "(byte \<Rightarrow> byte list \<Rightarrow> byte list list) \<Rightarrow> cli_option list \<Rightarrow> host \<times> u32 option \<Rightarrow>
    int + host \<times> u32 option" where
  "options splitString [] (h, fl) = Inr (h, fl)"
| "options splitString (Opt_classpath arg # os) (h, fl) =
     options splitString os (fold (\<lambda>cp. addClasspath (string2wstring cp)) (splitString 58 arg) h, fl)"
| "options splitString (Opt_help # os) (h, fl) = Inl 0"
| "options splitString (Opt_verbose arg # os) (h, fl) =
     options splitString os
       (h, Some (case arg of None \<Rightarrow> VERBOSE_ALL | Some a \<Rightarrow> verbose_flags (splitString 44 a)))"
| "options splitString (Opt_other # os) (h, fl) = Inl 2"

text \<open>\<open>argv\<close> as an array of strings: \<open>i\<close> is the index of the first argument left.\<close>

fun store_arguments :: "env \<Rightarrow> ptr \<Rightarrow> int \<Rightarrow> byte list list \<Rightarrow> vm \<Rightarrow> vm option" where
  "store_arguments e argsObj i [] s = Some s"
| "store_arguments e argsObj i (a # as) s = do {
     (p, s1) \<leftarrow> newString e (string2wstring a) s;
     (_, s2) \<leftarrow> array_store e argsObj (mk_int (word_of_int i)) (mk_object p) s1;
     store_arguments e argsObj (i + 1) as s2 }"

text \<open>From \<open>createContext\<close> to the end of \<open>main\<close>: the exit status and the final machine.\<close>

definition run_class :: "env \<Rightarrow> loader \<Rightarrow> byte list \<Rightarrow> byte list list \<Rightarrow> vm \<Rightarrow> (int \<times> vm) option" where
  "run_class e ld className args s0 = do {
     let s = createContext s0;
     (clazz, s1) \<leftarrow> findClass ld (string2wstring className) True s;
     if clazz = 0 then Some (0, s1)
     else do {
       mainFunc \<leftarrow> findMethod (rt_class (rt s1)) clazz (wstr ''main'');
       if mainFunc = 0 then Some (3, s1)
       else do {
         f \<leftarrow> rt_func (rt s1) mainFunc;
         if \<not> fn_static f then Some (3, s1)
         else do {
           (argsObj, s2) \<leftarrow> newArray e (int (length args)) s1;
           s3 \<leftarrow> store_arguments e argsObj 0 args s2;
           (res, _, s4) \<leftarrow> execute_argv e mainFunc 0 [mk_object argsObj] s3;
           s5 \<leftarrow> delete_runtime (ev_stack e) s4;
           Some (if \<not> res then 1 else 0, s5) } } } }"

definition main :: "(byte \<Rightarrow> byte list \<Rightarrow> byte list list) \<Rightarrow> host \<Rightarrow> nat \<Rightarrow> nat \<Rightarrow> (nat \<Rightarrow> u64) \<Rightarrow>
    cli_option list \<Rightarrow> byte list list \<Rightarrow> (int \<times> vm) option" where
  "main splitString h n start clock opts args = do {
     s \<leftarrow> start_runtime h n start clock;
     (case options splitString opts (h, None) of
        Inl status \<Rightarrow> Some (status, s)
      | Inr (h', _) \<Rightarrow>
          (case args of
             [] \<Rightarrow> Some (2, s)
           | className # rest \<Rightarrow>
               (case machine h' n of (e, ld) \<Rightarrow> run_class e ld className rest s))) }"

end
