(* ===== verification/Programs.thy ===== *)
theory Programs
  imports Building Reading Boot
begin

text \<open>
  Whole programs: the machine that ties lexer, parser, assembler and interpreter together satisfies
  the interfaces of Running, Building and Reading at every depth, so whatever b0rk code does, from the
  start of the runtime to the end of \<open>main\<close>, the runtime stays sound.
\<close>

section \<open>The machine provides the interfaces\<close>

lemma advances_load_source:
  assumes "parsing pe"
  shows "advances s (load_source pe name add content s)"
  unfolding load_source_def
  by (auto intro!: advancesI wps parsing.advances_parse [OF assms, THEN wp_advances(1)] split: sum.split bool.split)

lemma advances_loadClass:
  assumes "parsing pe"
  shows "advances s (loadClass_with h pe name add s)"
  unfolding loadClass_with_def
  by (auto intro!: advancesI wps advances_load_source [OF assms, THEN wp_advances(1)])

lemma assembling_sound:
  assumes "\<And>name b s. advances s (ld name b s)"
  shows "advances s (ev_assemble (assembling h e ld n) f s)"
    and "sound_names \<lparr>ae_env = e, ae_findClass = (\<lambda>name. findClass ld name True), ae_function = f\<rparr>"
proof -
  show names: "sound_names \<lparr>ae_env = e, ae_findClass = (\<lambda>name. findClass ld name True), ae_function = f\<rparr>" for f
    by unfold_locales (simp add: advances_findClass assms)
  show "advances s (ev_assemble (assembling h e ld n) f s)"
    using advances_assemble [OF names] by (simp add: assembling_def)
qed

lemma machine_sound: "sound_calls (fst (machine h n)) \<and> (\<forall>name b s. advances s (snd (machine h n) name b s))"
proof (induction n)
  case 0
  have none: "advances s None" for s :: vm by (simp add: advances_def)
  show ?case
    using assembling_sound(1) [of "\<lambda>_ _ _. None"] none
    by (auto simp: sound_calls_def assembling_def none)
next
  case (Suc n)
  obtain e ld where m: "machine h n = (e, ld)" by fastforce
  let ?base = "assembling h e ld n"
  let ?e = "?base\<lparr>ev_call := interp ?base n\<rparr>"
  have ld: "advances s (ld name b s)" for s name b using Suc m by simp
  have e: "sound_calls ?e"
    by unfold_locales (simp_all add: assembling_sound(1) [OF ld] advances_interp)
  have "parsing \<lparr>pe_env = ?e, pe_load = ld\<rparr>"
    using e by (simp add: parsing_def parsing_axioms_def ld)
  from e advances_loadClass [OF this] show ?case by (simp add: m Let_def)
qed

lemma machine_loads: "advances s (snd (machine h n) name b s)"
  using machine_sound by blast

interpretation machine_calls: sound_calls "fst (machine h n)" for h n
  using machine_sound by blast

interpretation machine_names: sound_names
  "\<lparr>ae_env = fst (machine h n), ae_findClass = (\<lambda>name. findClass (snd (machine h n)) name True), ae_function = f\<rparr>"
  for h n f
  by (rule assembling_sound(2)) (rule machine_loads)

interpretation machine_parsing: parsing "\<lparr>pe_env = fst (machine h n), pe_load = snd (machine h n)\<rparr>" for h n
  using machine_calls.sound_calls_axioms by (simp add: parsing_def parsing_axioms_def machine_loads)

section \<open>Start and end\<close>

lemma initial_sound:
  assumes "0 < start" and "start + arena_bytes < 2 ^ 64"
  shows "sound (initial_runtime start clock)"
proof -
  let ?r = "initial_runtime start clock"
  have "tiled (rt_heap ?r) start [start] (start + arena_bytes)"
    by (simp add: initial_runtime_def sizeof_Object_def arena_bytes_def)
  moreover have "dom (rt_heap ?r) = set [start]" by (simp add: initial_runtime_def)
  moreover have "distinct (freeList ?r)" "set (freeList ?r) = {a. is_free (rt_heap ?r) a}" "\<forall>ob \<in> ran (rt_heap ?r). fits ob"
    by (auto simp: initial_runtime_def is_free_def fits_def)
  ultimately have "blocks_ok start (start + arena_bytes) (rt_heap ?r) (freeList ?r)"
    unfolding blocks_ok_def by blast
  then show ?thesis using assms by (simp add: sound_def arena_ok_def) (simp add: initial_runtime_def)
qed

definition item_ok :: "class_init \<Rightarrow> bool" where
  "item_ok item \<longleftrightarrow> (\<forall>this c r. evolves r (snd (item this (c, r))))"

lemma items_ok: "item_ok (with_field name)" "item_ok (with_static name)" "item_ok (with_method name m b)"
  "item_ok (with_object_method name k)"
  by (auto simp: item_ok_def with_field_def with_static_def with_method_def with_object_method_def with_function_def
      new_address_def evolves_def sound_def arena_ok_def)

lemma fold_items:
  assumes "\<forall>item \<in> set items. item_ok item"
  shows "evolves r (snd (fold (\<lambda>item. item p) items (c, r)))"
  using assms
proof (induction items arbitrary: c r)
  case (Cons item items)
  obtain c' r' where i: "item p (c, r) = (c', r')" by fastforce
  have "item_ok item" using Cons.prems by simp
  then have "evolves r (snd (item p (c, r)))" by (simp add: item_ok_def)
  then have "evolves r r'" by (simp add: i)
  with Cons i show ?case by (auto intro: evolves_trans)
qed simp

lemma evolves_construct:
  assumes "\<forall>item \<in> set (nc_body nc). item_ok item" and "construct nc r = (p, r')"
  shows "evolves r r'"
proof -
  let ?r1 = "r\<lparr>rt_nextNative := rt_nextNative r + 1\<rparr>"
  obtain c r2 where f: "fold (\<lambda>item. item (of_nat (rt_nextNative r))) (nc_body nc) (new_class None (wstr (nc_name nc)), ?r1) = (c, r2)"
    by fastforce
  have r2: "evolves ?r1 r2" using fold_items [OF assms(1)] f by (metis snd_conv)
  have r': "r' = r2\<lparr>rt_class := (rt_class r2)(of_nat (rt_nextNative r) \<mapsto> c)\<rparr>"
    using assms(2) f by (auto simp: construct_def new_address_def)
  have "rt_nextNative r < rt_nextNative r2" using r2 by (simp add: evolves_def)
  from evolves_define [OF evolves_trans [OF evolves_next r2] this] show ?thesis by (simp add: r')
qed

lemma advances_install:
  assumes "\<forall>item \<in> set (nc_body nc). item_ok item" and "\<And>p r. evolves r (keep p r)"
  shows "advances1 s (install (snd (machine h n)) (fst (machine h n)) nc keep s)"
proof -
  obtain p r where c: "construct nc (rt s) = (p, r)" by fastforce
  have "evolves (rt s) (keep p r)" using evolves_construct [OF assms(1) c] assms(2) evolves_trans by blast
  moreover have "advances t (addClass (snd (machine h n)) (fst (machine h n)) p True t)" for t
    by (rule machine_calls.advances_addClass) (rule machine_loads)
  ultimately show ?thesis
    by (fastforce simp: install_def c advances_def advances1_def pred_option_iff intro: evolves_trans)
qed

lemma advances_install_all:
  assumes "\<forall>(nc, keep) \<in> set ncs. (\<forall>item \<in> set (nc_body nc). item_ok item) \<and> (\<forall>p r. evolves r (keep p r))"
  shows "advances1 s (install_all (snd (machine h n)) (fst (machine h n)) ncs s)"
  using assms
proof (induction ncs arbitrary: s)
  case (Cons nk ncs)
  obtain nc keep where nk: "nk = (nc, keep)" by fastforce
  have "advances1 s (install (snd (machine h n)) (fst (machine h n)) nc keep s)" for s
    using Cons.prems nk by (intro advances_install) auto
  from Cons.prems nk Cons.IH this [THEN wp_advances(2)] Cons.IH [THEN wp_advances(2)] show ?case
    by (auto intro!: advancesI wps)
qed (simp add: advances1_def)

lemma system_classes_ok:
  "\<forall>(nc, keep) \<in> set system_classes. (\<forall>item \<in> set (nc_body nc). item_ok item) \<and> (\<forall>p r. evolves r (keep p r))"
  by (simp add: system_classes_def RuntimeClass_def ObjectClass_def ArrayClass_def ArrayData_def StringClass_def
      FunctionClass_def MathsClass_def TimeClass_def ExceptionClass_def FileClass_def items_ok)
     (simp add: evolves_def sound_def arena_ok_def)

lemma start_runtime_evolves:
  assumes "start_runtime h n start clock = Some s"
  shows "evolves (initial_runtime start clock) (rt s)"
proof -
  have "install_all (snd (machine h n)) (fst (machine h n)) system_classes (initial_vm start clock) = Some s"
    using assms by (simp add: start_runtime_def split: prod.splits)
  from advancesD(2) [OF advances_install_all [OF system_classes_ok] this] show ?thesis by (simp add: initial_vm_def)
qed

lemma advances_store_arguments: "advances1 s (store_arguments (fst (machine h n)) p i as s)"
proof (induction as arbitrary: i s)
  case (Cons a as)
  show ?case
    by (auto intro!: advancesI wps machine_calls.wp_arrays Cons.IH [THEN wp_advances(2)])
qed (simp add: advances1_def)

lemma rt_createContext [simp]: "rt (createContext s) = rt s"
  by (simp add: createContext_def)

lemma advances_run_class: "advances s (run_class (fst (machine h n)) (snd (machine h n)) name as s)"
  unfolding run_class_def delete_runtime_def
  by (auto intro!: advancesI wps machine_calls.wp_arrays advances_findClass [OF machine_loads, THEN wp_advances(1)]
      advances_store_arguments [THEN wp_advances(2)] machine_calls.advances_execute_argv [THEN wp_advances(3)])

lemma main_evolves:
  assumes "main splitString h n start clock opts args = Some (status, s)"
  shows "evolves (initial_runtime start clock) (rt s)"
proof -
  from assms obtain s0 where s0: "start_runtime h n start clock = Some s0"
    by (auto simp: main_def split: bind_splits)
  have "evolves (rt s0) (rt s)"
  proof (cases "options splitString opts (h, None)")
    case (Inl a)
    with assms s0 show ?thesis by (simp add: main_def)
  next
    case (Inr hf)
    obtain h' fl where "hf = (h', fl)" by fastforce
    with Inr assms s0 show ?thesis
      by (cases args; cases "machine h' n")
         (use advancesD(1) [OF advances_run_class [where h = h' and n = n]] in \<open>auto simp: main_def\<close>)
  qed
  with start_runtime_evolves [OF s0] show ?thesis by (rule evolves_trans)
qed

end
