(* ===== verification/Starting.thy ===== *)
theory Starting
  imports Programs
begin

text \<open>
  The start of the runtime, evaluated: with no class files on the class path the constructor of
  \<open>Runtime\<close> installs its ten classes. Then the properties of whole programs, which rest on Programs.
\<close>

section \<open>Without class files\<close>

lemma no_files_loads:
  assumes "\<And>path. h_files h path = None"
  shows "snd (machine h (Suc n)) name b s = Some (0, s)"
proof -
  have "open_first (h_files h) path dirs = None" for path dirs
    by (induction dirs) (simp_all add: assms)
  then show ?thesis by (simp add: loadClass_with_def Let_def split: prod.split)
qed

lemma findMethod_cases:
  "cs p = Some c \<Longrightarrow> cl_methods c name = Some f \<Longrightarrow> findMethod cs p name = Some f"
  "cs p = Some c \<Longrightarrow> cl_methods c name = None \<Longrightarrow> cl_super c = 0 \<Longrightarrow> findMethod cs p name = Some 0"
  "cs p = Some c \<Longrightarrow> cl_methods c name = None \<Longrightarrow> cl_super c \<noteq> 0 \<Longrightarrow>
     findMethod cs p name = findMethod cs (cl_super c) name"
  by (subst findMethod.simps; simp)+

lemma field_cases:
  "cs p = Some c \<Longrightarrow> cl_fields c name = Some i \<Longrightarrow> getFieldId cs p name = Some i"
  "cs p = Some c \<Longrightarrow> cl_staticFields c name = Some i \<Longrightarrow> getStaticFieldId cs p name = Some i"
  by (subst getFieldId.simps getStaticFieldId.simps; simp)+

lemmas native_bodies = RuntimeClass_def ObjectClass_def ArrayClass_def ArrayData_def StringClass_def
  FunctionClass_def MathsClass_def TimeClass_def ExceptionClass_def FileClass_def

lemmas construct_simps = construct_def new_address_def with_field_def with_static_def with_method_def
  with_object_method_def with_function_def new_native_function_def new_native_object_function_def
  addField_def addMethod_def addStaticField_def setName_def new_class_def map_insert_def

lemmas install_simps = install_def addClass_def findClass_loaded_def set_class_def setSuperClass_def

lemmas file_init_simps = function_execute_def native_execute_def push_result_def with_result_def file_init_def
  allocateObject_def carve_def sizeof_Object_def sizeof_Value_def vm_setValue_def vm_rt_def setValue_def deref_def
  obj_setValue_def setStaticField_def upd_def push_def ctx_push_def new_context_def B0RK_STACK_MARGIN_def

text \<open>The class \<open>nc\<close> is registered under its name, and derived from \<open>super\<close>.\<close>

definition installed :: "Runtime \<Rightarrow> native_class \<Rightarrow> ptr \<Rightarrow> bool" where
  "installed r nc super \<longleftrightarrow> (let p = findClass_loaded (wstr (nc_name nc)) r in p \<noteq> 0
     \<and> (case rt_class r p of None \<Rightarrow> False
        | Some c \<Rightarrow> cl_name c = wstr (nc_name nc) \<and> cl_super c = super))"

text \<open>The static field \<open>out\<close> of \<open>File\<close> holds an object with the descriptor of the standard output.\<close>

definition prints_to_stdout :: "Runtime \<Rightarrow> bool" where
  "prints_to_stdout r \<longleftrightarrow> (\<exists>c v. rt_class r (findClass_loaded (wstr ''system.io.File'') r) = Some c
     \<and> getStaticField 0 c = Some v \<and> v_type v = VALUE_OBJECT
     \<and> objClass r (v_object v) = Some (findClass_loaded (wstr ''system.io.File'') r)
     \<and> getDescriptor (findClass_loaded (wstr ''system.io.File'') r) (v_object v) r = Some stdout_ptr)"

lemma installed_all:
  assumes "\<And>name b s. ld name b s = Some (0, s)" and "unat (of_nat start :: ptr) = start" and "0 < start"
  shows "\<exists>s. install_all ld (e\<lparr>ev_call := interp e (Suc n)\<rparr>) system_classes (initial_vm start clock) = Some s
    \<and> rt_output (rt s) = [] \<and> rt_nextNative (rt s) = 28 \<and> prints_to_stdout (rt s)
    \<and> (\<forall>(nc, keep) \<in> set system_classes.
         installed (rt s) nc (if nc_name nc \<in> {''system.lang.Runtime'', ''system.lang.Object''} then 0 else objectClass (rt s)))"
proof -
  have room: "arena_bytes \<ge> 56" "arena_bytes - 56 > 24" "\<not> int arena_bytes div 4 * 3 \<le> 0" by (simp_all add: arena_bytes_def)
  have size: "object_size 2 0 = 56" by (simp add: object_size_def sizeof_Object_def sizeof_Value_def)
  have null: "of_nat start \<noteq> (0 :: ptr)" using assms(2,3) by (metis less_irrefl unat_0)
  show ?thesis
    using room size null assms
    by (simp add: system_classes_def native_bodies construct_simps install_simps initial_vm_def initial_runtime_def
        findMethod_cases wstr_def,
      simp add: file_init_simps findClass_loaded_def field_cases wstr_def,
      simp add: prints_to_stdout_def installed_def findClass_loaded_def wstr_def getStaticField_def idx_def objClass_def
        deref_def getDescriptor_def field_cases getValue_def obj_getValue_def)
qed

lemma started:
  assumes "\<And>path. h_files h path = None" and "0 < start" and "start + arena_bytes < 2 ^ 64"
  shows "\<exists>s. start_runtime h (Suc (Suc n)) start clock = Some s \<and> sound (rt s)
    \<and> rt_output (rt s) = [] \<and> rt_nextNative (rt s) = 28 \<and> prints_to_stdout (rt s)
    \<and> (\<forall>(nc, keep) \<in> set system_classes.
         installed (rt s) nc (if nc_name nc \<in> {''system.lang.Runtime'', ''system.lang.Object''} then 0 else objectClass (rt s)))"
proof -
  let ?m = "machine h (Suc (Suc n))"
  obtain b ld where m: "machine h (Suc n) = (b, ld)" by fastforce
  let ?base = "assembling h b ld (Suc n)"
  have e: "fst ?m = ?base\<lparr>ev_call := interp ?base (Suc n)\<rparr>" 
    by (simp add: machine.simps(2) [of h "Suc n"] m Let_def del: machine.simps)
  have start: "unat (of_nat start :: ptr) = start" using assms(3) by (simp add: unat_of_nat)
  from installed_all [of "snd ?m" start ?base n clock, OF no_files_loads [OF assms(1)] start assms(2)] obtain s where
    s: "install_all (snd ?m) (fst ?m) system_classes (initial_vm start clock) = Some s"
    "rt_output (rt s) = []" "rt_nextNative (rt s) = 28" "prints_to_stdout (rt s)"
    "\<forall>(nc, keep) \<in> set system_classes.
         installed (rt s) nc (if nc_name nc \<in> {''system.lang.Runtime'', ''system.lang.Object''} then 0 else objectClass (rt s))"
    unfolding e by blast
  from s(1) have st: "start_runtime h (Suc (Suc n)) start clock = Some s"
    by (simp add: start_runtime_def case_prod_beta del: machine.simps)
  have "sound (rt s)"
    using start_runtime_evolves [OF st] initial_sound [OF assms(2,3)] s(3) by (simp add: evolves_def)
  with st s(2-) show ?thesis by blast
qed

section \<open>Properties\<close>

text \<open>C10: the runtime comes up without any class file. Whatever address the arena gets, the constructor of
  \<open>Runtime\<close> returns; its ten classes are registered under their names, all but \<open>Runtime\<close> and \<open>Object\<close>
  derived from \<open>Object\<close>; \<open>File.out\<close> writes to the standard output; nothing has been printed, and the
  runtime is sound.\<close>

theorem runtime_starts:
  assumes "\<And>path. h_files h path = None" and "0 < start" and "start + arena_bytes < 2 ^ 64"
  shows "\<exists>s. start_runtime h (Suc (Suc n)) start clock = Some s \<and> sound (rt s)
    \<and> rt_output (rt s) = [] \<and> prints_to_stdout (rt s)
    \<and> (\<forall>(nc, keep) \<in> set system_classes.
         installed (rt s) nc (if nc_name nc \<in> {''system.lang.Runtime'', ''system.lang.Object''} then 0 else objectClass (rt s)))"
  using started [OF assms] by blast

text \<open>C8: no b0rk code can break the runtime. Every call that returns - of any function, with any number of
  nested calls, constructors, exceptions, collections and classes loaded on the way - leaves a sound
  runtime sound: the arena is tiled by its blocks, the free list holds the free ones, string constants
  are still allocated and pinned. The registry, the functions, the constants and the output only grow.\<close>

theorem calls_keep_sound:
  assumes "ev_call (fst (machine h n)) f inst argCount s = Some (res, t)"
  shows "evolves (rt s) (rt t)"
  using advancesD(1) [OF machine_calls.call_law assms] .

text \<open>C9: from the first line of \<open>main\<close> to its last. However the program is started and whatever class it
  runs, if \<open>main\<close> ends then the runtime it leaves behind is sound, as long as there were addresses for
  the C++ objects it made.\<close>

theorem main_keeps_sound:
  assumes "main splitString h n start clock opts args = Some (status, s)"
    and "0 < start" and "start + arena_bytes < 2 ^ 64" and "rt_nextNative (rt s) \<le> 2 ^ 64"
  shows "sound (rt s)"
  using main_evolves [OF assms(1)] initial_sound [OF assms(2,3)] assms(4) by (simp add: evolves_def)

section \<open>Concrete programs\<close>

definition empty_host :: host where
  "empty_host = \<lparr>h_files = (\<lambda>_. None), h_classpath = default_classpath (wstr ''/usr/share/b0rk''),
     h_random = (\<lambda>_ _ _. 0), h_steps = 0\<rparr>"

lemma empty_host_files: "h_files empty_host path = None"
  by (simp add: empty_host_def)

lemma runtime_starts_witness:
  "\<exists>s. start_runtime empty_host (Suc (Suc 0)) 4096 (\<lambda>n. of_nat n) = Some s \<and> prints_to_stdout (rt s)"
proof -
  have "(0 :: nat) < 4096" "4096 + arena_bytes < 2 ^ 64" by (simp_all add: arena_bytes_def)
  from runtime_starts [OF empty_host_files this, of 0 "\<lambda>n. of_nat n"] show ?thesis by blast
qed

definition calling_vm :: vm where
  "calling_vm = (sample_vm [] [] [])\<lparr>rt := sample_rt\<lparr>rt_func := [8 \<mapsto> new_native_function 16 Object_toString False]\<rparr>\<rparr>"

lemma calls_keep_sound_witness:
  "\<exists>t. ev_call (fst (machine empty_host (Suc (Suc 0)))) 8 0 0 calling_vm = Some (True, t) \<and> evolves (rt calling_vm) (rt t)"
proof -
  have "\<exists>t. ev_call (fst (machine empty_host (Suc (Suc 0)))) 8 0 0 calling_vm = Some (True, t)"
    by (simp add: Let_def function_execute_def native_execute_def push_result_def push_def ctx_push_def upd_def
        calling_vm_def sample_vm_def sample_ctx_def new_native_function_def split: prod.split)
  then obtain t where t: "ev_call (fst (machine empty_host (Suc (Suc 0)))) 8 0 0 calling_vm = Some (True, t)" ..
  from calls_keep_sound [OF t] t show ?thesis by blast
qed

lemma main_keeps_sound_witness:
  "\<exists>s. main (\<lambda>_ x. [x]) empty_host (Suc (Suc 0)) 4096 (\<lambda>n. of_nat n) [Opt_help] [] = Some (0, s) \<and> sound (rt s)"
proof -
  have room: "(0 :: nat) < 4096" "4096 + arena_bytes < 2 ^ 64" by (simp_all add: arena_bytes_def)
  from started [OF empty_host_files room, of 0 "\<lambda>n. of_nat n"] obtain s where
    s: "start_runtime empty_host (Suc (Suc 0)) 4096 (\<lambda>n. of_nat n) = Some s" "rt_nextNative (rt s) = 28" by blast
  then have m: "main (\<lambda>_ x. [x]) empty_host (Suc (Suc 0)) 4096 (\<lambda>n. of_nat n) [Opt_help] [] = Some (0, s)"
    by (simp add: main_def)
  have "rt_nextNative (rt s) \<le> 2 ^ 64" using s(2) by simp
  from main_keeps_sound [OF m room this] m show ?thesis by blast
qed

end
