(* ===== verification/Spec2Isabelle.thy ===== *)
theory Spec2Isabelle
  imports Calling OptimiserFacts NativeFacts ParserFacts FunctionText Listing Starting
begin

text \<open>
  b0rk, modelled from its C++ sources.

  b0rk is a small class-based scripting language. A source file is turned into tokens
  (\<open>lexer.cpp\<close>), the tokens into expressions and code blocks (\<open>parser.cpp\<close>); the first call of a
  function assembles its block into an array of 64-bit words (\<open>assembler.cpp\<close>), with an optimiser over
  the instruction list in between, and the interpreter runs the array on an operand stack
  (\<open>executor.cpp\<close>). The runtime (\<open>runtime.cpp\<close>) keeps the classes, loads files on demand, allocates
  objects in an arena and collects them. Native classes live under \<open>packages/system\<close>. All paths here
  are below \<open>src/src/libb0rk\<close> and \<open>src/include/b0rk\<close>.

  Conventions. An operation of the C++ code that may read outside an array, follow a null or
  dangling pointer, or fail to return has an option type, and \<open>None\<close> is "no defined result"; a
  \<open>false\<close> or null result of the code is an ordinary value. Machine words keep their width. A C++
  exception is a left value of a sum.

  The theories, in the order of the pipeline:

  \<^item> Prelude: machine types, checked array access, shared lemmas. Doubles: IEEE 754 double arithmetic
    on bit patterns. Values: \<open>value.h\<close>, \<open>value.cpp\<close>. Tokens: \<open>token.h\<close>. Opcodes: \<open>opcodes.h\<close>,
    \<open>opcodes.cpp\<close>. Exprs: the trees of \<open>expression.h\<close> and \<open>codeblock.h\<close> and the numbering of locals.
  \<^item> Utf8: the checked part of \<open>utf8.h\<close>; decoding and encoding are inverse. Lexer: \<open>lexer.cpp\<close>.
  \<^item> Nodes, Parser, ClassParser: \<open>parser.cpp\<close>. The parser links objects that are also in its list
    \<open>m_expressions\<close> and later infers types along that list, so expressions and blocks are nodes of a
    store; \<open>expr_tree\<close> and \<open>block_tree\<close> read the trees off.
  \<^item> State: the records of the interpreter (\<open>context.h\<close>, \<open>class.h\<close>, \<open>function.h\<close>, \<open>object.h\<close>,
    \<open>runtime.h\<close>). OperandStack: the stack operations, with the interface \<open>operand_stack\<close>. Classes:
    \<open>class.cpp\<close>, with the interface \<open>slot_table\<close>. Heap: allocation and collection of \<open>runtime.cpp\<close>.
    Printing: \<open>Value::toString\<close>. Services: objects, strings, exceptions and the native classes.
    Registry, Loader: \<open>addClass\<close>, \<open>findClass\<close>, \<open>loadClass\<close>, and the knot that ties lexer, parser,
    assembler and interpreter together.
  \<^item> Optimiser, Assembler, Linker: \<open>assembler.cpp\<close> and the walk of \<open>disassembler.cpp\<close>.
  \<^item> Executor: \<open>executor.cpp\<close>, one definition per opcode, the dispatch table, the loop and the calls.
  \<^item> Boot: the constructors of the native classes (\<open>packages/system\<close>), the constructor and destructor of
    \<open>Runtime\<close>, and the command line tool (\<open>src/b0rk/main.cpp\<close>).

  What the lemmas show:

  \<^item> Stepping (interface \<open>instruction_machine\<close>), Meaning, Compiler, Calling: Meaning gives programs of
    the integer fragment (variables, operators, conditionals, loops, \<open>return\<close>, calls of functions and
    methods of the program, which may be recursive) a meaning by rules, and lists the code of each
    construct; Compiler shows that the assembler emits that code and that it does what the source
    means; Calling draws the conclusions for blocks, for calls of assembled functions and for the first
    call of a function, which assembles it, with the factorial as the example.
  \<^item> OptimiserFacts: folding, removal of instructions and termination of the optimiser, and three
    programs it changes the meaning of. Linker: layout of the code array and branch targets.
    Listing: expressions and assembled code as text, and what the listing says.
  \<^item> Collector: marking reaches everything reachable, and returns on acyclic heaps only. Arithmetic,
    Control: opcode handlers against each other and against integer arithmetic, comparisons,
    argument passing, returns and exceptions. NativeFacts: output, arrays, constructors.

  \<^item> Arena (interface \<open>object_store\<close>): the blocks tile the arena, allocation gives fresh memory, and a
    collection keeps exactly the objects that are reachable or pinned.
  \<^item> Invariant, Running (interface \<open>sound_calls\<close>), Building (\<open>sound_names\<close>), Reading (\<open>parsing\<close>),
    Programs, Starting: interpreter, assembler, parser and loader call each other, so each is shown to
    keep the runtime sound relative to an interface for the others; Programs ties the knot by induction
    on the depth of the C stack. From the first line of \<open>main\<close> to its last the blocks tile the arena,
    string constants stay pinned, and the registry and the code only grow.
  \<^item> LexerFacts: the lexer reads nothing outside the file buffer, and reads back printed tokens.
    ParserFacts: the parser returns on every sequence of tokens. ExpressionFacts: the tree it builds for
    a bracketed expression with calls is the one that was spelt; the nodes of an expression are a part
    of the store, disjoint from the others, so each step is shown to keep what the rest holds.
    Statements, StatementFacts: the same for declarations, assignments, calls, \<open>return\<close>, \<open>throw\<close>, \<open>if\<close>,
    \<open>while\<close>, \<open>for\<close> and \<open>try\<close>; the blocks of a statement fill an interval of the block store.
    FunctionFacts: \<open>setStartingVarId\<close> on the store is the one on trees, so \<open>parseFunction\<close> makes the
    function that was spelt. SourceText, FunctionText: lexer and parser together, from the text of an
    expression to its tree and from the text of a function to its code block.

  Bounds and fuel. \<open>run_loop\<close> takes the number of iterations (\<open>ev_steps\<close>); the results about
  assembled code say that some number suffices, as for the depth of the C stack; a call nested \<open>d\<close> deep,
  of functions whose expressions need \<open>D\<close> operands, has room with \<open>d * (D + 1)\<close> free slots, and the first
  call asks that the optimiser leaves the code of the function alone. \<open>interp\<close>, \<open>gcMarkObject\<close>, \<open>machine\<close> and \<open>buildTree\<close>
  take the depth of the C stack that is left. The parser takes \<open>parse_fuel\<close>, a multiple of the number
  of tokens. The loops of the lexer and of the optimiser terminate by measures proved with them.

  Parameters. The files are a partial map, the clock a sequence of readings, the random number
  generator a function: they come from outside the program. The C library is the one of x86-64 Linux in
  the "C" locale, since the program never calls \<open>setlocale\<close>.

  Not modelled: the UTF-16, UTF-32, iterator and unchecked parts of \<open>utf8.h\<close>, which nothing calls; all
  logging; the text of the usage message. \<open>getopt_long\<close> and \<open>Geek::Core::splitString\<close> are library
  code: the options are what the first returns, the second is a parameter. The destructor of \<open>Runtime\<close> is modelled up to the release of memory.
\<close>

end
